(* ===== verification/Astreum_Prelude.thy ===== *)
theory Astreum_Prelude
  imports Main "HOL-Library.Word"
begin

text \<open>
  What every component of the model shares: Python's byte strings, text strings and integers,
  the errors its code raises, and the lemmas about them.

  \<^item> \<open>bytes\<close> is a list of 8-bit words, \<open>pystr\<close> a list of Unicode code points
    (\<open>u ''abc''\<close> writes a literal), Python's unbounded \<open>int\<close> is HOL's \<open>int\<close>
    (\<open>//\<close> and \<open>%\<close> are \<open>div\<close> and \<open>mod\<close>: both round towards minus infinity);
  \<^item> \<open>int.to_bytes\<close> and \<open>int.from_bytes\<close> in both byte orders, signed and unsigned, with the
    \<open>OverflowError\<close> of a value that does not fit as \<open>None\<close>;
  \<^item> \<open>str.encode("utf-8")\<close> and the strict \<open>bytes.decode("utf-8")\<close>, whose
    \<open>UnicodeDecodeError\<close> is \<open>None\<close>.
\<close>

named_theorems codec_simps \<open>round trips and lengths of the byte codecs\<close>

type_synonym byte = "8 word"
type_synonym bytes = "byte list"
type_synonym pystr = "nat list"

definition u :: "string \<Rightarrow> pystr" where
  "u s = map of_char s"

lemma u_inject [simp]: "u s = u t \<longleftrightarrow> s = t"
  by (simp add: u_def inj_map_eq_map inj_def)

lemma u_Nil [simp]: "u s = [] \<longleftrightarrow> s = []" "[] = u s \<longleftrightarrow> s = []"
  by (auto simp: u_def)

definition ZERO32 :: bytes where
  "ZERO32 = replicate 32 0"

lemma length_ZERO32 [simp]: "length ZERO32 = 32"
  by (simp add: ZERO32_def)

section \<open>Results of code that can raise\<close>

text \<open>
  A computation that can raise is a sum: \<open>Inl\<close> the exception, \<open>Inr\<close> the value. \<open>OutOfFuel\<close> is
  no exception of Python: it marks a model whose fuel ran out.
\<close>

datatype exc =
    ValueError string
  | IndexError
  | KeyError
  | TypeError
  | AttributeError
  | ZeroDivisionError
  | OverflowError
  | UnicodeError
  | AssertionError
  | StructError
  | UnboundLocalError
  | RuntimeError
  | UnresolvedRecordExpr
  | OutOfFuel

definition bind_exc :: "'e + 'a \<Rightarrow> ('a \<Rightarrow> 'e + 'b) \<Rightarrow> 'e + 'b" where
  "bind_exc r f = (case r of Inl e \<Rightarrow> Inl e | Inr x \<Rightarrow> f x)"

lemma bind_exc_simps [simp]:
  "bind_exc (Inl e) f = Inl e" "bind_exc (Inr x) f = f x"
  by (simp_all add: bind_exc_def)

lemma bind_exc_eq_Inr:
  "bind_exc r f = Inr y \<longleftrightarrow> (\<exists>x. r = Inr x \<and> f x = Inr y)"
  by (cases r) simp_all

section \<open>Integers as bytes\<close>

text \<open>The \<open>n\<close> low bytes of an integer in two's complement, the lowest first.\<close>

fun le_bytes :: "nat \<Rightarrow> int \<Rightarrow> bytes" where
  "le_bytes 0 v = []"
| "le_bytes (Suc n) v = word_of_int v # le_bytes n (v div 256)"

fun le_uint :: "bytes \<Rightarrow> int" where
  "le_uint [] = 0"
| "le_uint (b # bs) = uint b + 256 * le_uint bs"

lemma le_bytes_eval [simp]:
  "le_bytes (numeral k) v = word_of_int v # le_bytes (pred_numeral k) (v div 256)"
  "le_bytes 1 v = [word_of_int v]"
  by (simp_all add: numeral_eq_Suc)

definition le_sint :: "bytes \<Rightarrow> int" where
  "le_sint bs =
     (let v = le_uint bs in
      if bs \<noteq> [] \<and> 2 ^ (8 * length bs - 1) \<le> v then v - 2 ^ (8 * length bs) else v)"

definition be_bytes :: "nat \<Rightarrow> int \<Rightarrow> bytes" where
  "be_bytes n v = rev (le_bytes n v)"

definition be_uint :: "bytes \<Rightarrow> int" where
  "be_uint bs = le_uint (rev bs)"

definition to_bytes_unsigned_le :: "int \<Rightarrow> nat \<Rightarrow> bytes option" where
  "to_bytes_unsigned_le v n =
     (if 0 \<le> v \<and> v < 2 ^ (8 * n) then Some (le_bytes n v) else None)"

definition to_bytes_signed_le :: "int \<Rightarrow> nat \<Rightarrow> bytes option" where
  "to_bytes_signed_le v n =
     (if (n = 0 \<and> v = 0) \<or> (0 < n \<and> - (2 ^ (8 * n - 1)) \<le> v \<and> v < 2 ^ (8 * n - 1))
      then Some (le_bytes n v) else None)"

definition to_bytes_unsigned_be :: "int \<Rightarrow> nat \<Rightarrow> bytes option" where
  "to_bytes_unsigned_be v n = map_option rev (to_bytes_unsigned_le v n)"

lemma length_le_bytes [simp, codec_simps]: "length (le_bytes n v) = n"
  by (induction n arbitrary: v) auto

lemma length_be_bytes [simp, codec_simps]: "length (be_bytes n v) = n"
  by (simp add: be_bytes_def)

lemma uint_byte_bound: "0 \<le> uint (b :: byte)" "uint (b :: byte) < 256"
  using uint_lt2p [of b] by simp_all

lemma uint_word_of_int_byte: "uint (word_of_int v :: byte) = v mod 256"
  by (simp add: uint_word_of_int)

lemma le_uint_bounds: "0 \<le> le_uint bs \<and> le_uint bs < 2 ^ (8 * length bs)"
proof (induction bs)
  case Nil
  then show ?case by simp
next
  case (Cons b bs)
  have "uint b + 256 * le_uint bs < 256 * 2 ^ (8 * length bs)"
    using uint_byte_bound [of b] Cons by linarith
  moreover have "(2::int) ^ (8 * length (b # bs)) = 256 * 2 ^ (8 * length bs)"
    by (simp add: power_add)
  ultimately show ?case
    using uint_byte_bound [of b] Cons by simp
qed

lemma le_uint_nonneg [simp]: "0 \<le> le_uint bs"
  using le_uint_bounds by blast

lemma le_uint_le_bytes: "le_uint (le_bytes n v) = v mod 2 ^ (8 * n)"
proof (induction n arbitrary: v)
  case 0
  then show ?case by simp
next
  case (Suc n)
  have "(2::int) ^ (8 * Suc n) = 256 * 2 ^ (8 * n)"
    by (simp add: power_add)
  moreover have "v mod (256 * 2 ^ (8 * n)) = 256 * (v div 256 mod 2 ^ (8 * n)) + v mod 256"
    by (rule zmod_zmult2_eq) simp
  ultimately show ?case
    by (simp add: Suc uint_word_of_int_byte del: power_Suc)
qed

lemma le_uint_le_bytes_id [codec_simps]:
  "0 \<le> v \<Longrightarrow> v < 2 ^ (8 * n) \<Longrightarrow> le_uint (le_bytes n v) = v"
  by (simp add: le_uint_le_bytes)

lemma be_uint_be_bytes [codec_simps]:
  "0 \<le> v \<Longrightarrow> v < 2 ^ (8 * n) \<Longrightarrow> be_uint (be_bytes n v) = v"
  by (simp add: be_uint_def be_bytes_def le_uint_le_bytes)

lemma le_bytes_le_uint: "le_bytes (length bs) (le_uint bs) = bs"
proof (induction bs)
  case Nil
  then show ?case by simp
next
  case (Cons b bs)
  have "(uint b + 256 * le_uint bs) div 256 = le_uint bs"
    using uint_byte_bound [of b] by simp
  moreover have "(word_of_int (uint b + 256 * le_uint bs) :: byte) = b"
  proof -
    have "uint (word_of_int (uint b + 256 * le_uint bs) :: byte) = uint b"
      unfolding uint_word_of_int_byte using uint_byte_bound [of b] by simp
    then show ?thesis by (simp only: word_uint_eq_iff)
  qed
  ultimately show ?case by (simp add: Cons)
qed

lemma le_sint_le_bytes:
  assumes "0 < n" "- (2 ^ (8 * n - 1)) \<le> v" "v < 2 ^ (8 * n - 1)"
  shows "le_sint (le_bytes n v) = v"
proof -
  have p: "(2::int) ^ (8 * n) = 2 * 2 ^ (8 * n - 1)"
    using assms(1) by (metis One_nat_def mult_is_0 nat_less_le not_gr_zero numeral_eq_Suc
        power_Suc Suc_pred zero_less_Suc mult_pos_pos)
  have ne: "le_bytes n v \<noteq> []"
    using assms(1) by (metis length_le_bytes list.size(3) less_irrefl)
  show ?thesis
  proof (cases "0 \<le> v")
    case True
    then have "v mod 2 ^ (8 * n) = v" using assms p by simp
    then show ?thesis using assms True by (simp add: le_sint_def le_uint_le_bytes ne)
  next
    case False
    have "v mod 2 ^ (8 * n) = (v + 2 ^ (8 * n)) mod 2 ^ (8 * n)" by simp
    also have "\<dots> = v + 2 ^ (8 * n)" using assms p False by (intro mod_pos_pos_trivial) linarith+
    finally show ?thesis using assms p False by (simp add: le_sint_def le_uint_le_bytes ne)
  qed
qed

text \<open>\<open>int.bit_length\<close>: the number of bits of the absolute value.\<close>

fun nat_bit_length :: "nat \<Rightarrow> nat" where
  "nat_bit_length n = (if n = 0 then 0 else Suc (nat_bit_length (n div 2)))"

declare nat_bit_length.simps [simp del]

lemma nat_bit_length_eval [simp]:
  "nat_bit_length 0 = 0" "nat_bit_length (Suc 0) = 1" "nat_bit_length 1 = 1"
  "nat_bit_length (numeral k) = Suc (nat_bit_length (numeral k div 2))"
  by (simp_all add: nat_bit_length.simps)

definition bit_length :: "int \<Rightarrow> nat" where
  "bit_length v = nat_bit_length (nat \<bar>v\<bar>)"

lemma nat_bit_length_upper: "n < 2 ^ nat_bit_length n"
proof (induction n rule: nat_bit_length.induct)
  case (1 n)
  show ?case
  proof (cases "n = 0")
    case False
    then have "n div 2 < 2 ^ nat_bit_length (n div 2)" by (rule "1.IH")
    then have "n < 2 * 2 ^ nat_bit_length (n div 2)" by linarith
    with False show ?thesis by (simp add: nat_bit_length.simps [of n])
  qed simp
qed

lemma nat_bit_length_lower: "n \<noteq> 0 \<Longrightarrow> 2 ^ (nat_bit_length n - 1) \<le> n"
proof (induction n rule: nat_bit_length.induct)
  case (1 n)
  show ?case
  proof (cases "n div 2 = 0")
    case True
    then show ?thesis using 1(2) by (simp add: nat_bit_length.simps)
  next
    case False
    with 1 have "2 ^ (nat_bit_length (n div 2) - 1) \<le> n div 2" by simp
    then have "2 * 2 ^ (nat_bit_length (n div 2) - 1) \<le> n" by linarith
    moreover have "nat_bit_length (n div 2) \<noteq> 0" using False by (simp add: nat_bit_length.simps)
    ultimately have "2 ^ nat_bit_length (n div 2) \<le> n"
      by (metis One_nat_def Suc_pred neq0_conv power_Suc)
    then show ?thesis using 1(2) by (simp add: nat_bit_length.simps [of n])
  qed
qed

lemma bit_length_bound: "\<bar>v\<bar> < 2 ^ bit_length v"
proof -
  have "int (nat \<bar>v\<bar>) < int (2 ^ bit_length v)"
    unfolding bit_length_def using nat_bit_length_upper by (simp only: of_nat_less_iff)
  then show ?thesis by simp
qed

section \<open>Text as UTF-8\<close>

definition valid_char :: "nat \<Rightarrow> bool" where
  "valid_char c \<longleftrightarrow> c < 0x110000 \<and> \<not> (0xD800 \<le> c \<and> c \<le> 0xDFFF)"

abbreviation valid_str :: "pystr \<Rightarrow> bool" where
  "valid_str s \<equiv> list_all valid_char s"

definition utf8_char :: "nat \<Rightarrow> bytes" where
  "utf8_char c =
     (if c < 0x80 then [of_nat c]
      else if c < 0x800 then [of_nat (0xC0 + c div 64), of_nat (0x80 + c mod 64)]
      else if c < 0x10000 then
        [of_nat (0xE0 + c div 4096), of_nat (0x80 + c div 64 mod 64), of_nat (0x80 + c mod 64)]
      else
        [of_nat (0xF0 + c div 262144), of_nat (0x80 + c div 4096 mod 64),
         of_nat (0x80 + c div 64 mod 64), of_nat (0x80 + c mod 64)])"

definition utf8_encode :: "pystr \<Rightarrow> bytes" where
  "utf8_encode s = concat (map utf8_char s)"

text \<open>
  The strict decoder: a continuation byte is \<open>0x80..0xBF\<close>, and a character that a shorter form
  holds, a surrogate or a value past \<open>0x10FFFF\<close> is refused.
\<close>

definition is_cont :: "byte \<Rightarrow> bool" where
  "is_cont b \<longleftrightarrow> 0x80 \<le> unat b \<and> unat b < 0xC0"

definition cont_bits :: "byte \<Rightarrow> nat" where
  "cont_bits b = unat b - 0x80"

fun utf8_decode :: "bytes \<Rightarrow> pystr option" where
  "utf8_decode [] = Some []"
| "utf8_decode (a # rest) =
     (if unat a < 0x80 then map_option ((#) (unat a)) (utf8_decode rest)
      else if unat a < 0xC0 then None
      else if unat a < 0xE0 then
        (case rest of b # rest' \<Rightarrow>
          (let c = (unat a - 0xC0) * 64 + cont_bits b in
           if is_cont b \<and> 0x80 \<le> c then map_option ((#) c) (utf8_decode rest') else None)
         | _ \<Rightarrow> None)
      else if unat a < 0xF0 then
        (case rest of b # b' # rest' \<Rightarrow>
          (let c = (unat a - 0xE0) * 4096 + cont_bits b * 64 + cont_bits b' in
           if is_cont b \<and> is_cont b' \<and> 0x800 \<le> c \<and> valid_char c
           then map_option ((#) c) (utf8_decode rest') else None)
         | _ \<Rightarrow> None)
      else
        (case rest of b # b' # b'' # rest' \<Rightarrow>
          (let c = (unat a - 0xF0) * 262144 + cont_bits b * 4096 + cont_bits b' * 64 + cont_bits b'' in
           if is_cont b \<and> is_cont b' \<and> is_cont b'' \<and> 0x10000 \<le> c \<and> valid_char c
           then map_option ((#) c) (utf8_decode rest') else None)
         | _ \<Rightarrow> None))"

lemma unat_of_nat_byte: "n < 256 \<Longrightarrow> unat (of_nat n :: byte) = n"
  by (simp add: unat_of_nat)

lemma div_mod_64_steps:
  fixes c :: nat
  shows "c div 64 * 64 + c mod 64 = c"
    and "c div 4096 * 4096 + c div 64 mod 64 * 64 + c mod 64 = c"
    and "c div 262144 * 262144 + c div 4096 mod 64 * 4096 + c div 64 mod 64 * 64 + c mod 64 = c"
proof -
  have a: "c div 4096 = c div 64 div 64" "c div 262144 = c div 64 div 64 div 64"
    by (simp_all add: div_mult2_eq [symmetric])
  have b: "c = 64 * (c div 64) + c mod 64" "c div 64 = 64 * (c div 64 div 64) + c div 64 mod 64"
    "c div 64 div 64 = 64 * (c div 64 div 64 div 64) + c div 64 div 64 mod 64"
    by (simp_all only: mult_div_mod_eq)
  show "c div 64 * 64 + c mod 64 = c"
    and "c div 4096 * 4096 + c div 64 mod 64 * 64 + c mod 64 = c"
    and "c div 262144 * 262144 + c div 4096 mod 64 * 4096 + c div 64 mod 64 * 64 + c mod 64 = c"
    unfolding a using b by linarith+
qed

lemma utf8_decode_char:
  assumes "valid_char c"
  shows "utf8_decode (utf8_char c @ bs) = map_option ((#) c) (utf8_decode bs)"
proof -
  have c: "c < 0x110000" using assms by (simp add: valid_char_def)
  define x0 where "x0 = c div 262144"
  define x1 where "x1 = c div 4096 mod 64"
  define x2 where "x2 = c div 64 mod 64"
  define x3 where "x3 = c mod 64"
  have lt: "x1 < 64" "x2 < 64" "x3 < 64" by (simp_all add: x1_def x2_def x3_def)
  have cont: "unat (of_nat (0x80 + x) :: byte) = 0x80 + x" if "x < 64" for x
    by (rule unat_of_nat_byte) (use that in simp)
  have is_cont: "is_cont (of_nat (0x80 + x))" "cont_bits (of_nat (0x80 + x)) = x" if "x < 64" for x
    unfolding is_cont_def cont_bits_def using that by (simp_all only: cont) simp_all
  note lts = is_cont [OF lt(1)] is_cont [OF lt(2)] is_cont [OF lt(3)]
  consider "c < 0x80" | "0x80 \<le> c" "c < 0x800" | "0x800 \<le> c" "c < 0x10000" | "0x10000 \<le> c"
    by linarith
  then show ?thesis
  proof cases
    case 1
    then show ?thesis by (simp add: utf8_char_def unat_of_nat_byte)
  next
    case 2
    define y where "y = c div 64"
    have e: "utf8_char c = [of_nat (0xC0 + y), of_nat (0x80 + x3)]"
      using 2 by (simp only: utf8_char_def y_def x3_def) simp
    have y: "y < 32" "y * 64 + x3 = c" using 2 by (simp_all only: div_mod_64_steps y_def x3_def) (linarith+)?
    have h: "unat (of_nat (0xC0 + y) :: byte) = 0xC0 + y"
      by (rule unat_of_nat_byte) (use y in simp)
    show ?thesis
      unfolding e append_Cons append_Nil
      by (subst utf8_decode.simps(2)) (use y 2 in \<open>simp add: h lts Let_def del: of_nat_add utf8_decode.simps\<close>)
  next
    case 3
    define y where "y = c div 4096"
    have e: "utf8_char c = [of_nat (0xE0 + y), of_nat (0x80 + x2), of_nat (0x80 + x3)]"
      using 3 by (simp only: utf8_char_def y_def x2_def x3_def) simp
    have y: "y < 16" "y * 4096 + x2 * 64 + x3 = c"
      using 3 by (simp_all only: div_mod_64_steps y_def x2_def x3_def) (linarith+)?
    have h: "unat (of_nat (0xE0 + y) :: byte) = 0xE0 + y"
      by (rule unat_of_nat_byte) (use y in simp)
    show ?thesis
      unfolding e append_Cons append_Nil
      by (subst utf8_decode.simps(2)) (use y 3 assms in \<open>simp add: h lts Let_def del: of_nat_add utf8_decode.simps\<close>)
  next
    case 4
    have e: "utf8_char c = [of_nat (0xF0 + x0), of_nat (0x80 + x1), of_nat (0x80 + x2), of_nat (0x80 + x3)]"
      using 4 by (simp only: utf8_char_def x0_def x1_def x2_def x3_def) simp
    have y: "x0 < 5" "x0 * 262144 + x1 * 4096 + x2 * 64 + x3 = c"
      using c by (simp_all only: div_mod_64_steps x0_def x1_def x2_def x3_def) (linarith+)?
    have h: "unat (of_nat (0xF0 + x0) :: byte) = 0xF0 + x0"
      by (rule unat_of_nat_byte) (use y in simp)
    show ?thesis
      unfolding e append_Cons append_Nil
      by (subst utf8_decode.simps(2)) (use y 4 assms in \<open>simp add: h lts Let_def del: of_nat_add utf8_decode.simps\<close>)
  qed
qed

lemma utf8_roundtrip [codec_simps]: "valid_str s \<Longrightarrow> utf8_decode (utf8_encode s) = Some s"
  by (induction s) (simp_all add: utf8_encode_def utf8_decode_char)

lemma utf8_encode_inj: "valid_str s \<Longrightarrow> valid_str t \<Longrightarrow> utf8_encode s = utf8_encode t \<Longrightarrow> s = t"
  by (metis option.inject utf8_roundtrip)

lemma utf8_encode_eq_iff: "valid_str s \<Longrightarrow> valid_str t \<Longrightarrow> utf8_encode s = utf8_encode t \<longleftrightarrow> s = t"
  using utf8_encode_inj by blast

end
