(* ===== verification/Expr.thy ===== *)
theory Expr
  imports Astreum_Prelude
begin

text \<open>
  The content-addressed expression: \<open>src/astreum/expression/expr.py\<close>, \<open>encoding/\<close>,
  \<open>refs.py\<close> and the parts of \<open>helpers.py\<close> that read an expression without storage.

  An \<open>Expr\<close> object has a base (\<open>link\<close>, \<open>symbol\<close> or \<open>bytes\<close>); \<open>NIL\<close> is the one object that
  \<open>is NIL\<close> compares with, which is a constructor of its own here, since \<open>link(None, None)\<close> builds
  a different object with a different hash. A link carries five independent fields, all optional,
  as the class does: an inline payload, the loaded head and tail, and their hashes when they are
  known by hash only. The cached \<open>_hash\<close> and \<open>_size\<close> are the values of \<open>expr_hash\<close> and
  \<open>expr_size\<close> and are not part of the state.

  The hash function (\<open>blake3\<close>, a third-party package) is the parameter \<open>H\<close> of every definition
  that hashes. What theorems need of it, 32-byte digests and no collision among the inputs at hand,
  is a named hypothesis.
\<close>

section \<open>The data\<close>

text \<open>An \<open>fp64\<close> payload is the 64-bit pattern that \<open>struct.pack\<close> writes.\<close>

datatype payload =
    PInt int
  | PStr pystr
  | PBytes bytes
  | PFloat "64 word"

datatype expr =
    NIL
  | Link "payload option" "expr option" "expr option" "bytes option" "bytes option"
  | Symbol pystr
  | Bytes bytes

datatype base = BLink | BSymbol | BBytes

fun base_of :: "expr \<Rightarrow> base" where
  "base_of NIL = BLink"
| "base_of (Link v h t hh th) = BLink"
| "base_of (Symbol s) = BSymbol"
| "base_of (Bytes b) = BBytes"

fun value_of :: "expr \<Rightarrow> payload option" where
  "value_of NIL = None"
| "value_of (Link v h t hh th) = v"
| "value_of (Symbol s) = Some (PStr s)"
| "value_of (Bytes b) = Some (PBytes b)"

fun head_of :: "expr \<Rightarrow> expr option" where
  "head_of (Link v h t hh th) = h"
| "head_of _ = None"

fun tail_of :: "expr \<Rightarrow> expr option" where
  "tail_of (Link v h t hh th) = t"
| "tail_of _ = None"

fun head_hash_of :: "expr \<Rightarrow> bytes option" where
  "head_hash_of (Link v h t hh th) = hh"
| "head_hash_of _ = None"

fun tail_hash_of :: "expr \<Rightarrow> bytes option" where
  "tail_hash_of (Link v h t hh th) = th"
| "tail_hash_of _ = None"

section \<open>Constructors\<close>

definition int_expr :: "int \<Rightarrow> expr" where
  "int_expr v = Link (Some (PInt v)) None (Some (Symbol (u ''int''))) None None"

definition str_expr :: "pystr \<Rightarrow> expr" where
  "str_expr v = Link (Some (PStr v)) None (Some (Symbol (u ''str''))) None None"

definition symbol :: "string \<Rightarrow> expr" where
  "symbol s = Symbol (u s)"

definition link :: "expr option \<Rightarrow> expr option \<Rightarrow> expr" where
  "link h t = Link None h t None None"

abbreviation cons :: "expr \<Rightarrow> expr \<Rightarrow> expr" where
  "cons h t \<equiv> link (Some h) (Some t)"

text \<open>\<open>Expr("link", head_hash=H)\<close>: a reference to the cell with hash \<open>H\<close>.\<close>

definition hash_ref :: "bytes \<Rightarrow> expr" where
  "hash_ref h = Link None None None (Some h) None"

section \<open>Payload encodings\<close>

definition encode_int :: "int \<Rightarrow> bytes" where
  "encode_int v = le_bytes (max 1 ((bit_length v + 8) div 8)) v"

definition decode_int :: "bytes \<Rightarrow> int" where
  "decode_int b = le_sint b"

definition float_tags :: "pystr list" where
  "float_tags = [u ''e4m3'', u ''e5m2'', u ''fp16'', u ''bf16'', u ''fp32'', u ''fp64'']"

definition is_float_tag :: "pystr \<Rightarrow> bool" where
  "is_float_tag t \<longleftrightarrow> t \<in> set float_tags"

definition is_composite_tag :: "pystr \<Rightarrow> bool" where
  "is_composite_tag t \<longleftrightarrow> t = u ''int'' \<or> t = u ''str'' \<or> is_float_tag t"

text \<open>
  \<open>TAG_BYTE_ENCODINGS.get(tag)\<close> applied to a value: \<open>None\<close> where the table has no entry. The
  table's functions raise on a value of another type, which no constructor builds; the model
  returns \<open>None\<close> there too.
\<close>

definition tag_encode :: "pystr \<Rightarrow> payload \<Rightarrow> bytes option" where
  "tag_encode t p =
     (case p of
        PInt v \<Rightarrow> if t = u ''int'' then Some (encode_int v) else None
      | PStr s \<Rightarrow> if t = u ''str'' \<or> t = u ''symbol'' then Some (utf8_encode s) else None
      | PBytes b \<Rightarrow>
          if t \<in> {u ''bytes'', u ''e4m3'', u ''e5m2'', u ''fp16'', u ''bf16'', u ''fp32''}
          then Some b else None
      | PFloat w \<Rightarrow> if t = u ''fp64'' then Some (le_bytes 8 (uint w)) else None)"

text \<open>
  \<open>TAG_BYTE_DECODINGS[tag](data)\<close>: \<open>None\<close> for a tag with no entry, \<open>Some (Inl e)\<close> where the
  decoder raises.
\<close>

definition tag_decode :: "pystr \<Rightarrow> bytes \<Rightarrow> (exc + payload) option" where
  "tag_decode t d =
     (if t = u ''int'' then Some (Inr (PInt (decode_int d)))
      else if t = u ''str'' \<or> t = u ''symbol'' then
        Some (case utf8_decode d of None \<Rightarrow> Inl UnicodeError | Some s \<Rightarrow> Inr (PStr s))
      else if t \<in> {u ''bytes'', u ''e4m3'', u ''e5m2'', u ''fp16'', u ''bf16'', u ''fp32''} then
        Some (Inr (PBytes d))
      else if t = u ''fp64'' then
        Some (if length d = 8 then Inr (PFloat (word_of_int (le_uint d)))
              else Inl StructError)
      else None)"

section \<open>Hashes\<close>

definition terminal_hash :: "(bytes \<Rightarrow> bytes) \<Rightarrow> byte \<Rightarrow> bytes \<Rightarrow> bytes" where
  "terminal_hash H tag d = H (tag # H d)"

definition link_hash :: "(bytes \<Rightarrow> bytes) \<Rightarrow> bytes \<Rightarrow> bytes \<Rightarrow> bytes" where
  "link_hash H hh th = H (0 # H (hh @ th))"

definition symbol_hash :: "(bytes \<Rightarrow> bytes) \<Rightarrow> pystr \<Rightarrow> bytes" where
  "symbol_hash H s = terminal_hash H 1 (utf8_encode s)"

text \<open>
  The encoded inline payload of a link whose tail is a symbol with an encoder, and its hash: the
  middle case of \<open>get_expr_head_hash\<close>.
\<close>

definition inline_bytes :: "payload option \<Rightarrow> expr option \<Rightarrow> bytes option" where
  "inline_bytes v t =
     (case v of None \<Rightarrow> None
      | Some p \<Rightarrow> (case t of Some (Symbol s) \<Rightarrow> tag_encode s p | _ \<Rightarrow> None))"

definition inline_head_hash :: "(bytes \<Rightarrow> bytes) \<Rightarrow> payload option \<Rightarrow> expr option \<Rightarrow> bytes option" where
  "inline_head_hash H v t = map_option (terminal_hash H 2) (inline_bytes v t)"

lemma inline_None [simp]: "inline_bytes None t = None" "inline_head_hash H None t = None"
  by (simp_all add: inline_head_hash_def inline_bytes_def)

fun expr_hash :: "(bytes \<Rightarrow> bytes) \<Rightarrow> expr \<Rightarrow> bytes" where
  "expr_hash H NIL = ZERO32"
| "expr_hash H (Link v h t hh th) =
     link_hash H
       (case hh of Some x \<Rightarrow> x
        | None \<Rightarrow>
            (case inline_head_hash H v t of Some x \<Rightarrow> x
             | None \<Rightarrow> (case h of Some e \<Rightarrow> expr_hash H e | None \<Rightarrow> ZERO32)))
       (case th of Some x \<Rightarrow> x
        | None \<Rightarrow> (case t of Some e \<Rightarrow> expr_hash H e | None \<Rightarrow> ZERO32))"
| "expr_hash H (Symbol s) = symbol_hash H s"
| "expr_hash H (Bytes b) = terminal_hash H 2 b"

fun get_expr_head_hash :: "(bytes \<Rightarrow> bytes) \<Rightarrow> expr \<Rightarrow> bytes" where
  "get_expr_head_hash H (Link v h t hh th) =
     (case hh of Some x \<Rightarrow> x
      | None \<Rightarrow>
          (case inline_head_hash H v t of Some x \<Rightarrow> x
           | None \<Rightarrow> (case h of Some e \<Rightarrow> expr_hash H e | None \<Rightarrow> ZERO32)))"
| "get_expr_head_hash H _ = ZERO32"

fun get_expr_tail_hash :: "(bytes \<Rightarrow> bytes) \<Rightarrow> expr \<Rightarrow> bytes" where
  "get_expr_tail_hash H (Link v h t hh th) =
     (case th of Some x \<Rightarrow> x
      | None \<Rightarrow> (case t of Some e \<Rightarrow> expr_hash H e | None \<Rightarrow> ZERO32))"
| "get_expr_tail_hash H _ = ZERO32"

lemma expr_hash_Link:
  "expr_hash H (Link v h t hh th) =
     link_hash H (get_expr_head_hash H (Link v h t hh th)) (get_expr_tail_hash H (Link v h t hh th))"
  by simp

section \<open>Sizes\<close>

definition head_bytes :: "expr option \<Rightarrow> bytes option" where
  "head_bytes h = (case h of Some (Bytes b) \<Rightarrow> Some b | _ \<Rightarrow> None)"

fun expr_size :: "expr \<Rightarrow> nat" where
  "expr_size NIL = 64"
| "expr_size (Link v h t hh th) =
     (case inline_bytes v t of Some b \<Rightarrow> length b
      | None \<Rightarrow>
          (case head_bytes h of Some b \<Rightarrow> length b
           | None \<Rightarrow>
               (case hh of Some _ \<Rightarrow> 32
                | None \<Rightarrow> (case h of Some e \<Rightarrow> expr_size e | None \<Rightarrow> 32))
               + (case th of Some _ \<Rightarrow> 32
                  | None \<Rightarrow> (case t of Some e \<Rightarrow> expr_size e | None \<Rightarrow> 32))))"
| "expr_size (Symbol s) = length (utf8_encode s)"
| "expr_size (Bytes b) = length b"

text \<open>\<open>Expr.resolution\<close>: how much of a cell a reader must fetch.\<close>

definition RESOLUTION_SINGLE :: int where "RESOLUTION_SINGLE = 1"
definition RESOLUTION_LIST :: int where "RESOLUTION_LIST = 2"
definition RESOLUTION_FULL :: int where "RESOLUTION_FULL = 3"

definition resolution :: "(bytes \<Rightarrow> bytes) \<Rightarrow> expr \<Rightarrow> int" where
  "resolution H e =
     (if base_of e \<noteq> BLink then RESOLUTION_SINGLE
      else
        (let hh = (case head_hash_of e of Some x \<Rightarrow> x
                   | None \<Rightarrow> (case head_of e of Some h \<Rightarrow> expr_hash H h | None \<Rightarrow> ZERO32))
         in if hh = ZERO32 then RESOLUTION_LIST else RESOLUTION_FULL))"

section \<open>The wire form\<close>

definition encode_expr_to_bytes :: "(bytes \<Rightarrow> bytes) \<Rightarrow> expr \<Rightarrow> bytes" where
  "encode_expr_to_bytes H e =
     (case e of
        Symbol s \<Rightarrow> 1 # utf8_encode s
      | Bytes b \<Rightarrow> 2 # b
      | _ \<Rightarrow> 0 # get_expr_head_hash H e @ get_expr_tail_hash H e)"

definition decode_expr_from_bytes :: "bytes \<Rightarrow> exc + expr" where
  "decode_expr_from_bytes d =
     (case d of
        [] \<Rightarrow> Inl (ValueError ''empty bytes'')
      | tag # rest \<Rightarrow>
          if tag = 0 then
            (if length d < 65 then Inl (ValueError ''link requires 65 bytes'')
             else Inr (Link None None None (Some (take 32 rest)) (Some (take 32 (drop 32 rest)))))
          else if tag = 1 then
            (case utf8_decode rest of None \<Rightarrow> Inl UnicodeError | Some s \<Rightarrow> Inr (Symbol s))
          else if tag = 2 then Inr (Bytes rest)
          else Inl (ValueError ''unknown wire tag''))"

section \<open>Tags\<close>

text \<open>
  The table \<open>_BUILTIN_TYPE_HASH\<close>: the type name whose symbol has a given hash. The table is a
  dict built from a literal: where two names had one hash, the later entry would win.
\<close>

definition builtin_type_names :: "pystr list" where
  "builtin_type_names =
     [u ''int'', u ''str'', u ''symbol'', u ''bytes'', u ''e4m3'', u ''e5m2'', u ''fp16'',
      u ''bf16'', u ''fp32'', u ''fp64'']"

definition builtin_type_of_hash :: "(bytes \<Rightarrow> bytes) \<Rightarrow> bytes \<Rightarrow> pystr option" where
  "builtin_type_of_hash H h =
     map_of (rev (map (\<lambda>n. (symbol_hash H n, n)) builtin_type_names)) h"

definition is_composite_type_hash :: "(bytes \<Rightarrow> bytes) \<Rightarrow> bytes \<Rightarrow> bool" where
  "is_composite_type_hash H h =
     (case builtin_type_of_hash H h of None \<Rightarrow> False | Some n \<Rightarrow> is_composite_tag n)"

definition is_builtin_composite :: "expr \<Rightarrow> bool" where
  "is_builtin_composite e =
     (case e of
        Link v h t hh th \<Rightarrow>
          \<not> (v = None \<and> head_bytes h = None) \<and>
          (case t of Some (Symbol s) \<Rightarrow> is_composite_tag s | _ \<Rightarrow> False)
      | _ \<Rightarrow> False)"

definition builtin_composite_payload :: "expr \<Rightarrow> expr option" where
  "builtin_composite_payload e =
     (case e of
        Link (Some p) None (Some (Symbol s)) hh th \<Rightarrow>
          if is_composite_tag s then map_option Bytes (tag_encode s p) else None
      | _ \<Rightarrow> None)"

definition get_expr_builtin_tag :: "(bytes \<Rightarrow> bytes) \<Rightarrow> expr \<Rightarrow> pystr" where
  "get_expr_builtin_tag H e =
     (case e of
        Symbol _ \<Rightarrow> u ''symbol''
      | Bytes _ \<Rightarrow> u ''bytes''
      | NIL \<Rightarrow> u ''link''
      | Link v h t hh th \<Rightarrow>
          (case t of
             Some (Symbol s) \<Rightarrow> if is_composite_tag s then s else u ''link''
           | Some _ \<Rightarrow> u ''link''
           | None \<Rightarrow>
               (case th of
                  None \<Rightarrow> u ''link''
                | Some x \<Rightarrow>
                    (case builtin_type_of_hash H x of
                       Some n \<Rightarrow> if is_composite_tag n then n else u ''link''
                     | None \<Rightarrow> u ''link''))))"

text \<open>
  \<open>get_expr_tag(expr, node)\<close>. Without a node (\<open>fetch = None\<close>) a custom tag known only by hash
  raises; with one, the tail is fetched and stored in the cell, so the cell is returned too.
\<close>

definition tag_of_tail :: "expr \<Rightarrow> pystr" where
  "tag_of_tail t = (case t of Symbol s \<Rightarrow> s | _ \<Rightarrow> u ''link'')"

definition get_expr_tag ::
  "(bytes \<Rightarrow> bytes) \<Rightarrow> (bytes \<Rightarrow> expr option) option \<Rightarrow> expr \<Rightarrow> exc + pystr \<times> expr" where
  "get_expr_tag H fetch e =
     (case e of
        Symbol _ \<Rightarrow> Inr (u ''symbol'', e)
      | Bytes _ \<Rightarrow> Inr (u ''bytes'', e)
      | NIL \<Rightarrow> Inr (u ''link'', e)
      | Link v h (Some t) hh th \<Rightarrow> Inr (tag_of_tail t, e)
      | Link v h None hh None \<Rightarrow> Inr (u ''link'', e)
      | Link v h None hh (Some x) \<Rightarrow>
          if x = ZERO32 then Inr (u ''link'', e)
          else (case builtin_type_of_hash H x of
                  Some n \<Rightarrow> Inr (n, e)
                | None \<Rightarrow>
                    (case Option.bind fetch (\<lambda>f. f x) of
                       Some t \<Rightarrow> Inr (tag_of_tail t, Link v h (Some t) hh None)
                     | None \<Rightarrow> Inl (ValueError ''tag unresolved: pass node to resolve custom tail_hash''))))"

text \<open>The tag as most callers use it: no node, the cell unchanged.\<close>

definition expr_tag :: "(bytes \<Rightarrow> bytes) \<Rightarrow> expr \<Rightarrow> exc + pystr" where
  "expr_tag H e = (case get_expr_tag H None e of Inl x \<Rightarrow> Inl x | Inr (t, _) \<Rightarrow> Inr t)"

section \<open>Payload values\<close>

text \<open>
  \<open>get_expr_value\<close>. The value of a loaded head that is not a bytes expr is that expr's own
  \<open>value\<close>, which is \<open>None\<close> for a pair.
\<close>

definition get_expr_value ::
  "(bytes \<Rightarrow> bytes) \<Rightarrow> (bytes \<Rightarrow> expr option) option \<Rightarrow> expr \<Rightarrow> exc + payload option \<times> expr" where
  "get_expr_value H fetch e =
     (case value_of e of
        Some p \<Rightarrow> Inr (Some p, e)
      | None \<Rightarrow>
          (case e of
             Link v (Some (Bytes b)) t hh th \<Rightarrow>
               (case get_expr_tag H fetch e of
                  Inl _ \<Rightarrow> Inr (Some (PBytes b), e)
                | Inr (tag, e') \<Rightarrow>
                    (case tag_decode tag b of
                       None \<Rightarrow> Inr (Some (PBytes b), e')
                     | Some (Inl x) \<Rightarrow> Inl x
                     | Some (Inr p) \<Rightarrow> Inr (Some p, e')))
           | Link v (Some h) t hh th \<Rightarrow> Inr (value_of h, e)
           | Link v None t (Some x) th \<Rightarrow>
               (if x = ZERO32 then Inl (ValueError ''no value'')
                else
                  (case fetch of
                     None \<Rightarrow> Inl (ValueError ''value requires node to resolve head_hash'')
                   | Some f \<Rightarrow>
                       (case f x of
                          None \<Rightarrow> Inl (ValueError ''cannot resolve head for expr value'')
                        | Some h \<Rightarrow>
                            (case get_expr_tag H fetch (Link v (Some h) t None th) of
                               Inl y \<Rightarrow> Inl y
                             | Inr (tag, e') \<Rightarrow>
                                 (case h of
                                    Bytes b \<Rightarrow>
                                      (case tag_decode tag b of
                                         None \<Rightarrow> Inr (Some (PBytes b), e')
                                       | Some (Inl y) \<Rightarrow> Inl y
                                       | Some (Inr p) \<Rightarrow> Inr (Some p, e'))
                                  | _ \<Rightarrow> Inr (value_of h, e'))))))
           | _ \<Rightarrow> Inl (ValueError ''no value'')))"

definition get_referenced_hash :: "(bytes \<Rightarrow> bytes) \<Rightarrow> expr \<Rightarrow> bytes" where
  "get_referenced_hash H e =
     (case head_hash_of e of
        Some x \<Rightarrow> x
      | None \<Rightarrow> (case head_of e of Some h \<Rightarrow> expr_hash H h | None \<Rightarrow> ZERO32))"

section \<open>Integers survive their encoding\<close>

lemma encode_int_width:
  defines "n v \<equiv> max 1 ((bit_length v + 8) div 8)"
  shows "0 < n v" "- (2 ^ (8 * n v - 1)) \<le> v" "v < 2 ^ (8 * n v - 1)"
proof -
  have "bit_length v \<le> 8 * n v - 1"
    unfolding n_def by linarith
  then have "(2::int) ^ bit_length v \<le> 2 ^ (8 * n v - 1)"
    by (rule power_increasing) simp
  with bit_length_bound [of v] have "\<bar>v\<bar> < 2 ^ (8 * n v - 1)" by linarith
  then show "0 < n v" "- (2 ^ (8 * n v - 1)) \<le> v" "v < 2 ^ (8 * n v - 1)"
    by (auto simp only: n_def abs_less_iff)
qed

text \<open>\<open>to_bytes\<close> in \<open>_encode_int\<close> never raises: the chosen width always fits.\<close>

lemma encode_int_fits:
  "to_bytes_signed_le v (max 1 ((bit_length v + 8) div 8)) = Some (encode_int v)"
  using encode_int_width [of v] by (simp add: to_bytes_signed_le_def encode_int_def)

text \<open>
  \<open>_decode_int\<close> inverts \<open>_encode_int\<close> on every integer, and the encoding never overflows.
\<close>

theorem encode_int_roundtrip:
  "to_bytes_signed_le v (max 1 ((bit_length v + 8) div 8)) = Some (encode_int v)
   \<and> decode_int (encode_int v) = v"
  using encode_int_width [of v] encode_int_fits [of v]
  by (simp add: decode_int_def encode_int_def le_sint_le_bytes)

lemma decode_encode_int [simp, codec_simps]: "decode_int (encode_int v) = v"
  using encode_int_width [of v] by (simp add: decode_int_def encode_int_def le_sint_le_bytes)

lemma encode_int_nonempty [simp]: "encode_int v \<noteq> []"
  by (metis encode_int_def encode_int_width(1) length_le_bytes less_irrefl list.size(3))

section \<open>Cells, hashes and the wire form\<close>

text \<open>
  A well-formed expr: its hashes are 32 bytes long and its texts are texts. Every cell that the
  constructors build or the decoder returns is one.
\<close>

definition wf_hash :: "bytes option \<Rightarrow> bool" where
  "wf_hash h \<longleftrightarrow> (case h of None \<Rightarrow> True | Some x \<Rightarrow> length x = 32)"

fun wf_expr :: "expr \<Rightarrow> bool" where
  "wf_expr NIL = True"
| "wf_expr (Link v h t hh th) =
     (wf_hash hh \<and> wf_hash th
      \<and> (case v of Some (PStr s) \<Rightarrow> valid_str s | _ \<Rightarrow> True)
      \<and> (case h of None \<Rightarrow> True | Some e \<Rightarrow> wf_expr e)
      \<and> (case t of None \<Rightarrow> True | Some e \<Rightarrow> wf_expr e))"
| "wf_expr (Symbol s) = valid_str s"
| "wf_expr (Bytes b) = True"

lemma length_expr_hash:
  assumes "\<And>x. length (H x) = 32"
  shows "length (expr_hash H e) = 32"
  by (cases e) (simp_all add: assms link_hash_def terminal_hash_def symbol_hash_def)

lemma length_head_hash:
  assumes "\<And>x. length (H x) = 32" "wf_expr e"
  shows "length (get_expr_head_hash H e) = 32"
  using assms
  by (cases e)
    (auto simp: wf_hash_def inline_head_hash_def terminal_hash_def length_expr_hash split: option.splits)

lemma length_tail_hash:
  assumes "\<And>x. length (H x) = 32" "wf_expr e"
  shows "length (get_expr_tail_hash H e) = 32"
  using assms by (cases e) (auto simp: wf_hash_def length_expr_hash split: option.splits)

lemma wf_decoded:
  "decode_expr_from_bytes d = Inr e \<Longrightarrow> wf_hash (head_hash_of e) \<and> wf_hash (tail_hash_of e) \<and> e \<noteq> NIL"
  by (auto simp: decode_expr_from_bytes_def wf_hash_def split: list.splits if_splits option.splits)

text \<open>The wire form of a cell other than \<open>NIL\<close>, decoded: the cell with its children by hash.\<close>

definition by_hash :: "(bytes \<Rightarrow> bytes) \<Rightarrow> expr \<Rightarrow> expr" where
  "by_hash H e =
     (case e of
        Link v h t hh th \<Rightarrow>
          Link None None None (Some (get_expr_head_hash H e)) (Some (get_expr_tail_hash H e))
      | NIL \<Rightarrow> Link None None None (Some ZERO32) (Some ZERO32)
      | _ \<Rightarrow> e)"

lemma decode_encode_expr:
  assumes "\<And>x. length (H x) = 32" "wf_expr e"
  shows "decode_expr_from_bytes (encode_expr_to_bytes H e) = Inr (by_hash H e)"
proof (cases e)
  case (Link v h t hh th)
  have l: "length (get_expr_head_hash H e) = 32" "length (get_expr_tail_hash H e) = 32"
    using assms by (simp_all add: length_head_hash length_tail_hash)
  have "encode_expr_to_bytes H e = 0 # get_expr_head_hash H e @ get_expr_tail_hash H e"
    by (simp add: encode_expr_to_bytes_def Link)
  moreover have "by_hash H e =
      Link None None None (Some (get_expr_head_hash H e)) (Some (get_expr_tail_hash H e))"
    by (simp add: by_hash_def Link)
  ultimately show ?thesis
    using l by (simp add: decode_expr_from_bytes_def)
next
  case (Symbol s)
  then show ?thesis
    using assms(2)
    by (simp add: encode_expr_to_bytes_def decode_expr_from_bytes_def by_hash_def utf8_roundtrip)
qed (simp_all add: encode_expr_to_bytes_def decode_expr_from_bytes_def by_hash_def)

text \<open>
  C20: decoding the wire form of a cell gives a cell with the same hash, so a cell fetched over the
  network answers to the hash it was asked for. The exception is \<open>NIL\<close>, whose hash is the zero
  hash by fiat: its wire form decodes to a pair of zero hashes.
\<close>

theorem wire_roundtrip_keeps_hash:
  assumes "\<And>x. length (H x) = 32" and "wf_expr e" and "e \<noteq> NIL"
  shows "\<exists>e'. decode_expr_from_bytes (encode_expr_to_bytes H e) = Inr e'
      \<and> expr_hash H e' = expr_hash H e \<and> base_of e' = base_of e"
proof -
  have "expr_hash H (by_hash H e) = expr_hash H e" "base_of (by_hash H e) = base_of e"
    using assms(3) by (cases e; simp add: by_hash_def)+
  with decode_encode_expr [of H e, OF assms(1,2)] show ?thesis by blast
qed

definition toy_hash :: "bytes \<Rightarrow> bytes" where
  "toy_hash x = take 32 (x @ ZERO32)"

lemma length_toy_hash [simp]: "length (toy_hash x) = 32"
  by (simp add: toy_hash_def)

lemma wire_roundtrip_keeps_hash_witness:
  "\<exists>e'. decode_expr_from_bytes (encode_expr_to_bytes toy_hash (cons (int_expr 5) (symbol ''ok''))) = Inr e'
      \<and> expr_hash toy_hash e' = expr_hash toy_hash (cons (int_expr 5) (symbol ''ok'')) \<and> base_of e' = BLink"
proof -
  let ?e = "cons (int_expr 5) (symbol ''ok'')"
  have wf: "wf_expr ?e"
    by (simp add: link_def int_expr_def symbol_def wf_hash_def u_def valid_char_def)
  have "?e \<noteq> NIL" and "base_of ?e = BLink" by (simp_all add: link_def)
  then show ?thesis
    using wire_roundtrip_keeps_hash [of toy_hash, OF length_toy_hash wf] by metis
qed

text \<open>
  The inputs that the hash of a cell gives to \<open>H\<close>: the tagged digest and the content.
\<close>

definition hash_inputs :: "(bytes \<Rightarrow> bytes) \<Rightarrow> expr \<Rightarrow> bytes set" where
  "hash_inputs H e =
     (let w = encode_expr_to_bytes H e in {tl w, hd w # H (tl w)})"

lemma expr_hash_wire:
  "e \<noteq> NIL \<Longrightarrow>
     expr_hash H e = H (hd (encode_expr_to_bytes H e) # H (tl (encode_expr_to_bytes H e)))"
  by (cases e) (simp_all add: encode_expr_to_bytes_def link_hash_def symbol_hash_def terminal_hash_def)

text \<open>
  C19: cells are content addressed: where the hash function has no collision among the inputs of two
  cells, equal hashes mean equal wire forms, and in particular equal kinds of cell, since the tag
  byte is part of what is hashed.
\<close>

theorem equal_hash_equal_wire:
  assumes "inj_on H (hash_inputs H a \<union> hash_inputs H b)"
    and "a \<noteq> NIL" and "b \<noteq> NIL" and "expr_hash H a = expr_hash H b"
  shows "encode_expr_to_bytes H a = encode_expr_to_bytes H b \<and> base_of a = base_of b"
proof -
  let ?w = "encode_expr_to_bytes H"
  have outer: "hd (?w a) # H (tl (?w a)) = hd (?w b) # H (tl (?w b))"
    using assms(4) unfolding expr_hash_wire [OF assms(2)] expr_hash_wire [OF assms(3)]
    by (rule inj_onD [OF assms(1)]) (simp_all add: hash_inputs_def Let_def)
  then have "H (tl (?w a)) = H (tl (?w b))" by simp
  then have "tl (?w a) = tl (?w b)"
    by (rule inj_onD [OF assms(1)]) (simp_all add: hash_inputs_def Let_def)
  moreover have "?w a \<noteq> []" "?w b \<noteq> []"
    by (auto simp: encode_expr_to_bytes_def split: expr.splits)
  ultimately have "?w a = ?w b"
    using outer by (metis list.collapse list.inject)
  moreover have "base_of a = base_of b"
    using outer assms(2,3)
    by (cases a; cases b; simp add: encode_expr_to_bytes_def)
  ultimately show ?thesis by simp
qed

lemma int_expr_hash: "expr_hash H (int_expr v) = expr_hash H (cons (Bytes (encode_int v)) (symbol ''int''))"
  by (simp add: int_expr_def link_def symbol_def inline_head_hash_def inline_bytes_def tag_encode_def)

lemma bit_length_5: "bit_length 5 = 3" and bit_length_300: "bit_length 300 = 9"
  by (simp_all add: bit_length_def)

lemma encode_int_5: "encode_int 5 = [5]" and encode_int_300: "encode_int 300 = [44, 1]"
  unfolding encode_int_def bit_length_5 bit_length_300 by simp_all

lemma equal_hash_equal_wire_witness:
  "encode_expr_to_bytes (\<lambda>x. x) (int_expr 5)
     = encode_expr_to_bytes (\<lambda>x. x) (cons (Bytes [5]) (symbol ''int''))
   \<and> base_of (int_expr 5) = base_of (cons (Bytes [5]) (symbol ''int''))"
proof (rule equal_hash_equal_wire)
  show "inj_on (\<lambda>x. x) (hash_inputs (\<lambda>x. x) (int_expr 5)
      \<union> hash_inputs (\<lambda>x. x) (cons (Bytes [5]) (symbol ''int'')))"
    by (simp add: inj_on_def)
  show "expr_hash (\<lambda>x. x) (int_expr 5) = expr_hash (\<lambda>x. x) (cons (Bytes [5]) (symbol ''int''))"
    using int_expr_hash [of "\<lambda>x. x" 5] by (simp only: encode_int_5)
qed (simp_all add: int_expr_def link_def)

text \<open>
  a builtin composite that keeps its value inline has the hash of the pair it stands for, a
  bytes cell with the encoded value and the type symbol: storing the payload cell that
  \<open>builtin_composite_payload\<close> returns makes the head hash resolvable.
\<close>

theorem inline_composite_hash:
  assumes "builtin_composite_payload e = Some p" and "head_hash_of e = None"
  shows "expr_hash H e = expr_hash H (Link None (Some p) (tail_of e) None (tail_hash_of e))
     \<and> get_expr_head_hash H e = expr_hash H p"
proof -
  from assms(1) obtain v s hh th b where e: "e = Link (Some v) None (Some (Symbol s)) hh th"
    and b: "tag_encode s v = Some b" and p: "p = Bytes b"
    by (auto simp: builtin_composite_payload_def split: expr.splits option.splits if_splits)
  from assms(2) have "hh = None" by (simp add: e)
  then show ?thesis
    by (simp add: e p b inline_head_hash_def inline_bytes_def)
qed

lemma inline_composite_hash_witness:
  "expr_hash toy_hash (int_expr 300) = expr_hash toy_hash (Link None (Some (Bytes [44, 1])) (Some (symbol ''int'')) None None)
   \<and> get_expr_head_hash toy_hash (int_expr 300) = expr_hash toy_hash (Bytes [44, 1])"
proof -
  have "builtin_composite_payload (int_expr 300) = Some (Bytes [44, 1])"
    by (simp add: builtin_composite_payload_def int_expr_def is_composite_tag_def tag_encode_def
        encode_int_300)
  from inline_composite_hash [OF this, of toy_hash] show ?thesis
    by (simp add: int_expr_def symbol_def del: expr_hash.simps get_expr_head_hash.simps)
qed

end
