(* ===== verification/Shape.thy ===== *)
theory Shape
  imports Expr
begin

text \<open>
  Shapes, \<open>src/astreum/expression/shape.py\<close>: the rules by which a requester says how far a server
  walks below an expr. The encoding, the parser with its depth bound and its five errors, and the
  walk with its explicit stack.
\<close>

section \<open>Rules and their encoding\<close>

datatype rule = RHold | RSend | RPair rule rule | RRepeat rule

definition MAX_SHAPE_DEPTH :: nat where
  "MAX_SHAPE_DEPTH = 128"

definition HOLD :: bytes where "HOLD = [0]"
definition SEND :: bytes where "SEND = [1]"
definition INT_SHAPE :: bytes where "INT_SHAPE = [2, 1, 0]"

definition pair :: "bytes \<Rightarrow> bytes \<Rightarrow> bytes" where
  "pair head_rule tail_rule = [2] @ head_rule @ tail_rule"

definition repeat :: "bytes \<Rightarrow> bytes" where
  "repeat head_rule = [3] @ head_rule"

text \<open>
  \<open>parse_shape\<close>: the inner \<open>read(depth)\<close> raises once \<open>depth\<close> exceeds \<open>MAX_SHAPE_DEPTH\<close>. The
  model counts the levels that are left, so level \<open>0\<close> is the code's \<open>depth > MAX_SHAPE_DEPTH\<close>. The
  rest of the data stands for \<open>pos\<close>.
\<close>

fun read_rule :: "nat \<Rightarrow> bytes \<Rightarrow> exc + rule \<times> bytes" where
  "read_rule 0 d = Inl (ValueError ''shape is too deep'')"
| "read_rule (Suc n) d =
     (case d of
        [] \<Rightarrow> Inl (ValueError ''shape is cut short'')
      | op # rest \<Rightarrow>
          if op = 0 then Inr (RHold, rest)
          else if op = 1 then Inr (RSend, rest)
          else if op = 2 then
            bind_exc (read_rule n rest) (\<lambda>(head, rest').
              bind_exc (read_rule n rest') (\<lambda>(tail, rest''). Inr (RPair head tail, rest'')))
          else if op = 3 then
            bind_exc (read_rule n rest) (\<lambda>(head, rest'). Inr (RRepeat head, rest'))
          else Inl (ValueError ''unknown shape byte''))"

definition parse_shape :: "bytes \<Rightarrow> exc + rule" where
  "parse_shape d =
     (if d = [] then Inl (ValueError ''shape is empty'')
      else bind_exc (read_rule MAX_SHAPE_DEPTH d) (\<lambda>(r, rest).
        if rest \<noteq> [] then Inl (ValueError ''shape has bytes left over'') else Inr r))"

fun encode_rule :: "rule \<Rightarrow> bytes" where
  "encode_rule RHold = HOLD"
| "encode_rule RSend = SEND"
| "encode_rule (RPair h t) = pair (encode_rule h) (encode_rule t)"
| "encode_rule (RRepeat h) = repeat (encode_rule h)"

fun rule_depth :: "rule \<Rightarrow> nat" where
  "rule_depth RHold = 1"
| "rule_depth RSend = 1"
| "rule_depth (RPair h t) = Suc (max (rule_depth h) (rule_depth t))"
| "rule_depth (RRepeat h) = Suc (rule_depth h)"

lemma rule_depth_pos [simp]: "0 < rule_depth r"
  by (induction r) auto

lemma encode_rule_nonempty [simp]: "encode_rule r \<noteq> []"
  by (cases r) (simp_all add: HOLD_def SEND_def pair_def repeat_def)

lemma read_encode_rule: "rule_depth r \<le> n \<Longrightarrow> read_rule n (encode_rule r @ rest) = Inr (r, rest)"
proof (induction r arbitrary: n rest)
  case RHold
  then show ?case by (cases n) (simp_all add: HOLD_def)
next
  case RSend
  then show ?case by (cases n) (simp_all add: SEND_def)
next
  case (RPair h t)
  then show ?case by (cases n) (simp_all add: pair_def)
next
  case (RRepeat h)
  then show ?case by (cases n) (simp_all add: repeat_def)
qed

lemma read_rule_sound: "read_rule n d = Inr (r, rest) \<Longrightarrow> d = encode_rule r @ rest \<and> rule_depth r \<le> n"
proof (induction n d arbitrary: r rest rule: read_rule.induct)
  case (1 d)
  then show ?case by simp
next
  case (2 n d)
  show ?case
  proof (cases d)
    case Nil
    with 2 show ?thesis by simp
  next
    case (Cons op rest0)
    consider "op = 0" | "op = 1" | "op = 2" | "op = 3" | "op \<notin> {0, 1, 2, 3}" by auto
    then show ?thesis
    proof cases
      case 3
      then obtain h r1 t where h: "read_rule n rest0 = Inr (h, r1)"
        and t: "read_rule n r1 = Inr (t, rest)" and r: "r = RPair h t"
        using 2 Cons by (auto simp: bind_exc_eq_Inr)
      have "rest0 = encode_rule h @ r1 \<and> rule_depth h \<le> n"
        using Cons 3 h by (intro 2(1)) simp_all
      moreover have "r1 = encode_rule t @ rest \<and> rule_depth t \<le> n"
        using Cons 3 h t by (intro 2(2)) simp_all
      ultimately show ?thesis using Cons 3 r by (simp add: pair_def)
    next
      case 4
      then obtain h where h: "read_rule n rest0 = Inr (h, rest)" and r: "r = RRepeat h"
        using 2 Cons by (auto simp: bind_exc_eq_Inr)
      have "rest0 = encode_rule h @ rest \<and> rule_depth h \<le> n"
        using Cons 4 h by (intro 2(3)) simp_all
      then show ?thesis using Cons 4 r by (simp add: repeat_def)
    qed (use 2 Cons in \<open>auto simp: HOLD_def SEND_def\<close>)
  qed
qed

text \<open>
  C22: \<open>parse_shape\<close> accepts exactly the encodings of the rule trees of depth at most
  \<open>MAX_SHAPE_DEPTH\<close>, and returns the tree: parsing and encoding are inverse, no shape has two
  encodings, and every other byte string is refused.
\<close>

theorem parse_shape_iff:
  "parse_shape d = Inr r \<longleftrightarrow> d = encode_rule r \<and> rule_depth r \<le> MAX_SHAPE_DEPTH"
proof
  assume "parse_shape d = Inr r"
  then show "d = encode_rule r \<and> rule_depth r \<le> MAX_SHAPE_DEPTH"
    by (auto simp: parse_shape_def bind_exc_eq_Inr split: if_splits prod.splits
        dest!: read_rule_sound)
next
  assume "d = encode_rule r \<and> rule_depth r \<le> MAX_SHAPE_DEPTH"
  then show "parse_shape d = Inr r"
    using read_encode_rule [of r MAX_SHAPE_DEPTH "[]"] by (simp add: parse_shape_def)
qed

section \<open>The walk\<close>

text \<open>
  One iteration of the loop of \<open>walk_shape\<close>: the stack's top is its first element. \<open>load\<close> is the
  storage read that the caller passes.
\<close>

record walk_state =
  found :: "expr list"
  missing :: "bytes list"
  seen :: "bytes set"
  missed :: "bytes set"

definition walk_skips :: "(bytes \<Rightarrow> bytes) \<Rightarrow> rule \<Rightarrow> bytes \<Rightarrow> bool" where
  "walk_skips H r h \<longleftrightarrow> r = RHold \<or> h = [] \<or> h = ZERO32 \<or> is_composite_type_hash H h"

definition note_missing :: "bytes \<Rightarrow> walk_state \<Rightarrow> walk_state" where
  "note_missing h s =
     (if h \<in> missed s then s
      else s\<lparr>missed := insert h (missed s), missing := missing s @ [h]\<rparr>)"

definition note_found :: "bytes \<Rightarrow> expr \<Rightarrow> walk_state \<Rightarrow> walk_state" where
  "note_found h e s =
     (if h \<in> seen s then s else s\<lparr>seen := insert h (seen s), found := found s @ [e]\<rparr>)"

definition walk_children :: "(bytes \<Rightarrow> bytes) \<Rightarrow> rule \<Rightarrow> expr \<Rightarrow> (rule \<times> bytes) list" where
  "walk_children H r e =
     (if base_of e \<noteq> BLink then []
      else (case r of
              RPair rh rt \<Rightarrow> [(rh, get_expr_head_hash H e), (rt, get_expr_tail_hash H e)]
            | RRepeat rh \<Rightarrow> [(rh, get_expr_head_hash H e), (r, get_expr_tail_hash H e)]
            | _ \<Rightarrow> []))"

definition walk_step ::
  "(bytes \<Rightarrow> bytes) \<Rightarrow> (bytes \<Rightarrow> expr option) \<Rightarrow> rule \<times> bytes \<Rightarrow> walk_state
     \<Rightarrow> walk_state \<times> (rule \<times> bytes) list" where
  "walk_step H load item s =
     (let (r, h) = item in
      if walk_skips H r h then (s, [])
      else (case load h of
              None \<Rightarrow> (note_missing h s, [])
            | Some e \<Rightarrow> (note_found h e s, walk_children H r e)))"

text \<open>The loop, with fuel: \<open>None\<close> means that the fuel ran out, never that the code returned.\<close>

fun walk_loop ::
  "(bytes \<Rightarrow> bytes) \<Rightarrow> (bytes \<Rightarrow> expr option) \<Rightarrow> nat \<Rightarrow> (rule \<times> bytes) list \<Rightarrow> walk_state
     \<Rightarrow> walk_state option" where
  "walk_loop H load n [] s = Some s"
| "walk_loop H load 0 (item # stack) s = None"
| "walk_loop H load (Suc n) (item # stack) s =
     (let (s', children) = walk_step H load item s in walk_loop H load n (children @ stack) s')"

definition walk_shape ::
  "(bytes \<Rightarrow> bytes) \<Rightarrow> (bytes \<Rightarrow> expr option) \<Rightarrow> nat \<Rightarrow> rule \<Rightarrow> bytes \<Rightarrow> (expr list \<times> bytes list) option" where
  "walk_shape H load fuel r root =
     map_option (\<lambda>s. (found s, missing s))
       (walk_loop H load fuel [(r, root)]
         \<lparr>found = [], missing = [], seen = {}, missed = {}\<rparr>)"

text \<open>
  The specification: the pairs of a rule and a hash that a shape demands from a start.
\<close>

inductive demands ::
  "(bytes \<Rightarrow> bytes) \<Rightarrow> (bytes \<Rightarrow> expr option) \<Rightarrow> rule \<times> bytes \<Rightarrow> rule \<times> bytes \<Rightarrow> bool"
  for H load where
  here: "demands H load i i"
| below: "demands H load i (r, h) \<Longrightarrow> \<not> walk_skips H r h \<Longrightarrow> load h = Some e \<Longrightarrow>
     j \<in> set (walk_children H r e) \<Longrightarrow> demands H load i j"

inductive_cases demandsE: "demands H load i j"

lemma demands_trans: "demands H load j k \<Longrightarrow> demands H load i j \<Longrightarrow> demands H load i k"
  by (induction rule: demands.induct) (auto intro: demands.intros)

definition demanded_exprs ::
  "(bytes \<Rightarrow> bytes) \<Rightarrow> (bytes \<Rightarrow> expr option) \<Rightarrow> rule \<times> bytes \<Rightarrow> expr set" where
  "demanded_exprs H load i =
     {e. \<exists>r h. demands H load i (r, h) \<and> \<not> walk_skips H r h \<and> load h = Some e}"

definition demanded_missing ::
  "(bytes \<Rightarrow> bytes) \<Rightarrow> (bytes \<Rightarrow> expr option) \<Rightarrow> rule \<times> bytes \<Rightarrow> bytes set" where
  "demanded_missing H load i =
     {h. \<exists>r. demands H load i (r, h) \<and> \<not> walk_skips H r h \<and> load h = None}"

lemma demands_unfold:
  "demands H load (r, h) j \<longleftrightarrow>
     j = (r, h) \<or> (\<not> walk_skips H r h \<and>
       (\<exists>e. load h = Some e \<and> (\<exists>c \<in> set (walk_children H r e). demands H load c j)))"
  (is "?L \<longleftrightarrow> ?R")
proof
  show "?L \<Longrightarrow> ?R"
    by (induction "(r, h)" j rule: demands.induct) (auto intro: demands.intros)
  show "?R \<Longrightarrow> ?L"
    by (auto intro: demands.here demands_trans [OF _ demands.below [OF demands.here]])
qed

text \<open>One step moves what an item demands into the state and the stack, and loses nothing.\<close>

lemma demanded_step:
  assumes "walk_step H load (r, h) s = (s', cs)"
    and inv: "\<And>h. h \<in> seen s \<Longrightarrow> \<exists>e. load h = Some e \<and> e \<in> set (found s)"
      "missed s = set (missing s)"
  shows "set (found s') \<union> (\<Union>c \<in> set cs. demanded_exprs H load c)
           = set (found s) \<union> demanded_exprs H load (r, h)"
    and "set (missing s') \<union> (\<Union>c \<in> set cs. demanded_missing H load c)
           = set (missing s) \<union> demanded_missing H load (r, h)"
    and "\<And>h. h \<in> seen s' \<Longrightarrow> \<exists>e. load h = Some e \<and> e \<in> set (found s')"
    and "missed s' = set (missing s')"
proof -
  have seen: "e \<in> set (found s)" if "h \<in> seen s" "load h = Some e" for e
    using inv(1) [OF that(1)] that(2) by auto
  have E: "demanded_exprs H load (r, h) =
      (if walk_skips H r h then {} else
        (case load h of None \<Rightarrow> {}
         | Some e \<Rightarrow> insert e (\<Union>c \<in> set (walk_children H r e). demanded_exprs H load c)))"
    unfolding demanded_exprs_def by (subst demands_unfold) (auto split: option.splits)
  have M: "demanded_missing H load (r, h) =
      (if walk_skips H r h then {} else
        (case load h of None \<Rightarrow> {h}
         | Some e \<Rightarrow> (\<Union>c \<in> set (walk_children H r e). demanded_missing H load c)))"
    unfolding demanded_missing_def by (subst demands_unfold) (auto split: option.splits)
  show "set (found s') \<union> (\<Union>c \<in> set cs. demanded_exprs H load c)
           = set (found s) \<union> demanded_exprs H load (r, h)"
    and "set (missing s') \<union> (\<Union>c \<in> set cs. demanded_missing H load c)
           = set (missing s) \<union> demanded_missing H load (r, h)"
    and "\<And>h. h \<in> seen s' \<Longrightarrow> \<exists>e. load h = Some e \<and> e \<in> set (found s')"
    and "missed s' = set (missing s')"
    using assms(1) inv seen unfolding E M
    by (auto simp: walk_step_def note_found_def note_missing_def split: if_splits option.splits) blast
qed

lemma walk_loop_demanded:
  assumes "walk_loop H load n stack s = Some s'"
    and "\<And>h. h \<in> seen s \<Longrightarrow> \<exists>e. load h = Some e \<and> e \<in> set (found s)"
    and "missed s = set (missing s)"
  shows "set (found s') = set (found s) \<union> (\<Union>i \<in> set stack. demanded_exprs H load i)
    \<and> set (missing s') = set (missing s) \<union> (\<Union>i \<in> set stack. demanded_missing H load i)"
  using assms
proof (induction H load n stack s rule: walk_loop.induct)
  case (3 H load n item stack s)
  obtain r h where item: "item = (r, h)" by (cases item)
  obtain s1 cs where st: "walk_step H load (r, h) s = (s1, cs)" by fastforce
  note step = demanded_step [OF st 3(3,4)]
  have "walk_loop H load n (cs @ stack) s1 = Some s'"
    using 3(2) by (simp add: item st)
  then have "set (found s') = set (found s1) \<union> (\<Union>i \<in> set (cs @ stack). demanded_exprs H load i)
      \<and> set (missing s') = set (missing s1) \<union> (\<Union>i \<in> set (cs @ stack). demanded_missing H load i)"
    using 3(1) [OF st [folded item, symmetric] refl] step(3,4) by blast
  then show ?case
    by (simp add: item UN_Un Un_assoc [symmetric] step(1,2))
qed simp_all

lemma note_dup_free:
  assumes "distinct (found s)" "distinct (missing s)" "missed s = set (missing s)"
    and "\<And>e. e \<in> set (found s) \<Longrightarrow> \<exists>h \<in> seen s. load h = Some e"
    and load: "\<And>h e. load h = Some e \<Longrightarrow> expr_hash H e = h"
    and "walk_step H load (r, h) s = (s', cs)"
  shows "distinct (found s') \<and> distinct (missing s') \<and> missed s' = set (missing s')
     \<and> (\<forall>e \<in> set (found s'). \<exists>h \<in> seen s'. load h = Some e)"
proof -
  have "e \<notin> set (found s)" if "load h = Some e" "h \<notin> seen s" for e
    using assms(4) load that by metis
  with assms show ?thesis
    by (auto simp: walk_step_def note_found_def note_missing_def split: if_splits option.splits)
qed

lemma walk_loop_dup_free:
  assumes "walk_loop H load n stack s = Some s'"
    and "\<And>h e. load h = Some e \<Longrightarrow> expr_hash H e = h"
    and "distinct (found s)" "distinct (missing s)" "missed s = set (missing s)"
    and "\<forall>e \<in> set (found s). \<exists>h \<in> seen s. load h = Some e"
  shows "distinct (found s') \<and> distinct (missing s')"
  using assms
proof (induction H load n stack s rule: walk_loop.induct)
  case (3 H load n item stack s)
  obtain r h where item: "item = (r, h)" by (cases item)
  obtain s1 cs where st: "walk_step H load (r, h) s = (s1, cs)" by fastforce
  have inv: "distinct (found s1) \<and> distinct (missing s1) \<and> missed s1 = set (missing s1)
     \<and> (\<forall>e \<in> set (found s1). \<exists>h \<in> seen s1. load h = Some e)"
    by (rule note_dup_free [OF 3(4,5,6) _ 3(3) st]) (use 3(7) in blast)
  have "walk_loop H load n (cs @ stack) s1 = Some s'"
    using 3(2) by (simp add: item st)
  then show ?case using 3(1) [OF st [folded item, symmetric] refl] 3(3) inv by blast
qed simp_all

text \<open>
  Termination needs what content addressing gives: cells that point to each other by hash form no
  cycle, so their hashes have a rank that decreases from a cell to its head and its tail.
\<close>

definition ranked :: "(bytes \<Rightarrow> bytes) \<Rightarrow> (bytes \<Rightarrow> expr option) \<Rightarrow> (bytes \<Rightarrow> nat) \<Rightarrow> bool" where
  "ranked H load rank \<longleftrightarrow>
     (\<forall>h e. load h = Some e \<and> base_of e = BLink \<longrightarrow>
        rank (get_expr_head_hash H e) < rank h \<and> rank (get_expr_tail_hash H e) < rank h)"

lemma walk_children_rank:
  "ranked H load rank \<Longrightarrow> load h = Some e \<Longrightarrow> (r', h') \<in> set (walk_children H r e) \<Longrightarrow> rank h' < rank h"
  by (auto simp: ranked_def walk_children_def split: if_splits rule.splits)

lemma walk_loop_more_fuel:
  "walk_loop H load n stack s = Some s' \<Longrightarrow> n \<le> m \<Longrightarrow> walk_loop H load m stack s = Some s'"
proof (induction H load n stack s arbitrary: m rule: walk_loop.induct)
  case (3 H load n item stack s)
  then obtain m' where m: "m = Suc m'" "n \<le> m'" by (cases m) auto
  obtain s1 cs where st: "walk_step H load item s = (s1, cs)" by fastforce
  with 3(2) have "walk_loop H load n (cs @ stack) s1 = Some s'" by simp
  from 3(1) [OF st [symmetric] refl this m(2)] show ?case by (simp add: m(1) st)
qed simp_all

lemma walk_item_terminates:
  assumes "ranked H load rank"
  shows "(\<And>s. \<exists>n s'. walk_loop H load n stack s = Some s') \<Longrightarrow>
     \<exists>n s'. walk_loop H load n ((r, h) # stack) s = Some s'"
proof (induction "rank h" arbitrary: r h stack s rule: less_induct)
  case less
  obtain s1 cs where st: "walk_step H load (r, h) s = (s1, cs)" by fastforce
  have "\<exists>n s'. walk_loop H load n (cs @ stack) s1 = Some s'"
  proof (cases "cs = []")
    case True
    then show ?thesis using less(2) by simp
  next
    case False
    then obtain e where e: "load h = Some e" "cs = walk_children H r e"
      using st by (auto simp: walk_step_def split: if_splits option.splits)
    then obtain a b where cs: "cs = [a, b]"
      using False by (auto simp: walk_children_def split: if_splits rule.splits)
    have "rank (snd a) < rank h" "rank (snd b) < rank h"
      using walk_children_rank [OF assms e(1)] cs e(2) by (metis list.set_intros prod.collapse)+
    then have "\<exists>n s'. walk_loop H load n (a # b # stack) s1 = Some s'"
      using less(1) [of "snd a" "b # stack" "fst a"] less(1) [of "snd b" stack "fst b", OF _ less(2)]
      by simp
    then show ?thesis by (simp add: cs)
  qed
  then obtain n s' where "walk_loop H load n (cs @ stack) s1 = Some s'" by blast
  then have "walk_loop H load (Suc n) ((r, h) # stack) s = Some s'" by (simp add: st)
  then show ?case by blast
qed

text \<open>
  C21: on a store whose cells form no cycle, \<open>walk_shape\<close> returns, and its result is the one the
  shape demands: each expr found and each hash reported missing is reached by the rules, everything
  they reach is reported, and nothing twice. More fuel does not change the result.
\<close>

theorem walk_shape_correct:
  assumes "ranked H load rank"
    and "\<And>h e. load h = Some e \<Longrightarrow> expr_hash H e = h"
  shows "\<exists>n fs ms. (\<forall>m \<ge> n. walk_shape H load m r root = Some (fs, ms))
     \<and> set fs = demanded_exprs H load (r, root) \<and> set ms = demanded_missing H load (r, root)
     \<and> distinct fs \<and> distinct ms"
proof -
  let ?s = "\<lparr>found = [], missing = [], seen = {}, missed = {}\<rparr>"
  obtain n s' where run: "walk_loop H load n [(r, root)] ?s = Some s'"
    using walk_item_terminates [OF assms(1), of "[]" r root ?s] by auto
  have "\<forall>m \<ge> n. walk_shape H load m r root = Some (found s', missing s')"
    using walk_loop_more_fuel [OF run] by (simp add: walk_shape_def)
  moreover have "set (found s') = demanded_exprs H load (r, root)
      \<and> set (missing s') = demanded_missing H load (r, root)"
    using walk_loop_demanded [OF run] by simp
  moreover have "distinct (found s') \<and> distinct (missing s')"
    by (rule walk_loop_dup_free [OF run assms(2)]) simp_all
  ultimately show ?thesis by blast
qed

text \<open>A store of two cells, a pair and the bytes cell its head names.\<close>

definition demo_child :: expr where
  "demo_child = Bytes [7]"

definition demo_root :: expr where
  "demo_root = Link None None None (Some (expr_hash toy_hash demo_child)) (Some ZERO32)"

definition demo_load :: "bytes \<Rightarrow> expr option" where
  "demo_load h =
     (if h = expr_hash toy_hash demo_root then Some demo_root
      else if h = expr_hash toy_hash demo_child then Some demo_child else None)"

lemma demo_hashes:
  "expr_hash toy_hash demo_child \<noteq> expr_hash toy_hash demo_root"
  "ZERO32 \<noteq> expr_hash toy_hash demo_root"
proof -
  have c: "expr_hash toy_hash demo_child = 2 # 7 # replicate 30 0"
    by (simp add: demo_child_def terminal_hash_def toy_hash_def ZERO32_def numeral_eq_Suc)
  have r: "take 2 (expr_hash toy_hash demo_root) = [0, 2]"
    by (simp add: demo_root_def c link_hash_def toy_hash_def numeral_eq_Suc)
  show "expr_hash toy_hash demo_child \<noteq> expr_hash toy_hash demo_root"
  proof
    assume "expr_hash toy_hash demo_child = expr_hash toy_hash demo_root"
    with r have "take 2 (expr_hash toy_hash demo_child) = [0, 2]" by simp
    then show False by (simp add: c)
  qed
  show "ZERO32 \<noteq> expr_hash toy_hash demo_root"
  proof
    assume "ZERO32 = expr_hash toy_hash demo_root"
    with r have "take 2 ZERO32 = [0, 2]" by simp
    then show False by (simp add: ZERO32_def numeral_eq_Suc)
  qed
qed

lemma walk_shape_correct_witness:
  "\<exists>n fs ms. (\<forall>m \<ge> n. walk_shape toy_hash demo_load m (RPair RSend RHold) (expr_hash toy_hash demo_root) = Some (fs, ms))
     \<and> set fs = demanded_exprs toy_hash demo_load (RPair RSend RHold, expr_hash toy_hash demo_root)
     \<and> set ms = demanded_missing toy_hash demo_load (RPair RSend RHold, expr_hash toy_hash demo_root)
     \<and> distinct fs \<and> distinct ms"
proof (rule walk_shape_correct)
  show "ranked toy_hash demo_load (\<lambda>h. if h = expr_hash toy_hash demo_root then 1 else 0)"
    using demo_hashes by (auto simp: ranked_def demo_load_def demo_root_def demo_child_def split: if_splits)
  show "\<And>h e. demo_load h = Some e \<Longrightarrow> expr_hash toy_hash e = h"
    by (auto simp: demo_load_def split: if_splits)
qed

end
