(* ===== verification/Radix_Bits.thy ===== *)
theory Radix_Bits
  imports Astreum_Prelude
begin

text \<open>
  The bit level of the radix tree: \<open>src/astreum/storage/radix/tree/bit.py\<close> and \<open>utils.py\<close>, with
  what they mean on lists of bits. Indices are Python integers: a negative index of a byte string
  counts from its end, one outside raises \<open>IndexError\<close>, a negative shift raises \<open>ValueError\<close>.
\<close>

unbundle bit_operations_syntax

section \<open>The code\<close>

definition py_index :: "'a list \<Rightarrow> int \<Rightarrow> 'a option" where
  "py_index xs i =
     (let n = int (length xs); j = (if i < 0 then n + i else i)
      in if 0 \<le> j \<and> j < n then Some (xs ! nat j) else None)"

definition get_bit :: "bytes \<Rightarrow> int \<Rightarrow> bool option" where
  "get_bit buf idx =
     (case py_index buf (idx div 8) of
        None \<Rightarrow> None
      | Some b \<Rightarrow> Some (drop_bit (7 - nat (idx mod 8)) b AND 1 = 1))"

fun match_bits :: "bytes \<Rightarrow> bytes \<Rightarrow> int \<Rightarrow> int \<Rightarrow> nat \<Rightarrow> exc + bool" where
  "match_bits prefix key offset i 0 = Inr True"
| "match_bits prefix key offset i (Suc n) =
     (case (get_bit prefix i, get_bit key (offset + i)) of
        (Some a, Some b) \<Rightarrow> if a \<noteq> b then Inr False else match_bits prefix key offset (i + 1) n
      | _ \<Rightarrow> Inl IndexError)"

definition match_prefix :: "bytes \<Rightarrow> int \<Rightarrow> bytes \<Rightarrow> int \<Rightarrow> exc + bool" where
  "match_prefix prefix prefix_len key key_bit_offset =
     (if key_bit_offset + prefix_len > int (length key) * 8 then Inr False
      else match_bits prefix key key_bit_offset 0 (nat prefix_len))"

definition bit_slice :: "bytes \<Rightarrow> int \<Rightarrow> int \<Rightarrow> exc + bytes \<times> int" where
  "bit_slice buf start_bit len =
     (if len = 0 then Inr ([], 0)
      else
        (let total = be_uint buf;
             shift = int (length buf) * 8 - (start_bit + len)
         in if shift < 0 \<or> len < 0 then Inl (ValueError ''negative shift count'')
            else
              (let slice = drop_bit (nat shift) total AND (push_bit (nat len) 1 - 1);
                   pad = (8 - len mod 8) mod 8
               in Inr (be_bytes (nat ((len + 7) div 8)) (push_bit (nat pad) slice), len))))"

text \<open>\<open>f"{byte:08b}"\<close>: the eight bits of a byte, the highest first.\<close>

definition byte_bits :: "byte \<Rightarrow> bool list" where
  "byte_bits b = map (bit b) [7, 6, 5, 4, 3, 2, 1, 0]"

definition bits_of :: "bytes \<Rightarrow> bool list" where
  "bits_of bs = concat (map byte_bits bs)"

definition bits_from_payload :: "bytes \<Rightarrow> int \<Rightarrow> bool list" where
  "bits_from_payload payload n =
     (if n \<le> 0 \<or> payload = [] then [] else take (nat n) (bits_of payload))"

text \<open>\<open>int(bit_string, 2)\<close>\<close>

definition bits_val :: "bool list \<Rightarrow> int" where
  "bits_val bs = foldl (\<lambda>v b. 2 * v + of_bool b) 0 bs"

definition bits_to_bytes :: "bool list \<Rightarrow> bytes" where
  "bits_to_bytes bs =
     (if bs = [] then []
      else
        (let padded = bs @ replicate ((8 - length bs mod 8) mod 8) False
         in be_bytes (length padded div 8) (bits_val padded)))"

section \<open>Bits, values and bytes\<close>

lemma length_byte_bits [simp]: "length (byte_bits b) = 8"
  by (simp add: byte_bits_def)

lemma length_bits_of [simp]: "length (bits_of bs) = 8 * length bs"
  by (induction bs) (simp_all add: bits_of_def)

lemma bits_of_Nil [simp]: "bits_of [] = []"
  by (simp add: bits_of_def)

lemma bits_of_Cons: "bits_of (b # bs) = byte_bits b @ bits_of bs"
  by (simp add: bits_of_def)

lemma bits_of_append [simp]: "bits_of (xs @ ys) = bits_of xs @ bits_of ys"
  by (simp add: bits_of_def)

lemma nth_byte_bits: "i < 8 \<Longrightarrow> byte_bits b ! i = bit b (7 - i)"
  by (simp add: byte_bits_def numeral_eq_Suc less_Suc_eq) auto

lemma nth_bits_of:
  "i < 8 * length bs \<Longrightarrow> bits_of bs ! i = bit (bs ! (i div 8)) (7 - i mod 8)"
proof (induction bs arbitrary: i)
  case Nil
  then show ?case by simp
next
  case (Cons b bs)
  show ?case
  proof (cases "i < 8")
    case True
    then show ?thesis by (simp add: bits_of_Cons nth_append nth_byte_bits)
  next
    case False
    then have "i div 8 = Suc ((i - 8) div 8)" and "(i - 8) mod 8 = i mod 8"
      by (simp_all add: le_div_geq le_mod_geq)
    with False Cons show ?thesis by (simp add: bits_of_Cons nth_append)
  qed
qed

lemma get_bit_eq:
  assumes "0 \<le> i" "i < 8 * int (length buf)"
  shows "get_bit buf i = Some (bits_of buf ! nat i)"
proof -
  have "i div 8 < int (length buf)" "0 \<le> i div 8" using assms by simp_all
  then have "py_index buf (i div 8) = Some (buf ! (nat i div 8))"
    using assms(1) by (simp add: py_index_def Let_def nat_div_distrib)
  moreover have "nat (i mod 8) = nat i mod 8" using assms(1) by (simp add: nat_mod_distrib)
  moreover have "drop_bit k b AND 1 = 1 \<longleftrightarrow> bit b k" for b :: byte and k
    by (simp add: and_one_eq mod_2_eq_odd bit_iff_odd_drop_bit)
  ultimately show ?thesis
    using assms by (simp add: get_bit_def nth_bits_of)
qed

lemma get_bit_out: "8 * int (length buf) \<le> i \<Longrightarrow> get_bit buf i = None"
proof -
  assume "8 * int (length buf) \<le> i"
  then have "int (length buf) \<le> i div 8" by linarith
  then show ?thesis by (simp add: get_bit_def py_index_def Let_def)
qed

lemma match_bits_eq:
  assumes "0 \<le> i" "0 \<le> off" "i + int n \<le> 8 * int (length prefix)"
    "off + i + int n \<le> 8 * int (length key)"
  shows "match_bits prefix key off i n =
     Inr (take n (drop (nat i) (bits_of prefix)) = take n (drop (nat (off + i)) (bits_of key)))"
  using assms
proof (induction prefix key off i n rule: match_bits.induct)
  case (2 prefix key off i n)
  have d: "take (Suc n) (drop (nat i) (bits_of prefix)) =
      bits_of prefix ! nat i # take n (drop (nat (i + 1)) (bits_of prefix))"
    using 2 by (subst Cons_nth_drop_Suc [symmetric]) (simp_all add: nat_add_distrib)
  have e: "take (Suc n) (drop (nat (off + i)) (bits_of key)) =
      bits_of key ! nat (off + i) # take n (drop (nat (off + (i + 1))) (bits_of key))"
    using 2 by (subst Cons_nth_drop_Suc [symmetric]) (simp_all add: nat_add_distrib)
  have "get_bit prefix i = Some (bits_of prefix ! nat i)"
    and "get_bit key (off + i) = Some (bits_of key ! nat (off + i))"
    using 2 by (auto intro!: get_bit_eq)
  then show ?case
    using 2 by (simp only: match_bits.simps option.case prod.case d e) (simp add: add.assoc)
qed simp

text \<open>Prefixes whose stated length their bytes hold: what every node the code builds has.\<close>

definition fits :: "bytes \<Rightarrow> int \<Rightarrow> bool" where
  "fits buf n \<longleftrightarrow> 0 \<le> n \<and> n \<le> 8 * int (length buf)"

definition prefix_bits :: "bytes \<Rightarrow> int \<Rightarrow> bool list" where
  "prefix_bits buf n = take (nat n) (bits_of buf)"

lemma length_prefix_bits: "fits buf n \<Longrightarrow> int (length (prefix_bits buf n)) = n"
  by (auto simp: fits_def prefix_bits_def)

lemma match_prefix_eq:
  assumes "fits buf n" "0 \<le> off" "off \<le> 8 * int (length key)"
  shows "match_prefix buf n key off =
     Inr (take (nat n) (drop (nat off) (bits_of key)) = prefix_bits buf n)"
proof (cases "off + n > int (length key) * 8")
  case True
  have "length (take (nat n) (drop (nat off) (bits_of key))) < nat n"
    using True assms by (simp add: fits_def)
  moreover have "length (prefix_bits buf n) = nat n"
    using assms by (auto simp: fits_def prefix_bits_def)
  ultimately have "take (nat n) (drop (nat off) (bits_of key)) \<noteq> prefix_bits buf n" by force
  with True show ?thesis by (simp add: match_prefix_def)
next
  case False
  then have "match_bits buf key off 0 (nat n) =
      Inr (take (nat n) (bits_of buf) = take (nat n) (drop (nat off) (bits_of key)))"
    using assms match_bits_eq [of 0 off "nat n" buf key] by (simp add: fits_def)
  with False show ?thesis by (auto simp: match_prefix_def prefix_bits_def)
qed

section \<open>Slices\<close>

lemma bits_val_Nil [simp]: "bits_val [] = 0"
  by (simp add: bits_val_def)

lemma bits_val_snoc: "bits_val (xs @ [b]) = 2 * bits_val xs + of_bool b"
  by (simp add: bits_val_def)

lemma bits_val_append: "bits_val (xs @ ys) = bits_val xs * 2 ^ length ys + bits_val ys"
proof (induction ys rule: rev_induct)
  case (snoc b ys)
  then show ?case
    by (simp add: bits_val_snoc algebra_simps flip: append_assoc)
qed simp

lemma bits_val_bounds: "0 \<le> bits_val xs \<and> bits_val xs < 2 ^ length xs"
proof (induction xs rule: rev_induct)
  case (snoc b xs)
  then show ?case by (auto simp: bits_val_snoc)
qed simp

lemma bits_val_zeros [simp]: "bits_val (replicate n False) = 0"
proof (induction n)
  case (Suc n)
  have "replicate (Suc n) False = replicate n False @ [False]"
    by (simp add: replicate_append_same)
  with Suc show ?case by (simp only: bits_val_snoc) simp
qed simp

lemma bits_val_inj: "length xs = length ys \<Longrightarrow> bits_val xs = bits_val ys \<Longrightarrow> xs = ys"
proof (induction xs ys rule: rev_induct2)
  case (4 x xs y ys)
  have e: "2 * bits_val xs + of_bool x = 2 * bits_val ys + of_bool y"
    using 4(3) by (simp add: bits_val_snoc)
  have "x = y" using arg_cong [OF e, of even] by (cases x; cases y; simp)
  moreover have "bits_val xs = bits_val ys" using e calculation by simp
  ultimately show ?case using 4 by simp
qed simp_all

lemma bits_val_horner: "bits_val xs = horner_sum of_bool 2 (rev xs)"
  by (induction xs rule: rev_induct) (simp_all add: bits_val_snoc)

lemma bits_val_byte: "bits_val (byte_bits b) = uint b"
proof -
  have "rev (byte_bits b) = map (bit (uint b)) [0..<8]"
    by (simp add: byte_bits_def numeral_eq_Suc bit_uint_iff)
  then have "bits_val (byte_bits b) = take_bit 8 (uint b)"
    by (simp only: bits_val_horner horner_sum_bit_eq_take_bit)
  also have "\<dots> = uint b"
    using uint_byte_bound [of b] by (simp add: take_bit_int_eq_self)
  finally show ?thesis .
qed

lemma le_uint_append: "le_uint (xs @ ys) = le_uint xs + 2 ^ (8 * length xs) * le_uint ys"
  by (induction xs) (simp_all add: algebra_simps power_add)

lemma be_uint_Cons: "be_uint (b # bs) = uint b * 2 ^ (8 * length bs) + be_uint bs"
  by (simp add: be_uint_def le_uint_append)

lemma bits_val_bits_of: "bits_val (bits_of bs) = be_uint bs"
  by (induction bs) (simp_all add: be_uint_Cons bits_of_Cons bits_val_append bits_val_byte, simp add: be_uint_def)

lemma bits_of_be_bytes:
  assumes "length xs = 8 * n"
  shows "bits_of (be_bytes n (bits_val xs)) = xs"
proof (rule bits_val_inj)
  show "length (bits_of (be_bytes n (bits_val xs))) = length xs"
    by (simp add: assms)
  show "bits_val (bits_of (be_bytes n (bits_val xs))) = bits_val xs"
    using bits_val_bounds [of xs] by (simp add: bits_val_bits_of be_uint_be_bytes assms)
qed

text \<open>A bit list padded with zeros to whole bytes.\<close>

definition pad_bits :: "bool list \<Rightarrow> bool list" where
  "pad_bits xs = xs @ replicate ((8 - length xs mod 8) mod 8) False"

lemma length_pad_bits: "length (pad_bits xs) = 8 * ((length xs + 7) div 8)"
proof -
  have "length xs + (8 - length xs mod 8) mod 8 = 8 * ((length xs + 7) div 8)"
  proof -
    define q where "q = length xs div 8"
    define r where "r = length xs mod 8"
    have l: "length xs = 8 * q + r" and r: "r < 8" by (simp_all add: q_def r_def)
    have "(8 * q + r + 7) div 8 = q + (if r = 0 then 0 else 1)"
      using r by auto
    moreover have "(8 - r) mod 8 = (if r = 0 then 0 else 8 - r)" using r by simp
    moreover have "(8 * q + r) mod 8 = r" using r by simp
    ultimately show ?thesis using r by (simp add: l)
  qed
  then show ?thesis by (simp add: pad_bits_def)
qed

lemma bits_to_bytes_eq: "bits_to_bytes xs = be_bytes ((length xs + 7) div 8) (bits_val (pad_bits xs))"
proof (cases "xs = []")
  case True
  then show ?thesis by (simp add: bits_to_bytes_def be_bytes_def pad_bits_def)
next
  case False
  have "length (xs @ replicate ((8 - length xs mod 8) mod 8) False) div 8 = (length xs + 7) div 8"
    using length_pad_bits [of xs] by (simp only: pad_bits_def [symmetric])
  with False show ?thesis
    unfolding bits_to_bytes_def pad_bits_def Let_def by (simp only: if_False)
qed

lemma bits_of_bits_to_bytes: "bits_of (bits_to_bytes xs) = pad_bits xs"
  by (simp add: bits_to_bytes_eq bits_of_be_bytes length_pad_bits)

lemma bits_to_bytes_bits_of: "bits_to_bytes (bits_of bs) = bs"
  by (simp add: bits_to_bytes_eq pad_bits_def bits_val_bits_of)
    (simp add: be_bytes_def be_uint_def, metis le_bytes_le_uint length_rev rev_rev_ident)

lemma prefix_bits_to_bytes: "prefix_bits (bits_to_bytes xs) (int (length xs)) = xs"
  by (simp add: prefix_bits_def bits_of_bits_to_bytes pad_bits_def)

lemma fits_bits_to_bytes: "fits (bits_to_bytes xs) (int (length xs))"
proof -
  have "8 * length (bits_to_bytes xs) = length (pad_bits xs)"
    by (metis bits_of_bits_to_bytes length_bits_of)
  then show ?thesis by (simp add: fits_def pad_bits_def)
qed

text \<open>
  \<open>_bit_slice\<close> is the slice of the bit list: shift, mask and pad on the big-endian integer of the
  buffer give the bytes of the bits \<open>start .. start + len\<close>, padded with zeros.
\<close>

lemma bit_slice_eq:
  assumes "0 \<le> start" "0 \<le> len" "start + len \<le> 8 * int (length buf)"
  shows "bit_slice buf start len =
     Inr (bits_to_bytes (take (nat len) (drop (nat start) (bits_of buf))), len)"
proof (cases "len = 0")
  case True
  then show ?thesis by (simp add: bit_slice_def bits_to_bytes_def)
next
  case False
  define pre where "pre = take (nat start) (bits_of buf)"
  define mid where "mid = take (nat len) (drop (nat start) (bits_of buf))"
  define post where "post = drop (nat (start + len)) (bits_of buf)"
  have split: "bits_of buf = pre @ mid @ post"
    using assms(1,2) by (simp add: pre_def mid_def post_def nat_add_distrib add.commute
        flip: drop_drop)
  have lens: "int (length mid) = len" "int (length post) = int (length buf) * 8 - (start + len)"
    using assms by (simp_all add: mid_def post_def nat_add_distrib)
  have total: "be_uint buf = (bits_val pre * 2 ^ length mid + bits_val mid) * 2 ^ length post + bits_val post"
    unfolding bits_val_bits_of [symmetric] split bits_val_append
    by (simp add: algebra_simps power_add)
  have "drop_bit (length post) (be_uint buf) = bits_val pre * 2 ^ length mid + bits_val mid"
    unfolding total drop_bit_eq_div using bits_val_bounds [of post] by simp
  then have slice: "take_bit (length mid) (drop_bit (length post) (be_uint buf)) = bits_val mid"
    using bits_val_bounds [of mid] by (simp add: take_bit_eq_mod)
  have n: "nat (int (length buf) * 8 - (start + len)) = length post" "nat len = length mid"
    using lens by linarith+
  have pad: "nat ((8 - len mod 8) mod 8) = (8 - length mid mod 8) mod 8"
    using lens(1) by (simp add: nat_mod_as_int flip: lens(1))
  have bytes: "nat ((len + 7) div 8) = (length mid + 7) div 8"
    using lens(1) by (simp add: nat_div_distrib flip: lens(1))
  have "bits_val (pad_bits mid) = push_bit ((8 - length mid mod 8) mod 8) (bits_val mid)"
    by (simp add: pad_bits_def bits_val_append push_bit_eq_mult)
  moreover have "\<not> (int (length buf) * 8 - (start + len) < 0 \<or> len < 0)" using assms by simp
  moreover have "take (length mid) (drop (nat start) (bits_of buf)) = mid"
    unfolding n(2) [symmetric] by (rule mid_def [symmetric])
  ultimately show ?thesis
    using False slice
    by (simp only: bit_slice_def if_False Let_def n pad bytes bits_to_bytes_eq
        mask_eq_exp_minus_1 [symmetric] push_bit_of_1 take_bit_eq_mask [symmetric])
qed

end
