(* ===== verification/Expr_Lists.thy ===== *)
theory Expr_Lists
  imports Expr
begin

text \<open>
  Lists and references made of cells: the list builders and readers of
  \<open>src/astreum/expression/helpers.py\<close>, the collectors of \<open>expr.py\<close>, the stored refs of
  \<open>refs.py\<close> and the pointer readers of \<open>src/astreum/storage/pointers.py\<close>.

  Reading a cell whose parts are known by hash only goes through storage. The storage read is the
  parameter \<open>fetch\<close>; a list that storage makes endless is why the readers take fuel.
\<close>

section \<open>Building lists\<close>

fun exprs_to_linked_expr :: "expr list \<Rightarrow> expr" where
  "exprs_to_linked_expr [] = NIL"
| "exprs_to_linked_expr (x # xs) = cons x (exprs_to_linked_expr xs)"

definition bytes_list_to_expr :: "bytes list \<Rightarrow> expr" where
  "bytes_list_to_expr items = exprs_to_linked_expr (map Bytes items)"

fun link_list_to_expr :: "bytes list \<Rightarrow> expr" where
  "link_list_to_expr [] = NIL"
| "link_list_to_expr (x # xs) = Link None None (Some (link_list_to_expr xs)) (Some x) None"

section \<open>Collecting loaded cells\<close>

fun collect_list :: "expr \<Rightarrow> expr list" where
  "collect_list (Link v h (Some t) hh th) = Link v h (Some t) hh th # collect_list t"
| "collect_list e = [e]"

text \<open>\<open>collect_full\<close>: the loaded cells of a tree, each hash once, in pre-order.\<close>

fun collect_full_from ::
  "(bytes \<Rightarrow> bytes) \<Rightarrow> expr \<Rightarrow> bytes set \<times> expr list \<Rightarrow> bytes set \<times> expr list" where
  "collect_full_from H (Link v h t hh th) (visited, result) =
     (let e = Link v h t hh th; x = expr_hash H e in
      if x \<in> visited then (visited, result)
      else
        (let s1 = (insert x visited, result @ [e]);
             s2 = (case h of None \<Rightarrow> s1 | Some a \<Rightarrow> collect_full_from H a s1)
         in (case t of None \<Rightarrow> s2 | Some b \<Rightarrow> collect_full_from H b s2)))"
| "collect_full_from H e (visited, result) =
     (let x = expr_hash H e in
      if x \<in> visited then (visited, result) else (insert x visited, result @ [e]))"

definition collect_full :: "(bytes \<Rightarrow> bytes) \<Rightarrow> expr \<Rightarrow> expr list" where
  "collect_full H e = snd (collect_full_from H e ({}, []))"

section \<open>Reading a list\<close>

text \<open>
  One cell of \<open>resolve_list_exprs\<close>: the item it adds, the hash it misses, and the next cell.
\<close>

definition resolve_head ::
  "(bytes \<Rightarrow> expr option) \<Rightarrow> expr \<Rightarrow> expr option \<times> bytes list" where
  "resolve_head fetch c =
     (case head_of c of
        Some h \<Rightarrow> (Some h, [])
      | None \<Rightarrow>
          (case head_hash_of c of
             Some x \<Rightarrow>
               if value_of c \<noteq> None then (None, [])
               else if x = ZERO32 then (Some NIL, [])
               else (case fetch x of Some h \<Rightarrow> (Some h, []) | None \<Rightarrow> (None, [x]))
           | None \<Rightarrow> (None, [])))"

definition resolve_tail ::
  "(bytes \<Rightarrow> expr option) \<Rightarrow> expr \<Rightarrow> expr option \<times> bytes list" where
  "resolve_tail fetch c =
     (case tail_of c of
        Some t \<Rightarrow> (Some t, [])
      | None \<Rightarrow>
          (case tail_hash_of c of
             Some x \<Rightarrow>
               if x = ZERO32 then (None, [])
               else (case fetch x of Some t \<Rightarrow> (Some t, []) | None \<Rightarrow> (None, [x]))
           | None \<Rightarrow> (None, [])))"

fun resolve_list_exprs ::
  "(bytes \<Rightarrow> expr option) \<Rightarrow> nat \<Rightarrow> expr option \<Rightarrow> (expr list \<times> bytes list) option" where
  "resolve_list_exprs fetch n None = Some ([], [])"
| "resolve_list_exprs fetch 0 (Some c) = None"
| "resolve_list_exprs fetch (Suc n) (Some c) =
     (if base_of c \<noteq> BLink then Some ([], [])
      else
        (let (h, m1) = resolve_head fetch c;
             (t, m2) = resolve_tail fetch c
         in map_option (\<lambda>(rs, ms). ((case h of Some x \<Rightarrow> [x] | None \<Rightarrow> []) @ rs, m1 @ m2 @ ms))
              (resolve_list_exprs fetch n t)))"

text \<open>\<open>resolve_inner_exprs\<close>: every cell below an expr, fetching what is not loaded.\<close>

fun resolve_inner_exprs ::
  "(bytes \<Rightarrow> expr option) \<Rightarrow> nat \<Rightarrow> expr \<Rightarrow> (expr list \<times> bytes list) option" where
  "resolve_inner_exprs fetch 0 e = None"
| "resolve_inner_exprs fetch (Suc n) e =
     (if base_of e \<noteq> BLink then Some ([e], [])
      else
        (let (h, m1) =
               (case head_of e of
                  Some x \<Rightarrow> (Some x, [])
                | None \<Rightarrow>
                    (case head_hash_of e of
                       Some x \<Rightarrow>
                         if value_of e \<noteq> None then (None, [])
                         else (case fetch x of Some y \<Rightarrow> (Some y, []) | None \<Rightarrow> (None, [x]))
                     | None \<Rightarrow> (None, [])));
             (t, m2) =
               (case tail_of e of
                  Some x \<Rightarrow> (Some x, [])
                | None \<Rightarrow>
                    (case tail_hash_of e of
                       Some x \<Rightarrow> (case fetch x of Some y \<Rightarrow> (Some y, []) | None \<Rightarrow> (None, [x]))
                     | None \<Rightarrow> (None, [])));
             below = (\<lambda>c. case c of None \<Rightarrow> Some ([], []) | Some x \<Rightarrow> resolve_inner_exprs fetch n x)
         in Option.bind (below h) (\<lambda>(hs, hm).
            Option.bind (below t) (\<lambda>(ts, tm).
              Some (e # hs @ ts, m1 @ hm @ m2 @ tm)))))"

lemma resolve_list_more_fuel:
  "resolve_list_exprs fetch n c = Some r \<Longrightarrow> n \<le> m \<Longrightarrow> resolve_list_exprs fetch m c = Some r"
proof (induction fetch n c arbitrary: r m rule: resolve_list_exprs.induct)
  case (3 fetch n c)
  then obtain m' where m: "m = Suc m'" "n \<le> m'" by (cases m) auto
  show ?case
  proof (cases "base_of c \<noteq> BLink")
    case True
    then show ?thesis using 3(2) by (simp add: m)
  next
    case False
    obtain h m1 where h: "resolve_head fetch c = (h, m1)" by fastforce
    obtain t m2 where t: "resolve_tail fetch c = (t, m2)" by fastforce
    from 3(2) False obtain rm where rm: "resolve_list_exprs fetch n t = Some rm"
      by (auto simp: h t)
    from 3(1) [OF False h [symmetric] refl t [symmetric] refl rm m(2)]
    show ?thesis using 3(2) False rm by (simp add: m(1) h t)
  qed
qed simp_all

text \<open>
  Reading a list back gives the list: a list of exprs that is built in memory is read in one
  pass without a storage read, items in order, nothing missing; the fuel is one per cell.
\<close>

theorem resolve_built_list:
  "length items < n \<Longrightarrow>
     resolve_list_exprs fetch n (Some (exprs_to_linked_expr items)) = Some (items, [])"
proof (induction items arbitrary: n)
  case Nil
  then show ?case by (cases n) (auto simp: resolve_head_def resolve_tail_def gr0_conv_Suc)
next
  case (Cons x xs)
  then obtain m where m: "n = Suc m" "length xs < m" by (cases n) auto
  show ?case by (simp add: m Cons.IH [OF m(2)] link_def resolve_head_def resolve_tail_def)
qed

lemma resolve_built_list_witness:
  "resolve_list_exprs (\<lambda>_. None) 3 (Some (exprs_to_linked_expr [Bytes [1], NIL])) = Some ([Bytes [1], NIL], [])"
  by (rule resolve_built_list) simp

text \<open>A list of hashes resolves each item through storage, the zero hash to \<open>NIL\<close>.\<close>

lemma resolve_link_list:
  "length hs < n \<Longrightarrow>
     resolve_list_exprs fetch n (Some (link_list_to_expr hs)) =
       Some (concat (map (\<lambda>x. if x = ZERO32 then [NIL]
                              else case fetch x of Some e \<Rightarrow> [e] | None \<Rightarrow> []) hs),
             filter (\<lambda>x. x \<noteq> ZERO32 \<and> fetch x = None) hs)"
proof (induction hs arbitrary: n)
  case Nil
  then show ?case by (cases n) (auto simp: resolve_head_def resolve_tail_def gr0_conv_Suc)
next
  case (Cons x xs)
  then obtain m where m: "n = Suc m" "length xs < m" by (cases n) auto
  show ?case by (simp add: m Cons.IH [OF m(2)] resolve_head_def resolve_tail_def split: option.split)
qed

section \<open>Stored refs\<close>

datatype side = Head | Tail

type_synonym part_reader = "expr \<Rightarrow> side \<Rightarrow> exc + expr option"

definition ref_expr :: "bytes \<Rightarrow> bytes \<Rightarrow> expr" where
  "ref_expr block_id expr_id =
     cons (Bytes block_id) (cons (Bytes expr_id) (cons (symbol ''ref'') NIL))"

definition pointer_item :: "bytes \<Rightarrow> bytes option \<Rightarrow> expr" where
  "pointer_item expr_id block_id =
     (case block_id of None \<Rightarrow> hash_ref expr_id | Some b \<Rightarrow> ref_expr b expr_id)"

definition is_nil :: "(bytes \<Rightarrow> bytes) \<Rightarrow> expr option \<Rightarrow> bytes option \<Rightarrow> bool" where
  "is_nil H e h =
     (case e of
        None \<Rightarrow> h = None \<or> h = Some ZERO32
      | Some x \<Rightarrow>
          x = NIL \<or>
          (get_expr_builtin_tag H x = u ''link'' \<and> head_of x = None \<and> tail_of x = None
           \<and> head_hash_of x = None \<and> tail_hash_of x = None))"

definition local_part :: part_reader where
  "local_part c s = Inr (case s of Head \<Rightarrow> head_of c | Tail \<Rightarrow> tail_of c)"

definition bytes_leaf :: "expr option \<Rightarrow> bytes option" where
  "bytes_leaf e = (case e of Some (Bytes b) \<Rightarrow> if length b = 32 then Some b else None | _ \<Rightarrow> None)"

definition link_cell :: "(bytes \<Rightarrow> bytes) \<Rightarrow> expr option \<Rightarrow> expr option" where
  "link_cell H e =
     (case e of Some c \<Rightarrow> if get_expr_builtin_tag H c = u ''link'' then Some c else None
      | None \<Rightarrow> None)"

definition stored_ref_target ::
  "(bytes \<Rightarrow> bytes) \<Rightarrow> part_reader \<Rightarrow> expr \<Rightarrow> exc + (bytes \<times> bytes) option" where
  "stored_ref_target H part cell =
     (if get_expr_builtin_tag H cell \<noteq> u ''link'' then Inr None
      else if is_nil H (tail_of cell) (tail_hash_of cell) then Inr None
      else
        bind_exc (part cell Head) (\<lambda>block_leaf. case bytes_leaf block_leaf of None \<Rightarrow> Inr None
        | Some b \<Rightarrow>
        bind_exc (part cell Tail) (\<lambda>second. case link_cell H second of None \<Rightarrow> Inr None
        | Some c2 \<Rightarrow>
        bind_exc (part c2 Head) (\<lambda>id_leaf. case bytes_leaf id_leaf of None \<Rightarrow> Inr None
        | Some x \<Rightarrow>
        bind_exc (part c2 Tail) (\<lambda>third. case link_cell H third of None \<Rightarrow> Inr None
        | Some c3 \<Rightarrow>
        bind_exc (part c3 Head) (\<lambda>marker.
          if marker \<noteq> Some (symbol ''ref'') then Inr None
          else if \<not> is_nil H (tail_of c3) (tail_hash_of c3) then Inr None
          else Inr (Some (b, x))))))))"

text \<open>
  \<open>cell_reader\<close>: a part as loaded, else fetched. With \<open>local\<close> a cell that is not held raises.
  \<open>fetch\<close> is the scoped storage read; \<open>None\<close> for it means that there is no node.
\<close>

definition cell_reader :: "(bytes \<Rightarrow> expr option) option \<Rightarrow> bool \<Rightarrow> part_reader" where
  "cell_reader fetch loc cell s =
     (let child = (case s of Head \<Rightarrow> head_of cell | Tail \<Rightarrow> tail_of cell);
          h = (case s of Head \<Rightarrow> head_hash_of cell | Tail \<Rightarrow> tail_hash_of cell)
      in (case child of
            Some c \<Rightarrow> Inr (Some c)
          | None \<Rightarrow>
              (case h of
                 None \<Rightarrow> Inr None
               | Some x \<Rightarrow>
                   if x = ZERO32 then Inr None
                   else
                     (case fetch of
                        None \<Rightarrow> Inr None
                      | Some f \<Rightarrow>
                          (case f x of
                             Some c \<Rightarrow> Inr (Some c)
                           | None \<Rightarrow>
                               if loc then Inl (ValueError ''cell is not in local storage'')
                               else Inr None)))))"

definition read_pointer ::
  "(bytes \<Rightarrow> bytes) \<Rightarrow> (bytes \<Rightarrow> expr option) option \<Rightarrow> expr \<Rightarrow> bytes option \<Rightarrow> bool
     \<Rightarrow> exc + bytes \<times> bytes option" where
  "read_pointer H fetch cell block_hash loc =
     bind_exc (stored_ref_target H (cell_reader fetch loc) cell) (\<lambda>target.
       Inr (case target of
              Some (b, x) \<Rightarrow> (x, Some b)
            | None \<Rightarrow> (expr_hash H cell, block_hash)))"

definition read_field ::
  "(bytes \<Rightarrow> bytes) \<Rightarrow> (bytes \<Rightarrow> expr option) option \<Rightarrow> expr \<Rightarrow> bytes option
     \<Rightarrow> exc + (bytes \<times> bytes option) option" where
  "read_field H fetch cell block_hash =
     bind_exc (stored_ref_target H (cell_reader fetch False) cell) (\<lambda>target.
       Inr (case target of
              Some (b, x) \<Rightarrow> Some (x, Some b)
            | None \<Rightarrow>
                if get_expr_builtin_tag H cell \<noteq> u ''link'' then None
                else Some (get_referenced_hash H cell, block_hash)))"

lemma builtin_tag_cons: "get_expr_builtin_tag H (cons a (cons b c)) = u ''link''"
  by (simp add: link_def get_expr_builtin_tag_def)

lemma builtin_tag_cons_NIL: "get_expr_builtin_tag H (cons a NIL) = u ''link''"
  by (simp add: link_def get_expr_builtin_tag_def)

lemma stored_ref_target_ref_expr:
  assumes "length b = 32" "length x = 32"
  shows "stored_ref_target H (cell_reader fetch loc) (ref_expr b x) = Inr (Some (b, x))"
  using assms unfolding stored_ref_target_def ref_expr_def
  by (simp add: builtin_tag_cons builtin_tag_cons_NIL)
    (simp add: link_def is_nil_def cell_reader_def bytes_leaf_def link_cell_def Let_def
      get_expr_builtin_tag_def)

lemma stored_ref_target_wrapper:
  "stored_ref_target H part (hash_ref x) = Inr None"
  by (simp add: stored_ref_target_def hash_ref_def is_nil_def get_expr_builtin_tag_def)

text \<open>
  A pointer that a record writes is read back: the field \<open>pointer_item(expr_id, block_id)\<close>
  names the cell and its block, a wrapper stands for the block that holds the record. A stored ref
  is never taken for a wrapper or the other way round, with or without storage at hand.
\<close>

theorem read_field_pointer_item:
  assumes "length x = 32" and "\<And>b. block = Some b \<Longrightarrow> length b = 32"
  shows "read_field H fetch (pointer_item x block) here =
     Inr (Some (x, case block of None \<Rightarrow> here | Some b \<Rightarrow> Some b))"
  using assms
  by (simp add: read_field_def pointer_item_def stored_ref_target_ref_expr stored_ref_target_wrapper
      split: option.split)
    (simp add: hash_ref_def get_expr_builtin_tag_def get_referenced_hash_def)

lemma read_field_pointer_item_witness:
  "read_field toy_hash None (pointer_item (toy_hash [1]) (Some (toy_hash [2]))) None =
     Inr (Some (toy_hash [1], Some (toy_hash [2])))"
  using read_field_pointer_item [of "toy_hash [1]" "Some (toy_hash [2])" toy_hash None None] by simp

text \<open>
  What a stored ref looks like is settled by its cells alone: whenever the reader of a loaded
  cell reports a target, the cell is a list of a 32-byte block id, a 32-byte expr id and the
  symbol \<open>ref\<close>, and nothing after it.
\<close>

theorem stored_ref_shape:
  assumes "stored_ref_target H local_part cell = Inr (Some (b, x))"
  shows "length b = 32 \<and> length x = 32 \<and> head_of cell = Some (Bytes b)
     \<and> (\<exists>c2 c3. tail_of cell = Some c2 \<and> head_of c2 = Some (Bytes x) \<and> tail_of c2 = Some c3
           \<and> head_of c3 = Some (symbol ''ref'') \<and> is_nil H (tail_of c3) (tail_hash_of c3))"
  using assms
  by (auto simp: stored_ref_target_def local_part_def bytes_leaf_def link_cell_def
      split: if_splits option.splits expr.splits)

lemma stored_ref_shape_witness:
  "length (toy_hash [2]) = 32 \<and> length (toy_hash [1]) = 32
   \<and> head_of (ref_expr (toy_hash [2]) (toy_hash [1])) = Some (Bytes (toy_hash [2]))
   \<and> (\<exists>c2 c3. tail_of (ref_expr (toy_hash [2]) (toy_hash [1])) = Some c2
        \<and> head_of c2 = Some (Bytes (toy_hash [1])) \<and> tail_of c2 = Some c3
        \<and> head_of c3 = Some (symbol ''ref'') \<and> is_nil toy_hash (tail_of c3) (tail_hash_of c3))"
proof (rule stored_ref_shape)
  show "stored_ref_target toy_hash local_part (ref_expr (toy_hash [2]) (toy_hash [1]))
      = Inr (Some (toy_hash [2], toy_hash [1]))"
    by (simp add: stored_ref_target_def ref_expr_def builtin_tag_cons builtin_tag_cons_NIL)
      (simp add: link_def is_nil_def local_part_def bytes_leaf_def link_cell_def get_expr_builtin_tag_def)
qed

section \<open>What the collectors return\<close>

lemma collect_full_from_inv:
  assumes "collect_full_from H e (visited, result) = (visited', result')"
    and "distinct (map (expr_hash H) result)" and "visited = set (map (expr_hash H) result)"
  shows "distinct (map (expr_hash H) result') \<and> visited' = set (map (expr_hash H) result')
     \<and> set result \<subseteq> set result' \<and> expr_hash H e \<in> visited'"
  using assms
proof (induction e arbitrary: visited result visited' result')
  case (Link v h t hh th)
  let ?e = "Link v h t hh th"
  let ?x = "expr_hash H ?e"
  show ?case
  proof (cases "?x \<in> visited")
    case True
    with Link.prems show ?thesis by (auto simp: Let_def simp del: expr_hash.simps)
  next
    case False
    define s1 where "s1 = (insert ?x visited, result @ [?e])"
    define s2 where "s2 = (case h of None \<Rightarrow> s1 | Some a \<Rightarrow> collect_full_from H a s1)"
    have res: "(case t of None \<Rightarrow> s2 | Some b \<Rightarrow> collect_full_from H b s2) = (visited', result')"
      using Link.prems(1) False unfolding s2_def s1_def
      by (simp only: collect_full_from.simps Let_def if_False)
    define good where "good = (\<lambda>s :: bytes set \<times> expr list. distinct (map (expr_hash H) (snd s))
        \<and> fst s = set (map (expr_hash H) (snd s)) \<and> set result \<subseteq> set (snd s) \<and> ?x \<in> fst s)"
    have g1: "good s1"
      using Link.prems(2,3) False by (auto simp: good_def s1_def simp del: expr_hash.simps)
    have g2: "good s2"
    proof (cases h)
      case None
      with g1 show ?thesis by (simp add: s2_def)
    next
      case (Some a)
      obtain p q where pq: "collect_full_from H a s1 = (p, q)" by fastforce
      have "a \<in> set_option h" and s1p: "collect_full_from H a (fst s1, snd s1) = (p, q)"
        using Some pq by simp_all
      from Link.IH(1) [OF this] g1
      have new: "distinct (map (expr_hash H) q) \<and> p = set (map (expr_hash H) q)
          \<and> set (snd s1) \<subseteq> set q"
        unfolding good_def by blast
      moreover have "s2 = (p, q)" using Some pq by (simp add: s2_def)
      moreover have "?x \<in> set (map (expr_hash H) (snd s1))" using g1 unfolding good_def by blast
      then have "?x \<in> set (map (expr_hash H) q)" using new unfolding set_map by blast
      ultimately show ?thesis using g1 unfolding good_def by auto
    qed
    have "good (visited', result')"
    proof (cases t)
      case None
      with g2 res show ?thesis by simp
    next
      case (Some b)
      have "b \<in> set_option t" and "collect_full_from H b (fst s2, snd s2) = (visited', result')"
        using res Some by simp_all
      from Link.IH(2) [OF this] g2
      have new: "distinct (map (expr_hash H) result') \<and> visited' = set (map (expr_hash H) result')
          \<and> set (snd s2) \<subseteq> set result'"
        unfolding good_def by blast
      have "?x \<in> set (map (expr_hash H) (snd s2))" using g2 unfolding good_def by blast
      then have "?x \<in> set (map (expr_hash H) result')" using new unfolding set_map by blast
      with new g2 show ?thesis unfolding good_def by auto
    qed
    then show ?thesis unfolding good_def fst_conv snd_conv .
  qed
qed (auto simp: Let_def split: if_splits)

lemma collect_full_distinct: "distinct (map (expr_hash H) (collect_full H e))"
  using collect_full_from_inv [of H e "{}" "[]"] by (cases "collect_full_from H e ({}, [])") (simp add: collect_full_def)

end
