(* ===== verification/Radix_Node.thy ===== *)
theory Radix_Node
  imports Radix_Bits Expr_Lists
begin

text \<open>
  The node of the radix tree: \<open>src/astreum/storage/radix/node/\<close>. A node is written as a list of
  five cells (key length, key, child 0, child 1, value), and named by the hash of that list.

  The code caches a node's hash and expr and clears both when it changes the node. The cache is
  visible in one case only: a node read from storage keeps the hash it was read under, although its
  pointers, tagged with the block they were read from, would be written as stored refs. The field
  \<open>stored_hash\<close> is that case, and \<open>invalidate_radix_node_cache\<close> clears it.
\<close>

section \<open>The node\<close>

datatype rvalue = VExpr expr | VHash bytes

record radix_node =
  key_len :: int
  key :: bytes
  rn_value :: "rvalue option"
  child_0 :: "bytes option"
  child_1 :: "bytes option"
  child_0_block :: "bytes option"
  child_1_block :: "bytes option"
  value_block :: "bytes option"
  stored_hash :: "bytes option"

definition make_node ::
  "bytes \<Rightarrow> int \<Rightarrow> rvalue option \<Rightarrow> bytes option \<Rightarrow> bytes option \<Rightarrow> radix_node" where
  "make_node pbits prefix_len v c0 c1 =
     \<lparr>key_len = prefix_len, key = pbits, rn_value = v, child_0 = c0, child_1 = c1,
      child_0_block = None, child_1_block = None, value_block = None, stored_hash = None\<rparr>"

text \<open>\<open>clone_radix_node\<close> copies every field; a value of the model is its own copy.\<close>

definition clone_radix_node :: "radix_node \<Rightarrow> radix_node" where
  "clone_radix_node n =
     \<lparr>key_len = key_len n, key = key n, rn_value = rn_value n, child_0 = child_0 n,
      child_1 = child_1 n, child_0_block = child_0_block n, child_1_block = child_1_block n,
      value_block = value_block n, stored_hash = stored_hash n\<rparr>"

definition value_hash :: "(bytes \<Rightarrow> bytes) \<Rightarrow> rvalue \<Rightarrow> bytes" where
  "value_hash H v = (case v of VExpr e \<Rightarrow> expr_hash H e | VHash h \<Rightarrow> h)"

section \<open>Writing a node\<close>

text \<open>\<open>_pointer(h, block, rest)\<close>\<close>

definition pointer_cell :: "bytes \<Rightarrow> bytes option \<Rightarrow> expr \<Rightarrow> expr" where
  "pointer_cell h block rest =
     (case block of
        None \<Rightarrow> Link None None (Some rest) (Some h) None
      | Some b \<Rightarrow> cons (ref_expr b h) rest)"

definition child_cell :: "bytes option \<Rightarrow> bytes option \<Rightarrow> expr \<Rightarrow> expr" where
  "child_cell c block rest =
     (case c of
        None \<Rightarrow> cons NIL rest
      | Some h \<Rightarrow> if h = [] then cons NIL rest else pointer_cell h block rest)"

definition value_cell :: "(bytes \<Rightarrow> bytes) \<Rightarrow> radix_node \<Rightarrow> expr" where
  "value_cell H n =
     (case rn_value n of
        None \<Rightarrow> cons NIL NIL
      | Some (VHash h) \<Rightarrow> pointer_cell h (value_block n) NIL
      | Some (VExpr e) \<Rightarrow>
          (case value_block n of
             Some b \<Rightarrow> cons (ref_expr b (expr_hash H e)) NIL
           | None \<Rightarrow> cons e NIL))"

definition convert_radix_node_to_expr :: "(bytes \<Rightarrow> bytes) \<Rightarrow> radix_node \<Rightarrow> expr" where
  "convert_radix_node_to_expr H n =
     cons (int_expr (key_len n))
       (cons (Bytes (key n))
         (child_cell (child_0 n) (child_0_block n)
           (child_cell (child_1 n) (child_1_block n) (value_cell H n))))"

definition radix_node_hash :: "(bytes \<Rightarrow> bytes) \<Rightarrow> radix_node \<Rightarrow> bytes" where
  "radix_node_hash H n =
     (case stored_hash n of
        Some h \<Rightarrow> h
      | None \<Rightarrow> expr_hash H (convert_radix_node_to_expr H n))"

definition invalidate_radix_node_cache :: "radix_node \<Rightarrow> radix_node" where
  "invalidate_radix_node_cache n = n\<lparr>stored_hash := None\<rparr>"

section \<open>Reading a node\<close>

text \<open>
  \<open>get_radix_node_from_storage\<close>. \<open>get_expr\<close> and \<open>get_expr_list\<close> are the storage reads, scoped to
  a block; \<open>fuel\<close> bounds the list walk. The result \<open>None\<close> is fuel that ran out.
\<close>

type_synonym storage_read = "bytes \<Rightarrow> bytes option \<Rightarrow> expr option"

definition read_optional_pointer ::
  "(bytes \<Rightarrow> bytes) \<Rightarrow> (bytes \<Rightarrow> expr option) \<Rightarrow> expr \<Rightarrow> bytes option \<Rightarrow> bool
     \<Rightarrow> exc + bytes option \<times> bytes option" where
  "read_optional_pointer H fetch cell block loc =
     (if cell = NIL then Inr (None, None)
      else bind_exc (read_pointer H (Some fetch) cell block loc) (\<lambda>(x, b). Inr (Some x, b)))"

definition read_node_value ::
  "(bytes \<Rightarrow> bytes) \<Rightarrow> storage_read \<Rightarrow> expr \<Rightarrow> bytes option \<Rightarrow> bool
     \<Rightarrow> exc + rvalue option \<times> bytes option" where
  "read_node_value H get_expr cell block loc =
     (if cell = NIL then Inr (None, None)
      else
        bind_exc (read_pointer H (Some (\<lambda>h. get_expr h block)) cell block loc) (\<lambda>(x, b).
          if x = expr_hash H cell then Inr (Some (VExpr cell), b)
          else (case get_expr x b of
                  None \<Rightarrow> Inl (ValueError ''could not retrieve Radix node value from storage'')
                | Some e \<Rightarrow> Inr (Some (VExpr e), b))))"

definition decode_node_cells ::
  "(bytes \<Rightarrow> bytes) \<Rightarrow> storage_read \<Rightarrow> bytes \<Rightarrow> bytes option \<Rightarrow> bool \<Rightarrow> expr list \<Rightarrow> exc + radix_node" where
  "decode_node_cells H get_expr head_hash block loc elements =
     (case elements of
        [key_len_expr, key_expr, child_0_expr, child_1_expr, value_expr] \<Rightarrow>
          bind_exc (expr_tag H key_len_expr) (\<lambda>kt.
          if kt \<noteq> u ''int'' then Inl (ValueError ''Radix node key_len must be Int'') else
          bind_exc (get_expr_value H (Some (\<lambda>h. get_expr h block)) key_len_expr) (\<lambda>(kl, _).
          bind_exc (expr_tag H key_expr) (\<lambda>bt.
          if bt \<noteq> u ''bytes'' then Inl (ValueError ''Radix node key must be Bytes'') else
          bind_exc (get_expr_value H (Some (\<lambda>h. get_expr h block)) key_expr) (\<lambda>(kb, _).
          bind_exc (read_optional_pointer H (\<lambda>h. get_expr h block) child_0_expr block loc) (\<lambda>(c0, b0).
          bind_exc (read_optional_pointer H (\<lambda>h. get_expr h block) child_1_expr block loc) (\<lambda>(c1, b1).
          bind_exc (read_node_value H get_expr value_expr block loc) (\<lambda>(v, vb).
          (case (kl, kb) of
             (Some (PInt n), Some (PBytes k)) \<Rightarrow>
               Inr \<lparr>key_len = n, key = k, rn_value = v, child_0 = c0, child_1 = c1,
                    child_0_block = b0, child_1_block = b1, value_block = vb,
                    stored_hash = Some head_hash\<rparr>
           | _ \<Rightarrow> Inl TypeError))))))))
      | _ \<Rightarrow> Inl (ValueError ''malformed Radix node expr length''))"

definition get_radix_node_from_storage ::
  "(bytes \<Rightarrow> bytes) \<Rightarrow> storage_read \<Rightarrow> storage_read \<Rightarrow> nat \<Rightarrow> bytes \<Rightarrow> bytes option \<Rightarrow> bool
     \<Rightarrow> (exc + radix_node) option" where
  "get_radix_node_from_storage H get_expr get_expr_list fuel head_hash block loc =
     (if head_hash = ZERO32 then Some (Inl (ValueError ''empty expr chain for Radix node''))
      else
        (case get_expr_list head_hash block of
           None \<Rightarrow> Some (Inl (ValueError ''could not retrieve Radix node expr from storage''))
         | Some e \<Rightarrow>
             map_option
               (\<lambda>(elements, missed).
                  if missed \<noteq> [] then Inl (ValueError ''unresolved hashes in Radix node expr'')
                  else decode_node_cells H get_expr head_hash block loc elements)
               (resolve_list_exprs (\<lambda>h. get_expr h block) fuel (Some e))))"

section \<open>What is written is read\<close>

lemma clone_radix_node_id: "clone_radix_node n = n"
  by (simp add: clone_radix_node_def)

lemma make_node_simps [simp]:
  "key_len (make_node p l v c0 c1) = l" "key (make_node p l v c0 c1) = p"
  "rn_value (make_node p l v c0 c1) = v" "child_0 (make_node p l v c0 c1) = c0"
  "child_1 (make_node p l v c0 c1) = c1" "child_0_block (make_node p l v c0 c1) = None"
  "child_1_block (make_node p l v c0 c1) = None" "value_block (make_node p l v c0 c1) = None"
  "stored_hash (make_node p l v c0 c1) = None"
  by (simp_all add: make_node_def)

text \<open>
  A node as the tree writes it: 32-byte pointers to cells that \<open>get_expr\<close> returns under their own
  hash, and a value that no reader takes for a stored ref.
\<close>

definition held :: "(bytes \<Rightarrow> bytes) \<Rightarrow> storage_read \<Rightarrow> bytes option \<Rightarrow> bytes option \<Rightarrow> bool" where
  "held H get_expr block c \<longleftrightarrow>
     (case c of None \<Rightarrow> True
      | Some h \<Rightarrow> h \<noteq> [] \<and> h \<noteq> ZERO32 \<and>
          (\<exists>e. get_expr h block = Some e \<and> e \<noteq> NIL \<and> expr_hash H e = h
             \<and> stored_ref_target H (cell_reader (Some (\<lambda>h. get_expr h block)) False) e = Inr None))"

lemma resolve_child_cell:
  assumes "held H get_expr block c"
  shows "\<exists>x.
    read_optional_pointer H (\<lambda>h. get_expr h block) x block False =
       Inr (c, case c of None \<Rightarrow> None | Some _ \<Rightarrow> block)
    \<and> (\<forall>n rest rs ms. resolve_list_exprs (\<lambda>h. get_expr h block) n (Some rest) = Some (rs, ms) \<longrightarrow>
       resolve_list_exprs (\<lambda>h. get_expr h block) (Suc n) (Some (child_cell c None rest)) = Some (x # rs, ms))"
proof (cases c)
  case None
  show ?thesis
    by (rule exI [of _ NIL])
      (simp add: None child_cell_def link_def resolve_head_def resolve_tail_def read_optional_pointer_def)
next
  case (Some h)
  with assms obtain e where e: "h \<noteq> []" "h \<noteq> ZERO32" "get_expr h block = Some e" "e \<noteq> NIL"
    "expr_hash H e = h"
    "stored_ref_target H (cell_reader (Some (\<lambda>h. get_expr h block)) False) e = Inr None"
    by (auto simp: held_def)
  then show ?thesis
    by (intro exI [of _ e])
      (simp add: Some child_cell_def pointer_cell_def resolve_head_def resolve_tail_def
        read_optional_pointer_def read_pointer_def)
qed

text \<open>
  C18: a radix node is read back from its stored form: key length, key, children and value come out
  as written, each pointer tagged with the block the node was read from, under the hash it was
  asked for. The value may be any expr that is not itself a stored ref.
\<close>

theorem radix_node_roundtrip:
  assumes "get_expr_list h block = Some (convert_radix_node_to_expr H n)" and "h \<noteq> ZERO32"
    and "child_0_block n = None" "child_1_block n = None" "value_block n = None"
    and "held H get_expr block (child_0 n)" and "held H get_expr block (child_1 n)"
    and "rn_value n = Some (VExpr v)" and "v \<noteq> NIL"
    and "stored_ref_target H (cell_reader (Some (\<lambda>h. get_expr h block)) False) v = Inr None"
  shows "get_radix_node_from_storage H get_expr get_expr_list 6 h block False =
     Some (Inr \<lparr>key_len = key_len n, key = key n, rn_value = Some (VExpr v),
       child_0 = child_0 n, child_1 = child_1 n,
       child_0_block = (case child_0 n of None \<Rightarrow> None | Some _ \<Rightarrow> block),
       child_1_block = (case child_1 n of None \<Rightarrow> None | Some _ \<Rightarrow> block),
       value_block = block, stored_hash = Some h\<rparr>)"
proof -
  let ?get = "\<lambda>h. get_expr h block"
  have cell: "resolve_list_exprs ?get (Suc m) (Some (cons x rest)) =
      map_option (\<lambda>(rs, ms). (x # rs, ms)) (resolve_list_exprs ?get m (Some rest))" for m x rest
    by (simp add: link_def resolve_head_def resolve_tail_def)
  have fuel: "6 = Suc (Suc (Suc (Suc (Suc (Suc 0)))))" by simp
  have NIL: "resolve_list_exprs ?get (Suc m) (Some NIL) = Some ([], [])" for m
    by (cases m) (simp_all add: resolve_head_def resolve_tail_def)
  obtain x0 where x0: "read_optional_pointer H ?get x0 block False =
        Inr (child_0 n, case child_0 n of None \<Rightarrow> None | Some _ \<Rightarrow> block)"
      "resolve_list_exprs ?get m (Some rest) = Some (rs, ms) \<Longrightarrow>
         resolve_list_exprs ?get (Suc m) (Some (child_cell (child_0 n) None rest)) = Some (x0 # rs, ms)"
      for m rest rs ms
    using resolve_child_cell [OF assms(6)] by blast
  obtain x1 where x1: "read_optional_pointer H ?get x1 block False =
        Inr (child_1 n, case child_1 n of None \<Rightarrow> None | Some _ \<Rightarrow> block)"
      "resolve_list_exprs ?get m (Some rest) = Some (rs, ms) \<Longrightarrow>
         resolve_list_exprs ?get (Suc m) (Some (child_cell (child_1 n) None rest)) = Some (x1 # rs, ms)"
      for m rest rs ms
    using resolve_child_cell [OF assms(7)] by blast
  have "resolve_list_exprs ?get (Suc (Suc 0)) (Some (cons v NIL)) = Some ([v], [])"
    by (simp only: cell NIL) simp
  from x0(2) [OF x1(2) [OF this]]
  have "resolve_list_exprs ?get 6 (Some (convert_radix_node_to_expr H n)) =
      Some ([int_expr (key_len n), Bytes (key n), x0, x1, v], [])"
    unfolding convert_radix_node_to_expr_def value_cell_def assms(3,4,5,8) option.case rvalue.case fuel cell
    by simp
  moreover have "read_node_value H get_expr v block False = Inr (Some (VExpr v), block)"
    using assms(9,10) by (simp add: read_node_value_def read_pointer_def)
  ultimately show ?thesis
    using assms(1,2) x0(1) x1(1)
    by (simp add: get_radix_node_from_storage_def decode_node_cells_def expr_tag_def get_expr_tag_def
        int_expr_def get_expr_value_def tag_of_tail_def)
qed

lemma radix_node_roundtrip_witness:
  "get_radix_node_from_storage toy_hash (\<lambda>h b. Some (Bytes [7]))
     (\<lambda>h b. Some (convert_radix_node_to_expr toy_hash
        (make_node [0xA0] 3 (Some (VExpr (Bytes [9]))) None (Some (expr_hash toy_hash (Bytes [7]))))))
     6 [1] None False =
   Some (Inr \<lparr>key_len = 3, key = [0xA0], rn_value = Some (VExpr (Bytes [9])), child_0 = None,
     child_1 = Some (expr_hash toy_hash (Bytes [7])), child_0_block = None, child_1_block = None,
     value_block = None, stored_hash = Some [1]\<rparr>)"
proof -
  let ?n = "make_node [0xA0] 3 (Some (VExpr (Bytes [9]))) None (Some (expr_hash toy_hash (Bytes [7])))"
  have "held toy_hash (\<lambda>h b. Some (Bytes [7])) None (child_1 ?n)"
    by (simp add: held_def stored_ref_target_def get_expr_builtin_tag_def terminal_hash_def toy_hash_def ZERO32_def numeral_eq_Suc)
  then have "get_radix_node_from_storage toy_hash (\<lambda>h b. Some (Bytes [7]))
      (\<lambda>h b. Some (convert_radix_node_to_expr toy_hash ?n)) 6 [1] None False =
    Some (Inr \<lparr>key_len = key_len ?n, key = key ?n, rn_value = Some (VExpr (Bytes [9])),
      child_0 = child_0 ?n, child_1 = child_1 ?n,
      child_0_block = (case child_0 ?n of None \<Rightarrow> None | Some _ \<Rightarrow> None),
      child_1_block = (case child_1 ?n of None \<Rightarrow> None | Some _ \<Rightarrow> None),
      value_block = None, stored_hash = Some [1]\<rparr>)"
    by (intro radix_node_roundtrip)
      (simp_all add: held_def stored_ref_target_def get_expr_builtin_tag_def ZERO32_def numeral_eq_Suc)
  then show ?thesis by simp
qed

end
