(* ===== verification/Radix_Tree.thy ===== *)
theory Radix_Tree
  imports Radix_Node "HOL-Library.AList"
begin

text \<open>
  The radix tree: \<open>src/astreum/storage/radix/tree/\<close>, files \<open>model\<close>, \<open>common\<close>, \<open>fetch\<close>, \<open>get\<close>,
  \<open>put\<close>, \<open>all\<close> and \<open>clone\<close>. A tree is the hash of its root and a cache of nodes by hash, an
  association list with the order of the Python dict.

  A read that the cache cannot answer goes to storage through \<open>rd\<close>: \<open>storage_reader\<close> is what the
  code does there. An operation returns its result or the error it raises, with the tree it
  leaves. The loops take fuel, as storage may hold a cyclic chain; \<open>None\<close> is fuel that ran out.
\<close>

section \<open>The tree and the fetch of a node\<close>

record radix_tree =
  nodes :: "(bytes \<times> radix_node) list"
  root_hash :: "bytes option"
  root_block :: "bytes option"

type_synonym node_reader = "bytes \<Rightarrow> bytes option \<Rightarrow> (exc + radix_node option) option"
type_synonym 'a tree_run = "((exc + 'a) \<times> radix_tree) option"

definition new_radix_tree :: "bytes option \<Rightarrow> bytes option \<Rightarrow> radix_tree" where
  "new_radix_tree h b = \<lparr>nodes = [], root_hash = h, root_block = b\<rparr>"

definition clone_radix_tree :: "radix_tree \<Rightarrow> radix_tree" where
  "clone_radix_tree t =
     \<lparr>nodes = map (\<lambda>(h, n). (h, clone_radix_node n)) (nodes t), root_hash = root_hash t,
      root_block = root_block t\<rparr>"

text \<open>
  The part of \<open>fetch_node_from_radix_tree\<close> that reads storage. The request that fetches the nodes
  on the way to a key only moves cells into local storage, where the same reads find them.
\<close>

definition storage_reader ::
  "(bytes \<Rightarrow> bytes) \<Rightarrow> storage_read \<Rightarrow> storage_read \<Rightarrow> nat \<Rightarrow> bool \<Rightarrow> node_reader" where
  "storage_reader H get_expr get_expr_list fuel loc h block =
     (case get_expr h (if loc then None else block) of
        None \<Rightarrow> Some (Inr None)
      | Some _ \<Rightarrow>
          (case get_radix_node_from_storage H get_expr get_expr_list fuel h block loc of
             None \<Rightarrow> None
           | Some (Inl (ValueError e)) \<Rightarrow> Some (if loc then Inr None else Inl (ValueError e))
           | Some (Inl e) \<Rightarrow> Some (Inl e)
           | Some (Inr n) \<Rightarrow> Some (Inr (Some n))))"

definition fetch_node ::
  "node_reader \<Rightarrow> radix_tree \<Rightarrow> bytes \<Rightarrow> bytes option \<Rightarrow> radix_node option tree_run" where
  "fetch_node rd t h block =
     (case map_of (nodes t) h of
        Some n \<Rightarrow> Some (Inr (Some n), t)
      | None \<Rightarrow>
          (case rd h block of
             None \<Rightarrow> None
           | Some (Inl e) \<Rightarrow> Some (Inl e, t)
           | Some (Inr None) \<Rightarrow> Some (Inr None, t)
           | Some (Inr (Some n)) \<Rightarrow>
               Some (Inr (Some n), t\<lparr>nodes := AList.update h n (nodes t)\<rparr>)))"

definition child_of :: "radix_node \<Rightarrow> bool \<Rightarrow> bytes option \<times> bytes option" where
  "child_of n next_bit =
     (if next_bit then (child_1 n, child_1_block n) else (child_0 n, child_0_block n))"

section \<open>Reading\<close>

fun find_loop ::
  "node_reader \<Rightarrow> bytes \<Rightarrow> nat \<Rightarrow> radix_tree \<Rightarrow> radix_node \<Rightarrow> int \<Rightarrow> radix_node option tree_run" where
  "find_loop rd key_bytes 0 t current key_pos = None"
| "find_loop rd key_bytes (Suc fuel) t current key_pos =
     (case match_prefix (key current) (key_len current) key_bytes key_pos of
        Inl e \<Rightarrow> Some (Inl e, t)
      | Inr False \<Rightarrow> Some (Inr None, t)
      | Inr True \<Rightarrow>
          (let pos = key_pos + key_len current in
           if pos = int (length key_bytes) * 8 then Some (Inr (Some current), t)
           else
             (case get_bit key_bytes pos of
                None \<Rightarrow> Some (Inr None, t)
              | Some next_bit \<Rightarrow>
                  (case child_of current next_bit of
                     (None, _) \<Rightarrow> Some (Inr None, t)
                   | (Some h, block) \<Rightarrow>
                       (case fetch_node rd t h block of
                          None \<Rightarrow> None
                        | Some (Inl e, t') \<Rightarrow> Some (Inl e, t')
                        | Some (Inr None, t') \<Rightarrow> Some (Inr None, t')
                        | Some (Inr (Some n), t') \<Rightarrow> find_loop rd key_bytes fuel t' n (pos + 1))))))"

definition find_node ::
  "node_reader \<Rightarrow> nat \<Rightarrow> radix_tree \<Rightarrow> bytes \<Rightarrow> int \<Rightarrow> radix_node option tree_run" where
  "find_node rd fuel t key_bytes key_pos =
     (case root_hash t of
        None \<Rightarrow> Some (Inr None, t)
      | Some h \<Rightarrow>
          if h = ZERO32 then Some (Inr None, t)
          else
            (case fetch_node rd t h (root_block t) of
               None \<Rightarrow> None
             | Some (Inl e, t') \<Rightarrow> Some (Inl e, t')
             | Some (Inr None, t') \<Rightarrow> Some (Inr None, t')
             | Some (Inr (Some n), t') \<Rightarrow> find_loop rd key_bytes fuel t' n key_pos))"

definition map_run :: "('a \<Rightarrow> 'b) \<Rightarrow> 'a tree_run \<Rightarrow> 'b tree_run" where
  "map_run f r = map_option (\<lambda>(x, t). (map_sum id f x, t)) r"

definition exists_in_radix_tree :: "node_reader \<Rightarrow> nat \<Rightarrow> radix_tree \<Rightarrow> bytes \<Rightarrow> bool tree_run" where
  "exists_in_radix_tree rd fuel t key_bytes =
     map_run (\<lambda>found. case found of None \<Rightarrow> False | Some n \<Rightarrow> rn_value n \<noteq> None)
       (find_node rd fuel t key_bytes 0)"

definition get_with_block ::
  "node_reader \<Rightarrow> storage_read \<Rightarrow> nat \<Rightarrow> radix_tree \<Rightarrow> bytes \<Rightarrow> (expr option \<times> bytes option) tree_run"
where
  "get_with_block rd get_expr fuel t key_bytes =
     map_run
       (\<lambda>found. case found of
          None \<Rightarrow> (None, None)
        | Some n \<Rightarrow>
            (case rn_value n of
               None \<Rightarrow> (None, None)
             | Some (VHash h) \<Rightarrow> (get_expr h (value_block n), value_block n)
             | Some (VExpr e) \<Rightarrow> (Some e, value_block n)))
       (find_node rd fuel t key_bytes 0)"

definition get_from_radix_tree ::
  "node_reader \<Rightarrow> storage_read \<Rightarrow> nat \<Rightarrow> radix_tree \<Rightarrow> bytes \<Rightarrow> expr option tree_run" where
  "get_from_radix_tree rd get_expr fuel t key_bytes =
     map_run fst (get_with_block rd get_expr fuel t key_bytes)"

section \<open>The tree that a cache and storage hold\<close>

text \<open>
  A tree written out: each node with the nodes below it. \<open>nodes_of\<close> are its nodes,
  \<open>hashes_of\<close> the hashes they are found under.
\<close>

datatype rtree = RT (rnode: radix_node) "rtree option" "rtree option"

abbreviation hash_of :: "(bytes \<Rightarrow> bytes) \<Rightarrow> rtree \<Rightarrow> bytes" where
  "hash_of H T \<equiv> radix_node_hash H (rnode T)"

fun nodes_of :: "rtree \<Rightarrow> radix_node list" where
  "nodes_of (RT n l r) =
     n # (case l of None \<Rightarrow> [] | Some T \<Rightarrow> nodes_of T) @ (case r of None \<Rightarrow> [] | Some T \<Rightarrow> nodes_of T)"

abbreviation hashes_of :: "(bytes \<Rightarrow> bytes) \<Rightarrow> rtree \<Rightarrow> bytes list" where
  "hashes_of H T \<equiv> map (radix_node_hash H) (nodes_of T)"

abbreviation label :: "radix_node \<Rightarrow> bool list" where
  "label n \<equiv> prefix_bits (key n) (key_len n)"

fun wf_rtree :: "(bytes \<Rightarrow> bytes) \<Rightarrow> rtree \<Rightarrow> bool" where
  "wf_rtree H (RT n l r) \<longleftrightarrow>
     fits (key n) (key_len n)
     \<and> child_0 n = map_option (hash_of H) l \<and> child_1 n = map_option (hash_of H) r
     \<and> pred_option (wf_rtree H) l \<and> pred_option (wf_rtree H) r"

text \<open>\<open>look\<close> is the meaning of a lookup: the node at the end of a list of bits.\<close>

fun look :: "rtree \<Rightarrow> bool list \<Rightarrow> radix_node option" where
  "look (RT n l r) ks =
     (if take (length (label n)) ks \<noteq> label n then None
      else
        (case drop (length (label n)) ks of
           [] \<Rightarrow> Some n
         | True # ks' \<Rightarrow> (case r of None \<Rightarrow> None | Some T \<Rightarrow> look T ks')
         | False # ks' \<Rightarrow> (case l of None \<Rightarrow> None | Some T \<Rightarrow> look T ks')))"

fun depth :: "rtree \<Rightarrow> nat" where
  "depth (RT n l r) =
     Suc (max (case l of None \<Rightarrow> 0 | Some T \<Rightarrow> depth T) (case r of None \<Rightarrow> 0 | Some T \<Rightarrow> depth T))"

text \<open>\<open>view\<close> is what a fetch of a hash gives: the cached node, else the one in storage.\<close>

definition view :: "node_reader \<Rightarrow> radix_tree \<Rightarrow> bytes \<Rightarrow> bytes option \<Rightarrow> radix_node option" where
  "view rd t h block =
     (case map_of (nodes t) h of
        Some n \<Rightarrow> Some n
      | None \<Rightarrow> (case rd h block of Some (Inr (Some n)) \<Rightarrow> Some n | _ \<Rightarrow> None))"

fun reps ::
  "(bytes \<Rightarrow> bytes) \<Rightarrow> (bytes \<Rightarrow> bytes option \<Rightarrow> radix_node option) \<Rightarrow> bytes option \<Rightarrow> rtree \<Rightarrow> bool" where
  "reps H V block (RT n l r) \<longleftrightarrow>
     V (radix_node_hash H n) block = Some n
     \<and> pred_option (reps H V (child_0_block n)) l \<and> pred_option (reps H V (child_1_block n)) r"

definition holds ::
  "(bytes \<Rightarrow> bytes) \<Rightarrow> node_reader \<Rightarrow> radix_tree \<Rightarrow> rtree option \<Rightarrow> bool" where
  "holds H rd t R =
     (case R of
        None \<Rightarrow> root_hash t = None \<or> root_hash t = Some ZERO32
      | Some T \<Rightarrow> wf_rtree H T \<and> root_hash t = Some (hash_of H T) \<and> hash_of H T \<noteq> ZERO32
          \<and> reps H (view rd t) (root_block t) T)"

definition look_root :: "rtree option \<Rightarrow> bool list \<Rightarrow> radix_node option" where
  "look_root R ks = (case R of None \<Rightarrow> None | Some T \<Rightarrow> look T ks)"

lemma reps_cong:
  assumes "\<And>n b. n \<in> set (nodes_of T) \<Longrightarrow> V (radix_node_hash H n) b = Some n \<Longrightarrow> V' (radix_node_hash H n) b = Some n"
    and "reps H V block T"
  shows "reps H V' block T"
  using assms
proof (induction T arbitrary: block)
  case (RT n l r)
  then show ?case by (cases l; cases r) auto
qed

lemma fetch_view:
  assumes "view rd t h block = Some n"
  obtains t' where "fetch_node rd t h block = Some (Inr (Some n), t')"
    "root_hash t' = root_hash t" "root_block t' = root_block t"
    "map_of (nodes t') = (map_of (nodes t))(h \<mapsto> n)"
proof (cases "map_of (nodes t) h")
  case None
  with assms have "rd h block = Some (Inr (Some n))"
    by (auto simp: view_def split: option.splits sum.splits)
  with None show thesis
    by (intro that [of "t\<lparr>nodes := AList.update h n (nodes t)\<rparr>"])
      (simp_all add: fetch_node_def update_conv')
next
  case (Some m)
  with assms show thesis
    by (intro that [of t]) (auto simp: fetch_node_def view_def)
qed

lemma view_insert:
  assumes "map_of (nodes t') = (map_of (nodes t))(h \<mapsto> n)"
  shows "view rd t' x b = (if x = h then Some n else view rd t x b)"
  using assms by (simp add: view_def)

lemma reps_fetch:
  assumes "inj_on (radix_node_hash H) (insert n (set (nodes_of T)))" "radix_node_hash H n = h"
    and "map_of (nodes t') = (map_of (nodes t))(h \<mapsto> n)" and "reps H (view rd t) block T"
  shows "reps H (view rd t') block T"
  by (rule reps_cong [OF _ assms(4)])
    (use assms(1,2) in \<open>auto simp: view_insert [OF assms(3)] inj_on_def\<close>)

section \<open>A lookup finds the node of its key\<close>

abbreviation down :: "bool \<Rightarrow> rtree \<Rightarrow> rtree option" where
  "down b T \<equiv> (case T of RT n l r \<Rightarrow> if b then r else l)"

lemma look_eq:
  "look T ks =
     (if take (length (label (rnode T))) ks \<noteq> label (rnode T) then None
      else (case drop (length (label (rnode T))) ks of
              [] \<Rightarrow> Some (rnode T)
            | b # ks' \<Rightarrow> look_root (down b T) ks'))"
  by (cases T) (auto simp: look_root_def split: list.split bool.split)

declare look.simps [simp del]

lemma wf_down:
  assumes "wf_rtree H T" "down b T = Some T'"
  shows "wf_rtree H T'" "fst (child_of (rnode T) b) = Some (hash_of H T')"
    "set (nodes_of T') \<subseteq> set (nodes_of T)" "depth T' < depth T"
  using assms by (cases T; force simp: child_of_def split: if_splits option.splits)+

lemma wf_down_None:
  assumes "wf_rtree H T" "down b T = None"
  shows "fst (child_of (rnode T) b) = None"
  using assms by (cases T) (auto simp: child_of_def split: if_splits)

lemma reps_root: "reps H V block T \<Longrightarrow> V (hash_of H T) block = Some (rnode T)"
  by (cases T) simp

lemma reps_down:
  "reps H V block T \<Longrightarrow> down b T = Some T' \<Longrightarrow> reps H V (snd (child_of (rnode T) b)) T'"
  by (cases T) (auto simp: child_of_def split: if_splits)

lemma wf_fits: "wf_rtree H T \<Longrightarrow> fits (key (rnode T)) (key_len (rnode T))"
  by (cases T) simp

lemma rnode_in: "rnode T \<in> set (nodes_of T)"
  by (cases T) simp

lemma drop_bits_Nil:
  "0 \<le> pos \<Longrightarrow> pos \<le> 8 * int (length k) \<Longrightarrow> drop (nat pos) (bits_of k) = [] \<longleftrightarrow> pos = 8 * int (length k)"
  by auto

lemma drop_bits_Cons:
  assumes "0 \<le> pos" "pos < 8 * int (length k)"
  shows "drop (nat pos) (bits_of k) = (bits_of k ! nat pos) # drop (nat (pos + 1)) (bits_of k)"
  using assms by (subst Cons_nth_drop_Suc [symmetric]) (simp_all add: nat_add_distrib)

text \<open>
  One step of the walk, as \<open>find_loop\<close> and the loop of \<open>put_in_radix_tree\<close> share it: what is left
  of the key after the prefix of a node.
\<close>

lemma walk_step_cases:
  assumes "fits (key n) (key_len n)" "0 \<le> pos" "pos \<le> 8 * int (length k)"
  defines "rest \<equiv> drop (nat pos) (bits_of k)"
  shows "match_prefix (key n) (key_len n) k pos = Inr (take (length (label n)) rest = label n)"
    and "take (length (label n)) rest = label n \<Longrightarrow>
      0 \<le> pos + key_len n \<and> pos + key_len n \<le> 8 * int (length k)
      \<and> drop (length (label n)) rest = drop (nat (pos + key_len n)) (bits_of k)"
proof -
  have len: "length (label n) = nat (key_len n)" "0 \<le> key_len n"
    using length_prefix_bits [OF assms(1)] assms(1) by (auto simp: fits_def)
  show "match_prefix (key n) (key_len n) k pos = Inr (take (length (label n)) rest = label n)"
    unfolding rest_def len by (rule match_prefix_eq) (use assms in simp_all)
  assume m: "take (length (label n)) rest = label n"
  then have "length (label n) \<le> length rest" by (metis length_take min.cobounded1)
  then have "key_len n \<le> 8 * int (length k) - pos"
    using len assms(2,3) unfolding rest_def by simp
  then show "0 \<le> pos + key_len n \<and> pos + key_len n \<le> 8 * int (length k)
      \<and> drop (length (label n)) rest = drop (nat (pos + key_len n)) (bits_of k)"
    unfolding rest_def len(1) using len(2) assms(2,3) by (simp add: nat_add_distrib add.commute)
qed

lemma find_loop_look:
  assumes "wf_rtree H T" "reps H (view rd t) block T" "inj_on (radix_node_hash H) (set (nodes_of R))"
    "set (nodes_of T) \<subseteq> set (nodes_of R)" "0 \<le> pos" "pos \<le> 8 * int (length k)" "depth T \<le> fuel"
  shows "\<exists>t'. find_loop rd k fuel t (rnode T) pos = Some (Inr (look T (drop (nat pos) (bits_of k))), t')
     \<and> root_hash t' = root_hash t \<and> root_block t' = root_block t
     \<and> (\<forall>b. reps H (view rd t) b R \<longrightarrow> reps H (view rd t') b R)"
  using assms
proof (induction fuel arbitrary: T t block pos)
  case 0
  then show ?case by (cases T) simp
next
  case (Suc fuel)
  define n where "n = rnode T"
  define rest where "rest = drop (nat pos) (bits_of k)"
  note step = walk_step_cases [OF wf_fits [OF Suc.prems(1)] Suc.prems(5,6), folded n_def rest_def]
  have look: "look T rest = (if take (length (label n)) rest \<noteq> label n then None
      else (case drop (length (label n)) rest of [] \<Rightarrow> Some n | b # ks' \<Rightarrow> look_root (down b T) ks'))"
    unfolding n_def by (rule look_eq)
  consider (mis) "take (length (label n)) rest \<noteq> label n"
    | (here) "take (length (label n)) rest = label n" "pos + key_len n = 8 * int (length k)"
    | (down) "take (length (label n)) rest = label n" "pos + key_len n < 8 * int (length k)"
    using step(2) by force
  then show ?case
  proof cases
    case mis
    then show ?thesis by (simp add: n_def [symmetric] rest_def [symmetric] look step(1))
  next
    case here
    have "drop (length (label n)) rest = []" using step(2) here by simp
    then have "look T rest = Some n" unfolding look using here(1) by simp
    moreover have "match_prefix (key n) (key_len n) k pos = Inr True" using step(1) here(1) by simp
    ultimately show ?thesis
      using here(2) by (simp add: n_def [symmetric] rest_def [symmetric] mult.commute)
  next
    case down
    define p where "p = pos + key_len n"
    have p: "0 \<le> p" "p < 8 * int (length k)" using step(2) down by (simp_all add: p_def)
    define b where "b = bits_of k ! nat p"
    have rest: "drop (length (label n)) rest = b # drop (nat (p + 1)) (bits_of k)"
      using step(2) down(1) drop_bits_Cons [OF p] by (simp add: p_def b_def)
    have bit: "get_bit k p = Some b" unfolding b_def by (rule get_bit_eq) (use p in simp_all)
    show ?thesis
    proof (cases "down b T")
      case None
      have "fst (child_of n b) = None" using wf_down_None [OF Suc.prems(1) None] by (simp add: n_def)
      then obtain blk where c: "child_of n b = (None, blk)" by (cases "child_of n b") simp
      show ?thesis
        using down p None
        by (simp add: n_def [symmetric] rest_def [symmetric] look look_root_def step(1) rest
            p_def [symmetric] bit c Let_def mult.commute)
    next
      case (Some T')
      note d = wf_down [OF Suc.prems(1) Some]
      obtain blk where c: "child_of n b = (Some (hash_of H T'), blk)"
        using d(2) by (cases "child_of n b") (simp add: n_def)
      have r': "reps H (view rd t) blk T'"
        using reps_down [OF Suc.prems(2) Some] c by (simp add: n_def)
      obtain t1 where t1: "fetch_node rd t (hash_of H T') blk = Some (Inr (Some (rnode T')), t1)"
        "root_hash t1 = root_hash t" "root_block t1 = root_block t"
        "map_of (nodes t1) = (map_of (nodes t))(hash_of H T' \<mapsto> rnode T')"
        by (rule fetch_view [OF reps_root [OF r']])
      have sub: "set (nodes_of T') \<subseteq> set (nodes_of R)" using d(3) Suc.prems(4) by blast
      have keep: "reps H (view rd t1) bl X"
        if "reps H (view rd t) bl X" "set (nodes_of X) \<subseteq> set (nodes_of R)" for bl X
        by (rule reps_fetch [OF inj_on_subset [OF Suc.prems(3)] refl t1(4) that(1)])
          (use that(2) sub rnode_in [of T'] in auto)
      have "depth T' \<le> fuel" using d(4) Suc.prems(7) by simp
      from Suc.IH [OF d(1) keep [OF r' sub] Suc.prems(3) sub _ _ this, of "p + 1"] p
      obtain t' where t': "find_loop rd k fuel t1 (rnode T') (p + 1) =
            Some (Inr (look T' (drop (nat (p + 1)) (bits_of k))), t')"
        "root_hash t' = root_hash t1" "root_block t' = root_block t1"
        "\<forall>b. reps H (view rd t1) b R \<longrightarrow> reps H (view rd t') b R"
        by auto
      have "find_loop rd k (Suc fuel) t n pos = find_loop rd k fuel t1 (rnode T') (p + 1)"
        using down p by (simp add: step(1) p_def [symmetric] bit c t1(1) Let_def mult.commute)
      moreover have "look T rest = look T' (drop (nat (p + 1)) (bits_of k))"
        using down by (simp add: look look_root_def rest Some)
      ultimately show ?thesis
        using t' t1(2,3) keep [of _ R] by (auto simp: n_def [symmetric] rest_def [symmetric])
    qed
  qed
qed

lemma find_node_look:
  assumes "holds H rd t R" "\<And>T. R = Some T \<Longrightarrow> inj_on (radix_node_hash H) (set (nodes_of T)) \<and> depth T \<le> fuel"
  shows "\<exists>t'. find_node rd fuel t k 0 = Some (Inr (look_root R (bits_of k)), t') \<and> holds H rd t' R"
proof (cases R)
  case None
  with assms(1) show ?thesis by (auto simp: holds_def find_node_def look_root_def)
next
  case (Some T)
  with assms(1) have h: "wf_rtree H T" "root_hash t = Some (hash_of H T)" "hash_of H T \<noteq> ZERO32"
    "reps H (view rd t) (root_block t) T" by (simp_all add: holds_def)
  have inj: "inj_on (radix_node_hash H) (set (nodes_of T))" and dep: "depth T \<le> fuel"
    using assms(2) [OF Some] by simp_all
  obtain t1 where t1: "fetch_node rd t (hash_of H T) (root_block t) = Some (Inr (Some (rnode T)), t1)"
    "root_hash t1 = root_hash t" "root_block t1 = root_block t"
    "map_of (nodes t1) = (map_of (nodes t))(hash_of H T \<mapsto> rnode T)"
    by (rule fetch_view [OF reps_root [OF h(4)]])
  have "insert (rnode T) (set (nodes_of T)) = set (nodes_of T)" using rnode_in by auto
  then have r1: "reps H (view rd t1) (root_block t1) T"
    unfolding t1(3) by (intro reps_fetch [OF _ refl t1(4) h(4)]) (simp add: inj)
  from find_loop_look [OF h(1) r1 inj subset_refl _ _ dep, of 0 k]
  obtain t' where "find_loop rd k fuel t1 (rnode T) 0 = Some (Inr (look T (bits_of k)), t')"
    "root_hash t' = root_hash t1" "root_block t' = root_block t1"
    "\<forall>b. reps H (view rd t1) b T \<longrightarrow> reps H (view rd t') b T" by auto
  then show ?thesis
    using h t1 r1 by (auto simp: find_node_def look_root_def Some holds_def)
qed

end
