(* ===== verification/Radix_Put.thy ===== *)
theory Radix_Put
  imports Radix_Tree
begin

text \<open>
  Writing to the radix tree: \<open>src/astreum/storage/radix/tree/put.py\<close>.

  The code changes nodes in place and renames them in the cache. Each cached node is reachable
  under one name only, its hash, so the model hands the changed node on as a value. The stack holds
  the ancestors, the nearest first, each with the hash it had and the side the walk took.
\<close>

section \<open>The code\<close>

type_synonym ancestor = "radix_node \<times> bytes \<times> bool"

definition stored_value_hash :: "(bytes \<Rightarrow> bytes) \<Rightarrow> rvalue option \<Rightarrow> bytes option" where
  "stored_value_hash H v = map_option (value_hash H) v"

definition set_child :: "radix_node \<Rightarrow> bool \<Rightarrow> bytes \<Rightarrow> radix_node" where
  "set_child n dir h =
     invalidate_radix_node_cache
       (if dir then n\<lparr>child_1 := Some h, child_1_block := None\<rparr>
        else n\<lparr>child_0 := Some h, child_0_block := None\<rparr>)"

text \<open>The changed node leaves the cache under its old hash and enters it under its new one.\<close>

definition rename_node :: "(bytes \<Rightarrow> bytes) \<Rightarrow> radix_tree \<Rightarrow> bytes \<Rightarrow> radix_node \<Rightarrow> radix_tree" where
  "rename_node H t old_hash n =
     (let new_hash = radix_node_hash H n;
          kept = (if new_hash \<noteq> old_hash then AList.delete old_hash (nodes t) else nodes t)
      in t\<lparr>nodes := AList.update new_hash n kept\<rparr>)"

definition add_node :: "(bytes \<Rightarrow> bytes) \<Rightarrow> radix_tree \<Rightarrow> radix_node \<Rightarrow> radix_tree" where
  "add_node H t n = t\<lparr>nodes := AList.update (radix_node_hash H n) n (nodes t)\<rparr>"

fun bubble :: "(bytes \<Rightarrow> bytes) \<Rightarrow> radix_tree \<Rightarrow> ancestor list \<Rightarrow> bytes \<Rightarrow> radix_tree" where
  "bubble H t [] new_hash = t\<lparr>root_hash := Some new_hash, root_block := None\<rparr>"
| "bubble H t ((parent, old_hash, dir) # stack) new_hash =
     (let parent' = set_child parent dir new_hash
      in bubble H (rename_node H t old_hash parent') stack (radix_node_hash H parent'))"

definition append_leaf ::
  "(bytes \<Rightarrow> bytes) \<Rightarrow> radix_tree \<Rightarrow> radix_node \<Rightarrow> bool \<Rightarrow> bytes \<Rightarrow> int \<Rightarrow> rvalue \<Rightarrow> ancestor list
     \<Rightarrow> unit tree_run" where
  "append_leaf H t parent dir key_bytes key_pos v stack =
     Some
       (case bit_slice key_bytes (key_pos + 1) (int (length key_bytes) * 8 - (key_pos + 1)) of
          Inl e \<Rightarrow> (Inl e, t)
        | Inr (tail_bits, tail_len) \<Rightarrow>
            (let leaf = make_node tail_bits tail_len (Some v) None None;
                 t1 = add_node H t leaf;
                 parent' = set_child parent dir (radix_node_hash H leaf);
                 t2 = rename_node H t1 (radix_node_hash H parent) parent'
             in (Inr (), bubble H t2 stack (radix_node_hash H parent'))))"

fun common_len :: "bytes \<Rightarrow> bytes \<Rightarrow> int \<Rightarrow> int \<Rightarrow> nat \<Rightarrow> exc + int" where
  "common_len node_key key_bytes key_pos lcp 0 = Inr lcp"
| "common_len node_key key_bytes key_pos lcp (Suc n) =
     (case (get_bit node_key lcp, get_bit key_bytes (key_pos + lcp)) of
        (Some a, Some b) \<Rightarrow>
          if a = b then common_len node_key key_bytes key_pos (lcp + 1) n else Inr lcp
      | _ \<Rightarrow> Inl IndexError)"

definition bit_or_raise :: "bytes \<Rightarrow> int \<Rightarrow> exc + bool" where
  "bit_or_raise buf i = (case get_bit buf i of None \<Rightarrow> Inl IndexError | Some b \<Rightarrow> Inr b)"

text \<open>
  The parts of \<open>_split_and_insert\<close> that can raise, in its order, and the writes after them. The last
  slice comes after the node was re-keyed in the code; it is cut where the first key bit past the
  common part exists, so it does not raise.
\<close>

definition split_parts ::
  "radix_node \<Rightarrow> bytes \<Rightarrow> int \<Rightarrow> exc + bool \<times> (bytes \<times> int) \<times> (bytes \<times> int) \<times> (bytes \<times> int)" where
  "split_parts n key_bytes key_pos =
     bind_exc (common_len (key n) key_bytes key_pos 0
        (nat (min (key_len n) (int (length key_bytes) * 8 - key_pos)))) (\<lambda>lcp.
     bind_exc (bit_or_raise (key n) lcp) (\<lambda>old_div_bit.
     bind_exc (bit_or_raise key_bytes (key_pos + lcp)) (\<lambda>new_div_bit.
     bind_exc (bit_slice (key n) 0 lcp) (\<lambda>common.
     bind_exc (bit_slice (key n) (lcp + 1) (key_len n - lcp - 1)) (\<lambda>old_suffix.
     bind_exc (bit_slice key_bytes (key_pos + lcp + 1) (int (length key_bytes) * 8 - (key_pos + lcp + 1)))
       (\<lambda>new_tail. Inr (old_div_bit, common, old_suffix, new_tail)))))))"

definition split_and_insert ::
  "(bytes \<Rightarrow> bytes) \<Rightarrow> radix_tree \<Rightarrow> radix_node \<Rightarrow> ancestor list \<Rightarrow> bytes \<Rightarrow> int \<Rightarrow> rvalue
     \<Rightarrow> unit tree_run" where
  "split_and_insert H t n stack key_bytes key_pos v =
     Some
       (case split_parts n key_bytes key_pos of
          Inl e \<Rightarrow> (Inl e, t)
        | Inr (old_div_bit, (common_bits, common_bits_len), (old_bits, old_len), (new_bits, new_len)) \<Rightarrow>
            (let n' = invalidate_radix_node_cache (n\<lparr>key := old_bits, key_len := old_len\<rparr>);
                 t1 = rename_node H t (radix_node_hash H n) n';
                 leaf = make_node new_bits new_len (Some v) None None;
                 t2 = add_node H t1 leaf;
                 internal =
                   (if old_div_bit
                    then make_node common_bits common_bits_len None
                           (Some (radix_node_hash H leaf)) (Some (radix_node_hash H n'))
                    else make_node common_bits common_bits_len None
                           (Some (radix_node_hash H n')) (Some (radix_node_hash H leaf)));
                 t3 = add_node H t2 internal;
                 h = radix_node_hash H internal
             in (Inr (),
                 (case stack of
                    [] \<Rightarrow> t3\<lparr>root_hash := Some h, root_block := None\<rparr>
                  | (parent, old_hash, dir) # ancestors \<Rightarrow>
                      (let parent' = set_child parent dir h
                       in bubble H (rename_node H t3 old_hash parent') ancestors
                            (radix_node_hash H parent'))))))"

text \<open>The value is written at the node itself.\<close>

definition put_here ::
  "(bytes \<Rightarrow> bytes) \<Rightarrow> radix_tree \<Rightarrow> radix_node \<Rightarrow> ancestor list \<Rightarrow> rvalue \<Rightarrow> unit tree_run" where
  "put_here H t current stack v =
     Some
       (if rn_value current \<noteq> None
           \<and> stored_value_hash H (rn_value current) = stored_value_hash H (Some v)
        then (Inr (), t)
        else
          (let n' = invalidate_radix_node_cache (current\<lparr>rn_value := Some v, value_block := None\<rparr>)
           in (Inr (), bubble H (rename_node H t (radix_node_hash H current) n') stack
                         (radix_node_hash H n'))))"

fun put_loop ::
  "(bytes \<Rightarrow> bytes) \<Rightarrow> node_reader \<Rightarrow> bytes \<Rightarrow> rvalue \<Rightarrow> nat \<Rightarrow> radix_tree \<Rightarrow> radix_node
     \<Rightarrow> ancestor list \<Rightarrow> int \<Rightarrow> unit tree_run" where
  "put_loop H rd key_bytes v 0 t current stack key_pos = None"
| "put_loop H rd key_bytes v (Suc fuel) t current stack key_pos =
     (case match_prefix (key current) (key_len current) key_bytes key_pos of
        Inl e \<Rightarrow> Some (Inl e, t)
      | Inr False \<Rightarrow> split_and_insert H t current stack key_bytes key_pos v
      | Inr True \<Rightarrow>
          (let pos = key_pos + key_len current in
           if pos = int (length key_bytes) * 8 then put_here H t current stack v
           else
             (case get_bit key_bytes pos of
                None \<Rightarrow> Some (Inl IndexError, t)
              | Some next_bit \<Rightarrow>
                  (case child_of current next_bit of
                     (None, _) \<Rightarrow> append_leaf H t current next_bit key_bytes pos v stack
                   | (Some h, block) \<Rightarrow>
                       (case fetch_node rd t h block of
                          None \<Rightarrow> None
                        | Some (Inl e, t') \<Rightarrow> Some (Inl e, t')
                        | Some (Inr None, t') \<Rightarrow> append_leaf H t' current next_bit key_bytes pos v stack
                        | Some (Inr (Some n), t') \<Rightarrow>
                            put_loop H rd key_bytes v fuel t' n
                              ((current, radix_node_hash H current, next_bit) # stack) (pos + 1))))))"

definition put_in_radix_tree ::
  "(bytes \<Rightarrow> bytes) \<Rightarrow> node_reader \<Rightarrow> nat \<Rightarrow> radix_tree \<Rightarrow> bytes \<Rightarrow> rvalue \<Rightarrow> unit tree_run" where
  "put_in_radix_tree H rd fuel t key_bytes v =
     (if root_hash t = None \<or> root_hash t = Some ZERO32
      then
        (let leaf = make_node key_bytes (int (length key_bytes) * 8) (Some v) None None
         in Some (Inr (), (add_node H t leaf)
                    \<lparr>root_hash := Some (radix_node_hash H leaf), root_block := None\<rparr>))
      else
        (case fetch_node rd t (the (root_hash t)) (root_block t) of
           None \<Rightarrow> None
         | Some (Inl e, t') \<Rightarrow> Some (Inl e, t')
         | Some (Inr None, t') \<Rightarrow> Some (Inl AssertionError, t')
         | Some (Inr (Some n), t') \<Rightarrow> put_loop H rd key_bytes v fuel t' n [] 0))"

section \<open>What an insert means on the tree written out\<close>

text \<open>
  \<open>rins\<close> is the insert on the tree written out: \<open>Inl\<close> the error of a key that ends inside a prefix,
  \<open>Inr None\<close> the tree unchanged, \<open>Inr (Some T)\<close> the new tree.
\<close>

fun lcp_len :: "bool list \<Rightarrow> bool list \<Rightarrow> nat" where
  "lcp_len (a # xs) (b # ys) = (if a = b then Suc (lcp_len xs ys) else 0)"
| "lcp_len _ _ = 0"

definition node_at :: "bool list \<Rightarrow> rvalue option \<Rightarrow> bytes option \<Rightarrow> bytes option \<Rightarrow> radix_node" where
  "node_at bs v c0 c1 = make_node (bits_to_bytes bs) (int (length bs)) v c0 c1"

definition leaf_at :: "bool list \<Rightarrow> rvalue \<Rightarrow> rtree" where
  "leaf_at bs v = RT (node_at bs (Some v) None None) None None"

definition put_child :: "(bytes \<Rightarrow> bytes) \<Rightarrow> rtree \<Rightarrow> bool \<Rightarrow> rtree \<Rightarrow> rtree" where
  "put_child H T b T' =
     (case T of RT n l r \<Rightarrow>
        RT (set_child n b (hash_of H T')) (if b then l else Some T') (if b then Some T' else r))"

definition rekey :: "rtree \<Rightarrow> bool list \<Rightarrow> rtree" where
  "rekey T bs =
     (case T of RT n l r \<Rightarrow>
        RT (invalidate_radix_node_cache (n\<lparr>key := bits_to_bytes bs, key_len := int (length bs)\<rparr>)) l r)"

definition branch_at :: "(bytes \<Rightarrow> bytes) \<Rightarrow> bool list \<Rightarrow> rtree \<Rightarrow> rtree \<Rightarrow> rtree" where
  "branch_at H bs T0 T1 =
     RT (node_at bs None (Some (hash_of H T0)) (Some (hash_of H T1))) (Some T0) (Some T1)"

definition set_value :: "rtree \<Rightarrow> rvalue \<Rightarrow> rtree" where
  "set_value T v =
     (case T of RT n l r \<Rightarrow>
        RT (invalidate_radix_node_cache (n\<lparr>rn_value := Some v, value_block := None\<rparr>)) l r)"

definition split_tree :: "(bytes \<Rightarrow> bytes) \<Rightarrow> rvalue \<Rightarrow> rtree \<Rightarrow> bool list \<Rightarrow> nat \<Rightarrow> rtree" where
  "split_tree H v T ks c =
     (let p = label (rnode T); old = rekey T (drop (Suc c) p); leaf = leaf_at (drop (Suc c) ks) v
      in if p ! c then branch_at H (take c p) leaf old else branch_at H (take c p) old leaf)"

function rins ::
  "(bytes \<Rightarrow> bytes) \<Rightarrow> rvalue \<Rightarrow> rtree \<Rightarrow> bool list \<Rightarrow> exc + rtree option" where
  "rins H v T ks =
     (if take (length (label (rnode T))) ks = label (rnode T) then
        (case drop (length (label (rnode T))) ks of
           [] \<Rightarrow>
             if rn_value (rnode T) \<noteq> None
                \<and> stored_value_hash H (rn_value (rnode T)) = stored_value_hash H (Some v)
             then Inr None else Inr (Some (set_value T v))
         | b # ks' \<Rightarrow>
             (case down b T of
                None \<Rightarrow> Inr (Some (put_child H T b (leaf_at ks' v)))
              | Some T' \<Rightarrow>
                  bind_exc (rins H v T' ks') (\<lambda>res. Inr (map_option (put_child H T b) res))))
      else if lcp_len (label (rnode T)) ks = length ks then Inl IndexError
      else Inr (Some (split_tree H v T ks (lcp_len (label (rnode T)) ks))))"
  by pat_completeness auto
termination
proof (relation "measure (\<lambda>(H, v, T, ks). size T)", goal_cases)
  case (2 H v T ks x21 x22 x2)
  then show ?case by (cases T) (auto split: if_splits)
qed simp

declare rins.simps [simp del]

section \<open>An insert writes one entry of a finite map\<close>

definition value_at :: "(bytes \<Rightarrow> bytes) \<Rightarrow> rtree option \<Rightarrow> bool list \<Rightarrow> bytes option" where
  "value_at H R ks = stored_value_hash H (Option.bind (look_root R ks) rn_value)"

lemma value_at_None [simp]: "value_at H None ks = None"
  by (simp add: value_at_def look_root_def stored_value_hash_def)

lemma value_at_Some:
  "value_at H (Some T) ks =
     (if take (length (label (rnode T))) ks \<noteq> label (rnode T) then None
      else (case drop (length (label (rnode T))) ks of
              [] \<Rightarrow> stored_value_hash H (rn_value (rnode T))
            | b # ks' \<Rightarrow> value_at H (down b T) ks'))"
  unfolding value_at_def by (subst look_root_def) (simp add: look_eq [of T] stored_value_hash_def split: list.split)

lemma label_node_at [simp]: "label (node_at bs v c0 c1) = bs"
  by (simp add: node_at_def prefix_bits_to_bytes)

lemma set_child_simps [simp]:
  "label (set_child n b h) = label n" "rn_value (set_child n b h) = rn_value n"
  "fits (key (set_child n b h)) (key_len (set_child n b h)) = fits (key n) (key_len n)"
  "child_0 (set_child n b h) = (if b then child_0 n else Some h)"
  "child_1 (set_child n b h) = (if b then Some h else child_1 n)"
  "child_0_block (set_child n b h) = (if b then child_0_block n else None)"
  "child_1_block (set_child n b h) = (if b then None else child_1_block n)"
  by (simp_all add: set_child_def invalidate_radix_node_cache_def)

lemma node_at_simps [simp]:
  "rn_value (node_at bs v c0 c1) = v" "child_0 (node_at bs v c0 c1) = c0"
  "child_1 (node_at bs v c0 c1) = c1" "fits (key (node_at bs v c0 c1)) (key_len (node_at bs v c0 c1))"
  "child_0_block (node_at bs v c0 c1) = None" "child_1_block (node_at bs v c0 c1) = None"
  by (simp_all add: node_at_def fits_bits_to_bytes)

lemma take_drop_eq: "take (length p) ks = p \<Longrightarrow> drop (length p) ks = q \<Longrightarrow> ks = p @ q"
  by (metis append_take_drop_id)

lemma value_at_leaf:
  "value_at H (Some (leaf_at bs v)) ks = (if ks = bs then Some (value_hash H v) else None)"
proof -
  have "take (length bs) ks = bs \<and> drop (length bs) ks = [] \<longleftrightarrow> ks = bs"
    using take_drop_eq [of bs ks "[]"] by auto
  then show ?thesis
    by (auto simp: value_at_Some leaf_at_def stored_value_hash_def split: list.split)
qed

lemma value_at_put_child:
  "value_at H (Some (put_child H T b X)) ks =
     (if take (length (label (rnode T)) + 1) ks = label (rnode T) @ [b]
      then value_at H (Some X) (drop (length (label (rnode T)) + 1) ks)
      else value_at H (Some T) ks)"
proof -
  obtain n l r where T: "T = RT n l r" by (cases T)
  define p where "p = label n"
  have k: "take (length p + 1) ks = p @ [b] \<longleftrightarrow> take (length p) ks = p \<and> (\<exists>ks'. drop (length p) ks = b # ks')"
  proof
    assume "take (length p + 1) ks = p @ [b]"
    then have "ks = p @ b # drop (length p + 1) ks" by (metis append_Cons append_Nil append_assoc append_take_drop_id)
    then show "take (length p) ks = p \<and> (\<exists>ks'. drop (length p) ks = b # ks')"
      by (metis append_eq_conv_conj)
  next
    assume "take (length p) ks = p \<and> (\<exists>ks'. drop (length p) ks = b # ks')"
    then obtain ks' where "ks = p @ b # ks'" by (metis append_take_drop_id)
    then show "take (length p + 1) ks = p @ [b]" by simp
  qed
  have "drop (length p + 1) ks = tl (drop (length p) ks)"
    by (metis add.commute drop_Suc plus_1_eq_Suc tl_drop)
  moreover have "value_at H (Some (put_child H T b X)) ks =
      (if take (length p) ks \<noteq> p then None
       else case drop (length p) ks of [] \<Rightarrow> stored_value_hash H (rn_value n)
            | d # ks' \<Rightarrow> value_at H (if d = b then Some X else down d T) ks')"
    by (subst value_at_Some) (auto simp: T put_child_def p_def split: list.split)
  moreover have "value_at H (Some T) ks =
      (if take (length p) ks \<noteq> p then None
       else case drop (length p) ks of [] \<Rightarrow> stored_value_hash H (rn_value n)
            | d # ks' \<Rightarrow> value_at H (down d T) ks')"
    by (subst value_at_Some) (simp add: T p_def split: list.split)
  moreover have "label (rnode T) = p" by (simp add: T p_def)
  ultimately show ?thesis using k by (auto split: list.split)
qed

lemma lcp_len_le: "lcp_len xs ys \<le> length xs" "lcp_len xs ys \<le> length ys"
  by (induction xs ys rule: lcp_len.induct) auto

lemma lcp_len_take: "take (lcp_len xs ys) ys = take (lcp_len xs ys) xs"
  by (induction xs ys rule: lcp_len.induct) auto

lemma lcp_len_diff:
  "lcp_len xs ys < length xs \<Longrightarrow> lcp_len xs ys < length ys \<Longrightarrow> xs ! lcp_len xs ys \<noteq> ys ! lcp_len xs ys"
  by (induction xs ys rule: lcp_len.induct) auto

lemma lcp_len_full: "lcp_len xs ys = length xs \<Longrightarrow> take (length xs) ys = xs"
  by (metis lcp_len_take take_all_iff order_refl)

lemma lcp_len_split:
  assumes "take (length xs) ys \<noteq> xs" "lcp_len xs ys \<noteq> length ys"
  defines "c \<equiv> lcp_len xs ys"
  shows "\<exists>b. xs = take c xs @ b # drop (Suc c) xs \<and> ys = take c xs @ (\<not> b) # drop (Suc c) ys \<and> xs ! c = b
    \<and> c < length xs"
proof -
  have c: "c < length xs" "c < length ys"
    using assms lcp_len_le [of xs ys] lcp_len_full [of xs ys] by (auto simp: order_le_less)
  have "xs = take c xs @ xs ! c # drop (Suc c) xs" "ys = take c ys @ ys ! c # drop (Suc c) ys"
    using c by (simp_all add: id_take_nth_drop)
  note xy = this
  have t: "take c ys = take c xs" by (simp add: c_def lcp_len_take)
  have d: "ys ! c = (\<not> xs ! c)" using lcp_len_diff [of xs ys] c by (auto simp: c_def)
  show ?thesis
    by (intro exI [of _ "xs ! c"] conjI) (use xy(2) [unfolded t d] xy(1) c(1) in simp_all)
qed

lemma value_at_rekey:
  assumes "label (rnode T) = p @ q"
  shows "value_at H (Some (rekey T q)) ks = value_at H (Some T) (p @ ks)"
proof -
  obtain n l r where T: "T = RT n l r" by (cases T)
  have "label (rnode (rekey T q)) = q"
    by (simp add: T rekey_def invalidate_radix_node_cache_def prefix_bits_to_bytes)
  then show ?thesis
    using assms unfolding value_at_Some [of H "rekey T q"] value_at_Some [of H T]
    by (auto simp: T rekey_def invalidate_radix_node_cache_def split: list.split)
qed

lemma value_at_branch:
  "value_at H (Some (branch_at H bs T0 T1)) ks =
     (if take (length bs) ks \<noteq> bs then None
      else case drop (length bs) ks of [] \<Rightarrow> None
           | b # ks' \<Rightarrow> value_at H (Some (if b then T1 else T0)) ks')"
  by (subst value_at_Some) (simp add: branch_at_def stored_value_hash_def split: list.split)

lemma value_at_mismatch:
  "take (length (label (rnode T))) ks \<noteq> label (rnode T) \<Longrightarrow> value_at H (Some T) ks = None"
  by (simp add: value_at_Some)

lemma value_at_split:
  assumes "take (length (label (rnode T))) ks \<noteq> label (rnode T)" "lcp_len (label (rnode T)) ks \<noteq> length ks"
  shows "value_at H (Some (split_tree H v T ks (lcp_len (label (rnode T)) ks))) ks' =
     (if ks' = ks then Some (value_hash H v) else value_at H (Some T) ks')"
proof -
  define p where "p = label (rnode T)"
  define c where "c = lcp_len p ks"
  obtain b where b: "p = take c p @ b # drop (Suc c) p" "ks = take c p @ (\<not> b) # drop (Suc c) ks"
    "p ! c = b" "c < length p"
    using lcp_len_split [of p ks] assms by (auto simp: p_def c_def)
  define q where "q = take c p"
  define p' where "p' = drop (Suc c) p"
  define k' where "k' = drop (Suc c) ks"
  have pq: "label (rnode T) = (q @ [b]) @ p'" and kq: "ks = q @ (\<not> b) # k'"
    using b(1,2) by (simp_all add: p_def [symmetric] q_def p'_def k'_def)
  have s: "split_tree H v T ks c =
      (if b then branch_at H q (leaf_at k' v) (rekey T p') else branch_at H q (rekey T p') (leaf_at k' v))"
    using b(3) by (simp add: split_tree_def p_def [symmetric] q_def p'_def k'_def)
  have no: "value_at H (Some T) z = None" if "take (length q) z \<noteq> q \<or> drop (length q) z = []
      \<or> (\<exists>z'. drop (length q) z = (\<not> b) # z')" for z
  proof (rule value_at_mismatch)
    show "take (length (label (rnode T))) z \<noteq> label (rnode T)"
    proof
      assume "take (length (label (rnode T))) z = label (rnode T)"
      then obtain w where "z = (q @ b # p') @ w" unfolding pq by (metis append_Cons append_Nil append_assoc append_take_drop_id)
      with that show False by auto
    qed
  qed
  show ?thesis
  proof (cases "take (length q) ks' = q \<and> drop (length q) ks' \<noteq> []")
    case False
    then have "ks' \<noteq> ks" and "value_at H (Some T) ks' = None" using kq no [of ks'] by auto
    with False show ?thesis
      unfolding p_def [symmetric] c_def [symmetric] s by (auto simp: value_at_branch split: list.split)
  next
    case True
    then obtain d z where z: "ks' = q @ d # z" by (metis append_take_drop_id list.exhaust)
    show ?thesis
    proof (cases "d = b")
      case True
      have "value_at H (Some (rekey T p')) z = value_at H (Some T) ks'"
        using value_at_rekey [OF pq, of H z] by (simp add: z True)
      then show ?thesis
        unfolding p_def [symmetric] c_def [symmetric] s using True kq
        by (auto simp: value_at_branch z)
    next
      case False
      then have d: "d = (\<not> b)" by auto
      have "value_at H (Some T) ks' = None" by (rule no) (simp add: z d)
      moreover have "ks' = ks \<longleftrightarrow> z = k'" by (simp add: z kq d)
      ultimately show ?thesis
        unfolding p_def [symmetric] c_def [symmetric] s using d
        by (auto simp: value_at_branch value_at_leaf z)
    qed
  qed
qed

lemma value_at_set_value:
  "value_at H (Some (set_value T v)) ks' =
     (if ks' = label (rnode T) then Some (value_hash H v) else value_at H (Some T) ks')"
proof -
  obtain n l r where T: "T = RT n l r" by (cases T)
  have "take (length (label n)) ks' = label n \<and> drop (length (label n)) ks' = [] \<longleftrightarrow> ks' = label n"
    using take_drop_eq [of "label n" ks' "[]"] by auto
  then show ?thesis
    by (auto simp: value_at_Some T set_value_def invalidate_radix_node_cache_def stored_value_hash_def
        split: list.split)
qed

lemma rins_value_at_cases:
  "(\<forall>T' ks'. rins H v T ks = Inr (Some T') \<longrightarrow>
      value_at H (Some T') ks' = (if ks' = ks then Some (value_hash H v) else value_at H (Some T) ks'))
   \<and> (rins H v T ks = Inr None \<longrightarrow> value_at H (Some T) ks = Some (value_hash H v))"
proof (induction H v T ks rule: rins.induct)
  case (1 H v T ks)
  let ?p = "label (rnode T)"
  consider (split) "take (length ?p) ks \<noteq> ?p"
    | (here) "take (length ?p) ks = ?p" "drop (length ?p) ks = []"
    | (new) b z where "take (length ?p) ks = ?p" "drop (length ?p) ks = b # z" "down b T = None"
    | (into) b z X where "take (length ?p) ks = ?p" "drop (length ?p) ks = b # z" "down b T = Some X"
    by (metis neq_Nil_conv not_None_eq)
  then show ?case
  proof cases
    case split
    then show ?thesis
      using value_at_split [OF split, of H v] by (auto simp: rins.simps [of H v T])
  next
    case here
    then have "ks = ?p" by (metis append_Nil2 append_take_drop_id)
    moreover have "rins H v T ks =
        (if rn_value (rnode T) \<noteq> None
            \<and> stored_value_hash H (rn_value (rnode T)) = stored_value_hash H (Some v)
         then Inr None else Inr (Some (set_value T v)))"
      by (subst rins.simps) (simp only: here if_True simp_thms list.case)
    moreover have "value_at H (Some T) ?p = stored_value_hash H (rn_value (rnode T))"
      by (subst value_at_Some) simp
    ultimately show ?thesis
      using value_at_set_value [of H T v] by (auto simp: stored_value_hash_def)
  next
    case new
    then have ks: "ks = ?p @ b # z" by (metis append_take_drop_id)
    have sub: "take (length ?p + 1) ks' = ?p @ [b] \<Longrightarrow>
        ks' = (?p @ [b]) @ drop (length ?p + 1) ks'" for ks' by (metis append_take_drop_id)
    have r: "rins H v T ks = Inr (Some (put_child H T b (leaf_at z v)))"
      by (subst rins.simps) (simp only: new if_True simp_thms list.case option.case)
    have old: "value_at H (Some T) (?p @ b # y) = None" for y
      by (subst value_at_Some) (simp add: new(3))
    have "value_at H (Some (put_child H T b (leaf_at z v))) ks' =
        (if ks' = ks then Some (value_hash H v) else value_at H (Some T) ks')" for ks'
    proof (cases "take (length ?p + 1) ks' = ?p @ [b]")
      case True
      define y where "y = drop (length ?p + 1) ks'"
      have y: "ks' = ?p @ b # y" using sub [OF True] by (simp add: y_def)
      have "value_at H (Some (put_child H T b (leaf_at z v))) ks' = value_at H (Some (leaf_at z v)) y"
        unfolding value_at_put_child using True y_def by simp
      then show ?thesis by (simp add: value_at_leaf y ks old)
    next
      case False
      then have "ks' \<noteq> ks" using ks by auto
      then show ?thesis unfolding value_at_put_child using False by simp
    qed
    then show ?thesis unfolding r by auto
  next
    case into
    then have ks: "ks = ?p @ b # z" by (metis append_take_drop_id)
    have sub: "take (length ?p + 1) ks' = ?p @ [b] \<Longrightarrow>
        ks' = (?p @ [b]) @ drop (length ?p + 1) ks'" for ks' by (metis append_take_drop_id)
    have old: "value_at H (Some T) (?p @ b # y) = value_at H (Some X) y" for y
      by (subst value_at_Some) (simp add: into(3))
    note IH = "1.IH" [OF into(1,2,3)]
    show ?thesis
    proof (intro conjI impI allI)
      fix T' ks'
      assume "rins H v T ks = Inr (Some T')"
      then obtain X' where X': "rins H v X z = Inr (Some X')" "T' = put_child H T b X'"
        by (subst (asm) rins.simps) (auto simp only: into if_True simp_thms list.case option.case
            bind_exc_eq_Inr Inr_inject map_option_eq_Some sum.inject)
      show "value_at H (Some T') ks' = (if ks' = ks then Some (value_hash H v) else value_at H (Some T) ks')"
      proof (cases "take (length ?p + 1) ks' = ?p @ [b]")
        case True
        define y where "y = drop (length ?p + 1) ks'"
        have y: "ks' = ?p @ b # y" using sub [OF True] by (simp add: y_def)
        have "value_at H (Some T') ks' = value_at H (Some X') y"
          unfolding X'(2) value_at_put_child using True y_def by simp
        then show ?thesis using IH X'(1) by (simp add: y ks old)
      next
        case False
        then have "ks' \<noteq> ks" using ks by auto
        then show ?thesis unfolding X'(2) value_at_put_child using False by simp
      qed
    next
      assume "rins H v T ks = Inr None"
      then have "rins H v X z = Inr None"
        by (subst (asm) rins.simps) (auto simp only: into if_True simp_thms list.case option.case
            bind_exc_eq_Inr map_option_is_None sum.inject)
      then show "value_at H (Some T) ks = Some (value_hash H v)"
        unfolding ks old using IH by blast
    qed
  qed
qed

lemmas rins_value_at = rins_value_at_cases [THEN conjunct1, rule_format]
  and rins_same_value = rins_value_at_cases [THEN conjunct2, rule_format]

end
