(* ===== verification/Radix_Put_Proof.thy ===== *)
theory Radix_Put_Proof
  imports Radix_Put "HOL-Library.Multiset"
begin

text \<open>
  The code of \<open>put_in_radix_tree\<close> does on the cache what \<open>rins\<close> does on the tree written out,
  as long as no hash of a node that the write leaves behind is the hash of a node of the new tree.
  The ancestors on the stack are a context: each frame is a subtree and the side the walk took.
\<close>

section \<open>The cut of a prefix, on bytes and on bits\<close>

lemma lcp_len_take_take:
  "length xs \<le> m \<or> length ys \<le> m \<Longrightarrow> lcp_len (take m xs) (take m ys) = lcp_len xs ys"
proof (induction xs ys arbitrary: m rule: lcp_len.induct)
  case (1 a xs b ys)
  show ?case
  proof (cases m)
    case (Suc m')
    then have "length xs \<le> m' \<or> length ys \<le> m'" using 1(2) by simp
    then show ?thesis using 1(1) by (simp add: Suc)
  qed (use 1(2) in simp)
qed simp_all

lemma common_len_eq:
  assumes "0 \<le> i" "0 \<le> pos" "i + int n \<le> 8 * int (length nk)" "pos + i + int n \<le> 8 * int (length k)"
  shows "common_len nk k pos i n =
     Inr (i + int (lcp_len (take n (drop (nat i) (bits_of nk))) (take n (drop (nat (pos + i)) (bits_of k)))))"
  using assms
proof (induction nk k pos i n rule: common_len.induct)
  case (2 nk k pos i n)
  have d: "take (Suc n) (drop (nat i) (bits_of nk)) =
      bits_of nk ! nat i # take n (drop (nat (i + 1)) (bits_of nk))"
    using 2(2-) by (subst drop_bits_Cons) simp_all
  have e: "take (Suc n) (drop (nat (pos + i)) (bits_of k)) =
      bits_of k ! nat (pos + i) # take n (drop (nat (pos + (i + 1))) (bits_of k))"
    using 2(2-) by (subst drop_bits_Cons) (simp_all add: add.assoc)
  have "get_bit nk i = Some (bits_of nk ! nat i)" "get_bit k (pos + i) = Some (bits_of k ! nat (pos + i))"
    using 2(2-) by (auto intro!: get_bit_eq)
  then show ?case
    using 2 by (simp only: common_len.simps option.case prod.case d e lcp_len.simps) (simp add: add.assoc)
qed simp

lemma bit_slice_node:
  assumes "0 \<le> start" "start + int m = 8 * int (length buf) \<or> start + int m \<le> 8 * int (length buf)"
    and "take m (drop (nat start) (bits_of buf)) = bs" "length bs = m"
  shows "bit_slice buf start (int m) = Inr (bits_to_bytes bs, int (length bs))"
  using bit_slice_eq [of start "int m" buf] assms by auto

lemma split_parts_eq:
  assumes fits: "fits (key n) (key_len n)" and pos: "0 \<le> pos" "pos \<le> 8 * int (length k)"
  defines "rest \<equiv> drop (nat pos) (bits_of k)"
  defines "c \<equiv> lcp_len (label n) rest"
  assumes mis: "take (length (label n)) rest \<noteq> label n"
  shows "split_parts n k pos =
     (if c = length rest then Inl IndexError
      else Inr (label n ! c, (bits_to_bytes (take c (label n)), int (length (take c (label n)))),
             (bits_to_bytes (drop (Suc c) (label n)), int (length (drop (Suc c) (label n)))),
             (bits_to_bytes (drop (Suc c) rest), int (length (drop (Suc c) rest)))))"
proof -
  define p where "p = label n"
  have len: "int (length p) = key_len n" "0 \<le> key_len n" "key_len n \<le> 8 * int (length (key n))"
    using length_prefix_bits [OF fits] fits by (auto simp: fits_def p_def)
  have p: "p = take (length p) (bits_of (key n))"
    using len(1) by (simp add: p_def prefix_bits_def)
  have rlen: "int (length rest) = 8 * int (length k) - pos" using pos by (simp add: rest_def)
  define m where "m = min (length p) (length rest)"
  have "min (key_len n) (int (length k) * 8 - pos) = int m"
    unfolding m_def of_nat_min using len(1) rlen by (simp add: mult.commute)
  then have m: "nat (min (key_len n) (int (length k) * 8 - pos)) = m" by simp
  have mle: "m \<le> length p" "m \<le> length rest" by (simp_all add: m_def)
  have "common_len (key n) k pos 0 m = Inr (int (lcp_len (take m (bits_of (key n))) (take m rest)))"
    using common_len_eq [of 0 pos m "key n" k] pos mle len rlen by (simp add: rest_def)
  moreover have "take m (bits_of (key n)) = take m p"
    using arg_cong [OF p, of "take m"] unfolding take_take min_absorb1 [OF mle(1)] by simp
  moreover have "lcp_len (take m p) (take m rest) = c"
    unfolding c_def p_def [symmetric] by (rule lcp_len_take_take) (auto simp: m_def min_def)
  ultimately have lcp: "common_len (key n) k pos 0 m = Inr (int c)" by simp
  have cle: "c \<le> length p" "c \<le> length rest" unfolding c_def p_def by (rule lcp_len_le)+
  show ?thesis
  proof (cases "c = length rest")
    case True
    then have "bit_or_raise k (pos + int c) = Inl IndexError"
      using get_bit_out [of k "pos + int c"] rlen by (simp add: bit_or_raise_def)
    with True show ?thesis
      by (cases "bit_or_raise (key n) (int c)")
        (auto simp: split_parts_def m lcp bit_or_raise_def split: option.splits)
  next
    case False
    have c: "c < length p" "c < length rest"
      using False cle mis lcp_len_full [of p rest] by (auto simp: p_def c_def order_le_less)
    have a: "bit_or_raise (key n) (int c) = Inr (p ! c)"
      using get_bit_eq [of "int c" "key n"] c len p
      by (simp add: bit_or_raise_def) (metis nth_take)
    have b: "bit_or_raise k (pos + int c) = Inr (rest ! c)"
      using get_bit_eq [of "pos + int c" k] c rlen pos
      by (simp add: bit_or_raise_def rest_def nat_add_distrib)
    have s1: "bit_slice (key n) 0 (int c) = Inr (bits_to_bytes (take c p), int (length (take c p)))"
      by (rule bit_slice_node) (use c len p in \<open>auto, metis less_imp_le_nat min.absorb1 take_take\<close>)
    have k2: "key_len n - int c - 1 = int (length p - Suc c)" using c len by simp
    have n1: "nat (int c + 1) = Suc c" by simp
    have t2: "take (length p - Suc c) (drop (nat (int c + 1)) (bits_of (key n))) = drop (Suc c) p"
      using arg_cong [OF p, of "drop (Suc c)"] unfolding drop_take n1 by (rule sym)
    have s2: "bit_slice (key n) (int c + 1) (key_len n - int c - 1) =
        Inr (bits_to_bytes (drop (Suc c) p), int (length (drop (Suc c) p)))"
      unfolding k2 by (rule bit_slice_node [OF _ _ t2]) (use c len in auto)
    have k3: "int (length k) * 8 - (pos + int c + 1) = int (length rest - Suc c)" using c rlen by simp
    have t3: "take (length rest - Suc c) (drop (nat (pos + int c + 1)) (bits_of k)) = drop (Suc c) rest"
      using pos by (simp add: rest_def nat_add_distrib add.commute add.left_commute)
    have s3: "bit_slice k (pos + int c + 1) (int (length k) * 8 - (pos + int c + 1)) =
        Inr (bits_to_bytes (drop (Suc c) rest), int (length (drop (Suc c) rest)))"
      unfolding k3 by (rule bit_slice_node [OF _ _ t3]) (use c rlen pos in auto)
    show ?thesis
      using False unfolding split_parts_def m lcp bind_exc_simps a b s1 s2 s3
      by (simp add: p_def)
  qed
qed

section \<open>Changes of the cache\<close>

lemma view_rename:
  "view rd (rename_node H t old n) (radix_node_hash H n) b = Some n"
  "x \<noteq> radix_node_hash H n \<Longrightarrow> x \<noteq> old \<Longrightarrow> view rd (rename_node H t old n) x b = view rd t x b"
  by (simp_all add: view_def rename_node_def Let_def update_conv' delete_conv')

lemma view_add:
  "view rd (add_node H t n) (radix_node_hash H n) b = Some n"
  "x \<noteq> radix_node_hash H n \<Longrightarrow> view rd (add_node H t n) x b = view rd t x b"
  by (simp_all add: view_def add_node_def update_conv')

lemma view_root [simp]:
  "view rd (t\<lparr>root_hash := h, root_block := b\<rparr>) = view rd t"
  by (simp add: view_def fun_eq_iff)

lemma root_rename [simp]:
  "root_hash (rename_node H t old n) = root_hash t" "root_hash (add_node H t n) = root_hash t"
  by (simp_all add: rename_node_def add_node_def Let_def)

lemma reps_rename:
  assumes "reps H (view rd t) b T" "radix_node_hash H n \<notin> set (hashes_of H T)" "old \<notin> set (hashes_of H T)"
  shows "reps H (view rd (rename_node H t old n)) b T"
proof (rule reps_cong [OF _ assms(1)])
  fix m b assume m: "m \<in> set (nodes_of T)" and v: "view rd t (radix_node_hash H m) b = Some m"
  have "radix_node_hash H m \<noteq> radix_node_hash H n" using m assms(2) by (metis image_eqI set_map)
  moreover have "radix_node_hash H m \<noteq> old" using m assms(3) by (metis image_eqI set_map)
  ultimately show "view rd (rename_node H t old n) (radix_node_hash H m) b = Some m"
    using v by (simp add: view_rename)
qed

lemma reps_add:
  assumes "reps H (view rd t) b T" "radix_node_hash H n \<notin> set (hashes_of H T)"
  shows "reps H (view rd (add_node H t n)) b T"
proof (rule reps_cong [OF _ assms(1)])
  fix m b assume m: "m \<in> set (nodes_of T)" and v: "view rd t (radix_node_hash H m) b = Some m"
  have "radix_node_hash H m \<noteq> radix_node_hash H n" using m assms(2) by (metis image_eqI set_map)
  then show "view rd (add_node H t n) (radix_node_hash H m) b = Some m" using v by (simp add: view_add)
qed

section \<open>Contexts\<close>

type_synonym frame = "rtree \<times> bool"

definition stack_of :: "(bytes \<Rightarrow> bytes) \<Rightarrow> frame list \<Rightarrow> ancestor list" where
  "stack_of H ctx = map (\<lambda>(T, b). (rnode T, hash_of H T, b)) ctx"

fun plug :: "(bytes \<Rightarrow> bytes) \<Rightarrow> frame list \<Rightarrow> rtree \<Rightarrow> rtree" where
  "plug H [] X = X"
| "plug H ((T, b) # ctx) X = plug H ctx (put_child H T b X)"

text \<open>The side of a frame that the walk did not take is as it was.\<close>

definition frame_ok ::
  "(bytes \<Rightarrow> bytes) \<Rightarrow> (bytes \<Rightarrow> bytes option \<Rightarrow> radix_node option) \<Rightarrow> frame \<Rightarrow> bool" where
  "frame_ok H V f =
     (case f of (T, b) \<Rightarrow> \<forall>S. down (\<not> b) T = Some S \<longrightarrow> reps H V (snd (child_of (rnode T) (\<not> b))) S)"

lemma rnode_put_child [simp]: "rnode (put_child H T b X) = set_child (rnode T) b (hash_of H X)"
  by (cases T) (simp add: put_child_def)

lemma nodes_put_child:
  "mset (nodes_of (put_child H T b X)) =
     {#set_child (rnode T) b (hash_of H X)#} + mset (nodes_of X)
     + (case down (\<not> b) T of None \<Rightarrow> {#} | Some S \<Rightarrow> mset (nodes_of S))"
  by (cases T; cases b) (auto simp: put_child_def split: option.split)

lemma set_nodes_put_child:
  "set (nodes_of (put_child H T b X)) =
     insert (set_child (rnode T) b (hash_of H X))
       (set (nodes_of X) \<union> (case down (\<not> b) T of None \<Rightarrow> {} | Some S \<Rightarrow> set (nodes_of S)))"
  using arg_cong [OF nodes_put_child [of H T b X], of set_mset] by (auto split: option.splits)

lemma distinct_put_child:
  assumes "distinct (hashes_of H (put_child H T b X))"
  shows "distinct (hashes_of H X)"
    and "radix_node_hash H (set_child (rnode T) b (hash_of H X)) \<notin> set (hashes_of H X)"
    and "down (\<not> b) T = Some S \<Longrightarrow> set (hashes_of H S) \<inter> set (hashes_of H X) = {}
           \<and> radix_node_hash H (set_child (rnode T) b (hash_of H X)) \<notin> set (hashes_of H S)
           \<and> distinct (hashes_of H S)"
proof -
  let ?p = "set_child (rnode T) b (hash_of H X)"
  let ?s = "case down (\<not> b) T of None \<Rightarrow> [] | Some S \<Rightarrow> nodes_of S"
  have "mset (hashes_of H (put_child H T b X)) = mset (map (radix_node_hash H) (?p # nodes_of X @ ?s))"
    unfolding mset_map nodes_put_child by (auto split: option.split)
  then have d: "distinct (map (radix_node_hash H) (?p # nodes_of X @ ?s))"
    using assms mset_eq_imp_distinct_iff by blast
  then show "distinct (hashes_of H X)" and "radix_node_hash H ?p \<notin> set (hashes_of H X)" by auto
  show "down (\<not> b) T = Some S \<Longrightarrow> set (hashes_of H S) \<inter> set (hashes_of H X) = {}
      \<and> radix_node_hash H ?p \<notin> set (hashes_of H S) \<and> distinct (hashes_of H S)"
    using d by (auto simp: Int_commute)
qed

lemma plug_nodes: "set (nodes_of X) \<subseteq> set (nodes_of (plug H ctx X))"
proof (induction ctx arbitrary: X)
  case (Cons f ctx)
  obtain T b where "f = (T, b)" by fastforce
  then show ?case using Cons [of "put_child H T b X"] by (auto simp: set_nodes_put_child)
qed simp

lemma plug_distinct: "distinct (hashes_of H (plug H ctx X)) \<Longrightarrow> distinct (hashes_of H X)"
proof (induction ctx arbitrary: X)
  case (Cons f ctx)
  obtain T b where f: "f = (T, b)" by fastforce
  from Cons.prems have "distinct (hashes_of H (plug H ctx (put_child H T b X)))"
    unfolding f plug.simps .
  then show ?case by (rule distinct_put_child(1) [OF Cons.IH])
qed simp

lemma plug_sibling:
  assumes "(T, b) \<in> set ctx" "down (\<not> b) T = Some S"
  shows "set (nodes_of S) \<subseteq> set (nodes_of (plug H ctx X))
     \<and> (distinct (hashes_of H (plug H ctx X)) \<longrightarrow> set (hashes_of H S) \<inter> set (hashes_of H X) = {})"
  using assms
proof (induction ctx arbitrary: X)
  case (Cons f ctx)
  obtain T' b' where f: "f = (T', b')" by fastforce
  let ?X = "put_child H T' b' X"
  show ?case
  proof (cases "(T, b) = f")
    case True
    have "set (nodes_of S) \<subseteq> set (nodes_of ?X)"
      using Cons.prems(2) True f by (auto simp: set_nodes_put_child)
    then show ?thesis
      using plug_nodes [of ?X H ctx] plug_distinct [of H ctx ?X] distinct_put_child(3) [of H T' b' X S]
        Cons.prems(2) True f by auto
  next
    case False
    then have "(T, b) \<in> set ctx" using Cons.prems(1) by auto
    from Cons.IH [OF this Cons.prems(2), of ?X] show ?thesis
      by (auto simp: f set_nodes_put_child)
  qed
qed simp

lemma reps_put_child:
  assumes "V (radix_node_hash H (set_child (rnode T) b (hash_of H X))) blk
      = Some (set_child (rnode T) b (hash_of H X))"
    and "reps H V None X" "frame_ok H V (T, b)"
  shows "reps H V blk (put_child H T b X)"
  using assms by (cases T; cases b) (auto simp: put_child_def frame_ok_def child_of_def pred_option_def)

lemma frame_ok_cong:
  assumes "frame_ok H (view rd t) (T, b)"
    and "\<And>S blk. down (\<not> b) T = Some S \<Longrightarrow> reps H (view rd t) blk S \<Longrightarrow> reps H (view rd t') blk S"
  shows "frame_ok H (view rd t') (T, b)"
  using assms by (auto simp: frame_ok_def)

lemma bubble_plug:
  assumes "reps H (view rd t) None X"
    and "\<And>f. f \<in> set ctx \<Longrightarrow> frame_ok H (view rd t) f"
    and "distinct (hashes_of H (plug H ctx X))"
    and "\<And>f. f \<in> set ctx \<Longrightarrow> hash_of H (fst f) \<notin> set (hashes_of H (plug H ctx X))"
  defines "t' \<equiv> bubble H t (stack_of H ctx) (hash_of H X)"
  shows "root_hash t' = Some (hash_of H (plug H ctx X)) \<and> root_block t' = None
     \<and> reps H (view rd t') None (plug H ctx X)"
  using assms(1-4) unfolding t'_def
proof (induction ctx arbitrary: t X)
  case Nil
  then show ?case by (simp add: stack_of_def)
next
  case (Cons f ctx)
  obtain T b where f: "f = (T, b)" by fastforce
  define X' where "X' = put_child H T b X"
  define n where "n = set_child (rnode T) b (hash_of H X)"
  define t1 where "t1 = rename_node H t (hash_of H T) n"
  have pl: "plug H (f # ctx) X = plug H ctx X'" by (simp add: f X'_def)
  note Cons.prems [unfolded pl]
  note pr = this
  have dX': "distinct (hashes_of H X')" using plug_distinct pr(3) by blast
  note dc = distinct_put_child [of H T b X, folded X'_def n_def, OF dX']
  have old: "hash_of H T \<notin> set (hashes_of H (plug H ctx X'))" using pr(4) [of f] f by simp
  have subX': "set (hashes_of H X') \<subseteq> set (hashes_of H (plug H ctx X'))"
    using plug_nodes by (metis image_mono set_map)
  have inX': "set (hashes_of H X) \<subseteq> set (hashes_of H X')" "radix_node_hash H n \<in> set (hashes_of H X')"
    by (auto simp: X'_def n_def set_nodes_put_child)
  have "reps H (view rd t1) None X"
    unfolding t1_def by (rule reps_rename [OF pr(1) dc(2)]) (meson inX'(1) old subX' subset_iff)
  moreover have "frame_ok H (view rd t1) (T, b)"
  proof (rule frame_ok_cong)
    show "frame_ok H (view rd t) (T, b)" using pr(2) [of f] f by simp
    fix S blk assume S: "down (\<not> b) T = Some S" and r: "reps H (view rd t) blk S"
    have "set (hashes_of H S) \<subseteq> set (hashes_of H X')"
      using S by (auto simp: X'_def set_nodes_put_child)
    then show "reps H (view rd t1) blk S"
      unfolding t1_def using dc(3) [OF S] old subX' by (intro reps_rename [OF r]) (meson subset_iff)+
  qed
  moreover have "view rd t1 (radix_node_hash H n) None = Some n"
    unfolding t1_def by (rule view_rename)
  ultimately have rX': "reps H (view rd t1) None X'"
    unfolding X'_def n_def by (intro reps_put_child)
  have fr: "frame_ok H (view rd t1) g" if "g \<in> set ctx" for g
  proof -
    obtain U c where g: "g = (U, c)" by fastforce
    show ?thesis
      unfolding g
    proof (rule frame_ok_cong)
      show "frame_ok H (view rd t) (U, c)" using pr(2) that g by simp
      fix S blk assume S: "down (\<not> c) U = Some S" and r: "reps H (view rd t) blk S"
      have "(U, c) \<in> set ctx" using that g by simp
      note sb = plug_sibling [OF this S, of H X']
      have "radix_node_hash H n \<notin> set (hashes_of H S)" using sb pr(3) inX'(2) by blast
      moreover have "set (hashes_of H S) \<subseteq> set (hashes_of H (plug H ctx X'))"
        using sb by (metis image_mono set_map)
      then have "hash_of H T \<notin> set (hashes_of H S)" using old by blast
      ultimately show "reps H (view rd t1) blk S" unfolding t1_def by (rule reps_rename [OF r])
    qed
  qed
  have "bubble H t (stack_of H (f # ctx)) (hash_of H X) = bubble H t1 (stack_of H ctx) (hash_of H X')"
    by (simp add: stack_of_def f t1_def n_def X'_def Let_def)
  then show ?case
    unfolding pl using Cons.IH [OF rX' fr pr(3)] pr(4) by simp
qed

section \<open>The three writes\<close>

lemma reps_agree:
  assumes "reps H (view rd t) b S" "\<And>x b. x \<notin> A \<Longrightarrow> view rd t1 x b = view rd t x b"
    and "set (hashes_of H S) \<inter> A = {}"
  shows "reps H (view rd t1) b S"
proof (rule reps_cong [OF _ assms(1)])
  fix m b assume m: "m \<in> set (nodes_of S)" and v: "view rd t (radix_node_hash H m) b = Some m"
  have "radix_node_hash H m \<notin> A" using m assms(3) by (metis disjoint_iff image_eqI set_map)
  with assms(2) v show "view rd t1 (radix_node_hash H m) b = Some m" by simp
qed

definition written :: "(bytes \<Rightarrow> bytes) \<Rightarrow> node_reader \<Rightarrow> radix_tree \<Rightarrow> rtree \<Rightarrow> bool" where
  "written H rd t F \<longleftrightarrow>
     root_hash t = Some (hash_of H F) \<and> root_block t = None \<and> reps H (view rd t) None F"

lemma finish_plug:
  assumes frames: "\<And>f. f \<in> set ctx \<Longrightarrow> frame_ok H (view rd t) f"
    and F: "F = plug H ctx X" "distinct (hashes_of H F)"
    and old: "\<And>f. f \<in> set ctx \<Longrightarrow> hash_of H (fst f) \<notin> set (hashes_of H F)" "hash_of H T \<notin> set (hashes_of H F)"
    and agree: "\<And>x b. x \<notin> insert (hash_of H T) (set (hashes_of H X)) \<Longrightarrow> view rd t1 x b = view rd t x b"
    and X: "reps H (view rd t1) None X"
  shows "written H rd (bubble H t1 (stack_of H ctx) (hash_of H X)) F"
proof -
  have fr: "frame_ok H (view rd t1) g" if "g \<in> set ctx" for g
  proof -
    obtain U c where g: "g = (U, c)" by fastforce
    show ?thesis
      unfolding g
    proof (rule frame_ok_cong)
      show "frame_ok H (view rd t) (U, c)" using frames that g by simp
      fix S blk assume S: "down (\<not> c) U = Some S" and r: "reps H (view rd t) blk S"
      have "(U, c) \<in> set ctx" using that g by simp
      note sb = plug_sibling [OF this S, of H X, folded F(1)]
      have "set (hashes_of H S) \<inter> set (hashes_of H X) = {}" using sb F(2) by blast
      moreover have "set (hashes_of H S) \<subseteq> set (hashes_of H F)"
        using sb by (metis image_mono set_map)
      then have "hash_of H T \<notin> set (hashes_of H S)" using old(2) by blast
      ultimately have dis: "set (hashes_of H S) \<inter> insert (hash_of H T) (set (hashes_of H X)) = {}"
        by blast
      show "reps H (view rd t1) blk S" by (rule reps_agree [OF r agree dis])
    qed
  qed
  show ?thesis
    unfolding written_def F(1)
    using bubble_plug [OF X fr F(2) [unfolded F(1)] old(1) [unfolded F(1)]] by blast
qed

lemma plug_hashes: "set (hashes_of H X) \<subseteq> set (hashes_of H (plug H ctx X))"
  using plug_nodes by (metis image_mono set_map)

lemma nodes_child:
  "down b T = Some S \<Longrightarrow> set (nodes_of S) \<subseteq> set (nodes_of T)"
  by (cases T) (auto split: if_splits)

text \<open>The node at the end of the key takes the value.\<close>

lemma put_here_written:
  assumes frames: "\<And>f. f \<in> set ctx \<Longrightarrow> frame_ok H (view rd t) f"
    and T: "reps H (view rd t) blk T"
    and F: "F = plug H ctx (set_value T v)" "distinct (hashes_of H F)"
    and old: "\<And>f. f \<in> set ctx \<Longrightarrow> hash_of H (fst f) \<notin> set (hashes_of H F)" "hash_of H T \<notin> set (hashes_of H F)"
  shows "written H rd (bubble H (rename_node H t (hash_of H T) (rnode (set_value T v)))
      (stack_of H ctx) (hash_of H (set_value T v))) F"
proof (rule finish_plug [OF frames F old])
  let ?X = "set_value T v" and ?t1 = "rename_node H t (hash_of H T) (rnode (set_value T v))"
  obtain n l r where Tn: "T = RT n l r" by (cases T)
  define n' where "n' = invalidate_radix_node_cache (n\<lparr>rn_value := Some v, value_block := None\<rparr>)"
  have X: "?X = RT n' l r" by (simp add: Tn set_value_def n'_def)
  have blk: "child_0_block n' = child_0_block n" "child_1_block n' = child_1_block n"
    by (simp_all add: n'_def invalidate_radix_node_cache_def)
  show "view rd ?t1 x b = view rd t x b" if "x \<notin> insert (hash_of H T) (set (hashes_of H ?X))" for x b
    using that by (intro view_rename) (auto simp: X)
  have dX: "distinct (hashes_of H ?X)" using F plug_distinct by blast
  have hX: "hash_of H T \<notin> set (hashes_of H ?X)" using old(2) plug_hashes F(1) by blast
  have "reps H (view rd ?t1) b S" if "reps H (view rd t) b S" "l = Some S \<or> r = Some S" for S b
    by (rule reps_rename [OF that(1)]) (use that(2) dX hX in \<open>auto simp: X\<close>)
  moreover have "view rd ?t1 (radix_node_hash H n') None = Some n'"
    using view_rename(1) [of rd H t "hash_of H T" n' None] by (simp add: X)
  ultimately have "reps H (view rd ?t1) None (RT n' l r)"
    using T by (auto simp: Tn blk pred_option_def)
  then show "reps H (view rd ?t1) None ?X" by (simp only: X)
qed

text \<open>A new leaf under a node that has no child on that side.\<close>

lemma append_leaf_written:
  assumes frames: "\<And>f. f \<in> set ctx \<Longrightarrow> frame_ok H (view rd t) f"
    and T: "reps H (view rd t) blk T"
    and F: "F = plug H ctx (put_child H T b (leaf_at bs v))" "distinct (hashes_of H F)"
    and old: "\<And>f. f \<in> set ctx \<Longrightarrow> hash_of H (fst f) \<notin> set (hashes_of H F)" "hash_of H T \<notin> set (hashes_of H F)"
  defines "leaf \<equiv> rnode (leaf_at bs v)"
  shows "written H rd (bubble H (rename_node H (add_node H t leaf) (hash_of H T)
      (set_child (rnode T) b (radix_node_hash H leaf))) (stack_of H ctx)
      (radix_node_hash H (set_child (rnode T) b (radix_node_hash H leaf)))) F"
proof -
  let ?X = "put_child H T b (leaf_at bs v)" and ?p = "set_child (rnode T) b (radix_node_hash H leaf)"
  let ?t1 = "rename_node H (add_node H t leaf) (hash_of H T) ?p"
  have leaf: "leaf_at bs v = RT leaf None None" by (simp add: leaf_at_def leaf_def)
  have X: "rnode ?X = ?p" by (simp add: leaf)
  have dX: "distinct (hashes_of H ?X)" using F plug_distinct by blast
  have hX: "hash_of H T \<notin> set (hashes_of H ?X)" using old(2) plug_hashes F(1) by blast
  have in_X: "radix_node_hash H leaf \<in> set (hashes_of H ?X)" "radix_node_hash H ?p \<in> set (hashes_of H ?X)"
    by (auto simp: set_nodes_put_child leaf)
  note dc = distinct_put_child [OF dX, unfolded leaf rtree.sel]
  have agree: "view rd ?t1 x b' = view rd t x b'"
    if "x \<notin> insert (hash_of H T) (set (hashes_of H ?X))" for x b'
  proof -
    have "x \<noteq> radix_node_hash H leaf" "x \<noteq> radix_node_hash H ?p" "x \<noteq> hash_of H T"
      using that in_X by blast+
    then show ?thesis by (simp add: view_rename view_add)
  qed
  have "radix_node_hash H leaf \<noteq> radix_node_hash H ?p" "radix_node_hash H leaf \<noteq> hash_of H T"
    using dc(2) in_X(1) hX by (auto simp: leaf_def)
  then have "reps H (view rd ?t1) None (leaf_at bs v)"
    by (simp add: leaf view_rename view_add)
  moreover have "frame_ok H (view rd ?t1) (T, b)"
    unfolding frame_ok_def prod.case
  proof (intro allI impI)
    fix S assume S: "down (\<not> b) T = Some S"
    have "set (nodes_of S) \<subseteq> set (nodes_of ?X)" using S by (auto simp: set_nodes_put_child)
    then have "set (hashes_of H S) \<subseteq> set (hashes_of H ?X)" by (metis image_mono set_map)
    then have "set (hashes_of H S) \<inter> {hash_of H T, radix_node_hash H leaf, radix_node_hash H ?p} = {}"
      using dc(3) [OF S] hX by (auto simp: leaf_def)
    then show "reps H (view rd ?t1) (snd (child_of (rnode T) (\<not> b))) S"
      by (rule reps_agree [OF reps_down [OF T S], rotated]) (simp add: view_rename view_add)
  qed
  moreover have "view rd ?t1 (radix_node_hash H ?p) None = Some ?p" by (rule view_rename)
  ultimately have "reps H (view rd ?t1) None ?X"
    by (intro reps_put_child) (simp_all add: leaf)
  from finish_plug [OF frames F old agree this] show ?thesis by (simp add: leaf_def)
qed

text \<open>A node that the key leaves inside its prefix is cut in two.\<close>

lemma rekey_parts:
  "rekey (RT n l r) bs =
     RT (invalidate_radix_node_cache (n\<lparr>key := bits_to_bytes bs, key_len := int (length bs)\<rparr>)) l r"
  by (simp add: rekey_def)

lemma split_written:
  assumes frames: "\<And>f. f \<in> set ctx \<Longrightarrow> frame_ok H (view rd t) f"
    and T: "reps H (view rd t) blk T"
    and F: "F = plug H ctx X" "distinct (hashes_of H F)"
    and old: "\<And>f. f \<in> set ctx \<Longrightarrow> hash_of H (fst f) \<notin> set (hashes_of H F)" "hash_of H T \<notin> set (hashes_of H F)"
    and X: "X = (if d then branch_at H cs (leaf_at bs v) (rekey T ss)
                 else branch_at H cs (rekey T ss) (leaf_at bs v))"
  shows "written H rd (bubble H (add_node H (add_node H (rename_node H t (hash_of H T) (rnode (rekey T ss)))
      (rnode (leaf_at bs v))) (rnode X)) (stack_of H ctx) (hash_of H X)) F"
proof (rule finish_plug [OF frames F old])
  let ?t1 = "rename_node H t (hash_of H T) (rnode (rekey T ss))"
  let ?t2 = "add_node H ?t1 (rnode (leaf_at bs v))"
  let ?t3 = "add_node H ?t2 (rnode X)"
  obtain n l r where Tn: "T = RT n l r" by (cases T)
  define n' where "n' = rnode (rekey T ss)"
  define leaf where "leaf = rnode (leaf_at bs v)"
  have rk: "rekey T ss = RT n' l r" and lf: "leaf_at bs v = RT leaf None None"
    by (simp_all add: Tn rekey_parts n'_def leaf_at_def leaf_def)
  have dX: "distinct (hashes_of H X)" using F plug_distinct by blast
  have hX: "hash_of H T \<notin> set (hashes_of H X)" using old(2) plug_hashes F(1) by blast
  obtain i where i: "X = (if d then RT i (Some (leaf_at bs v)) (Some (rekey T ss))
      else RT i (Some (rekey T ss)) (Some (leaf_at bs v)))" "rnode X = i"
    "child_0_block i = None" "child_1_block i = None"
    by (cases d) (simp_all add: X branch_at_def)
  have nodes: "mset (nodes_of X) = {#i#} + {#leaf#} + mset (nodes_of (RT n' l r))"
    by (cases d) (simp_all add: i(1) rk lf)
  have dist: "distinct (map (radix_node_hash H) (i # leaf # nodes_of (RT n' l r)))"
  proof (rule iffD1 [OF mset_eq_imp_distinct_iff dX])
    show "mset (hashes_of H X) = mset (map (radix_node_hash H) (i # leaf # nodes_of (RT n' l r)))"
      unfolding mset_map nodes by simp
  qed
  have hs: "set (hashes_of H X) = insert (radix_node_hash H i) (insert (radix_node_hash H leaf)
      (set (hashes_of H (RT n' l r))))"
    using arg_cong [OF nodes, of "\<lambda>M. set_mset (image_mset (radix_node_hash H) M)"] by auto
  have blk: "child_0_block n' = child_0_block n" "child_1_block n' = child_1_block n"
    by (simp_all add: n'_def Tn rekey_parts invalidate_radix_node_cache_def)
  have agree: "view rd ?t3 x b = view rd t x b"
    if "x \<notin> {hash_of H T, radix_node_hash H n', radix_node_hash H leaf, radix_node_hash H i}" for x b
    using that by (simp add: i(2) leaf_def n'_def view_rename view_add)
  show "view rd ?t3 x b = view rd t x b" if "x \<notin> insert (hash_of H T) (set (hashes_of H X))" for x b
    using that unfolding hs by (intro agree) simp
  have below: "reps H (view rd ?t3) b S" if "reps H (view rd t) b S" "l = Some S \<or> r = Some S" for S b
  proof (rule reps_agree [OF that(1) agree])
    define ls where "ls = (case l of None \<Rightarrow> [] | Some T \<Rightarrow> nodes_of T) @ (case r of None \<Rightarrow> [] | Some T \<Rightarrow> nodes_of T)"
    have ls: "nodes_of (RT n' l r) = n' # ls" by (simp add: ls_def)
    have "set (nodes_of S) \<subseteq> set ls" using that(2) by (auto simp: ls_def)
    then have sub: "set (hashes_of H S) \<subseteq> set (map (radix_node_hash H) ls)" by (metis image_mono set_map)
    have "radix_node_hash H x \<notin> set (map (radix_node_hash H) ls)" if "x \<in> {n', leaf, i}" for x
      using dist that unfolding ls by auto
    moreover have "hash_of H T \<notin> set (map (radix_node_hash H) ls)" using hX unfolding hs ls by simp
    ultimately show "set (hashes_of H S)
        \<inter> {hash_of H T, radix_node_hash H n', radix_node_hash H leaf, radix_node_hash H i} = {}"
      using sub by blast
  qed
  have ne: "radix_node_hash H n' \<noteq> radix_node_hash H leaf" "radix_node_hash H n' \<noteq> radix_node_hash H i"
    "radix_node_hash H leaf \<noteq> radix_node_hash H i"
    using dist by auto
  have v1: "view rd ?t3 (radix_node_hash H n') b = Some n'" for b
    unfolding i(2) leaf_def [symmetric] n'_def [symmetric] view_add(2) [OF ne(2)] view_add(2) [OF ne(1)]
    by (rule view_rename)
  have v2: "view rd ?t3 (radix_node_hash H leaf) b = Some leaf" for b
    unfolding i(2) leaf_def [symmetric] view_add(2) [OF ne(3)] by (rule view_add)
  have v3: "view rd ?t3 (radix_node_hash H i) b = Some i" for b
    by (simp add: i(2) view_add)
  have "reps H (view rd ?t3) None (RT n' l r)"
    using T below v1 by (auto simp: Tn blk pred_option_def)
  moreover have "reps H (view rd ?t3) None (RT leaf None None)" using v2 by simp
  ultimately show "reps H (view rd ?t3) None X"
    using v3 by (cases d) (simp_all add: i(1,3,4) rk lf)
qed

section \<open>The loop\<close>

text \<open>The nodes that a write to a key passes, all of which it leaves behind.\<close>

fun walked :: "rtree \<Rightarrow> bool list \<Rightarrow> radix_node list" where
  "walked (RT n l r) ks =
     n # (if take (length (label n)) ks \<noteq> label n then []
          else (case drop (length (label n)) ks of
                  [] \<Rightarrow> []
                | True # ks' \<Rightarrow> (case r of None \<Rightarrow> [] | Some T \<Rightarrow> walked T ks')
                | False # ks' \<Rightarrow> (case l of None \<Rightarrow> [] | Some T \<Rightarrow> walked T ks')))"

lemma walked_eq:
  "walked T ks =
     rnode T # (if take (length (label (rnode T))) ks \<noteq> label (rnode T) then []
       else (case drop (length (label (rnode T))) ks of
               [] \<Rightarrow> []
             | b # ks' \<Rightarrow> (case down b T of None \<Rightarrow> [] | Some X \<Rightarrow> walked X ks')))"
  by (cases T) (auto split: list.split bool.split)

declare walked.simps [simp del]

lemma walked_root: "rnode T \<in> set (walked T ks)"
  by (subst walked_eq) simp

definition after ::
  "(bytes \<Rightarrow> bytes) \<Rightarrow> node_reader \<Rightarrow> radix_tree \<Rightarrow> radix_tree \<Rightarrow> rtree \<Rightarrow> exc + rtree option \<Rightarrow> bool" where
  "after H rd t t' R res =
     (case res of
        Inr (Some F) \<Rightarrow> written H rd t' F
      | _ \<Rightarrow> root_hash t' = root_hash t \<and> root_block t' = root_block t
          \<and> (\<forall>b. reps H (view rd t) b R \<longrightarrow> reps H (view rd t') b R))"

lemma after_refl: "(\<And>F. res \<noteq> Inr (Some F)) \<Longrightarrow> after H rd t t R res"
  by (auto simp: after_def split: sum.split option.split)

lemma split_and_insert_bubble:
  assumes "fits (key (rnode T)) (key_len (rnode T))" "0 \<le> pos" "pos \<le> 8 * int (length k)"
  defines "rest \<equiv> drop (nat pos) (bits_of k)" and "p \<equiv> label (rnode T)"
  defines "c \<equiv> lcp_len p rest"
  assumes "take (length p) rest \<noteq> p"
  shows "split_and_insert H t (rnode T) stack k pos v =
     Some
       (if c = length rest then (Inl IndexError, t)
        else
          (Inr (),
           bubble H (add_node H (add_node H (rename_node H t (hash_of H T) (rnode (rekey T (drop (Suc c) p))))
               (rnode (leaf_at (drop (Suc c) rest) v))) (rnode (split_tree H v T rest c)))
             stack (hash_of H (split_tree H v T rest c))))"
proof -
  obtain n l r where T: "T = RT n l r" by (cases T)
  have parts: "split_parts n k pos =
     (if c = length rest then Inl IndexError
      else Inr (p ! c, (bits_to_bytes (take c p), int (length (take c p))),
             (bits_to_bytes (drop (Suc c) p), int (length (drop (Suc c) p))),
             (bits_to_bytes (drop (Suc c) rest), int (length (drop (Suc c) rest)))))"
    using split_parts_eq [of n pos k] assms by (simp add: T)
  show ?thesis
  proof (cases "c = length rest")
    case True
    then show ?thesis using parts by (simp add: split_and_insert_def T)
  next
    case False
    have "(case stack of [] \<Rightarrow> t3\<lparr>root_hash := Some h, root_block := None\<rparr>
        | (parent, old_hash, dir) # ancestors \<Rightarrow>
            (let parent' = set_child parent dir h
             in bubble H (rename_node H t3 old_hash parent') ancestors (radix_node_hash H parent')))
        = bubble H t3 stack h" for t3 h
      by (cases stack) (auto simp: Let_def)
    then show ?thesis
      using False unfolding split_and_insert_def T rtree.sel parts
      by (simp add: Let_def rekey_parts leaf_at_def node_at_def branch_at_def split_tree_def p_def T)
  qed
qed

lemma append_leaf_bubble:
  assumes "0 \<le> pos" "pos < 8 * int (length k)"
  shows "append_leaf H t (rnode T) b k pos v stack =
     Some (Inr (), bubble H (rename_node H (add_node H t (rnode (leaf_at (drop (nat (pos + 1)) (bits_of k)) v)))
        (hash_of H T) (set_child (rnode T) b (hash_of H (leaf_at (drop (nat (pos + 1)) (bits_of k)) v)))) stack
        (radix_node_hash H (set_child (rnode T) b (hash_of H (leaf_at (drop (nat (pos + 1)) (bits_of k)) v)))))"
proof -
  define rest where "rest = drop (nat (pos + 1)) (bits_of k)"
  have e: "int (length k) * 8 - (pos + 1) = int (length rest)"
    using assms by (simp add: rest_def)
  have "bit_slice k (pos + 1) (int (length rest)) = Inr (bits_to_bytes rest, int (length rest))"
    by (rule bit_slice_node) (use assms in \<open>auto simp: rest_def\<close>)
  then show ?thesis
    unfolding append_leaf_def e rest_def [symmetric]
    by (simp add: leaf_at_def node_at_def Let_def)
qed

lemma put_loop_rins:
  assumes "wf_rtree H T" "reps H (view rd t) block T"
    and "\<And>f. f \<in> set ctx \<Longrightarrow> frame_ok H (view rd t) f \<and> set (nodes_of (fst f)) \<subseteq> set (nodes_of R)"
    and "inj_on (radix_node_hash H) (set (nodes_of R))" "set (nodes_of T) \<subseteq> set (nodes_of R)"
    and "0 \<le> pos" "pos \<le> 8 * int (length k)" "depth T \<le> fuel"
    and "res = bind_exc (rins H v T (drop (nat pos) (bits_of k))) (\<lambda>r. Inr (map_option (plug H ctx) r))"
    and "\<And>F. res = Inr (Some F) \<Longrightarrow> distinct (hashes_of H F)
        \<and> (\<forall>n \<in> set (walked T (drop (nat pos) (bits_of k))). radix_node_hash H n \<notin> set (hashes_of H F))
        \<and> (\<forall>f \<in> set ctx. hash_of H (fst f) \<notin> set (hashes_of H F))"
  shows "\<exists>t'. put_loop H rd k v fuel t (rnode T) (stack_of H ctx) pos = Some (map_sum id (\<lambda>_. ()) res, t')
     \<and> after H rd t t' R res"
  using assms
proof (induction fuel arbitrary: T t block pos ctx)
  case 0
  then show ?case by (cases T) simp
next
  case (Suc fuel)
  note pr = Suc.prems
  define rest where "rest = drop (nat pos) (bits_of k)"
  define p where "p = label (rnode T)"
  note step = walk_step_cases [OF wf_fits [OF pr(1)] pr(6,7), folded rest_def p_def]
  have frames: "\<And>f. f \<in> set ctx \<Longrightarrow> frame_ok H (view rd t) f" using pr(3) by blast
  have res: "res = bind_exc (rins H v T rest) (\<lambda>r. Inr (map_option (plug H ctx) r))"
    using pr(9) by (simp add: rest_def)
  have cl: "distinct (hashes_of H F)" "f \<in> set ctx \<Longrightarrow> hash_of H (fst f) \<notin> set (hashes_of H F)"
    "hash_of H T \<notin> set (hashes_of H F)" if "res = Inr (Some F)" for F f
    using pr(10) [OF that] walked_root [of T "drop (nat pos) (bits_of k)"] by blast+
  note rT = rins.simps [of H v T rest, folded p_def]
  consider (mis) "take (length p) rest \<noteq> p"
    | (here) "take (length p) rest = p" "pos + key_len (rnode T) = 8 * int (length k)"
    | (down) "take (length p) rest = p" "pos + key_len (rnode T) < 8 * int (length k)"
    using step(2) by force
  then show ?case
  proof cases
    case mis
    define c where "c = lcp_len p rest"
    note sb = split_and_insert_bubble [OF wf_fits [OF pr(1)] pr(6,7), folded rest_def p_def, folded c_def, OF mis]
    have code: "put_loop H rd k v (Suc fuel) t (rnode T) (stack_of H ctx) pos =
        split_and_insert H t (rnode T) (stack_of H ctx) k pos v"
      using mis by (simp add: step(1))
    show ?thesis
    proof (cases "c = length rest")
      case True
      then have "res = Inl IndexError" using mis by (simp add: res rT c_def [symmetric])
      with True show ?thesis unfolding code sb by (auto intro: after_refl)
    next
      case False
      let ?X = "split_tree H v T rest c"
      have F: "res = Inr (Some (plug H ctx ?X))"
        using mis False by (simp add: res rT c_def [symmetric])
      have X: "?X = (if p ! c then branch_at H (take c p) (leaf_at (drop (Suc c) rest) v) (rekey T (drop (Suc c) p))
          else branch_at H (take c p) (rekey T (drop (Suc c) p)) (leaf_at (drop (Suc c) rest) v))"
        by (simp add: split_tree_def p_def Let_def)
      from split_written [OF frames pr(2) refl cl(1) [OF F] cl(2) [OF F] cl(3) [OF F] X] False F
      show ?thesis unfolding code sb by (simp add: after_def)
    qed
  next
    case here
    have nil: "drop (length p) rest = []" using step(2) here by simp
    have code: "put_loop H rd k v (Suc fuel) t (rnode T) (stack_of H ctx) pos =
        put_here H t (rnode T) (stack_of H ctx) v"
      using here by (simp add: step(1) mult.commute)
    define same where "same \<longleftrightarrow> rn_value (rnode T) \<noteq> None
        \<and> stored_value_hash H (rn_value (rnode T)) = stored_value_hash H (Some v)"
    have r: "rins H v T rest = (if same then Inr None else Inr (Some (set_value T v)))"
      unfolding rT same_def nil using here(1) by simp
    have w: "rnode (set_value T v) = invalidate_radix_node_cache ((rnode T)\<lparr>rn_value := Some v, value_block := None\<rparr>)"
      by (cases T) (simp add: set_value_def)
    show ?thesis
    proof (cases same)
      case True
      then have "res = Inr None" by (simp add: res r)
      with True show ?thesis
        unfolding code by (auto simp: put_here_def same_def intro: after_refl)
    next
      case False
      have F: "res = Inr (Some (plug H ctx (set_value T v)))" using False by (simp add: res r)
      from put_here_written [OF frames pr(2) refl cl(1) [OF F] cl(2) [OF F] cl(3) [OF F]] False F
      show ?thesis unfolding code by (auto simp: put_here_def same_def after_def w Let_def)
    qed
  next
    case down
    define q where "q = pos + key_len (rnode T)"
    have q: "0 \<le> q" "q < 8 * int (length k)" using step(2) down by (simp_all add: q_def)
    define b where "b = bits_of k ! nat q"
    define rest' where "rest' = drop (nat (q + 1)) (bits_of k)"
    have tail: "drop (length p) rest = b # rest'"
      using step(2) down(1) drop_bits_Cons [OF q] by (simp add: q_def b_def rest'_def)
    have bit: "get_bit k q = Some b" unfolding b_def by (rule get_bit_eq) (use q in simp_all)
    show ?thesis
    proof (cases "down b T")
      case None
      have "fst (child_of (rnode T) b) = None" by (rule wf_down_None [OF pr(1) None])
      then obtain blk where c: "child_of (rnode T) b = (None, blk)" by (cases "child_of (rnode T) b") simp
      have code: "put_loop H rd k v (Suc fuel) t (rnode T) (stack_of H ctx) pos =
          append_leaf H t (rnode T) b k q v (stack_of H ctx)"
        using down q by (simp add: step(1) q_def [symmetric] bit c Let_def mult.commute)
      have "rins H v T rest = Inr (Some (put_child H T b (leaf_at rest' v)))"
        unfolding rT tail using down(1) None by simp
      then have F: "res = Inr (Some (plug H ctx (put_child H T b (leaf_at rest' v))))" by (simp add: res)
      from append_leaf_written [OF frames pr(2) refl cl(1) [OF F] cl(2) [OF F] cl(3) [OF F]] F
      show ?thesis
        unfolding code append_leaf_bubble [OF q] rest'_def [symmetric] by (simp add: after_def)
    next
      case (Some X)
      note d = wf_down [OF pr(1) Some]
      obtain blk where c: "child_of (rnode T) b = (Some (hash_of H X), blk)"
        using d(2) by (cases "child_of (rnode T) b") simp
      have rX: "reps H (view rd t) blk X" using reps_down [OF pr(2) Some] c by simp
      obtain t1 where t1: "fetch_node rd t (hash_of H X) blk = Some (Inr (Some (rnode X)), t1)"
        "root_hash t1 = root_hash t" "root_block t1 = root_block t"
        "map_of (nodes t1) = (map_of (nodes t))(hash_of H X \<mapsto> rnode X)"
        by (rule fetch_view [OF reps_root [OF rX]])
      have sub: "set (nodes_of X) \<subseteq> set (nodes_of R)" using d(3) pr(5) by blast
      have keep: "reps H (view rd t1) bl S"
        if "reps H (view rd t) bl S" "set (nodes_of S) \<subseteq> set (nodes_of R)" for bl S
        by (rule reps_fetch [OF inj_on_subset [OF pr(4)] refl t1(4) that(1)])
          (use that(2) sub rnode_in [of X] in auto)
      have keepf: "frame_ok H (view rd t1) f" if "frame_ok H (view rd t) f" "set (nodes_of (fst f)) \<subseteq> set (nodes_of R)" for f
      proof -
        obtain U e where f: "f = (U, e)" by fastforce
        show ?thesis
          unfolding f by (rule frame_ok_cong [OF that(1) [unfolded f]])
            (use that(2) f nodes_child [of "\<not> e" U] keep in auto)
      qed
      have "frame_ok H (view rd t) (T, b)"
        using reps_down [OF pr(2)] by (simp add: frame_ok_def)
      then have fr': "frame_ok H (view rd t1) f \<and> set (nodes_of (fst f)) \<subseteq> set (nodes_of R)"
        if "f \<in> set ((T, b) # ctx)" for f
      proof (cases "f = (T, b)")
        case True
        then show ?thesis
          using keepf [of "(T, b)"] \<open>frame_ok H (view rd t) (T, b)\<close> pr(5) by simp
      next
        case False
        then have "f \<in> set ctx" using that by simp
        from pr(3) [OF this] keepf [of f] show ?thesis by blast
      qed
      have "rins H v T rest = bind_exc (rins H v X rest') (\<lambda>r. Inr (map_option (put_child H T b) r))"
        unfolding rT tail using down(1) Some by simp
      then have res': "res = bind_exc (rins H v X rest') (\<lambda>r. Inr (map_option (plug H ((T, b) # ctx)) r))"
        unfolding res
        by (cases "rins H v X rest'") (auto simp: option.map_comp comp_def fun_eq_iff intro!: option.map_cong)
      have "set (walked X rest') \<subseteq> set (walked T rest)"
        unfolding walked_eq [of T rest, folded p_def] tail using down(1) Some by auto
      then have cl': "distinct (hashes_of H F)
          \<and> (\<forall>n \<in> set (walked X rest'). radix_node_hash H n \<notin> set (hashes_of H F))
          \<and> (\<forall>f \<in> set ((T, b) # ctx). hash_of H (fst f) \<notin> set (hashes_of H F))"
        if "res = Inr (Some F)" for F
        using pr(10) [OF that] cl(3) [OF that] by (auto simp: rest_def)
      have dep: "depth X \<le> fuel" using d(4) pr(8) by simp
      obtain t' where t': "put_loop H rd k v fuel t1 (rnode X) (stack_of H ((T, b) # ctx)) (q + 1) =
            Some (map_sum id (\<lambda>_. ()) res, t')" "after H rd t1 t' R res"
        using Suc.IH [OF d(1) keep [OF rX sub] fr' pr(4) sub _ _ dep res' [unfolded rest'_def] cl' [unfolded rest'_def]]
          q by (auto simp: id_def)
      have code: "put_loop H rd k v (Suc fuel) t (rnode T) (stack_of H ctx) pos =
          put_loop H rd k v fuel t1 (rnode X) (stack_of H ((T, b) # ctx)) (q + 1)"
        using down q by (simp add: step(1) q_def [symmetric] bit c t1(1) Let_def mult.commute stack_of_def)
      have aft: "after H rd t t' R res"
        using t'(2) t1(2,3) keep [of _ R] by (auto simp: after_def split: sum.splits option.splits)
      show ?thesis by (rule exI [of _ t'], rule conjI, rule trans [OF code t'(1)], rule aft)
    qed
  qed
qed

end
