(* ===== verification/Radix_Laws.thy ===== *)
theory Radix_Laws
  imports Radix_Put_Proof
begin

text \<open>
  The contract of the radix tree: a finite map from keys to values. A lookup returns what the tree
  written out says, a write changes one key, and a key that ends inside the prefix of a node
  raises \<open>IndexError\<close>. The interface \<open>key_map\<close> states what a client of the tree relies on.
\<close>

section \<open>A write keeps the tree well formed\<close>

lemma wf_put_child:
  "wf_rtree H T \<Longrightarrow> wf_rtree H X \<Longrightarrow> wf_rtree H (put_child H T b X)"
  by (cases T) (auto simp: put_child_def)

lemma wf_leaf_at: "wf_rtree H (leaf_at bs v)"
  by (simp add: leaf_at_def)

lemma wf_set_value: "wf_rtree H T \<Longrightarrow> wf_rtree H (set_value T v)"
  by (cases T) (simp add: set_value_def invalidate_radix_node_cache_def)

lemma wf_rekey: "wf_rtree H T \<Longrightarrow> wf_rtree H (rekey T bs)"
  by (cases T) (simp add: rekey_parts invalidate_radix_node_cache_def fits_bits_to_bytes)

lemma wf_branch_at: "wf_rtree H T0 \<Longrightarrow> wf_rtree H T1 \<Longrightarrow> wf_rtree H (branch_at H bs T0 T1)"
  by (simp add: branch_at_def)

lemmas wf_intros = wf_put_child wf_leaf_at wf_set_value wf_rekey wf_branch_at

lemma rins_wf: "wf_rtree H T \<Longrightarrow> rins H v T ks = Inr (Some F) \<Longrightarrow> wf_rtree H F"
proof (induction H v T ks arbitrary: F rule: rins.induct)
  case (1 H v T ks)
  have parts: "rins H v T ks = Inr (Some F)" by (rule 1(3))
  show ?case
  proof (cases "take (length (label (rnode T))) ks = label (rnode T)")
    case False
    with parts show ?thesis
      by (subst (asm) rins.simps)
        (auto simp: split_tree_def Let_def 1(2) intro!: wf_intros split: if_splits)
  next
    case True
    show ?thesis
    proof (cases "drop (length (label (rnode T))) ks")
      case Nil
      with parts True show ?thesis
        by (subst (asm) rins.simps) (auto simp: 1(2) intro!: wf_intros split: if_splits)
    next
      case (Cons b ks')
      show ?thesis
      proof (cases "down b T")
        case None
        have "rins H v T ks = Inr (Some (put_child H T b (leaf_at ks' v)))"
          by (subst rins.simps) (simp only: True if_True simp_thms Cons None list.case option.case)
        with parts have "F = put_child H T b (leaf_at ks' v)" by simp
        then show ?thesis using 1(2) by (simp add: wf_intros)
      next
        case (Some X)
        have "rins H v T ks = bind_exc (rins H v X ks') (\<lambda>r. Inr (map_option (put_child H T b) r))"
          by (subst rins.simps) (simp only: True if_True simp_thms Cons Some list.case option.case)
        with parts obtain X' where X': "rins H v X ks' = Inr (Some X')" "F = put_child H T b X'"
          by (auto simp: bind_exc_eq_Inr)
        from 1(1) [OF True Cons Some wf_down(1) [OF 1(2) Some] X'(1)] X'(2) 1(2)
        show ?thesis by (simp add: wf_intros)
      qed
    qed
  qed
qed

section \<open>What a write does to the tree\<close>

definition put_root ::
  "(bytes \<Rightarrow> bytes) \<Rightarrow> rtree option \<Rightarrow> bytes \<Rightarrow> rvalue \<Rightarrow> exc + rtree option" where
  "put_root H R k v =
     (case R of
        None \<Rightarrow> Inr (Some (leaf_at (bits_of k) v))
      | Some T \<Rightarrow>
          (case rins H v T (bits_of k) of
             Inl e \<Rightarrow> Inl e
           | Inr None \<Rightarrow> Inr (Some T)
           | Inr (Some F) \<Rightarrow> Inr (Some F)))"

text \<open>
  No clash of hashes: the nodes of the tree are told apart by their hashes, and so are those of the
  new tree; a node that the write leaves behind has a hash that no node of the new tree has.
\<close>

definition no_clash :: "(bytes \<Rightarrow> bytes) \<Rightarrow> rtree option \<Rightarrow> bytes \<Rightarrow> rvalue \<Rightarrow> bool" where
  "no_clash H R k v =
     (case R of
        None \<Rightarrow> hash_of H (leaf_at (bits_of k) v) \<noteq> ZERO32
      | Some T \<Rightarrow>
          distinct (hashes_of H T)
          \<and> (case rins H v T (bits_of k) of
               Inr (Some F) \<Rightarrow>
                 distinct (hashes_of H F) \<and> hash_of H F \<noteq> ZERO32
                 \<and> list_all (\<lambda>n. radix_node_hash H n \<notin> set (hashes_of H F)) (walked T (bits_of k))
             | _ \<Rightarrow> True))"

definition root_depth :: "rtree option \<Rightarrow> nat" where
  "root_depth R = (case R of None \<Rightarrow> 0 | Some T \<Rightarrow> depth T)"

lemma put_refines:
  assumes "holds H rd t R" "no_clash H R k v" "root_depth R \<le> fuel"
  shows "\<exists>t'. put_in_radix_tree H rd fuel t k v = Some (map_sum id (\<lambda>_. ()) (put_root H R k v), t')
     \<and> holds H rd t' (case put_root H R k v of Inl _ \<Rightarrow> R | Inr R' \<Rightarrow> R')"
proof (cases R)
  case None
  let ?leaf = "node_at (bits_of k) (Some v) None None"
  have leaf: "make_node k (int (length k) * 8) (Some v) None None = ?leaf"
    by (simp add: node_at_def bits_to_bytes_bits_of mult.commute)
  have "put_in_radix_tree H rd fuel t k v =
      Some (Inr (), (add_node H t ?leaf)\<lparr>root_hash := Some (radix_node_hash H ?leaf), root_block := None\<rparr>)"
    using assms(1) None by (auto simp: put_in_radix_tree_def holds_def leaf Let_def)
  then show ?thesis
    using assms(2) None
    by (simp add: put_root_def holds_def no_clash_def leaf_at_def view_add)
next
  case (Some T)
  with assms(1) have h: "wf_rtree H T" "root_hash t = Some (hash_of H T)" "hash_of H T \<noteq> ZERO32"
    "reps H (view rd t) (root_block t) T" by (simp_all add: holds_def)
  have dT: "distinct (hashes_of H T)" using assms(2) Some by (simp add: no_clash_def)
  then have inj: "inj_on (radix_node_hash H) (set (nodes_of T))" by (simp add: distinct_map)
  define res where "res = rins H v T (bits_of k)"
  obtain t1 where t1: "fetch_node rd t (hash_of H T) (root_block t) = Some (Inr (Some (rnode T)), t1)"
    "root_hash t1 = root_hash t" "root_block t1 = root_block t"
    "map_of (nodes t1) = (map_of (nodes t))(hash_of H T \<mapsto> rnode T)"
    by (rule fetch_view [OF reps_root [OF h(4)]])
  have "insert (rnode T) (set (nodes_of T)) = set (nodes_of T)" using rnode_in by auto
  then have r1: "reps H (view rd t1) (root_block t) T"
    by (intro reps_fetch [OF _ refl t1(4) h(4)]) (simp add: inj)
  have "\<exists>t'. put_loop H rd k v fuel t1 (rnode T) (stack_of H []) 0 = Some (map_sum id (\<lambda>_. ()) res, t')
     \<and> after H rd t1 t' T res"
  proof (rule put_loop_rins [OF h(1) r1 _ inj subset_refl])
    show "res = bind_exc (rins H v T (drop (nat 0) (bits_of k))) (\<lambda>r. Inr (map_option (plug H []) r))"
      by (cases res; cases "projr res") (simp_all add: res_def [symmetric] option.map_ident)
    show "depth T \<le> fuel" using assms(3) Some by (simp add: root_depth_def)
    show "distinct (hashes_of H F)
        \<and> (\<forall>n\<in>set (walked T (drop (nat 0) (bits_of k))). radix_node_hash H n \<notin> set (hashes_of H F))
        \<and> (\<forall>f\<in>set []. hash_of H (fst f) \<notin> set (hashes_of H F))"
      if "res = Inr (Some F)" for F
      using assms(2) that unfolding no_clash_def Some option.case res_def [symmetric]
      by (simp add: list_all_iff)
  qed simp_all
  then obtain t' where t': "put_loop H rd k v fuel t1 (rnode T) [] 0 = Some (map_sum id (\<lambda>_. ()) res, t')"
    "after H rd t1 t' T res" by (auto simp: stack_of_def)
  have code: "put_in_radix_tree H rd fuel t k v = Some (map_sum id (\<lambda>_. ()) res, t')"
    using h(2,3) t1(1) t'(1) by (simp add: put_in_radix_tree_def)
  consider (err) e where "res = Inl e" | (same) "res = Inr None" | (new) F where "res = Inr (Some F)"
    by (metis obj_sumE not_None_eq)
  then show ?thesis
  proof cases
    case err
    have "holds H rd t' R" using t'(2) t1 h r1 err by (simp add: holds_def Some after_def)
    then show ?thesis unfolding code Some put_root_def using err by (simp add: res_def [symmetric])
  next
    case same
    have "holds H rd t' R" using t'(2) t1 h r1 same by (simp add: holds_def Some after_def)
    then show ?thesis unfolding code Some put_root_def using same by (simp add: res_def [symmetric])
  next
    case new
    have "wf_rtree H F" using rins_wf [OF h(1)] new by (simp add: res_def)
    moreover have "hash_of H F \<noteq> ZERO32"
      using assms(2) new unfolding no_clash_def Some option.case res_def [symmetric] by simp
    ultimately have "holds H rd t' (Some F)"
      using t'(2) new by (simp add: holds_def after_def written_def)
    then show ?thesis unfolding code Some put_root_def using new by (simp add: res_def [symmetric])
  qed
qed

lemma bits_of_inj: "bits_of k = bits_of k' \<longleftrightarrow> k = k'"
  by (metis bits_to_bytes_bits_of)

lemma put_root_value_at:
  assumes "put_root H R k v = Inr R'"
  shows "value_at H R' (bits_of k') = (if k' = k then Some (value_hash H v) else value_at H R (bits_of k'))"
proof (cases R)
  case None
  with assms have "R' = Some (leaf_at (bits_of k) v)" by (simp add: put_root_def)
  with None show ?thesis by (simp add: value_at_leaf bits_of_inj)
next
  case (Some T)
  show ?thesis
  proof (cases "rins H v T (bits_of k)")
    case (Inr r)
    then show ?thesis
      using assms Some rins_value_at [of H v T "bits_of k" _ "bits_of k'"] rins_same_value [of H v T "bits_of k"]
      by (cases r) (auto simp: put_root_def bits_of_inj)
  qed (use assms Some in \<open>simp add: put_root_def\<close>)
qed

section \<open>The properties\<close>

text \<open>
  What a lookup finds at a key: \<open>None\<close> when the lookup runs out of fuel or raises, else the hash of
  the value at the key, if there is one.
\<close>

definition stored_at ::
  "(bytes \<Rightarrow> bytes) \<Rightarrow> node_reader \<Rightarrow> nat \<Rightarrow> radix_tree \<Rightarrow> bytes \<Rightarrow> bytes option option" where
  "stored_at H rd fuel t k =
     (case find_node rd fuel t k 0 of
        Some (Inr found, _) \<Rightarrow> Some (stored_value_hash H (Option.bind found rn_value))
      | _ \<Rightarrow> None)"

abbreviation told_apart :: "(bytes \<Rightarrow> bytes) \<Rightarrow> rtree option \<Rightarrow> bool" where
  "told_apart H R \<equiv> pred_option (\<lambda>T. distinct (hashes_of H T)) R"

lemma find_node_holds:
  assumes "holds H rd t R" "told_apart H R" "root_depth R \<le> fuel"
  shows "\<exists>t'. find_node rd fuel t k 0 = Some (Inr (look_root R (bits_of k)), t') \<and> holds H rd t' R"
  by (rule find_node_look [OF assms(1)])
    (use assms(2,3) in \<open>auto simp: root_depth_def distinct_map pred_option_def\<close>)

lemma stored_at_value_at:
  assumes "holds H rd t R" "told_apart H R" "root_depth R \<le> fuel"
  shows "stored_at H rd fuel t k = Some (value_at H R (bits_of k))"
  using find_node_holds [OF assms, of k] by (auto simp: stored_at_def value_at_def)

lemma no_clash_told_apart:
  "no_clash H R k v \<Longrightarrow> told_apart H R"
  "no_clash H R k v \<Longrightarrow> put_root H R k v = Inr R' \<Longrightarrow> told_apart H R'"
  by (auto simp: no_clash_def put_root_def leaf_at_def pred_option_def
      split: option.splits sum.splits)

text \<open>
  C12: a lookup in the radix tree returns what the tree holds. For a tree whose nodes the cache and
  storage hold, in any mix, and whose hashes tell its nodes apart, \<open>get_from_radix_tree\<close> gives the
  value of the node that the bits of the key lead to, \<open>None\<close> when no node or no value is there; it
  does not raise, and it leaves the tree with the same contents. Fuel of one step per level is
  enough.
\<close>

theorem radix_get_correct:
  assumes "holds H rd t R" and "told_apart H R" and "root_depth R \<le> fuel"
  shows "\<exists>t'. get_from_radix_tree rd get_expr fuel t k =
       Some (Inr (case look_root R (bits_of k) of
                    None \<Rightarrow> None
                  | Some n \<Rightarrow> (case rn_value n of
                                 None \<Rightarrow> None
                               | Some (VExpr e) \<Rightarrow> Some e
                               | Some (VHash h) \<Rightarrow> get_expr h (value_block n))), t')
     \<and> holds H rd t' R"
proof -
  obtain t' where t': "find_node rd fuel t k 0 = Some (Inr (look_root R (bits_of k)), t')" "holds H rd t' R"
    using find_node_holds [OF assms] by blast
  then show ?thesis
    by (intro exI [of _ t'])
      (simp add: get_from_radix_tree_def get_with_block_def map_run_def split: option.split rvalue.split)
qed

text \<open>
  C1: a write changes one key. When hashes do not clash and the key does not end inside a prefix,
  \<open>put_in_radix_tree\<close> returns, the key has the value (compared by hash, as the code does), every
  other key has what it had, and the tree it leaves is again well formed and held.
\<close>

theorem radix_put_correct:
  assumes "holds H rd t R" and "no_clash H R k v" and "put_root H R k v = Inr R'"
    and "root_depth R \<le> fuel" and "root_depth R' \<le> fuel"
  shows "\<exists>t'. put_in_radix_tree H rd fuel t k v = Some (Inr (), t') \<and> holds H rd t' R'
     \<and> (\<forall>k'. stored_at H rd fuel t' k' =
              (if k' = k then Some (Some (value_hash H v)) else stored_at H rd fuel t k'))"
proof -
  obtain t' where t': "put_in_radix_tree H rd fuel t k v = Some (Inr (), t')" "holds H rd t' R'"
    using put_refines [OF assms(1,2,4)] assms(3) by auto
  have "stored_at H rd fuel t' k' =
      (if k' = k then Some (Some (value_hash H v)) else stored_at H rd fuel t k')" for k'
    using stored_at_value_at [OF t'(2) no_clash_told_apart(2) [OF assms(2,3)] assms(5), of k']
      stored_at_value_at [OF assms(1) no_clash_told_apart(1) [OF assms(2)] assms(4), of k']
      put_root_value_at [OF assms(3), of k'] by simp
  with t' show ?thesis by blast
qed

lemma look_append:
  "take (length (label (rnode T))) ks = label (rnode T) \<Longrightarrow> drop (length (label (rnode T))) ks = b # ks' \<Longrightarrow>
     look T (ks @ x) = look_root (down b T) (ks' @ x)"
proof -
  assume a: "take (length (label (rnode T))) ks = label (rnode T)" "drop (length (label (rnode T))) ks = b # ks'"
  then have "ks = label (rnode T) @ b # ks'" by (metis append_take_drop_id)
  then show ?thesis by (subst look_eq) simp
qed

lemma rins_error:
  "rins H v T ks = Inl e \<Longrightarrow> e = IndexError \<and> (\<exists>x. x \<noteq> [] \<and> look T (ks @ x) \<noteq> None)"
proof (induction H v T ks rule: rins.induct)
  case (1 H v T ks)
  let ?p = "label (rnode T)"
  show ?case
  proof (cases "take (length ?p) ks = ?p")
    case False
    with 1(2) have e: "e = IndexError" "lcp_len ?p ks = length ks"
      by (simp_all add: rins.simps [of H v T ks] split: if_splits)
    then have "take (length ks) ?p = ks" using lcp_len_take [of ?p ks] by simp
    then have p: "?p = ks @ drop (length ks) ?p" by (metis append_take_drop_id)
    then have "drop (length ks) ?p \<noteq> []" using False by (metis append_Nil2 order_refl take_all)
    moreover have "look T (ks @ drop (length ks) ?p) = Some (rnode T)"
      unfolding p [symmetric] by (subst look_eq) simp
    ultimately show ?thesis using e(1) by (metis option.distinct(1))
  next
    case True
    then obtain b ks' X where d: "drop (length ?p) ks = b # ks'" "down b T = Some X"
      using 1(2) by (subst (asm) rins.simps) (auto split: list.splits option.splits if_splits)
    have "rins H v T ks = bind_exc (rins H v X ks') (\<lambda>r. Inr (map_option (put_child H T b) r))"
      by (subst rins.simps) (simp only: True if_True simp_thms d list.case option.case)
    with 1(2) have "rins H v X ks' = Inl e" by (cases "rins H v X ks'") simp_all
    from 1(1) [OF True d this] show ?thesis
      unfolding look_append [OF True d(1)] d(2) look_root_def option.case .
  qed
qed

text \<open>
  C24: the one error of a write is a key that ends inside a prefix. If \<open>put_in_radix_tree\<close> raises on
  a tree that is held, the error is \<open>IndexError\<close>, the bits of the key are a proper prefix of the
  bits of some node, and the contents of the tree are as they were.
\<close>

theorem radix_put_error:
  assumes "holds H rd t R" and "no_clash H R k v" and "root_depth R \<le> fuel"
    and "put_in_radix_tree H rd fuel t k v = Some (Inl e, t')"
  shows "e = IndexError \<and> (\<exists>x. x \<noteq> [] \<and> look_root R (bits_of k @ x) \<noteq> None) \<and> holds H rd t' R"
proof -
  obtain t1 where t1: "put_in_radix_tree H rd fuel t k v = Some (map_sum id (\<lambda>_. ()) (put_root H R k v), t1)"
    "holds H rd t1 (case put_root H R k v of Inl _ \<Rightarrow> R | Inr R' \<Rightarrow> R')"
    using put_refines [OF assms(1-3)] by blast
  then have e: "put_root H R k v = Inl e" "t' = t1"
    using assms(4) by (cases "put_root H R k v"; simp)+
  then obtain T where T: "R = Some T" "rins H v T (bits_of k) = Inl e"
    by (cases R) (auto simp: put_root_def split: sum.splits option.splits)
  from rins_error [OF T(2)] t1(2) e show ?thesis by (simp add: look_root_def T(1))
qed

section \<open>Witnesses\<close>

text \<open>A tree of one leaf, in a cache with nothing in storage. Equal hashes mean equal cells.\<close>

definition demo_leaf :: rtree where
  "demo_leaf = leaf_at (bits_of [5]) (VHash [1])"

definition demo_reader :: node_reader where
  "demo_reader h block = Some (Inr None)"

definition demo_tree :: radix_tree where
  "demo_tree =
     \<lparr>nodes = [(hash_of (\<lambda>x. x) demo_leaf, rnode demo_leaf)],
      root_hash = Some (hash_of (\<lambda>x. x) demo_leaf), root_block = None\<rparr>"

lemma demo_holds: "holds (\<lambda>x. x) demo_reader demo_tree (Some demo_leaf)"
proof -
  have "hash_of (\<lambda>x. x) demo_leaf \<noteq> ZERO32" by code_simp
  then show ?thesis
    by (simp add: holds_def demo_tree_def demo_leaf_def leaf_at_def) (simp add: view_def)
qed

lemma demo_told_apart: "told_apart (\<lambda>x. x) (Some demo_leaf)"
  by (simp add: demo_leaf_def leaf_at_def)

lemma radix_get_correct_witness:
  "\<exists>t'. get_from_radix_tree demo_reader (\<lambda>h b. Some (Bytes h)) 1 demo_tree [5] = Some (Inr (Some (Bytes [1])), t')
     \<and> holds (\<lambda>x. x) demo_reader t' (Some demo_leaf)"
proof -
  have "root_depth (Some demo_leaf) \<le> 1" by (simp add: root_depth_def demo_leaf_def leaf_at_def)
  moreover have "look_root (Some demo_leaf) (bits_of [5]) = Some (rnode demo_leaf)"
    by (simp add: look_root_def demo_leaf_def leaf_at_def look.simps)
  moreover have "rn_value (rnode demo_leaf) = Some (VHash [1])"
    by (simp add: demo_leaf_def leaf_at_def)
  ultimately show ?thesis
    using radix_get_correct [OF demo_holds demo_told_apart, of 1 "\<lambda>h b. Some (Bytes h)" "[5]"] by simp
qed

definition demo_put :: "rtree option" where
  "demo_put = (case put_root (\<lambda>x. x) (Some demo_leaf) [6] (VHash [2]) of Inr R \<Rightarrow> R | Inl _ \<Rightarrow> None)"

lemma radix_put_correct_witness:
  "\<exists>t'. put_in_radix_tree (\<lambda>x. x) demo_reader 2 demo_tree [6] (VHash [2]) = Some (Inr (), t')
     \<and> holds (\<lambda>x. x) demo_reader t' demo_put
     \<and> (\<forall>k'. stored_at (\<lambda>x. x) demo_reader 2 t' k' =
              (if k' = [6] then Some (Some [2]) else stored_at (\<lambda>x. x) demo_reader 2 demo_tree k'))"
proof -
  have clash: "no_clash (\<lambda>x. x) (Some demo_leaf) [6] (VHash [2])" by code_simp
  have "isl (put_root (\<lambda>x. x) (Some demo_leaf) [6] (VHash [2])) = False" by code_simp
  then have res: "put_root (\<lambda>x. x) (Some demo_leaf) [6] (VHash [2]) = Inr demo_put"
    by (auto simp: demo_put_def split: sum.split)
  have depth: "root_depth (Some demo_leaf) \<le> 2" "root_depth demo_put \<le> 2" by code_simp+
  have v: "value_hash (\<lambda>x. x) (VHash [2]) = [2]" by (simp add: value_hash_def)
  show ?thesis by (rule radix_put_correct [OF demo_holds clash res depth, unfolded v])
qed

lemma radix_put_error_witness:
  "IndexError = IndexError \<and> (\<exists>x. x \<noteq> [] \<and> look_root (Some demo_leaf) (bits_of [] @ x) \<noteq> None)
     \<and> holds (\<lambda>x. x) demo_reader demo_tree (Some demo_leaf)"
proof (rule radix_put_error [OF demo_holds])
  show "no_clash (\<lambda>x. x) (Some demo_leaf) [] (VHash [2])" by code_simp
  show "root_depth (Some demo_leaf) \<le> 1" by code_simp
  show "put_in_radix_tree (\<lambda>x. x) demo_reader 1 demo_tree [] (VHash [2]) = Some (Inl IndexError, demo_tree)"
    by code_simp
qed

section \<open>The interface of a map that is written key by key\<close>

fun write_all :: "('m \<Rightarrow> 'k \<Rightarrow> 'v \<Rightarrow> 'm option) \<Rightarrow> 'm \<Rightarrow> ('k \<times> 'v) list \<Rightarrow> 'm option" where
  "write_all put m [] = Some m"
| "write_all put m ((k, v) # kvs) = Option.bind (put m k v) (\<lambda>m'. write_all put m' kvs)"

locale key_map =
  fixes lookup :: "'m \<Rightarrow> 'k \<Rightarrow> 'h option"
    and put :: "'m \<Rightarrow> 'k \<Rightarrow> 'v \<Rightarrow> 'm option"
    and name :: "'v \<Rightarrow> 'h"
  assumes lookup_write:
    "put m k v = Some m' \<Longrightarrow> lookup m' k' = (if k' = k then Some (name v) else lookup m k')"
begin

lemma lookup_write_all:
  "write_all put m kvs = Some m' \<Longrightarrow>
     lookup m' k = (case map_of (rev kvs) k of Some v \<Rightarrow> Some (name v) | None \<Rightarrow> lookup m k)"
proof (induction kvs arbitrary: m)
  case (Cons kv kvs)
  obtain k0 v0 where kv: "kv = (k0, v0)" by fastforce
  from Cons.prems obtain m1 where m1: "put m k0 v0 = Some m1" "write_all put m1 kvs = Some m'"
    by (auto simp: kv bind_eq_Some_conv)
  show ?case
    using Cons.IH [OF m1(2)] lookup_write [OF m1(1), of k]
    by (auto simp: kv map_add_def split: option.split)
qed simp

lemma write_order:
  assumes "write_all put m kvs = Some m1" "write_all put m kvs' = Some m2"
    and "distinct (map fst kvs)" "distinct (map fst kvs')" "set kvs = set kvs'"
  shows "lookup m1 k = lookup m2 k"
proof -
  have "map_of (rev kvs) = map_of (rev kvs')"
    by (rule map_of_inject_set [THEN iffD2]) (use assms in \<open>simp_all flip: rev_map\<close>)
  then show ?thesis using lookup_write_all [OF assms(1)] lookup_write_all [OF assms(2)] by simp
qed

end

definition write_root :: "(bytes \<Rightarrow> bytes) \<Rightarrow> rtree option \<Rightarrow> bytes \<Rightarrow> rvalue \<Rightarrow> rtree option option" where
  "write_root H R k v = (case put_root H R k v of Inl _ \<Rightarrow> None | Inr R' \<Rightarrow> Some R')"

interpretation radix: key_map "\<lambda>R k. value_at H R (bits_of k)" "write_root H" "value_hash H" for H
proof
  show "value_at H R' (bits_of k') = (if k' = k then Some (value_hash H v) else value_at H R (bits_of k'))"
    if "write_root H R k v = Some R'" for R k v R' k'
    using that put_root_value_at [of H R k v R' k'] by (auto simp: write_root_def split: sum.splits)
qed

text \<open>
  the order of writes does not matter for the contents: two orders of the same writes to
  different keys, where both go through, leave trees that hold the same value at every key.
\<close>

theorem radix_write_order:
  assumes "write_all (write_root H) R kvs = Some R1" and "write_all (write_root H) R kvs' = Some R2"
    and "distinct (map fst kvs)" and "distinct (map fst kvs')" and "set kvs = set kvs'"
  shows "value_at H R1 (bits_of k) = value_at H R2 (bits_of k)"
  by (rule radix.write_order [OF assms])

lemma radix_write_order_witness:
  "value_at (\<lambda>x. x) (the (write_all (write_root (\<lambda>x. x)) None [([5], VHash [1]), ([6], VHash [2])])) (bits_of [5]) =
   value_at (\<lambda>x. x) (the (write_all (write_root (\<lambda>x. x)) None [([6], VHash [2]), ([5], VHash [1])])) (bits_of [5])"
proof (rule radix_write_order)
  have "write_all (write_root (\<lambda>x. x)) None [([5], VHash [1]), ([6], VHash [2])] \<noteq> None" by code_simp
  then show "write_all (write_root (\<lambda>x. x)) None [([5], VHash [1]), ([6], VHash [2])] =
      Some (the (write_all (write_root (\<lambda>x. x)) None [([5], VHash [1]), ([6], VHash [2])]))" by simp
  have "write_all (write_root (\<lambda>x. x)) None [([6], VHash [2]), ([5], VHash [1])] \<noteq> None" by code_simp
  then show "write_all (write_root (\<lambda>x. x)) None [([6], VHash [2]), ([5], VHash [1])] =
      Some (the (write_all (write_root (\<lambda>x. x)) None [([6], VHash [2]), ([5], VHash [1])]))" by simp
qed auto

section \<open>Equal subtrees\<close>

text \<open>
  without the condition on hashes a write can be lost. Three keys, each a prefix of the next,
  are written with the same value to a new tree with nothing in storage. The third write makes a
  leaf equal to its parent as it was, and the parent's rename then drops the leaf: every write
  returns, and the third key has no value.
\<close>

theorem equal_leaf_is_lost:
  "(let (_, t1) = the (put_in_radix_tree (\<lambda>x. x) demo_reader 3 (new_radix_tree None None) [0] (VHash [7]));
        (_, t2) = the (put_in_radix_tree (\<lambda>x. x) demo_reader 3 t1 [0, 0] (VHash [7]));
        (r, t3) = the (put_in_radix_tree (\<lambda>x. x) demo_reader 3 t2 [0, 0, 0] (VHash [7]))
    in (r, stored_at (\<lambda>x. x) demo_reader 3 t3 [0, 0], stored_at (\<lambda>x. x) demo_reader 3 t3 [0, 0, 0]))
   = (Inr (), Some (Some [7]), Some None)"
  by code_simp

end
