(* ===== verification/Radix_All.thy ===== *)
theory Radix_All
  imports Radix_Laws
begin

text \<open>
  Reading a whole radix tree: \<open>src/astreum/storage/radix/tree/all.py\<close>. The walk keeps a stack of
  nodes to read, the next one first, with the bits that lead to them. The result is an association
  list in the order of the Python dict.
\<close>

section \<open>The code\<close>

type_synonym node_read = "bytes \<Rightarrow> bytes option \<Rightarrow> (exc + radix_node) option"
type_synonym value_entry = "expr option \<times> bytes option"

definition read_cached :: "node_read \<Rightarrow> radix_tree \<Rightarrow> bytes \<Rightarrow> bytes option \<Rightarrow> radix_node tree_run" where
  "read_cached rd t h block =
     (case map_of (nodes t) h of
        Some n \<Rightarrow> Some (Inr n, t)
      | None \<Rightarrow>
          (case rd h block of
             None \<Rightarrow> None
           | Some (Inl e) \<Rightarrow> Some (Inl e, t)
           | Some (Inr n) \<Rightarrow> Some (Inr n, t\<lparr>nodes := AList.update h n (nodes t)\<rparr>)))"

definition entry_value :: "storage_read \<Rightarrow> radix_node \<Rightarrow> rvalue \<Rightarrow> value_entry" where
  "entry_value get_expr n v =
     (case v of
        VHash x \<Rightarrow> (get_expr x (value_block n), value_block n)
      | VExpr e \<Rightarrow> (Some e, value_block n))"

definition add_entry ::
  "storage_read \<Rightarrow> bool list \<times> radix_node \<Rightarrow> (bytes \<times> value_entry) list \<Rightarrow> (bytes \<times> value_entry) list" where
  "add_entry get_expr e results =
     (case e of (bs, n) \<Rightarrow>
        (case rn_value n of
           None \<Rightarrow> results
         | Some v \<Rightarrow> AList.update (bits_to_bytes bs) (entry_value get_expr n v) results))"

type_synonym walk_stack = "(bytes \<times> bool list \<times> bytes option) list"

definition push_child :: "bool list \<Rightarrow> bytes option \<Rightarrow> bytes option \<Rightarrow> walk_stack \<Rightarrow> walk_stack" where
  "push_child bs child block stack =
     (case child of
        None \<Rightarrow> stack
      | Some h \<Rightarrow> if h = [] then stack else (h, bs, block) # stack)"

fun all_loop ::
  "node_read \<Rightarrow> storage_read \<Rightarrow> nat \<Rightarrow> radix_tree \<Rightarrow> walk_stack \<Rightarrow> bytes list
     \<Rightarrow> (bytes \<times> value_entry) list \<Rightarrow> (bytes \<times> value_entry) list tree_run" where
  "all_loop rd get_expr fuel t [] visited results = Some (Inr results, t)"
| "all_loop rd get_expr 0 t (s # stack) visited results = None"
| "all_loop rd get_expr (Suc fuel) t ((h, bs, block) # stack) visited results =
     (if h = [] \<or> h = ZERO32 \<or> h \<in> set visited
      then all_loop rd get_expr fuel t stack visited results
      else
        (case read_cached rd t h block of
           None \<Rightarrow> None
         | Some (Inl e, t') \<Rightarrow> Some (Inl e, t')
         | Some (Inr n, t') \<Rightarrow>
             (let combined = bs @ bits_from_payload (key n) (key_len n)
              in all_loop rd get_expr fuel t'
                   (push_child (combined @ [True]) (child_1 n) (child_1_block n)
                     (push_child (combined @ [False]) (child_0 n) (child_0_block n) stack))
                   (h # visited) (add_entry get_expr (combined, n) results))))"

definition get_all_with_blocks ::
  "node_read \<Rightarrow> storage_read \<Rightarrow> nat \<Rightarrow> radix_tree \<Rightarrow> (bytes \<times> value_entry) list tree_run" where
  "get_all_with_blocks rd get_expr fuel t =
     (case root_hash t of
        None \<Rightarrow> Some (Inr [], t)
      | Some h \<Rightarrow>
          if h = ZERO32 then Some (Inr [], t)
          else all_loop rd get_expr fuel t [(h, [], root_block t)] [] [])"

definition get_all_from_radix_tree ::
  "node_read \<Rightarrow> storage_read \<Rightarrow> nat \<Rightarrow> radix_tree \<Rightarrow> (bytes \<times> expr option) list tree_run" where
  "get_all_from_radix_tree rd get_expr fuel t =
     map_run (map (\<lambda>(k, (v, _)). (k, v))) (get_all_with_blocks rd get_expr fuel t)"

section \<open>The entries of a tree\<close>

fun entries :: "rtree \<Rightarrow> bool list \<Rightarrow> (bool list \<times> radix_node) list" where
  "entries (RT n l r) pre =
     (pre @ label n, n)
     # (case r of None \<Rightarrow> [] | Some T \<Rightarrow> entries T (pre @ label n @ [True]))
     @ (case l of None \<Rightarrow> [] | Some T \<Rightarrow> entries T (pre @ label n @ [False]))"

lemma entries_look: "(bs, n) \<in> set (entries T pre) \<longleftrightarrow> (\<exists>ks. bs = pre @ ks \<and> look T ks = Some n)"
proof (induction T arbitrary: pre)
  case (RT m l r)
  have L: "look (RT m l r) ks = Some n \<longleftrightarrow>
      (ks = label m \<and> m = n) \<or> (\<exists>ks'. ks = label m @ True # ks' \<and> look_root r ks' = Some n)
      \<or> (\<exists>ks'. ks = label m @ False # ks' \<and> look_root l ks' = Some n)" for ks
  proof (cases "take (length (label m)) ks = label m")
    case False
    then show ?thesis by (auto simp: look_eq [of _ ks])
  next
    case True
    then have ks: "ks = label m @ drop (length (label m)) ks" by (metis append_take_drop_id)
    show ?thesis
    proof (cases "drop (length (label m)) ks")
      case Nil
      with ks have k: "ks = label m" by simp
      show ?thesis unfolding k by (subst look_eq) auto
    next
      case (Cons b ks')
      with ks have k: "ks = label m @ b # ks'" by simp
      show ?thesis unfolding k by (subst look_eq) auto
    qed
  qed
  have sub: "(bs, n) \<in> set (case c of None \<Rightarrow> [] | Some T \<Rightarrow> entries T p)
      \<longleftrightarrow> (\<exists>ks'. bs = p @ ks' \<and> look_root c ks' = Some n)" if "c = l \<or> c = r" for c p
  proof (cases c)
    case (Some T)
    then have "T \<in> set_option l \<or> T \<in> set_option r" using that by auto
    then show ?thesis using RT [of T p] Some by (auto simp: look_root_def)
  qed (simp add: look_root_def)
  show ?case
    unfolding entries.simps set_append list.set L Un_iff insert_iff sub [OF disjI1 [OF refl]] sub [OF disjI2 [OF refl]]
    by auto
qed

lemma entries_distinct: "distinct (map fst (entries T pre))"
proof (induction T arbitrary: pre)
  case (RT m l r)
  have pre: "\<exists>ks. bs = p @ ks" if "bs \<in> fst ` set (case c of None \<Rightarrow> [] | Some T \<Rightarrow> entries T p)" for bs c p
    using that by (cases c) (auto simp: entries_look)
  have d: "distinct (map fst (case c of None \<Rightarrow> [] | Some T \<Rightarrow> entries T p))" if "c = l \<or> c = r" for c p
    using that RT by (cases c) auto
  have "x \<notin> fst ` set (case l of None \<Rightarrow> [] | Some T \<Rightarrow> entries T (pre @ label m @ [False]))"
    if "x \<in> fst ` set (case r of None \<Rightarrow> [] | Some T \<Rightarrow> entries T (pre @ label m @ [True]))" for x
  proof
    assume "x \<in> fst ` set (case l of None \<Rightarrow> [] | Some T \<Rightarrow> entries T (pre @ label m @ [False]))"
    from pre [OF that] pre [OF this] show False by auto
  qed
  then have "fst ` set (case r of None \<Rightarrow> [] | Some T \<Rightarrow> entries T (pre @ label m @ [True]))
      \<inter> fst ` set (case l of None \<Rightarrow> [] | Some T \<Rightarrow> entries T (pre @ label m @ [False])) = {}"
    by blast
  moreover have "pre @ label m \<notin> fst ` set (case c of None \<Rightarrow> [] | Some T \<Rightarrow> entries T (pre @ label m @ [b]))" for c b
    by (rule notI, drule pre) simp
  ultimately show ?case using d by auto
qed

section \<open>The walk reads every entry\<close>

type_synonym pending = "rtree \<times> bool list \<times> bytes option"

definition pending_nodes :: "pending list \<Rightarrow> radix_node list" where
  "pending_nodes S = concat (map (\<lambda>(T, _, _). nodes_of T) S)"

lemma pending_nodes_simps [simp]:
  "pending_nodes [] = []" "pending_nodes ((T, bs, b) # S) = nodes_of T @ pending_nodes S"
  "pending_nodes (S @ S') = pending_nodes S @ pending_nodes S'"
  by (simp_all add: pending_nodes_def)

lemma pending_nodes_sub: "(T, bs, b) \<in> set S \<Longrightarrow> set (nodes_of T) \<subseteq> set (pending_nodes S)"
  by (force simp: pending_nodes_def)

definition stack_pending :: "(bytes \<Rightarrow> bytes) \<Rightarrow> pending list \<Rightarrow> walk_stack" where
  "stack_pending H S = map (\<lambda>(T, bs, b). (hash_of H T, bs, b)) S"

definition lift_read :: "node_read \<Rightarrow> node_reader" where
  "lift_read rd h b =
     (case rd h b of
        None \<Rightarrow> None
      | Some (Inl e) \<Rightarrow> Some (Inl e)
      | Some (Inr n) \<Rightarrow> Some (Inr (Some n)))"

lemma read_cached_view:
  assumes "view (lift_read rd) t h block = Some n"
  obtains t' where "read_cached rd t h block = Some (Inr n, t')" "root_hash t' = root_hash t"
    "root_block t' = root_block t" "map_of (nodes t') = (map_of (nodes t))(h \<mapsto> n)"
proof (cases "map_of (nodes t) h")
  case None
  with assms have "rd h block = Some (Inr n)"
    by (auto simp: view_def lift_read_def split: option.splits sum.splits)
  with None show thesis
    by (intro that [of "t\<lparr>nodes := AList.update h n (nodes t)\<rparr>"])
      (simp_all add: read_cached_def update_conv')
next
  case (Some m)
  with assms show thesis
    by (intro that [of t]) (auto simp: read_cached_def view_def)
qed

lemma bits_from_payload_label: "bits_from_payload (key n) (key_len n) = label n"
  by (auto simp: bits_from_payload_def prefix_bits_def)

lemma all_loop_entries:
  assumes "list_all (\<lambda>(T, bs, b). wf_rtree H T \<and> reps H (view (lift_read rd) t) b T) S"
    and "distinct (map (radix_node_hash H) (pending_nodes S))"
    and "\<And>n. n \<in> set (pending_nodes S) \<Longrightarrow> radix_node_hash H n \<notin> insert [] (insert ZERO32 (set visited))"
    and "length (pending_nodes S) \<le> fuel"
  shows "\<exists>t'. all_loop rd get_expr fuel t (stack_pending H S) visited results =
      Some (Inr (fold (add_entry get_expr) (concat (map (\<lambda>(T, bs, _). entries T bs) S)) results), t')
    \<and> root_hash t' = root_hash t"
  using assms
proof (induction fuel arbitrary: t S visited results)
  case 0
  have "S = []"
  proof (rule ccontr)
    assume "S \<noteq> []"
    then obtain T bs b S' where "S = (T, bs, b) # S'" by (metis neq_Nil_conv prod_cases3)
    then show False using 0(4) by (cases T) simp
  qed
  then show ?case by (simp add: stack_pending_def)
next
  case (Suc fuel)
  note pr = Suc.prems
  show ?case
  proof (cases S)
    case Nil
    then show ?thesis by (simp add: stack_pending_def)
  next
    case (Cons s S')
    obtain n l r bs b where s: "s = (RT n l r, bs, b)" by (metis prod_cases3 rtree.exhaust)
    define h where "h = radix_node_hash H n"
    define pl where "pl = (case l of None \<Rightarrow> [] | Some T \<Rightarrow> [(T, bs @ label n @ [False], child_0_block n)])"
    define pr' where "pr' = (case r of None \<Rightarrow> [] | Some T \<Rightarrow> [(T, bs @ label n @ [True], child_1_block n)])"
    define S1 where "S1 = pr' @ pl @ S'"
    have wf: "wf_rtree H (RT n l r)" and rp: "reps H (view (lift_read rd) t) b (RT n l r)"
      and rest: "list_all (\<lambda>(T, bs, b). wf_rtree H T \<and> reps H (view (lift_read rd) t) b T) S'"
      using pr(1) by (simp_all add: Cons s)
    have hok: "h \<noteq> []" "h \<noteq> ZERO32" "h \<notin> set visited"
      using pr(3) [of n] by (auto simp: Cons s h_def)
    have "view (lift_read rd) t h b = Some n" using rp by (simp add: h_def)
    then obtain t1 where t1: "read_cached rd t h b = Some (Inr n, t1)" "root_hash t1 = root_hash t"
      "map_of (nodes t1) = (map_of (nodes t))(h \<mapsto> n)"
      by (rule read_cached_view) blast
    have nodes: "mset (pending_nodes S) = {#n#} + mset (pending_nodes S1)"
      by (simp add: Cons s S1_def pl_def pr'_def split: option.split)
    then have "mset (map (radix_node_hash H) (pending_nodes S)) = mset (map (radix_node_hash H) (n # pending_nodes S1))"
      by (simp only: mset_map mset.simps) simp
    then have d1: "distinct (map (radix_node_hash H) (n # pending_nodes S1))"
      using pr(2) mset_eq_imp_distinct_iff by blast
    have set1: "set (pending_nodes S) = insert n (set (pending_nodes S1))"
      using arg_cong [OF nodes, of set_mset] by simp
    have size1: "length (pending_nodes S) = Suc (length (pending_nodes S1))"
      using arg_cong [OF nodes, of size] by simp
    have inj: "inj_on (radix_node_hash H) (set (pending_nodes S))"
      using pr(2) unfolding distinct_map by (rule conjunct2)
    have keep: "reps H (view (lift_read rd) t1) bl T"
      if "reps H (view (lift_read rd) t) bl T" "set (nodes_of T) \<subseteq> set (pending_nodes S)" for bl T
      by (rule reps_fetch [OF inj_on_subset [OF inj] _ t1(3) that(1)])
        (use that(2) set1 in \<open>auto simp: h_def\<close>)
    have below: "\<And>T. l = Some T \<Longrightarrow> wf_rtree H T \<and> reps H (view (lift_read rd) t) (child_0_block n) T"
      "\<And>T. r = Some T \<Longrightarrow> wf_rtree H T \<and> reps H (view (lift_read rd) t) (child_1_block n) T"
      using wf rp by auto
    have all1: "list_all (\<lambda>(T, bs, b). wf_rtree H T \<and> reps H (view (lift_read rd) t) b T) S1"
      using rest below by (simp add: S1_def pl_def pr'_def split: option.split)
    have "wf_rtree H T \<and> reps H (view (lift_read rd) t1) bl T" if "(T, bs', bl) \<in> set S1" for T bs' bl
    proof -
      have "set (nodes_of T) \<subseteq> set (pending_nodes S1)" by (rule pending_nodes_sub [OF that])
      then have "set (nodes_of T) \<subseteq> set (pending_nodes S)" using set1 by blast
      moreover have "wf_rtree H T \<and> reps H (view (lift_read rd) t) bl T"
        using all1 that by (auto simp: list_all_iff)
      ultimately show ?thesis using keep by blast
    qed
    then have p1: "list_all (\<lambda>(T, bs, b). wf_rtree H T \<and> reps H (view (lift_read rd) t1) b T) S1"
      by (auto simp: list_all_iff)
    have p3: "radix_node_hash H m \<notin> insert [] (insert ZERO32 (set (h # visited)))"
      if "m \<in> set (pending_nodes S1)" for m
    proof -
      have "radix_node_hash H m \<in> set (map (radix_node_hash H) (pending_nodes S1))" using that by simp
      then have "radix_node_hash H m \<noteq> h" using d1 by (auto simp: h_def)
      then show ?thesis using pr(3) [of m] that set1 by auto
    qed
    have p4: "length (pending_nodes S1) \<le> fuel" using pr(4) size1 by simp
    have p2: "distinct (map (radix_node_hash H) (pending_nodes S1))" using d1 by simp
    have ch: "child_0 n = map_option (hash_of H) l" "child_1 n = map_option (hash_of H) r" using wf by simp_all
    have ne: "\<And>T. l = Some T \<or> r = Some T \<Longrightarrow> hash_of H T \<noteq> []"
    proof -
      fix T assume "l = Some T \<or> r = Some T"
      then have "rnode T \<in> set (pending_nodes S1)"
        using rnode_in [of T] by (auto simp: S1_def pl_def pr'_def)
      then show "hash_of H T \<noteq> []" using p3 by auto
    qed
    have "push_child ((bs @ label n) @ [True]) (child_1 n) (child_1_block n)
        (push_child ((bs @ label n) @ [False]) (child_0 n) (child_0_block n) (stack_pending H S')) = stack_pending H S1"
      using ne by (auto simp: push_child_def ch S1_def pl_def pr'_def stack_pending_def split: option.split)
    then have code: "all_loop rd get_expr (Suc fuel) t (stack_pending H S) visited results =
        all_loop rd get_expr fuel t1 (stack_pending H S1) (h # visited)
          (add_entry get_expr (bs @ label n, n) results)"
      using hok t1(1)
      by (simp add: Cons s stack_pending_def h_def [symmetric] Let_def bits_from_payload_label)
    have "concat (map (\<lambda>(T, bs, _). entries T bs) S) =
        (bs @ label n, n) # concat (map (\<lambda>(T, bs, _). entries T bs) S1)"
      by (simp add: Cons s S1_def pl_def pr'_def split: option.split)
    then show ?thesis
      using Suc.IH [OF p1 p2 p3 p4, of "add_entry get_expr (bs @ label n, n) results"] t1(2)
      unfolding code by auto
  qed
qed

section \<open>The properties\<close>

text \<open>Values at keys of whole bytes: what writes by \<open>put_in_radix_tree\<close> make.\<close>

definition aligned :: "rtree \<Rightarrow> bool" where
  "aligned T = list_all (\<lambda>(bs, n). rn_value n \<noteq> None \<longrightarrow> length bs mod 8 = 0) (entries T [])"

lemma map_of_add_entry:
  assumes "rn_value n \<noteq> None \<longrightarrow> length bs mod 8 = 0"
  shows "map_of (add_entry get_expr (bs, n) results) k =
     (case rn_value n of
        None \<Rightarrow> map_of results k
      | Some v \<Rightarrow> if bits_of k = bs then Some (entry_value get_expr n v) else map_of results k)"
proof -
  have "k = bits_to_bytes bs \<longleftrightarrow> bits_of k = bs" if "length bs mod 8 = 0"
    using that bits_of_bits_to_bytes [of bs] bits_to_bytes_bits_of [of k] by (auto simp: pad_bits_def)
  with assms show ?thesis by (auto simp: add_entry_def update_conv' split: option.split)
qed

lemma map_of_fold_entries:
  assumes "distinct (map fst es)" "list_all (\<lambda>(bs, n). rn_value n \<noteq> None \<longrightarrow> length bs mod 8 = 0) es"
  shows "map_of (fold (add_entry get_expr) es results) k =
     (case Option.bind (map_of es (bits_of k)) (\<lambda>n. map_option (entry_value get_expr n) (rn_value n)) of
        None \<Rightarrow> map_of results k | Some x \<Rightarrow> Some x)"
  using assms
proof (induction es arbitrary: results)
  case (Cons e es)
  obtain bs n where e: "e = (bs, n)" by fastforce
  have "bs \<notin> dom (map_of es)" using Cons.prems(1) by (simp add: e dom_map_of_conv_image_fst)
  then have "map_of es bs = None" by blast
  then show ?case
    using Cons.IH [of "add_entry get_expr e results"] Cons.prems
    by (auto simp: e map_of_add_entry split: option.split)
qed simp

lemma map_of_entries: "map_of (entries T []) ks = look T ks"
proof (cases "look T ks")
  case None
  then have "ks \<notin> fst ` set (entries T [])" by (auto simp: entries_look)
  then show ?thesis using None by (simp add: map_of_eq_None_iff)
next
  case (Some n)
  then have "(ks, n) \<in> set (entries T [])" by (simp add: entries_look)
  then show ?thesis using Some entries_distinct by simp
qed

text \<open>
  C15: reading the whole tree agrees with reading key by key. For a tree whose nodes have different
  hashes and whose values sit at keys of whole bytes, \<open>get_all_from_radix_tree_with_blocks\<close> returns
  with fuel of one step per node, and the result maps each key to what the lookup of that key
  finds, and nothing else.
\<close>

theorem radix_all_correct:
  assumes "holds H (lift_read rd) t (Some T)" and "distinct (hashes_of H T)"
    and "[] \<notin> set (hashes_of H T)" and "ZERO32 \<notin> set (hashes_of H T)"
    and "aligned T" and "length (nodes_of T) \<le> fuel"
  shows "\<exists>results t'. get_all_with_blocks rd get_expr fuel t = Some (Inr results, t')
     \<and> (\<forall>k. map_of results k =
              Option.bind (look T (bits_of k)) (\<lambda>n. map_option (entry_value get_expr n) (rn_value n)))"
proof -
  let ?S = "[(T, [], root_block t)]"
  have h: "wf_rtree H T" "root_hash t = Some (hash_of H T)" "hash_of H T \<noteq> ZERO32"
    "reps H (view (lift_read rd) t) (root_block t) T"
    using assms(1) by (simp_all add: holds_def)
  have "radix_node_hash H n \<notin> insert [] (insert ZERO32 (set []))" if "n \<in> set (pending_nodes ?S)" for n
    using that assms(3,4) by (auto simp: image_iff)
  then obtain t' where "all_loop rd get_expr fuel t (stack_pending H ?S) [] [] =
      Some (Inr (fold (add_entry get_expr) (concat (map (\<lambda>(T, bs, _). entries T bs) ?S)) []), t')"
    using all_loop_entries [of H rd t ?S "[]" fuel get_expr "[]"] h assms(2,6) by auto
  then have "get_all_with_blocks rd get_expr fuel t =
      Some (Inr (fold (add_entry get_expr) (entries T []) []), t')"
    using h(2,3) by (simp add: get_all_with_blocks_def stack_pending_def)
  moreover have "map_of (fold (add_entry get_expr) (entries T []) []) k =
      Option.bind (look T (bits_of k)) (\<lambda>n. map_option (entry_value get_expr n) (rn_value n))" for k
    using map_of_fold_entries [OF entries_distinct assms(5) [unfolded aligned_def], of get_expr "[]" k]
    by (simp add: map_of_entries split: option.splits)
  ultimately show ?thesis by blast
qed

lemma radix_all_correct_witness:
  "\<exists>results t'. get_all_with_blocks (\<lambda>h b. Some (Inl KeyError)) (\<lambda>h b. None) 1 demo_tree = Some (Inr results, t')
     \<and> (\<forall>k. map_of results k =
              Option.bind (look demo_leaf (bits_of k)) (\<lambda>n. map_option (entry_value (\<lambda>h b. None) n) (rn_value n)))"
proof (rule radix_all_correct)
  show "holds (\<lambda>x. x) (lift_read (\<lambda>h b. Some (Inl KeyError))) demo_tree (Some demo_leaf)"
    using demo_holds by (simp add: holds_def demo_tree_def demo_leaf_def leaf_at_def) (simp add: view_def)
  show "distinct (hashes_of (\<lambda>x. x) demo_leaf)" by code_simp
  show "[] \<notin> set (hashes_of (\<lambda>x. x) demo_leaf)" by code_simp
  show "ZERO32 \<notin> set (hashes_of (\<lambda>x. x) demo_leaf)" by code_simp
  show "aligned demo_leaf" by code_simp
  show "length (nodes_of demo_leaf) \<le> 1" by code_simp
qed

text \<open>
  Two keys with equal ends and one value, and reading the whole tree returns one of them. The
  keys \<open>[2, 9]\<close> and \<open>[3, 9]\<close> differ in the last bit of their first byte only, so their leaves are
  equal and have one hash; both lookups find the value, but the walk visits a hash once.
\<close>

theorem equal_leaves_read_once:
  "(let (_, t1) = the (put_in_radix_tree (\<lambda>x. x) demo_reader 3 (new_radix_tree None None) [2, 9] (VHash [7]));
        (_, t2) = the (put_in_radix_tree (\<lambda>x. x) demo_reader 3 t1 [3, 9] (VHash [7]));
        (r, _) = the (get_all_with_blocks (\<lambda>h b. Some (Inl KeyError)) (\<lambda>h b. None) 9 t2)
    in (stored_at (\<lambda>x. x) demo_reader 3 t2 [2, 9], stored_at (\<lambda>x. x) demo_reader 3 t2 [3, 9],
        map_sum id (map fst) r))
   = (Some (Some [7]), Some (Some [7]), Inr [[3, 9]])"
  by code_simp

end
