(* ===== verification/Machine_Core.thy ===== *)
theory Machine_Core
  imports Radix_All
begin

text \<open>
  The state of the virtual machine: \<open>src/astreum/machine/main.py\<close>, \<open>meter.py\<close> and
  \<open>environment.py\<close>.

  A step of the machine takes the machine state and returns a result or the exception it raises,
  with the state it leaves: the code changes its stack and meter in place, and what it did before
  an exception stays done. \<open>None\<close> is fuel of the evaluator that ran out.

  The stack holds the top first. An entry may be \<open>None\<close>, which operators such as \<open>match\<close> push in
  place of an expr. Environments are objects that closures and calls share, so they live in a
  store, a list indexed by their number; a parent is made before its children. A binding has the
  name \<open>None\<close> where the code takes the \<open>value\<close> of a cell that is tagged \<open>symbol\<close> and has none.
\<close>

section \<open>State\<close>

datatype mexc =
    OpError pystr
  | MeterExceeded
  | PyError exc

record env =
  env_data :: "(pystr option \<times> expr) list"
  env_parent :: "nat option"

record machine =
  deterministic :: bool
  limit :: "int option"
  meter_eval :: int
  meter_storage :: int
  stack :: "expr option list"
  envs :: "env list"
  library :: "(bytes \<times> nat) list"
  logs :: "expr list"

type_synonym 'a step = "machine \<Rightarrow> ((mexc + 'a) \<times> machine) option"

definition ret :: "'a \<Rightarrow> 'a step" where
  "ret x s = Some (Inr x, s)"

definition raise :: "mexc \<Rightarrow> 'a step" where
  "raise e s = Some (Inl e, s)"

definition bind :: "'a step \<Rightarrow> ('a \<Rightarrow> 'b step) \<Rightarrow> 'b step" where
  "bind m f s =
     (case m s of
        None \<Rightarrow> None
      | Some (Inl e, s') \<Rightarrow> Some (Inl e, s')
      | Some (Inr x, s') \<Rightarrow> f x s')"

abbreviation seq :: "unit step \<Rightarrow> 'b step \<Rightarrow> 'b step" where
  "seq m n \<equiv> bind m (\<lambda>_. n)"

definition lift_exc :: "exc + 'a \<Rightarrow> 'a step" where
  "lift_exc r = (case r of Inl e \<Rightarrow> raise (PyError e) | Inr x \<Rightarrow> ret x)"

definition lift_res :: "mexc + 'a \<Rightarrow> 'a step" where
  "lift_res r = (case r of Inl e \<Rightarrow> raise e | Inr x \<Rightarrow> ret x)"

definition op_error :: "string \<Rightarrow> 'a step" where
  "op_error msg = raise (OpError (u msg))"

text \<open>\<open>except (OpError, IndexError)\<close>: the handler gets the message.\<close>

definition underflow :: pystr where
  "underflow = u ''stack underflow''"

definition on_op_error :: "'a step \<Rightarrow> (pystr \<Rightarrow> 'a step) \<Rightarrow> 'a step" where
  "on_op_error m h s =
     (case m s of
        Some (Inl (OpError msg), s') \<Rightarrow> h msg s'
      | Some (Inl (PyError IndexError), s') \<Rightarrow> h underflow s'
      | r \<Rightarrow> r)"

section \<open>The meter\<close>

definition meter_total :: "machine \<Rightarrow> int" where
  "meter_total s = meter_eval s + meter_storage s"

definition meter_remaining :: "machine \<Rightarrow> int" where
  "meter_remaining s =
     (case limit s of None \<Rightarrow> 2 ^ 62 | Some l \<Rightarrow> max 0 (l - meter_total s))"

definition charge_kind :: "int \<Rightarrow> bool \<Rightarrow> unit step" where
  "charge_kind n is_storage s =
     (case limit s of
        None \<Rightarrow> Some (Inr (), s)
      | Some l \<Rightarrow>
          (let m = (if n < 0 then 0 else n) in
           if meter_total s + m > l then Some (Inl MeterExceeded, s)
           else if is_storage then Some (Inr (), s\<lparr>meter_storage := meter_storage s + m\<rparr>)
           else Some (Inr (), s\<lparr>meter_eval := meter_eval s + m\<rparr>)))"

definition charge :: "nat \<Rightarrow> unit step" where
  "charge n = charge_kind (int n) False"

section \<open>The stack\<close>

definition push_raw :: "expr option \<Rightarrow> unit step" where
  "push_raw x s = Some (Inr (), s\<lparr>stack := x # stack s\<rparr>)"

definition push :: "expr \<Rightarrow> unit step" where
  "push x = push_raw (Some x)"

text \<open>\<open>stack.pop()\<close> of an empty list raises \<open>IndexError\<close>.\<close>

definition pop :: "expr option step" where
  "pop s =
     (case stack s of
        [] \<Rightarrow> Some (Inl (PyError IndexError), s)
      | x # xs \<Rightarrow> Some (Inr x, s\<lparr>stack := xs\<rparr>))"

text \<open>The guard \<open>if len(stack) < n: raise OpError("stack underflow")\<close>.\<close>

definition need :: "nat \<Rightarrow> unit step" where
  "need n s =
     (if length (stack s) < n then Some (Inl (OpError underflow), s) else Some (Inr (), s))"

text \<open>Reading an attribute of an entry that is \<open>None\<close> raises \<open>AttributeError\<close>.\<close>

definition the_expr :: "expr option \<Rightarrow> expr step" where
  "the_expr x = (case x of None \<Rightarrow> raise (PyError AttributeError) | Some e \<Rightarrow> ret e)"

text \<open>A call on a stack of its own: the caller's stack is as it was, whatever happens.\<close>

definition with_stack :: "expr option list \<Rightarrow> 'a step \<Rightarrow> 'a step" where
  "with_stack xs m s =
     map_option (\<lambda>(r, s'). (r, s'\<lparr>stack := stack s\<rparr>)) (m (s\<lparr>stack := xs\<rparr>))"

section \<open>Environments\<close>

definition new_env :: "(pystr option \<times> expr) list \<Rightarrow> nat option \<Rightarrow> nat step" where
  "new_env data parent s =
     Some (Inr (length (envs s)), s\<lparr>envs := envs s @ [\<lparr>env_data = data, env_parent = parent\<rparr>]\<rparr>)"

text \<open>\<open>Env.get\<close> along the chain of parents, each of which is an older environment.\<close>

function env_get :: "env list \<Rightarrow> nat \<Rightarrow> pystr \<Rightarrow> expr option" where
  "env_get es i k =
     (if i < length es then
        (case map_of (env_data (es ! i)) (Some k) of
           Some v \<Rightarrow> Some v
         | None \<Rightarrow>
             (case env_parent (es ! i) of
                None \<Rightarrow> None
              | Some p \<Rightarrow> if p < i then env_get es p k else None))
      else None)"
  by pat_completeness auto
termination by (relation "measure (\<lambda>(es, i, k). i)") auto

declare env_get.simps [simp del]

definition env_put :: "nat \<Rightarrow> pystr option \<Rightarrow> expr \<Rightarrow> unit step" where
  "env_put i k v s =
     Some (Inr (), s\<lparr>envs := (envs s)[i := (envs s ! i)\<lparr>env_data := AList.update k v (env_data (envs s ! i))\<rparr>]\<rparr>)"

section \<open>An environment as an expr\<close>

text \<open>
  \<open>env_to_radix_tree\<close>: the bindings of one level in a new radix tree, keyed by the name in UTF-8.
  Each put walks at most one node per bit of its key, which is the fuel.
\<close>

fun put_bindings ::
  "(bytes \<Rightarrow> bytes) \<Rightarrow> node_reader \<Rightarrow> radix_tree \<Rightarrow> (pystr option \<times> expr) list \<Rightarrow> exc + radix_tree" where
  "put_bindings H rd t [] = Inr t"
| "put_bindings H rd t ((None, v) # data) = Inl AttributeError"
| "put_bindings H rd t ((Some k, v) # data) =
     (let key_bytes = utf8_encode k in
      case put_in_radix_tree H rd (8 * length key_bytes + 1) t key_bytes (VExpr v) of
        None \<Rightarrow> Inl AssertionError
      | Some (Inl e, _) \<Rightarrow> Inl e
      | Some (Inr (), t') \<Rightarrow> put_bindings H rd t' data)"

definition env_to_radix_tree ::
  "(bytes \<Rightarrow> bytes) \<Rightarrow> node_reader \<Rightarrow> (pystr option \<times> expr) list \<Rightarrow> bytes option \<Rightarrow> exc + expr" where
  "env_to_radix_tree H rd data parent_hash =
     bind_exc (put_bindings H rd (new_radix_tree None None) data) (\<lambda>t.
     bind_exc
       (case root_hash t of
          None \<Rightarrow> Inr NIL
        | Some h \<Rightarrow>
            if h = [] then Inr NIL
            else (case map_of (nodes t) h of
                    None \<Rightarrow> Inl KeyError
                  | Some n \<Rightarrow> Inr (convert_radix_node_to_expr H n)))
       (\<lambda>bindings.
          let level =
                (case parent_hash of
                   Some p \<Rightarrow> if p = [] then cons NIL bindings
                             else Link None None (Some bindings) (Some p) None
                 | None \<Rightarrow> cons NIL bindings)
          in Inr (cons level (symbol ''env''))))"

text \<open>
  \<open>Machine.snapshot_env\<close>: the hash of an environment with its parents. The library keeps a copy of
  each level under its hash.
\<close>

definition snapshot_level ::
  "(bytes \<Rightarrow> bytes) \<Rightarrow> node_reader \<Rightarrow> (pystr option \<times> expr) list \<Rightarrow> bytes option \<Rightarrow> bytes step" where
  "snapshot_level H rd data parent_hash =
     bind (lift_exc (env_to_radix_tree H rd data parent_hash)) (\<lambda>e. \<lambda>s.
       let h = expr_hash H e in
       case map_of (library s) h of
         Some _ \<Rightarrow> Some (Inr h, s)
       | None \<Rightarrow>
           bind (new_env data (Option.bind parent_hash (map_of (library s)))) (\<lambda>i. \<lambda>s'.
             Some (Inr h, s'\<lparr>library := library s' @ [(h, i)]\<rparr>)) s)"

function snapshot_env :: "(bytes \<Rightarrow> bytes) \<Rightarrow> node_reader \<Rightarrow> nat \<Rightarrow> bytes step" where
  "snapshot_env H rd i s =
     (if i < length (envs s) then
        bind
          (case env_parent (envs s ! i) of
             None \<Rightarrow> ret None
           | Some p \<Rightarrow>
               if p < i then bind (snapshot_env H rd p) (\<lambda>h. ret (Some h)) else ret None)
          (\<lambda>parent_hash. snapshot_level H rd (env_data (envs s ! i)) parent_hash) s
      else snapshot_level H rd [] None s)"
  by pat_completeness auto
termination by (relation "measure (\<lambda>(H, rd, i, s). i)") auto

declare snapshot_env.simps [simp del]

lemma bind_cases:
  assumes "bind m f s = Some (r, s')"
  obtains e where "m s = Some (Inl e, s')" "r = Inl e"
    | x s1 where "m s = Some (Inr x, s1)" "f x s1 = Some (r, s')"
  using assms by (auto simp: bind_def split: option.splits sum.splits prod.splits)

end
