(* ===== verification/Machine_Ops.thy ===== *)
theory Machine_Ops
  imports Machine_Core
begin

text \<open>
  The operators that do not evaluate code: \<open>src/astreum/machine/operators/\<close>, stack, arithmetic,
  comparison, bytes, conversion, tag and cell operators. Each is the handler of the code, in the
  order of its pops, checks and charges.

  \<open>world\<close> is what the handlers use that is not theirs: the hash, storage reads, the arithmetic of
  floats (the processor's and the codecs of \<open>expression/floats\<close>), Python's \<open>str.lower\<close> and
  \<open>int(text)\<close>, and the operators that are not modelled here.
\<close>

unbundle bit_operations_syntax

record world =
  blake3 :: "bytes \<Rightarrow> bytes"
  read_node :: node_reader
  read_cell :: "bytes \<Rightarrow> bytes \<Rightarrow> expr option"
  known_block :: "(bytes \<Rightarrow> bool) option"
  float_arith :: "pystr \<Rightarrow> pystr \<Rightarrow> expr \<Rightarrow> expr \<Rightarrow> mexc + expr"
  float_unary :: "pystr \<Rightarrow> pystr \<Rightarrow> expr \<Rightarrow> mexc + expr"
  float_cmp :: "pystr \<Rightarrow> expr \<Rightarrow> expr \<Rightarrow> mexc + bool"
  float_nonzero :: "expr \<Rightarrow> mexc + bool"
  float_to_int :: "expr \<Rightarrow> mexc + int"
  float_to_str :: "expr \<Rightarrow> mexc + pystr"
  float_to_wire :: "pystr \<Rightarrow> expr \<Rightarrow> mexc + bytes"
  lower :: "pystr \<Rightarrow> pystr"
  parse_int :: "pystr \<Rightarrow> int option"
  other_op :: "pystr \<Rightarrow> nat \<Rightarrow> unit step"

section \<open>Shared pieces\<close>

definition the_tag :: "world \<Rightarrow> expr option \<Rightarrow> pystr step" where
  "the_tag W x = bind (the_expr x) (\<lambda>e. lift_exc (expr_tag (blake3 W) e))"

definition builtin_tag :: "world \<Rightarrow> expr \<Rightarrow> pystr" where
  "builtin_tag W e = get_expr_builtin_tag (blake3 W) e"

definition fail :: "pystr \<Rightarrow> 'a step" where
  "fail msg = raise (OpError msg)"

text \<open>The payload of an entry whose tag the handler has checked; a cell whose payload is in its head
  has no \<open>value\<close>.\<close>

definition bytes_value :: "expr \<Rightarrow> bytes step" where
  "bytes_value e = (case value_of e of Some (PBytes b) \<Rightarrow> ret b | _ \<Rightarrow> raise (PyError TypeError))"

definition str_value :: "expr \<Rightarrow> pystr step" where
  "str_value e = (case value_of e of Some (PStr s) \<Rightarrow> ret s | _ \<Rightarrow> raise (PyError AttributeError))"

definition int_value :: "expr \<Rightarrow> int step" where
  "int_value e = (case value_of e of Some (PInt i) \<Rightarrow> ret i | _ \<Rightarrow> raise (PyError TypeError))"

text \<open>\<open>get_int_from_expr\<close>: the value, decoded where it is still bytes.\<close>

definition get_int_from_expr :: "world \<Rightarrow> expr \<Rightarrow> int step" where
  "get_int_from_expr W e =
     bind (lift_exc (get_expr_value (blake3 W) None e)) (\<lambda>(v, _).
       case v of
         Some (PInt i) \<Rightarrow> ret i
       | Some (PBytes b) \<Rightarrow> ret (decode_int b)
       | _ \<Rightarrow> raise (PyError TypeError))"

definition bool_bytes :: "bool \<Rightarrow> expr" where
  "bool_bytes b = Bytes [if b then 1 else 0]"

definition tagged :: "expr option \<Rightarrow> string \<Rightarrow> expr" where
  "tagged x t = link x (Some (symbol t))"

definition err_value :: "pystr \<Rightarrow> expr" where
  "err_value msg = tagged (Some (str_expr msg)) ''err''"

text \<open>
  The variants \<open>op?\<close>: the result wrapped in \<open>ok\<close>, an operator error in \<open>err\<close>. \<open>def?\<close> and \<open>drop?\<close>
  leave no result and wrap \<open>NIL\<close>.
\<close>

definition with_result :: "unit step \<Rightarrow> unit step" where
  "with_result m =
     on_op_error (seq m (bind pop (\<lambda>x. push (tagged x ''ok'')))) (\<lambda>msg. push (err_value msg))"

definition with_nil_result :: "unit step \<Rightarrow> unit step" where
  "with_nil_result m =
     on_op_error (seq m (push (tagged (Some NIL) ''ok''))) (\<lambda>msg. push (err_value msg))"

text \<open>\<open>bind_two\<close>: \<open>b = stack.pop(); a = stack.pop()\<close>.\<close>

definition pop_two :: "(expr option \<Rightarrow> expr option \<Rightarrow> unit step) \<Rightarrow> unit step" where
  "pop_two f = bind pop (\<lambda>b. bind pop (\<lambda>a. f a b))"

section \<open>Stack\<close>

definition handle_drop :: "unit step" where
  "handle_drop = seq (need 1) (bind pop (\<lambda>_. charge 1))"

definition handle_dup :: "unit step" where
  "handle_dup =
     seq (need 1) (bind pop (\<lambda>v. bind (the_expr v) (\<lambda>e.
       seq (charge (expr_size e)) (seq (push_raw v) (push_raw v)))))"

definition handle_swap :: "unit step" where
  "handle_swap =
     seq (need 2) (pop_two (\<lambda>a b. seq (charge 1) (seq (push_raw b) (push_raw a))))"

definition handle_rot :: "unit step" where
  "handle_rot =
     seq (need 3) (bind pop (\<lambda>c. bind pop (\<lambda>b. bind pop (\<lambda>a.
       seq (charge 3) (seq (push_raw b) (seq (push_raw c) (push_raw a)))))))"

section \<open>Arithmetic\<close>

definition int_arith :: "pystr \<Rightarrow> int \<Rightarrow> int \<Rightarrow> mexc + int" where
  "int_arith name a b =
     (if name = u ''+'' then Inr (a + b)
      else if name = u ''-'' then Inr (a - b)
      else if name = u ''*'' then Inr (a * b)
      else if name = u ''/'' then
        (if b = 0 then Inl (OpError (u ''division by zero'')) else Inr (a div b))
      else (if b = 0 then Inl (OpError (u ''modulo by zero'')) else Inr (a mod b)))"

definition arith_phrase :: "pystr \<Rightarrow> string \<times> string" where
  "arith_phrase name =
     (if name = u ''+'' then (''addition of '', '' and '')
      else if name = u ''-'' then (''subtraction of '', '' and '')
      else if name = u ''*'' then (''multiplication of '', '' and '')
      else if name = u ''/'' then (''division of '', '' and '')
      else (''modulo of '', '' and ''))"

text \<open>The message of the last branch: \<open>*\<close> and \<open>%\<close> lower the tags, \<open>/\<close> has another phrase.\<close>

definition arith_mismatch :: "world \<Rightarrow> pystr \<Rightarrow> pystr \<Rightarrow> pystr \<Rightarrow> pystr" where
  "arith_mismatch W name a b =
     (if name = u ''/'' then u ''division by '' @ a @ u '' and '' @ b
      else if name = u ''*'' \<or> name = u ''%'' then
        u (fst (arith_phrase name)) @ lower W a @ u '' and '' @ lower W b
      else u (fst (arith_phrase name)) @ a @ u '' and '' @ b)"

definition handle_arith :: "world \<Rightarrow> pystr \<Rightarrow> unit step" where
  "handle_arith W name =
     pop_two (\<lambda>a b.
       bind (the_tag W a) (\<lambda>a_tag. bind (the_tag W b) (\<lambda>b_tag.
       bind
         (if a_tag = u ''int'' \<and> b_tag = u ''int'' then
            bind (get_int_from_expr W (the a)) (\<lambda>x. bind (get_int_from_expr W (the b)) (\<lambda>y.
              bind (lift_res (int_arith name x y)) (\<lambda>r. ret (int_expr r))))
          else if name \<noteq> u ''%'' \<and> is_float_tag a_tag \<and> is_float_tag b_tag then
            (if a_tag \<noteq> b_tag
             then fail (u (fst (arith_phrase name)) @ a_tag @ u '' and '' @ b_tag)
             else lift_res (float_arith W name a_tag (the a) (the b)))
          else fail (arith_mismatch W name a_tag b_tag))
         (\<lambda>r. seq (charge (expr_size r)) (push r)))))"

definition handle_add :: "world \<Rightarrow> unit step" where
  "handle_add W = handle_arith W (u ''+'')"

definition handle_sub :: "world \<Rightarrow> unit step" where
  "handle_sub W = handle_arith W (u ''-'')"

definition handle_mul :: "world \<Rightarrow> unit step" where
  "handle_mul W = handle_arith W (u ''*'')"

definition handle_div :: "world \<Rightarrow> unit step" where
  "handle_div W = handle_arith W (u ''/'')"

definition handle_mod :: "world \<Rightarrow> unit step" where
  "handle_mod W = handle_arith W (u ''%'')"

definition handle_abs :: "world \<Rightarrow> unit step" where
  "handle_abs W =
     bind pop (\<lambda>v. bind (the_tag W v) (\<lambda>tag.
     bind
       (if tag = u ''int'' then
          bind (get_int_from_expr W (the v)) (\<lambda>i. ret (int_expr \<bar>i\<bar>))
        else if is_float_tag tag then lift_res (float_unary W (u ''abs'') tag (the v))
        else fail (u ''absolute value of '' @ lower W tag))
       (\<lambda>r. seq (charge (expr_size r)) (push r))))"

definition handle_sqrt :: "world \<Rightarrow> unit step" where
  "handle_sqrt W =
     bind pop (\<lambda>v. bind (the_tag W v) (\<lambda>tag.
     bind
       (if is_float_tag tag then lift_res (float_unary W (u ''sqrt'') tag (the v))
        else fail (u ''square root of '' @ lower W tag))
       (\<lambda>r. seq (charge (expr_size r)) (push r))))"

definition int_compare :: "pystr \<Rightarrow> int \<Rightarrow> int \<Rightarrow> bool" where
  "int_compare name a b =
     (if name = u ''<'' then a < b
      else if name = u ''>'' then b < a
      else if name = u ''<='' then a \<le> b
      else b \<le> a)"

definition compare_verb :: "pystr \<Rightarrow> pystr" where
  "compare_verb name =
     (if name = u ''<'' then u ''less than''
      else if name = u ''>'' then u ''greater than''
      else if name = u ''<='' then u ''less than or equal''
      else u ''greater than or equal'')"

definition compare_numbers :: "world \<Rightarrow> pystr \<Rightarrow> unit step" where
  "compare_numbers W name =
     pop_two (\<lambda>a b.
       bind (the_tag W a) (\<lambda>a_tag. bind (the_tag W b) (\<lambda>b_tag.
       let mismatch = fail (compare_verb name @ u '' of '' @ a_tag @ u '' and '' @ b_tag) in
       bind
         (if a_tag = u ''int'' \<and> b_tag = u ''int'' then
            bind (get_int_from_expr W (the a)) (\<lambda>x. bind (get_int_from_expr W (the b)) (\<lambda>y.
              ret (int_compare name x y)))
          else if is_float_tag a_tag \<and> is_float_tag b_tag then
            (if a_tag \<noteq> b_tag then mismatch else lift_res (float_cmp W name (the a) (the b)))
          else mismatch)
         (\<lambda>r. seq (charge (expr_size (bool_bytes r))) (push (bool_bytes r))))))"

definition handle_less_than :: "world \<Rightarrow> unit step" where
  "handle_less_than W = compare_numbers W (u ''<'')"

definition handle_greater_than :: "world \<Rightarrow> unit step" where
  "handle_greater_than W = compare_numbers W (u ''>'')"

definition handle_less_than_or_equal :: "world \<Rightarrow> unit step" where
  "handle_less_than_or_equal W = compare_numbers W (u ''<='')"

definition handle_greater_than_or_equal :: "world \<Rightarrow> unit step" where
  "handle_greater_than_or_equal W = compare_numbers W (u ''>='')"

section \<open>Bytes\<close>

text \<open>
  The width that each operator writes: \<open>&\<close> and \<open>|\<close> take the number of bits of the result as its
  number of bytes, \<open>^\<close> rounds bits up to bytes.
\<close>

definition bitwise_result :: "pystr \<Rightarrow> bytes \<Rightarrow> bytes \<Rightarrow> bytes" where
  "bitwise_result name a b =
     (if name = u ''&'' then
        (let r = le_uint a AND le_uint b in le_bytes (if bit_length r = 0 then 1 else bit_length r) r)
      else if name = u ''|'' then
        (let r = le_uint a OR le_uint b in le_bytes (if bit_length r = 0 then 1 else bit_length r) r)
      else
        (let r = le_uint a XOR le_uint b in le_bytes (max ((bit_length r + 7) div 8) 1) r))"

definition bitwise_word :: "pystr \<Rightarrow> string" where
  "bitwise_word name =
     (if name = u ''&'' then ''bitwise and of ''
      else if name = u ''|'' then ''bitwise or of ''
      else ''bitwise xor of '')"

definition handle_bitwise :: "world \<Rightarrow> pystr \<Rightarrow> unit step" where
  "handle_bitwise W name =
     pop_two (\<lambda>a b.
       bind (the_tag W a) (\<lambda>a_tag. bind (the_tag W b) (\<lambda>b_tag.
       if a_tag \<noteq> u ''bytes'' \<or> b_tag \<noteq> u ''bytes''
       then fail (u (bitwise_word name) @ lower W a_tag @ u '' and '' @ lower W b_tag)
       else
         bind (bytes_value (the a)) (\<lambda>x. bind (bytes_value (the b)) (\<lambda>y.
           seq (charge (max (length x) (length y))) (push (Bytes (bitwise_result name x y))))))))"

definition handle_and :: "world \<Rightarrow> unit step" where
  "handle_and W = handle_bitwise W (u ''&'')"

definition handle_or :: "world \<Rightarrow> unit step" where
  "handle_or W = handle_bitwise W (u ''|'')"

definition handle_xor :: "world \<Rightarrow> unit step" where
  "handle_xor W = handle_bitwise W (u ''^'')"

definition handle_not :: "world \<Rightarrow> unit step" where
  "handle_not W =
     bind pop (\<lambda>a. bind (the_tag W a) (\<lambda>tag.
     if tag \<noteq> u ''bytes'' then fail (u ''bitwise not of '' @ lower W tag)
     else
       bind (bytes_value (the a)) (\<lambda>x.
         seq (charge (length x * 2))
           (let w = max (length x) 1; mask = 2 ^ (w * 8) - 1
            in push (Bytes (le_bytes w (NOT (le_uint x) AND mask)))))))"

definition shift_operand :: "world \<Rightarrow> string \<Rightarrow> (expr \<Rightarrow> pystr \<Rightarrow> int \<Rightarrow> unit step) \<Rightarrow> unit step" where
  "shift_operand W verb f =
     bind pop (\<lambda>shifts. bind pop (\<lambda>to_shift.
     bind (the_tag W to_shift) (\<lambda>tag. bind (the_tag W shifts) (\<lambda>shifts_tag.
     if (tag \<noteq> u ''bytes'' \<and> tag \<noteq> u ''int'') \<or> shifts_tag \<noteq> u ''int''
     then fail (u verb @ lower W tag @ u '' by '' @ lower W shifts_tag)
     else
       bind (int_value (the shifts)) (\<lambda>n.
         if n = 0 then seq (charge (expr_size (the to_shift))) (push_raw to_shift)
         else f (the to_shift) tag n)))))"

definition handle_shift :: "world \<Rightarrow> unit step" where
  "handle_shift W =
     shift_operand W ''shift of '' (\<lambda>x tag n.
       if tag = u ''bytes'' then
         bind (bytes_value x) (\<lambda>b.
           let w = length b; v = le_uint b;
               r = (if n > 0 then push_bit (nat n) v AND (2 ^ (w * 8) - 1) else drop_bit (nat \<bar>n\<bar>) v)
           in seq (charge w) (push (Bytes (le_bytes w r))))
       else
         bind (int_value x) (\<lambda>v.
           let r = (if n > 0 then push_bit (nat n) v else drop_bit (nat \<bar>n\<bar>) v)
           in seq (charge (expr_size x)) (push (int_expr r))))"

definition rotate_bits :: "nat \<Rightarrow> int \<Rightarrow> int \<Rightarrow> int" where
  "rotate_bits width n v =
     (let k = nat (\<bar>n\<bar> mod int width); mask = 2 ^ width - 1
      in if n > 0 then (push_bit k v OR drop_bit (width - k) v) AND mask
         else (drop_bit k v OR push_bit (width - k) v) AND mask)"

definition handle_rotate :: "world \<Rightarrow> unit step" where
  "handle_rotate W =
     shift_operand W ''rotate of '' (\<lambda>x tag n.
       if tag = u ''bytes'' then
         bind (bytes_value x) (\<lambda>b.
           let width = length b * 8 in
           if width = 0 then raise (PyError ZeroDivisionError)
           else seq (charge (length b)) (push (Bytes (le_bytes (length b) (rotate_bits width n (le_uint b))))))
       else
         bind (int_value x) (\<lambda>v.
           let width = max ((bit_length v + 7) div 8 * 8) 8;
               r = rotate_bits width n (v AND (2 ^ width - 1));
               r' = (if r AND 2 ^ (width - 1) \<noteq> 0 then r - 2 ^ width else r)
           in seq (charge (expr_size x)) (push (int_expr r'))))"

section \<open>Conversions\<close>

fun digits :: "nat \<Rightarrow> pystr" where
  "digits n = (if n < 10 then [48 + n] else digits (n div 10) @ [48 + n mod 10])"

declare digits.simps [simp del]

text \<open>\<open>str\<close> of an integer.\<close>

definition int_to_str :: "int \<Rightarrow> pystr" where
  "int_to_str i = (if i < 0 then 45 # digits (nat (- i)) else digits (nat i))"

definition payload_text :: "expr \<Rightarrow> pystr step" where
  "payload_text e =
     (case value_of e of
        Some (PInt i) \<Rightarrow> ret (int_to_str i)
      | Some (PStr s) \<Rightarrow> ret s
      | None \<Rightarrow> ret (u ''None'')
      | _ \<Rightarrow> raise (PyError TypeError))"

definition handle_symbol :: "world \<Rightarrow> unit step" where
  "handle_symbol W =
     bind pop (\<lambda>v. bind (the_tag W v) (\<lambda>tag.
     if tag = u ''bytes'' then
       bind (bytes_value (the v)) (\<lambda>b.
         case utf8_decode b of
           None \<Rightarrow> op_error ''symbol: bytes are not valid UTF-8''
         | Some s \<Rightarrow> seq (charge (expr_size (the v))) (push (Symbol s)))
     else if tag = u ''str'' \<or> tag = u ''int'' then
       bind (payload_text (the v)) (\<lambda>s. seq (charge (expr_size (Symbol s))) (push (Symbol s)))
     else if is_float_tag tag then
       bind (lift_res (float_to_str W (the v))) (\<lambda>s.
         seq (charge (expr_size (Symbol s))) (push (Symbol s)))
     else if tag = u ''symbol'' then seq (charge (expr_size (the v))) (push_raw v)
     else fail (u ''symbol of '' @ tag)))"

definition handle_str :: "world \<Rightarrow> unit step" where
  "handle_str W =
     bind pop (\<lambda>v. bind (the_tag W v) (\<lambda>tag.
     if tag = u ''bytes'' then
       bind (bytes_value (the v)) (\<lambda>b.
         case utf8_decode b of
           None \<Rightarrow> op_error ''str: bytes are not valid UTF-8''
         | Some s \<Rightarrow> seq (charge (expr_size (the v))) (push (str_expr s)))
     else if tag = u ''int'' then
       bind (payload_text (the v)) (\<lambda>s. seq (charge (expr_size (str_expr s))) (push (str_expr s)))
     else if is_float_tag tag then
       bind (lift_res (float_to_str W (the v))) (\<lambda>s.
         seq (charge (expr_size (str_expr s))) (push (str_expr s)))
     else if tag = u ''str'' then seq (charge (expr_size (the v))) (push_raw v)
     else if tag = u ''symbol'' then
       bind (str_value (the v)) (\<lambda>s. seq (charge (expr_size (str_expr s))) (push (str_expr s)))
     else fail (u ''str of '' @ tag)))"

definition handle_int :: "world \<Rightarrow> unit step" where
  "handle_int W =
     bind pop (\<lambda>v. bind (the_tag W v) (\<lambda>tag.
     if tag = u ''bytes'' then
       bind (bytes_value (the v)) (\<lambda>b.
         seq (charge (expr_size (the v))) (push (int_expr (le_sint b))))
     else if tag = u ''str'' \<or> tag = u ''symbol'' then
       bind (str_value (the v)) (\<lambda>s.
         case parse_int W s of
           None \<Rightarrow> op_error ''int: invalid literal''
         | Some i \<Rightarrow> seq (charge (expr_size (int_expr i))) (push (int_expr i)))
     else if is_float_tag tag then
       bind (lift_res (float_to_int W (the v))) (\<lambda>i.
         seq (charge (expr_size (int_expr i))) (push (int_expr i)))
     else if tag = u ''int'' then seq (charge (expr_size (the v))) (push_raw v)
     else fail (u ''int of '' @ tag)))"

definition handle_bytes :: "world \<Rightarrow> unit step" where
  "handle_bytes W =
     bind pop (\<lambda>v. bind (the_tag W v) (\<lambda>tag.
     if tag = u ''int'' then
       (case value_of (the v) of
          Some (PInt i) \<Rightarrow> seq (charge (expr_size (the v))) (push (Bytes (encode_int i)))
        | _ \<Rightarrow> raise (PyError AttributeError))
     else if is_float_tag tag then
       bind (lift_res (float_to_wire W tag (the v))) (\<lambda>b.
         seq (charge (expr_size (the v))) (push (Bytes b)))
     else if tag = u ''str'' \<or> tag = u ''symbol'' then
       bind (str_value (the v)) (\<lambda>s.
         seq (charge (length (utf8_encode s))) (push (Bytes (utf8_encode s))))
     else if tag = u ''bytes'' then seq (charge (expr_size (the v))) (push_raw v)
     else fail (u ''bytes of '' @ tag)))"

section \<open>Cells and tags\<close>

definition handle_link :: "unit step" where
  "handle_link = pop_two (\<lambda>head tail. seq (charge 1) (push (link head tail)))"

definition handle_part :: "world \<Rightarrow> string \<Rightarrow> (expr \<Rightarrow> expr option) \<Rightarrow> unit step" where
  "handle_part W word part =
     bind pop (\<lambda>p. bind (the_expr p) (\<lambda>e.
     if builtin_tag W e \<noteq> u ''link'' then fail (u word @ builtin_tag W e)
     else seq (charge 1) (case part e of None \<Rightarrow> push NIL | Some x \<Rightarrow> push x)))"

definition handle_head :: "world \<Rightarrow> unit step" where
  "handle_head W = handle_part W ''head of '' head_of"

definition handle_tail :: "world \<Rightarrow> unit step" where
  "handle_tail W = handle_part W ''tail of '' tail_of"

definition handle_quote :: "unit step" where
  "handle_quote =
     bind pop (\<lambda>v. bind (the_expr v) (\<lambda>e.
       seq (charge (expr_size e)) (push (cons (Symbol [39]) e))))"

definition handle_init :: "world \<Rightarrow> unit step" where
  "handle_init W =
     seq (need 2) (bind pop (\<lambda>t. bind pop (\<lambda>v. bind (the_expr t) (\<lambda>te.
     if builtin_tag W te \<noteq> u ''symbol''
     then fail (u ''init requires a symbol tag, got '' @ builtin_tag W te)
     else
       bind (str_value te) (\<lambda>tag. bind (the_tag W v) (\<lambda>vt.
         if vt = tag then push_raw v else push (link v (Some (Symbol tag)))))))))"

definition handle_type :: "world \<Rightarrow> unit step" where
  "handle_type W =
     seq (need 1) (bind pop (\<lambda>v. bind (the_tag W v) (\<lambda>tag. push (Symbol tag))))"

definition handle_id :: "world \<Rightarrow> unit step" where
  "handle_id W =
     bind pop (\<lambda>v. bind (the_expr v) (\<lambda>e.
       let h = expr_hash (blake3 W) e in seq (charge (length h)) (push (Bytes h))))"

definition handle_tag :: "string \<Rightarrow> unit step" where
  "handle_tag t =
     seq (need 1) (bind pop (\<lambda>v. bind (the_expr v) (\<lambda>e.
       seq (charge (expr_size e + 1)) (push (tagged v t)))))"

definition handle_ok :: "unit step" where
  "handle_ok = handle_tag ''ok''"

definition handle_err :: "unit step" where
  "handle_err = handle_tag ''err''"

definition handle_is :: "world \<Rightarrow> unit step" where
  "handle_is W =
     seq (need 2) (bind pop (\<lambda>t. bind pop (\<lambda>v. bind (the_expr t) (\<lambda>te.
     if builtin_tag W te \<noteq> u ''symbol'' then op_error ''is requires a symbol''
     else
       bind (str_value te) (\<lambda>target. bind (the_tag W v) (\<lambda>vt.
         seq (charge 1) (push (bool_bytes (vt = target)))))))))"

text \<open>The \<open>value\<close> of a cell tagged \<open>symbol\<close>.\<close>

definition name_of :: "expr \<Rightarrow> pystr option" where
  "name_of e = (case value_of e of Some (PStr s) \<Rightarrow> Some s | _ \<Rightarrow> None)"

definition handle_def :: "world \<Rightarrow> nat \<Rightarrow> unit step" where
  "handle_def W i =
     seq (need 2) (bind pop (\<lambda>name. bind pop (\<lambda>v.
     bind (the_tag W name) (\<lambda>name_tag.
     if name_tag \<noteq> u ''symbol'' then fail (u ''def of '' @ name_tag)
     else
       bind (the_expr v) (\<lambda>e.
       seq (charge (expr_size (the name) + expr_size e))
       (\<lambda>s.
         if map_of (env_data (envs s ! i)) (name_of (the name)) \<noteq> None
         then op_error ''def already exists'' s
         else env_put i (name_of (the name)) e s))))))"

definition handle_closure :: "world \<Rightarrow> nat \<Rightarrow> unit step" where
  "handle_closure W i =
     seq (need 1) (bind pop (\<lambda>body. seq (need 1) (bind pop (\<lambda>params.
     bind (the_expr params) (\<lambda>ps.
     if builtin_tag W ps \<noteq> u ''link'' then fail (u ''closure of '' @ builtin_tag W ps)
     else
       bind (the_expr body) (\<lambda>b.
       seq (charge (expr_size ps + expr_size b))
       (bind (snapshot_env (blake3 W) (read_node W) i) (\<lambda>env_hash.
         let env_ref = Link None None (Some (symbol ''env'')) (Some env_hash) None
         in push (cons (cons (cons env_ref b) ps) (symbol ''lex''))))))))))"

end
