(* ===== verification/Machine_Eval.thy ===== *)
theory Machine_Eval
  imports Machine_Ops
begin

text \<open>
  The operators that evaluate code, the sequence operators, the dispatch and the evaluator:
  \<open>src/astreum/machine/operators/\<close> (\<open>_if\<close>, \<open>rec\<close>, \<open>apply\<close>, \<open>stack/dip\<close>, \<open>expression/eval\<close>,
  \<open>tag\<close>, \<open>sequence\<close>, \<open>main\<close>) and \<open>evaluator.py\<close>.

  The evaluator calls operators and operators call the evaluator, so a handler takes the evaluator
  as the argument \<open>ev\<close>. \<open>evaluation\<close> ties the knot with fuel, one unit for each nested call; the
  loop of \<open>rec\<close> takes the fuel that is left as its bound.
\<close>

type_synonym evaluator = "expr \<Rightarrow> nat \<Rightarrow> unit step"

definition run_expr :: "evaluator \<Rightarrow> expr option \<Rightarrow> nat \<Rightarrow> unit step" where
  "run_expr ev x i = bind (the_expr x) (\<lambda>e. ev e i)"

definition charge_size :: "expr option \<Rightarrow> unit step" where
  "charge_size x = bind (the_expr x) (\<lambda>e. charge (expr_size e))"

section \<open>Control\<close>

definition is_truthy :: "world \<Rightarrow> expr option \<Rightarrow> bool step" where
  "is_truthy W x =
     bind (the_tag W x) (\<lambda>tag.
     if tag = u ''bytes'' then bind (bytes_value (the x)) (\<lambda>b. ret (be_uint b \<noteq> 0))
     else if tag = u ''int'' then ret (value_of (the x) \<noteq> Some (PInt 0))
     else if is_float_tag tag then lift_res (float_nonzero W (the x))
     else if tag = u ''link'' then ret (head_of (the x) \<noteq> None)
     else ret (tag \<noteq> u ''err'' \<and> tag \<noteq> u ''none''))"

definition handle_if :: "world \<Rightarrow> evaluator \<Rightarrow> nat \<Rightarrow> unit step" where
  "handle_if W ev i =
     seq (need 3) (bind pop (\<lambda>else_branch. bind pop (\<lambda>then_branch. bind pop (\<lambda>cond_quote.
       seq (run_expr ev cond_quote i)
       (seq (need 1) (bind pop (\<lambda>condition.
         seq (charge_size condition)
         (bind (is_truthy W condition) (\<lambda>b.
           run_expr ev (if b then then_branch else else_branch) i)))))))))"

text \<open>\<open>rec_loop\<close> returns how often the branch \<open>rec1\<close> ran.\<close>

fun rec_loop ::
  "world \<Rightarrow> evaluator \<Rightarrow> nat \<Rightarrow> expr option \<Rightarrow> expr option \<Rightarrow> expr option \<Rightarrow> nat \<Rightarrow> nat \<Rightarrow> nat step" where
  "rec_loop W ev i pred then_branch rec1 rounds 0 = (\<lambda>s. None)"
| "rec_loop W ev i pred then_branch rec1 rounds (Suc fuel) =
     seq (charge_size pred)
     (seq (run_expr ev pred i)
     (bind pop (\<lambda>condition.
      seq (charge_size condition)
      (bind (is_truthy W condition) (\<lambda>b.
        if b then seq (charge_size then_branch) (seq (run_expr ev then_branch i) (ret rounds))
        else
          seq (charge_size rec1)
          (seq (run_expr ev rec1 i) (rec_loop W ev i pred then_branch rec1 (Suc rounds) fuel)))))))"

fun rec_unwind :: "evaluator \<Rightarrow> nat \<Rightarrow> expr option \<Rightarrow> nat \<Rightarrow> unit step" where
  "rec_unwind ev i rec2 0 = ret ()"
| "rec_unwind ev i rec2 (Suc n) =
     seq (charge_size rec2) (seq (run_expr ev rec2 i) (rec_unwind ev i rec2 n))"

definition handle_rec :: "world \<Rightarrow> evaluator \<Rightarrow> nat \<Rightarrow> nat \<Rightarrow> unit step" where
  "handle_rec W ev fuel i =
     seq (need 4) (bind pop (\<lambda>rec2. bind pop (\<lambda>rec1. bind pop (\<lambda>then_branch. bind pop (\<lambda>pred.
       bind (rec_loop W ev i pred then_branch rec1 0 fuel) (\<lambda>rounds.
         rec_unwind ev i rec2 rounds))))))"

definition handle_dip :: "evaluator \<Rightarrow> nat \<Rightarrow> unit step" where
  "handle_dip ev i =
     seq (need 2) (bind pop (\<lambda>e. bind pop (\<lambda>v.
       seq (charge_size e) (seq (run_expr ev e i) (push_raw v)))))"

definition handle_eval :: "evaluator \<Rightarrow> nat \<Rightarrow> unit step" where
  "handle_eval ev i = (\<lambda>s.
     if stack s = [] then seq (charge 1) (fail underflow) s
     else bind pop (\<lambda>v. seq (charge_size v) (run_expr ev v i)) s)"

definition handle_match :: "world \<Rightarrow> evaluator \<Rightarrow> nat \<Rightarrow> unit step" where
  "handle_match W ev i =
     seq (need 4) (bind pop (\<lambda>fail_cl. bind pop (\<lambda>succ_cl. bind pop (\<lambda>succ_tag. bind pop (\<lambda>v.
       bind (the_tag W v) (\<lambda>tag. bind (the_expr succ_tag) (\<lambda>t.
         if value_of t = Some (PStr tag)
         then seq (push_raw (head_of (the v))) (run_expr ev succ_cl i)
         else seq (push_raw v) (run_expr ev fail_cl i))))))))"

definition is_tagged :: "world \<Rightarrow> expr \<Rightarrow> pystr \<Rightarrow> bool" where
  "is_tagged W e tag \<longleftrightarrow> builtin_tag W e = u ''link'' \<and> tag \<noteq> u ''link''"

definition handle_result :: "world \<Rightarrow> evaluator \<Rightarrow> nat \<Rightarrow> unit step" where
  "handle_result W ev i = (\<lambda>s.
     if stack s = [] then push (err_value underflow) s
     else
       bind pop (\<lambda>top. bind (the_tag W top) (\<lambda>top_tag.
       if is_tagged W (the top) top_tag then
         (if top_tag = u ''err'' then push_raw top else push_raw (head_of (the top)))
       else (\<lambda>s1.
         if stack s1 = [] then
           seq (push_raw top) (push (err_value (u ''no tagged value on stack''))) s1
         else
           bind pop (\<lambda>v. bind (the_tag W v) (\<lambda>tag.
           if \<not> is_tagged W (the v) tag then
             seq (push_raw v) (seq (push_raw top)
               (push (err_value (u ''expected tagged value, got raw''))))
           else if tag = u ''err'' then push_raw v
           else seq (push_raw (head_of (the v))) (run_expr ev top i))) s1))) s)"

section \<open>Functions\<close>

text \<open>The parameter names of a function: the cells of a list of symbols.\<close>

fun param_names :: "world \<Rightarrow> expr \<Rightarrow> mexc + pystr option list" where
  "param_names W (Link v h t hh th) =
     (if builtin_tag W (Link v h t hh th) = u ''link'' \<and> h \<noteq> None then
        (case expr_tag (blake3 W) (the h) of
           Inl e \<Rightarrow> Inl (PyError e)
         | Inr tag \<Rightarrow>
             if tag \<noteq> u ''symbol'' then Inl (OpError (u ''apply of non-symbol param '' @ tag))
             else
               (case t of
                  None \<Rightarrow> Inr [name_of (the h)]
                | Some t' \<Rightarrow> map_sum id ((#) (name_of (the h))) (param_names W t')))
      else Inr [])"
| "param_names W _ = Inr []"

text \<open>\<open>sum(stack[-1 - i].size() for i in range(n))\<close>\<close>

fun top_sizes :: "expr option list \<Rightarrow> nat \<Rightarrow> exc + nat" where
  "top_sizes xs 0 = Inr 0"
| "top_sizes [] (Suc n) = Inl IndexError"
| "top_sizes (None # xs) (Suc n) = Inl AttributeError"
| "top_sizes (Some e # xs) (Suc n) = bind_exc (top_sizes xs n) (\<lambda>k. Inr (expr_size e + k))"

fun pop_args :: "pystr option list \<Rightarrow> (pystr option \<times> expr) list \<Rightarrow> (pystr option \<times> expr) list step" where
  "pop_args [] data = ret data"
| "pop_args (k # ks) data =
     seq (need 1) (bind pop (\<lambda>v. bind (the_expr v) (\<lambda>e. pop_args ks (AList.update k e data))))"

text \<open>The environment in which a function runs, and its body.\<close>

definition function_scope :: "world \<Rightarrow> nat \<Rightarrow> pystr \<Rightarrow> expr option \<Rightarrow> (nat option \<times> expr option) step" where
  "function_scope W i tag body = (\<lambda>s.
     if tag = u ''lex'' then
       bind (the_expr body) (\<lambda>b.
       bind (the_tag W (head_of b)) (\<lambda>et.
       if et \<noteq> u ''env'' then op_error ''closure of non-env capture''
       else
         (case Option.bind (head_hash_of (the (head_of b))) (map_of (library s)) of
            None \<Rightarrow> raise (PyError KeyError)
          | Some p \<Rightarrow> ret (Some p, tail_of b)))) s
     else if tag = u ''dyn'' then ret (Some i, body) s
     else ret (None, body) s)"

definition function_tags :: "pystr list" where
  "function_tags = [u ''dyn'', u ''pure'', u ''lex'']"

definition handle_apply :: "world \<Rightarrow> evaluator \<Rightarrow> nat \<Rightarrow> unit step" where
  "handle_apply W ev i =
     seq (need 1) (bind pop (\<lambda>fn. bind (the_tag W fn) (\<lambda>fn_tag.
     if fn_tag \<notin> set function_tags then fail (u ''apply of '' @ fn_tag)
     else
       bind (the_expr (head_of (the fn))) (\<lambda>inner.
       bind (function_scope W i fn_tag (head_of inner)) (\<lambda>(parent, body).
       bind (lift_res (case tail_of inner of None \<Rightarrow> Inr [] | Some p \<Rightarrow> param_names W p)) (\<lambda>names.
       bind (\<lambda>s. lift_exc (top_sizes (stack s) (length names)) s) (\<lambda>cost.
       seq (charge cost)
       (bind (pop_args (rev names) []) (\<lambda>data.
       bind (new_env data parent) (\<lambda>j.
       bind (with_stack [] (seq (run_expr ev body j) (\<lambda>s. ret (stack s) s))) (\<lambda>result.
         case result of [] \<Rightarrow> ret () | x # _ \<Rightarrow> push_raw x)))))))))))"

section \<open>Sequences\<close>

text \<open>The heads of a list of cells, up to the end or the first tail that is not a pair.\<close>

fun link_elems :: "world \<Rightarrow> expr \<Rightarrow> expr list" where
  "link_elems W (Link v (Some h) t hh th) =
     (if builtin_tag W (Link v (Some h) t hh th) = u ''link''
      then h # (case t of None \<Rightarrow> [] | Some t' \<Rightarrow> link_elems W t')
      else [])"
| "link_elems W _ = []"

text \<open>Reading characters from a payload that is not text raises \<open>TypeError\<close>.\<close>

definition text_value :: "expr \<Rightarrow> pystr step" where
  "text_value e = (case value_of e of Some (PStr s) \<Rightarrow> ret s | _ \<Rightarrow> raise (PyError TypeError))"

text \<open>The elements that a sequence operator visits, each with what the visit costs.\<close>

definition seq_elems :: "world \<Rightarrow> pystr \<Rightarrow> expr \<Rightarrow> (expr \<times> nat) list step" where
  "seq_elems W tag e =
     (if tag = u ''bytes'' then bind (bytes_value e) (\<lambda>b. ret (map (\<lambda>x. (Bytes [x], 1)) b))
      else if tag = u ''str'' then
        bind (text_value e) (\<lambda>s. ret (map (\<lambda>c. (str_expr [c], length (utf8_char c))) s))
      else ret (map (\<lambda>h. (h, expr_size h)) (link_elems W e)))"

definition is_seq_tag :: "pystr \<Rightarrow> bool" where
  "is_seq_tag t \<longleftrightarrow> t = u ''bytes'' \<or> t = u ''str'' \<or> t = u ''link''"

fun cells_of :: "expr option list \<Rightarrow> expr" where
  "cells_of [] = NIL"
| "cells_of (x # xs) = link x (Some (cells_of xs))"

definition sum_sizes :: "expr option list \<Rightarrow> nat step" where
  "sum_sizes xs = lift_exc (top_sizes xs (length xs))"

text \<open>\<open>_step\<close>: one call of the program on a stack of its own.\<close>

definition run_step :: "evaluator \<Rightarrow> expr \<Rightarrow> nat \<Rightarrow> expr option list \<Rightarrow> expr option step" where
  "run_step ev fn i pre =
     bind (sum_sizes pre) (\<lambda>cost.
       seq (charge (cost + 1))
       (with_stack (rev pre) (seq (ev fn i) (\<lambda>s.
          ret (case stack s of [] \<Rightarrow> Some NIL | x # _ \<Rightarrow> x) s))))"

definition step_for :: "world \<Rightarrow> expr option \<Rightarrow> expr step" where
  "step_for W fn =
     bind (the_tag W fn) (\<lambda>tag. if tag \<noteq> u ''link'' then fail (u ''fn of '' @ tag) else ret (the fn))"

fun for_each :: "('a \<Rightarrow> 'b \<Rightarrow> 'b step) \<Rightarrow> 'a list \<Rightarrow> 'b \<Rightarrow> 'b step" where
  "for_each f [] acc = ret acc"
| "for_each f (x # xs) acc = bind (f x acc) (\<lambda>acc'. for_each f xs acc')"

text \<open>\<open>fn = stack.pop(); value = stack.pop()\<close> and the tag of the value.\<close>

definition pop_seq :: "world \<Rightarrow> (expr option \<Rightarrow> expr \<Rightarrow> pystr \<Rightarrow> unit step) \<Rightarrow> unit step" where
  "pop_seq W f =
     bind pop (\<lambda>fn. bind pop (\<lambda>v. bind (the_tag W v) (\<lambda>tag. f fn (the v) tag)))"

definition map_result :: "world \<Rightarrow> pystr \<Rightarrow> expr option \<Rightarrow> expr option step" where
  "map_result W tag r =
     (if tag = u ''link'' then ret r
      else
        bind (the_tag W r) (\<lambda>rt.
          if rt \<noteq> tag then fail (u ''map fn produced '' @ rt @ u '', expected '' @ tag)
          else if tag = u ''bytes'' then bind (bytes_value (the r)) (\<lambda>_. ret r)
          else bind (str_value (the r)) (\<lambda>_. ret r)))"

text \<open>A result of the elements: bytes and text are joined, anything else is a list of cells.\<close>

definition join_elems :: "pystr \<Rightarrow> expr option list \<Rightarrow> (expr \<times> nat) step" where
  "join_elems tag xs =
     (if tag = u ''bytes'' then
        bind (for_each (\<lambda>x acc. bind (the_expr x) (\<lambda>e. bind (bytes_value e) (\<lambda>b. ret (acc @ b)))) xs [])
          (\<lambda>b. ret (Bytes b, length b))
      else if tag = u ''str'' then
        bind (for_each (\<lambda>x acc. bind (the_expr x) (\<lambda>e. bind (str_value e) (\<lambda>s. ret (acc @ s)))) xs [])
          (\<lambda>s. ret (str_expr s, length (utf8_encode s)))
      else bind (sum_sizes xs) (\<lambda>c. ret (cells_of xs, c + length xs)))"

definition handle_map :: "world \<Rightarrow> evaluator \<Rightarrow> nat \<Rightarrow> unit step" where
  "handle_map W ev i =
     pop_seq W (\<lambda>fn v tag. bind (step_for W fn) (\<lambda>f.
     if \<not> is_seq_tag tag then fail (u ''map of '' @ tag)
     else
       bind (seq_elems W tag v) (\<lambda>elems.
       bind
         (for_each (\<lambda>(e, c) acc.
            seq (charge c)
            (bind (run_step ev f i [Some e]) (\<lambda>r. bind (map_result W tag r) (\<lambda>r'. ret (acc @ [r'])))))
            elems [])
         (\<lambda>rs. bind (join_elems tag rs) (\<lambda>(out, cost). seq (charge cost) (push out))))))"

definition handle_filter :: "world \<Rightarrow> evaluator \<Rightarrow> nat \<Rightarrow> unit step" where
  "handle_filter W ev i =
     pop_seq W (\<lambda>fn v tag. bind (step_for W fn) (\<lambda>f.
     if \<not> is_seq_tag tag then fail (u ''filter of '' @ tag)
     else
       bind (seq_elems W tag v) (\<lambda>elems.
       bind
         (for_each (\<lambda>(e, c) acc.
            seq (charge c)
            (bind (run_step ev f i [Some e]) (\<lambda>r. bind (is_truthy W r) (\<lambda>b.
              ret (if b then acc @ [Some e] else acc)))))
            elems [])
         (\<lambda>rs. bind (join_elems tag rs) (\<lambda>(out, cost). seq (charge cost) (push out))))))"

definition up_front :: "pystr \<Rightarrow> (expr \<times> nat) list \<Rightarrow> nat" where
  "up_front tag elems = (if tag = u ''link'' then 0 else sum_list (map snd elems))"

definition handle_each :: "world \<Rightarrow> evaluator \<Rightarrow> nat \<Rightarrow> unit step" where
  "handle_each W ev i =
     pop_seq W (\<lambda>fn v tag. bind (step_for W fn) (\<lambda>f.
     if \<not> is_seq_tag tag then fail (u ''each of '' @ tag)
     else if tag = u ''str'' \<and> value_of v = None then raise (PyError AttributeError)
     else
       bind (seq_elems W tag v) (\<lambda>elems.
       seq (if tag = u ''link'' then ret () else charge (up_front tag elems))
       (seq
         (for_each (\<lambda>(e, c) _. seq (charge c) (bind (run_step ev f i [Some e]) (\<lambda>_. ret ()))) elems ())
         (push v)))))"

definition not_found :: expr where
  "not_found = tagged (Some (str_expr (u ''not found''))) ''none''"

fun find_loop_elems ::
  "world \<Rightarrow> evaluator \<Rightarrow> expr \<Rightarrow> nat \<Rightarrow> (expr \<times> nat) list \<Rightarrow> unit step" where
  "find_loop_elems W ev f i [] = push not_found"
| "find_loop_elems W ev f i ((e, c) # elems) =
     seq (charge c)
     (bind (run_step ev f i [Some e]) (\<lambda>r. bind (is_truthy W r) (\<lambda>b.
       if b then seq (charge (expr_size e)) (push (tagged (Some e) ''some''))
       else find_loop_elems W ev f i elems)))"

definition handle_find :: "world \<Rightarrow> evaluator \<Rightarrow> nat \<Rightarrow> unit step" where
  "handle_find W ev i =
     pop_seq W (\<lambda>fn v tag.
       if v = NIL then push not_found
       else
         bind (step_for W fn) (\<lambda>f.
         if \<not> is_seq_tag tag then fail (u ''find of '' @ tag)
         else bind (seq_elems W tag v) (\<lambda>elems. find_loop_elems W ev f i elems)))"

definition handle_fold :: "world \<Rightarrow> evaluator \<Rightarrow> nat \<Rightarrow> unit step" where
  "handle_fold W ev i =
     bind pop (\<lambda>fn. bind pop (\<lambda>acc0. bind pop (\<lambda>v. bind (the_tag W v) (\<lambda>tag.
     seq (charge_size acc0)
     (bind (step_for W fn) (\<lambda>f.
     if \<not> is_seq_tag tag then fail (u ''fold of '' @ tag)
     else if tag \<noteq> u ''link'' \<and> value_of (the v) = None then push_raw acc0
     else
       bind (seq_elems W tag (the v)) (\<lambda>elems.
       seq (if tag = u ''link'' \<or> elems = [] then ret () else charge (up_front tag elems))
       (bind
         (for_each (\<lambda>(e, c) acc. seq (charge c) (run_step ev f i [acc, Some e])) elems acc0)
         push_raw))))))))"

definition handle_zip :: "world \<Rightarrow> unit step" where
  "handle_zip W =
     pop_two (\<lambda>a b.
       bind (the_tag W a) (\<lambda>a_tag. bind (the_tag W b) (\<lambda>b_tag.
       if \<not> is_seq_tag a_tag \<or> \<not> is_seq_tag b_tag
       then fail (u ''zip of '' @ a_tag @ u '' and '' @ b_tag)
       else
         bind (seq_elems W a_tag (the a)) (\<lambda>xs. bind (seq_elems W b_tag (the b)) (\<lambda>ys.
           let pairs = zip (map fst xs) (map fst ys) in
           seq (charge (length pairs))
           (seq (charge (sum_list (map (\<lambda>(x, y). expr_size x + expr_size y) pairs) + length pairs))
             (push (cells_of (map (\<lambda>(x, y). Some (cons x y)) pairs)))))))))"

definition handle_concat :: "world \<Rightarrow> unit step" where
  "handle_concat W =
     pop_two (\<lambda>a b.
       bind (the_tag W a) (\<lambda>a_tag. bind (the_tag W b) (\<lambda>b_tag.
       if a_tag \<noteq> b_tag \<or> \<not> is_seq_tag a_tag
       then fail (u ''concatenation of '' @ a_tag @ u '' and '' @ b_tag)
       else
         bind (seq_elems W a_tag (the a)) (\<lambda>xs. bind (seq_elems W a_tag (the b)) (\<lambda>ys.
         bind (join_elems a_tag (map (Some \<circ> fst) (xs @ ys))) (\<lambda>(out, cost).
           seq (charge cost) (push out)))))))"

definition handle_count :: "world \<Rightarrow> unit step" where
  "handle_count W =
     bind pop (\<lambda>v. bind (the_tag W v) (\<lambda>tag.
     if \<not> is_seq_tag tag then fail (u ''count of '' @ tag)
     else
       bind (seq_elems W tag (the v)) (\<lambda>elems.
         let n = int_expr (int (length elems)) in
         seq (charge (if tag = u ''link'' then length elems else expr_size n)) (push n))))"

definition handle_reverse :: "world \<Rightarrow> unit step" where
  "handle_reverse W =
     bind pop (\<lambda>v. bind (the_tag W v) (\<lambda>tag.
     if \<not> is_seq_tag tag then fail (u ''reverse of '' @ tag)
     else
       bind (seq_elems W tag (the v)) (\<lambda>elems.
       bind (join_elems tag (rev (map (Some \<circ> fst) elems))) (\<lambda>(out, cost).
         seq (charge cost) (push out)))))"

definition out_of_bounds :: "string \<Rightarrow> int \<Rightarrow> pystr \<Rightarrow> nat option \<Rightarrow> pystr" where
  "out_of_bounds word k tag len =
     u word @ int_to_str k @ u '' out of bounds for '' @ tag
     @ (case len of None \<Rightarrow> [] | Some n \<Rightarrow> u '' of length '' @ int_to_str (int n))"

definition handle_index :: "world \<Rightarrow> unit step" where
  "handle_index W =
     pop_seq W (\<lambda>index v tag. bind (the_tag W index) (\<lambda>index_tag.
     if index_tag \<noteq> u ''int'' then fail (u ''index of '' @ tag @ u '' by '' @ index_tag)
     else if \<not> is_seq_tag tag then fail (u ''index of '' @ tag @ u '' by int'')
     else
       bind (int_value (the index)) (\<lambda>k.
       bind (seq_elems W tag v) (\<lambda>elems.
         if k < 0 \<and> tag = u ''link'' then fail (out_of_bounds ''index '' k tag None)
         else if k < 0 \<or> int (length elems) \<le> k
         then fail (out_of_bounds ''index '' k tag (Some (length elems)))
         else (case elems ! nat k of (e, c) \<Rightarrow> seq (charge c) (push e))))))"

text \<open>
  The split of a list of cells changes the tail of a cell that other entries may share, which
  values do not show, so that branch is left to \<open>other_op\<close>, on the stack as it was.
\<close>

definition handle_split :: "world \<Rightarrow> nat \<Rightarrow> unit step" where
  "handle_split W i =
     pop_seq W (\<lambda>index v tag. bind (the_tag W index) (\<lambda>index_tag.
     if index_tag \<noteq> u ''int'' then fail (u ''split of '' @ tag @ u '' at '' @ index_tag)
     else if tag = u ''link'' then
       seq (push v) (seq (push_raw index) (other_op W (u ''split'') i))
     else if \<not> is_seq_tag tag then fail (u ''split of '' @ tag @ u '' at int'')
     else
       bind (int_value (the index)) (\<lambda>k.
       bind (seq_elems W tag v) (\<lambda>elems.
         if k < 0 \<or> int (length elems) < k
         then fail (out_of_bounds ''split index '' k tag (Some (length elems)))
         else
           bind (join_elems tag (map (Some \<circ> fst) (take (nat k) elems))) (\<lambda>(left, lc).
           bind (join_elems tag (map (Some \<circ> fst) (drop (nat k) elems))) (\<lambda>(right, rc).
             seq (charge (lc + rc)) (push (cons left right))))))))"

section \<open>Dispatch\<close>

definition variants :: "string list \<Rightarrow> pystr list" where
  "variants names = concat (map (\<lambda>n. [u n, u n @ u ''?'']) names)"

definition actor_operators :: "pystr list" where
  "actor_operators = variants [''spawn'', ''send'', ''receive'']"

definition blocked_operators :: "pystr list" where
  "blocked_operators = actor_operators @ map u [''print'', ''println'', ''time'', ''clock'']"

definition operator_list :: "pystr list" where
  "operator_list =
     variants
       [''+'', ''-'', ''*'', ''/'', ''%'', ''sqrt'', ''abs'',
        ''&'', ''|'', ''^'', ''~'', ''<<'', ''<<<'', ''<'', ''>'', ''<='', ''>='',
        ''drop'', ''dup'', ''swap'', ''rot'', ''dip'',
        ''link'', ''head'', ''tail'', ''is_eq'', ''symbol'', ''quote'', ''type'', ''parse'', ''ref'',
        ''load'', ''init'', ''id'', ''eval'',
        ''concat'', ''split'', ''index'', ''count'', ''reverse'', ''map'', ''filter'', ''each'',
        ''fold'', ''zip'', ''find'',
        ''str'', ''int'', ''bytes'', ''e4m3'', ''e5m2'', ''fp16'', ''bf16'', ''fp32'', ''fp64'',
        ''def'', ''rec'', ''if'', ''closure'', ''apply'']
     @ [u ''is''] @ map u [''time'', ''clock'', ''print'', ''println'', ''acc.balance'', ''acc.get'', ''acc.put'']
     @ variants [''block.bloom.insert'']
     @ map u [''block.chain_id'', ''block.height'', ''block.previous_block_hash'', ''block.timestamp'',
         ''tx.amount'', ''tx.recipient'', ''tx.sender'', ''tx.new'', ''tx.log'',
         ''ok'', ''err'', ''result'', ''match'']
     @ actor_operators"

text \<open>The operators modelled here, with the form that has the variant \<open>op?\<close>.\<close>

definition plain_handlers :: "world \<Rightarrow> evaluator \<Rightarrow> nat \<Rightarrow> nat \<Rightarrow> (pystr \<times> unit step) list" where
  "plain_handlers W ev fuel i =
     [(u ''+'', handle_add W), (u ''-'', handle_sub W), (u ''*'', handle_mul W),
        (u ''/'', handle_div W), (u ''%'', handle_mod W),
        (u ''&'', handle_and W), (u ''|'', handle_or W), (u ''^'', handle_xor W),
        (u ''<'', handle_less_than W), (u ''>'', handle_greater_than W),
        (u ''<='', handle_less_than_or_equal W), (u ''>='', handle_greater_than_or_equal W),
        (u ''<<'', handle_shift W), (u ''<<<'', handle_rotate W), (u ''sqrt'', handle_sqrt W),
        (u ''abs'', handle_abs W), (u ''~'', handle_not W),
        (u ''closure'', handle_closure W i), (u ''apply'', handle_apply W ev i),
        (u ''if'', handle_if W ev i), (u ''rec'', handle_rec W ev fuel i),
        (u ''link'', handle_link), (u ''head'', handle_head W), (u ''tail'', handle_tail W), (u ''eval'', handle_eval ev i),
        (u ''dup'', handle_dup), (u ''swap'', handle_swap), (u ''rot'', handle_rot),
        (u ''dip'', handle_dip ev i), (u ''quote'', handle_quote), (u ''symbol'', handle_symbol W),
        (u ''str'', handle_str W), (u ''int'', handle_int W), (u ''bytes'', handle_bytes W),
        (u ''init'', handle_init W), (u ''type'', handle_type W), (u ''id'', handle_id W),
        (u ''concat'', handle_concat W), (u ''split'', handle_split W i), (u ''index'', handle_index W),
        (u ''count'', handle_count W), (u ''reverse'', handle_reverse W),
        (u ''map'', handle_map W ev i), (u ''filter'', handle_filter W ev i),
        (u ''each'', handle_each W ev i), (u ''fold'', handle_fold W ev i),
        (u ''zip'', handle_zip W), (u ''find'', handle_find W ev i)]"

definition handlers :: "world \<Rightarrow> evaluator \<Rightarrow> nat \<Rightarrow> nat \<Rightarrow> (pystr \<times> unit step) list" where
  "handlers W ev fuel i =
     plain_handlers W ev fuel i
     @ map (\<lambda>(n, h). (n @ u ''?'', with_result h)) (plain_handlers W ev fuel i)
     @ [(u ''drop'', handle_drop), (u ''drop?'', with_nil_result handle_drop),
        (u ''def'', handle_def W i), (u ''def?'', with_nil_result (handle_def W i)),
        (u ''ok'', handle_ok), (u ''err'', handle_err),
        (u ''result'', handle_result W ev i), (u ''match'', handle_match W ev i),
        (u ''is'', handle_is W)]"

definition apply_operator :: "world \<Rightarrow> evaluator \<Rightarrow> nat \<Rightarrow> pystr \<Rightarrow> nat \<Rightarrow> unit step" where
  "apply_operator W ev fuel name i = (\<lambda>s.
     if deterministic s \<and> name \<in> set blocked_operators then seq (charge 1) (push NIL) s
     else
       (case map_of (handlers W ev fuel i) name of
          Some h \<Rightarrow> h s
        | None \<Rightarrow> other_op W name i s))"

section \<open>The evaluator\<close>

definition guarded :: "unit step \<Rightarrow> unit step" where
  "guarded m = on_op_error m (\<lambda>_. seq (charge 1) (push NIL))"

definition eval_symbol :: "world \<Rightarrow> evaluator \<Rightarrow> nat \<Rightarrow> pystr \<Rightarrow> nat \<Rightarrow> unit step" where
  "eval_symbol W ev fuel name i = (\<lambda>s.
     let size = expr_size (Symbol name);
         bound = env_get (envs s) i name;
         value = (case bound of
                    None \<Rightarrow> seq (charge (size + 1)) (push (link None None))
                  | Some b \<Rightarrow> seq (charge (size + expr_size b)) (push b))
     in if name \<notin> set operator_list then value s
        else if deterministic s \<or> bound = None then guarded (apply_operator W ev fuel name i) s
        else seq (charge (expr_size (the bound))) (guarded (ev (the bound) i)) s)"

definition is_quote :: "expr \<Rightarrow> bool" where
  "is_quote e \<longleftrightarrow> head_of e = Some (Symbol [39])"

definition evaluation_step :: "world \<Rightarrow> nat \<Rightarrow> evaluator \<Rightarrow> evaluator" where
  "evaluation_step W fuel ev e i =
     (case e of
        Symbol name \<Rightarrow> eval_symbol W ev fuel name i
      | Bytes b \<Rightarrow> seq (charge (expr_size e)) (push e)
      | _ \<Rightarrow>
          if is_builtin_composite e then seq (charge (expr_size e)) (push e)
          else if is_quote e then
            (case tail_of e of
               None \<Rightarrow> seq (charge 1) (push NIL)
             | Some t \<Rightarrow>
                 if t = NIL then seq (charge 1) (push NIL)
                 else bind (the_expr (head_of t)) (\<lambda>x. seq (charge (expr_size x)) (push x)))
          else
            seq (case head_of e of None \<Rightarrow> ret () | Some h \<Rightarrow> ev h i)
                (case tail_of e of None \<Rightarrow> ret () | Some t \<Rightarrow> ev t i))"

fun evaluation :: "world \<Rightarrow> nat \<Rightarrow> evaluator" where
  "evaluation W 0 = (\<lambda>e i s. None)"
| "evaluation W (Suc n) = evaluation_step W n (evaluation W n)"

text \<open>\<open>Machine.run\<close>: a program on an empty stack; the result is the top of the stack.\<close>

definition run_machine :: "world \<Rightarrow> nat \<Rightarrow> expr \<Rightarrow> nat \<Rightarrow> expr option step" where
  "run_machine W fuel e i =
     with_stack [] (seq (evaluation W fuel e i) (\<lambda>s.
       ret (case stack s of [] \<Rightarrow> Some NIL | x # _ \<Rightarrow> x) s))"

end
