(* ===== verification/Machine_Laws.thy ===== *)
theory Machine_Laws
  imports Machine_Eval
begin

text \<open>
  What every run of the machine keeps. \<open>machine_relation\<close> is the interface: a relation between the
  state before and after a step that ignores the stack and holds for the basic changes, a charge, a
  new environment, a binding in the environment of the run, an entry of the library. Any such
  relation holds across a whole evaluation, and the two interpretations, the meter and the frame of
  environments, are the safety properties of the machine.
\<close>

named_theorems keeps_intros \<open>steps that keep a relation\<close>

definition keeps :: "(nat \<Rightarrow> machine \<Rightarrow> machine \<Rightarrow> bool) \<Rightarrow> nat \<Rightarrow> 'a step \<Rightarrow> bool" where
  "keeps R i m \<longleftrightarrow> (\<forall>s r s'. m s = Some (r, s') \<longrightarrow> R i s s')"

lemma keeps_if_state [keeps_intros]:
  "keeps R i m \<Longrightarrow> keeps R i n \<Longrightarrow> keeps R i (\<lambda>s. if P s then m s else n s)"
  by (simp add: keeps_def)

lemma keeps_if [keeps_intros]:
  "keeps R i m \<Longrightarrow> keeps R i n \<Longrightarrow> keeps R i (if b then m else n)"
  by simp

lemma keeps_case_option_state [keeps_intros]:
  "keeps R i m \<Longrightarrow> (\<And>x. keeps R i (n x)) \<Longrightarrow>
     keeps R i (\<lambda>s. case f s of None \<Rightarrow> m s | Some x \<Rightarrow> n x s)"
  by (auto simp: keeps_def split: option.splits)

lemma keeps_case_option [keeps_intros]:
  "keeps R i m \<Longrightarrow> (\<And>x. keeps R i (n x)) \<Longrightarrow>
     keeps R i (case x of None \<Rightarrow> m | Some x \<Rightarrow> n x)"
  by (simp split: option.split)

lemma keeps_case_list [keeps_intros]:
  "keeps R i m \<Longrightarrow> (\<And>x xs. keeps R i (n x xs)) \<Longrightarrow>
     keeps R i (case xs of [] \<Rightarrow> m | x # xs \<Rightarrow> n x xs)"
  by (simp split: list.split)

lemma keeps_case_prod [keeps_intros]:
  "(\<And>x y. keeps R i (m x y)) \<Longrightarrow> keeps R i (case p of (x, y) \<Rightarrow> m x y)"
  by (simp split: prod.split)

lemma keeps_case_sum [keeps_intros]:
  "(\<And>x. keeps R i (m x)) \<Longrightarrow> (\<And>x. keeps R i (n x)) \<Longrightarrow>
     keeps R i (case x of Inl x \<Rightarrow> m x | Inr x \<Rightarrow> n x)"
  by (simp split: sum.split)

lemma keeps_case_payload [keeps_intros]:
  "(\<And>x. keeps R i (a x)) \<Longrightarrow> (\<And>x. keeps R i (b x)) \<Longrightarrow> (\<And>x. keeps R i (c x)) \<Longrightarrow>
     (\<And>x. keeps R i (d x)) \<Longrightarrow>
     keeps R i (case x of PInt x \<Rightarrow> a x | PStr x \<Rightarrow> b x | PBytes x \<Rightarrow> c x | PFloat x \<Rightarrow> d x)"
  by (simp split: payload.split)

lemma keeps_read_state: "(\<And>s0. keeps R i (f s0)) \<Longrightarrow> keeps R i (\<lambda>s. f s s)"
  by (simp add: keeps_def)

lemma keeps_None [keeps_intros]: "keeps R i (\<lambda>s. None)"
  by (simp add: keeps_def)

text \<open>The operators that are not modelled keep the relation.\<close>

definition world_keeps :: "(nat \<Rightarrow> machine \<Rightarrow> machine \<Rightarrow> bool) \<Rightarrow> world \<Rightarrow> bool" where
  "world_keeps R W \<longleftrightarrow> (\<forall>name i. keeps R i (other_op W name i))"

locale machine_relation =
  fixes R :: "nat \<Rightarrow> machine \<Rightarrow> machine \<Rightarrow> bool"
  assumes R_refl: "R i s s"
    and R_trans: "R i s s' \<Longrightarrow> R i s' s'' \<Longrightarrow> R i s s''"
    and R_stack: "R i s (s\<lparr>stack := xs\<rparr>)"
    and R_snapshot: "new_env d (Option.bind q (map_of (library s))) s = Some (Inr j, s') \<Longrightarrow>
          R i s (s'\<lparr>library := library s' @ [(h, j)]\<rparr>)"
    and R_charge: "charge_kind n b s = Some (r, s') \<Longrightarrow> R i s s'"
    and R_new_env: "new_env d p s = Some (out, s') \<Longrightarrow> R i s s'"
    and R_scope: "new_env d p s = Some (Inr j, s') \<Longrightarrow> R j s' s'' \<Longrightarrow> R i s s''"
    and R_env_put: "env_put i k v s = Some (r, s') \<Longrightarrow> R i s s'"
begin

lemma keeps_ret [keeps_intros]: "keeps R i (ret x)" "keeps R i (raise e)"
  by (simp_all add: keeps_def ret_def raise_def R_refl)

lemma keeps_ret_state [keeps_intros]: "keeps R i (\<lambda>s. ret (f s) s)" "keeps R i (\<lambda>s. lift_exc (g s) s)"
  by (simp_all add: keeps_def ret_def lift_exc_def raise_def R_refl split: sum.split)

lemma keeps_bind [keeps_intros]:
  "keeps R i m \<Longrightarrow> (\<And>x. keeps R i (f x)) \<Longrightarrow> keeps R i (bind m f)"
  unfolding keeps_def bind_def by (fastforce split: option.splits prod.splits sum.splits intro: R_trans)

lemma keeps_lift [keeps_intros]:
  "keeps R i (lift_exc a)" "keeps R i (lift_res b)" "keeps R i (fail msg)" "keeps R i (op_error t)"
  "keeps R i (the_expr x)"
  by (simp_all add: lift_exc_def lift_res_def fail_def op_error_def the_expr_def keeps_ret split: sum.split option.split)

lemma keeps_charge [keeps_intros]: "keeps R i (charge n)"
  by (auto simp: keeps_def charge_def intro: R_charge)

lemma keeps_stack [keeps_intros]:
  "keeps R i pop" "keeps R i (push_raw x)" "keeps R i (push e)" "keeps R i (need n)"
  by (auto simp: keeps_def pop_def push_raw_def push_def need_def R_refl R_stack split: list.splits if_splits)

lemma keeps_on_op_error [keeps_intros]:
  assumes "keeps R i m" "\<And>msg. keeps R i (h msg)"
  shows "keeps R i (on_op_error m h)"
  unfolding keeps_def
proof (intro allI impI)
  fix s r s' assume a: "on_op_error m h s = Some (r, s')"
  then obtain q s1 where m: "m s = Some (q, s1)"
    by (cases "m s") (auto simp: on_op_error_def)
  then have R1: "R i s s1" using assms(1) by (auto simp: keeps_def)
  have "h msg s1 = Some (r, s') \<Longrightarrow> R i s s'" for msg
    using assms(2) R1 R_trans by (auto simp: keeps_def)
  with a m R1 show "R i s s'"
    by (auto simp: on_op_error_def split: sum.splits mexc.splits exc.splits)
qed

lemma keeps_with_stack [keeps_intros]:
  assumes "keeps R i m"
  shows "keeps R i (with_stack xs m)"
  unfolding keeps_def with_stack_def
proof (intro allI impI)
  fix s r s' assume "map_option (\<lambda>(r, s'). (r, s'\<lparr>stack := stack s\<rparr>)) (m (s\<lparr>stack := xs\<rparr>)) = Some (r, s')"
  then obtain s1 where "m (s\<lparr>stack := xs\<rparr>) = Some (r, s1)" "s' = s1\<lparr>stack := stack s\<rparr>" by auto
  with assms show "R i s s'"
    unfolding keeps_def by (metis R_stack R_trans)
qed

lemma keeps_new_env [keeps_intros]: "keeps R i (new_env d p)"
  by (auto simp: keeps_def intro: R_new_env)

lemma keeps_env_put [keeps_intros]: "keeps R i (\<lambda>s. env_put i k v s)" "keeps R i (env_put i k v)"
  by (auto simp: keeps_def intro: R_env_put)

text \<open>A call runs in an environment of its own.\<close>

lemma keeps_call [keeps_intros]:
  assumes "\<And>j. keeps R j (f j)" "\<And>x. keeps R i (g x)"
  shows "keeps R i (bind (new_env d p) (\<lambda>j. bind (f j) g))"
  unfolding keeps_def
proof (intro allI impI)
  fix s r s' assume a: "bind (new_env d p) (\<lambda>j. bind (f j) g) s = Some (r, s')"
  obtain j s1 where e: "new_env d p s = Some (Inr j, s1)" by (simp add: new_env_def)
  with a have b: "bind (f j) g s1 = Some (r, s')" by (simp add: bind_def)
  then obtain q s2 where f: "f j s1 = Some (q, s2)" by (cases "f j s1") (auto simp: bind_def)
  then have "R i s s2" using assms(1) R_scope [OF e] by (auto simp: keeps_def)
  moreover have "r = r \<and> (s' = s2 \<or> (\<exists>x. g x s2 = Some (r, s')))"
    using b f by (auto simp: bind_def split: sum.splits)
  ultimately show "R i s s'" using assms(2) R_trans unfolding keeps_def by blast
qed

lemma keeps_snapshot_level: "keeps R i (snapshot_level H rd d p)"
proof -
  have "keeps R i (\<lambda>s. case map_of (library s) h of
      Some _ \<Rightarrow> Some (Inr h, s)
    | None \<Rightarrow>
        bind (new_env d (Option.bind p (map_of (library s)))) (\<lambda>j. \<lambda>s'.
          Some (Inr h, s'\<lparr>library := library s' @ [(h, j)]\<rparr>)) s)" for h :: bytes
    unfolding keeps_def
  proof (intro allI impI)
    fix s r s'
    assume a: "(case map_of (library s) h of
        Some _ \<Rightarrow> Some (Inr h, s)
      | None \<Rightarrow>
          bind (new_env d (Option.bind p (map_of (library s)))) (\<lambda>j. \<lambda>s'.
            Some (Inr h, s'\<lparr>library := library s' @ [(h, j)]\<rparr>)) s) = Some (r, s')"
    obtain j s1 where e: "new_env d (Option.bind p (map_of (library s))) s = Some (Inr j, s1)"
      by (simp add: new_env_def)
    from a e show "R i s s'"
      by (auto simp: bind_def R_refl intro: R_snapshot [OF e] split: option.splits)
  qed
  then show ?thesis
    unfolding snapshot_level_def Let_def by (intro keeps_bind keeps_lift)
qed

lemma keeps_snapshot [keeps_intros]: "keeps R i (snapshot_env H rd j)"
proof -
  have "snapshot_env H rd j s = Some (r, s') \<Longrightarrow> R i s s'" for s r s'
  proof (induction H rd j s arbitrary: r s' rule: snapshot_env.induct)
    case (1 H rd j s)
    have lev: "snapshot_level H rd d p s0 = Some (q, s1) \<Longrightarrow> R i s0 s1" for d p s0 q s1
      using keeps_snapshot_level by (auto simp: keeps_def)
    show ?case
    proof (cases "j < length (envs s)")
      case False
      with 1(2) lev show ?thesis by (subst (asm) snapshot_env.simps) auto
    next
      case True
      define m where "m = (case env_parent (envs s ! j) of
          None \<Rightarrow> ret None
        | Some p \<Rightarrow> if p < j then bind (snapshot_env H rd p) (\<lambda>h. ret (Some h)) else ret None)"
      have run: "bind m (\<lambda>q. snapshot_level H rd (env_data (envs s ! j)) q) s = Some (r, s')"
        using 1(2) True unfolding m_def by (subst (asm) snapshot_env.simps) simp
      have "R i s s1" if "m s = Some (q, s1)" for q s1
      proof (cases "\<exists>p. env_parent (envs s ! j) = Some p \<and> p < j")
        case False
        with that show ?thesis
          by (auto simp: m_def ret_def R_refl split: option.splits if_splits)
      next
        case True
        then obtain p where p: "env_parent (envs s ! j) = Some p" "p < j" by blast
        then have "bind (snapshot_env H rd p) (\<lambda>h. ret (Some h)) s = Some (q, s1)"
          using that by (simp add: m_def)
        then obtain q' where "snapshot_env H rd p s = Some (q', s1)"
          by (auto simp: bind_def ret_def split: option.splits sum.splits prod.splits)
        with 1(1) [OF \<open>j < length (envs s)\<close> p] show ?thesis by blast
      qed
      moreover obtain q s1 where "m s = Some (q, s1)"
        "s' = s1 \<or> (\<exists>x. snapshot_level H rd (env_data (envs s ! j)) x s1 = Some (r, s'))"
        using run by (rule bind_cases) blast+
      ultimately show ?thesis using lev R_trans by blast
    qed
  qed
  then show ?thesis by (auto simp: keeps_def)
qed

lemma keeps_for_each:
  "(\<And>x acc. keeps R i (f x acc)) \<Longrightarrow> keeps R i (for_each f xs acc)"
  by (induction xs arbitrary: acc) (auto intro: keeps_intros)

lemma keeps_for_each_pair [keeps_intros]:
  "(\<And>e c acc. keeps R i (f e c acc)) \<Longrightarrow> keeps R i (for_each (\<lambda>(e, c) acc. f e c acc) xs acc)"
  by (rule keeps_for_each) (simp split: prod.split)

section \<open>The operators\<close>

lemma keeps_parts [keeps_intros]:
  "keeps R i (the_tag W x)" "keeps R i (bytes_value e)" "keeps R i (str_value e)"
  "keeps R i (int_value e)" "keeps R i (get_int_from_expr W e)" "keeps R i (text_value e)"
  "keeps R i (payload_text e)" "keeps R i (charge_size x)"
  unfolding the_tag_def bytes_value_def str_value_def int_value_def get_int_from_expr_def text_value_def
    payload_text_def charge_size_def
  by (intro keeps_intros)+

lemma keeps_pop_two [keeps_intros]:
  "(\<And>a b. keeps R i (f a b)) \<Longrightarrow> keeps R i (pop_two f)"
  unfolding pop_two_def by (intro keeps_intros)

lemma keeps_is_truthy [keeps_intros]: "keeps R i (is_truthy W x)"
  unfolding is_truthy_def by (intro keeps_intros)

lemma keeps_seq_elems [keeps_intros]:
  "keeps R i (seq_elems W tag e)" "keeps R i (sum_sizes xs)" "keeps R i (step_for W x)"
  "keeps R i (map_result W tag x)"
  unfolding seq_elems_def sum_sizes_def step_for_def map_result_def by (intro keeps_intros)+

lemma keeps_join_elems [keeps_intros]: "keeps R i (join_elems tag xs)"
  unfolding join_elems_def by (intro keeps_intros keeps_for_each)

lemma keeps_pop_seq [keeps_intros]:
  "(\<And>a b c. keeps R i (f a b c)) \<Longrightarrow> keeps R i (pop_seq W f)"
  unfolding pop_seq_def by (intro keeps_intros)

lemma keeps_shift_operand [keeps_intros]:
  "(\<And>a b c. keeps R i (f a b c)) \<Longrightarrow> keeps R i (shift_operand W verb f)"
  unfolding shift_operand_def by (intro keeps_intros)

lemma keeps_simple_ops [keeps_intros]:
  "keeps R i handle_drop" "keeps R i handle_dup" "keeps R i handle_swap" "keeps R i handle_rot"
  "keeps R i handle_link" "keeps R i handle_quote" "keeps R i (handle_tag t)"
  "keeps R i (handle_part W w part)" "keeps R i (handle_init W)" "keeps R i (handle_type W)"
  "keeps R i (handle_is W)" "keeps R i (handle_id W)" "keeps R i (handle_head W)"
  "keeps R i (handle_tail W)" "keeps R i handle_ok" "keeps R i handle_err"
  unfolding handle_drop_def handle_dup_def handle_swap_def handle_rot_def handle_link_def
    handle_quote_def handle_ok_def handle_err_def handle_head_def handle_tail_def handle_tag_def handle_part_def handle_init_def handle_type_def handle_is_def
    handle_id_def Let_def
  by (intro keeps_intros)+

lemma keeps_number_ops [keeps_intros]:
  "keeps R i (handle_arith W n)" "keeps R i (handle_abs W)" "keeps R i (handle_sqrt W)"
  "keeps R i (compare_numbers W n)" "keeps R i (handle_bitwise W n)" "keeps R i (handle_not W)"
  "keeps R i (handle_shift W)" "keeps R i (handle_rotate W)"
  unfolding handle_arith_def handle_abs_def handle_sqrt_def compare_numbers_def handle_bitwise_def
    handle_not_def handle_shift_def handle_rotate_def Let_def
  by (intro keeps_intros)+

lemma keeps_named_number_ops [keeps_intros]:
  "keeps R i (handle_add W)" "keeps R i (handle_sub W)" "keeps R i (handle_mul W)"
  "keeps R i (handle_div W)" "keeps R i (handle_mod W)"
  "keeps R i (handle_and W)" "keeps R i (handle_or W)" "keeps R i (handle_xor W)"
  "keeps R i (handle_less_than W)" "keeps R i (handle_greater_than W)"
  "keeps R i (handle_less_than_or_equal W)" "keeps R i (handle_greater_than_or_equal W)"
  unfolding handle_add_def handle_sub_def handle_mul_def handle_div_def handle_mod_def handle_and_def
    handle_or_def handle_xor_def handle_less_than_def handle_greater_than_def
    handle_less_than_or_equal_def handle_greater_than_or_equal_def
  by (rule keeps_number_ops)+

lemma keeps_conversions [keeps_intros]:
  "keeps R i (handle_symbol W)" "keeps R i (handle_str W)" "keeps R i (handle_int W)"
  "keeps R i (handle_bytes W)"
  unfolding handle_symbol_def handle_str_def handle_int_def handle_bytes_def
  by (intro keeps_intros)+

lemma keeps_static_seq_ops [keeps_intros]:
  "keeps R i (handle_zip W)" "keeps R i (handle_concat W)" "keeps R i (handle_count W)"
  "keeps R i (handle_reverse W)" "keeps R i (handle_index W)"
  unfolding handle_zip_def handle_concat_def handle_count_def handle_reverse_def handle_index_def Let_def
  by (intro keeps_intros)+

lemma keeps_binders [keeps_intros]: "keeps R i (handle_closure W i)" "keeps R i (handle_def W i)"
  unfolding handle_closure_def handle_def_def Let_def
  by (intro keeps_intros)+

lemma keeps_results [keeps_intros]:
  "keeps R i m \<Longrightarrow> keeps R i (with_result m)" "keeps R i m \<Longrightarrow> keeps R i (with_nil_result m)"
  "keeps R i m \<Longrightarrow> keeps R i (guarded m)"
  unfolding with_result_def with_nil_result_def guarded_def
  by (rule keeps_on_op_error; (assumption | intro keeps_intros)+)+

lemma keeps_pop_args [keeps_intros]: "keeps R i (pop_args ks data)"
  by (induction ks arbitrary: data) (auto intro!: keeps_intros)

lemma keeps_split:
  assumes "world_keeps R W"
  shows "keeps R i (handle_split W i)"
proof -
  have "keeps R i (other_op W name i)" for name using assms by (simp add: world_keeps_def)
  then show ?thesis unfolding handle_split_def by (intro keeps_intros)
qed

lemma keeps_run_expr:
  assumes "\<And>e j. keeps R j (ev e j)"
  shows "keeps R i (run_expr ev x i)"
  unfolding run_expr_def by (intro keeps_intros assms)

lemma keeps_run_step:
  assumes "\<And>e j. keeps R j (ev e j)"
  shows "keeps R i (run_step ev f i pre)"
  unfolding run_step_def by (intro keeps_intros assms)

lemma keeps_control_ops:
  assumes ev: "\<And>e j. keeps R j (ev e j)"
  shows "keeps R i (handle_if W ev i)" "keeps R i (handle_dip ev i)" "keeps R i (handle_eval ev i)"
    "keeps R i (handle_match W ev i)" "keeps R i (handle_result W ev i)"
  unfolding handle_if_def handle_dip_def handle_eval_def handle_match_def handle_result_def
  by (intro keeps_intros keeps_run_expr ev)+

lemma keeps_rec:
  assumes ev: "\<And>e j. keeps R j (ev e j)"
  shows "keeps R i (handle_rec W ev fuel i)"
proof -
  have "keeps R i (rec_loop W ev i a b c n fuel)" for a b c n
    by (induction fuel arbitrary: n) (auto intro!: keeps_intros keeps_run_expr ev)
  moreover have "keeps R i (rec_unwind ev i a n)" for a n
    by (induction n) (auto intro!: keeps_intros keeps_run_expr ev)
  ultimately show ?thesis unfolding handle_rec_def by (intro keeps_intros)
qed

lemma keeps_apply:
  assumes ev: "\<And>e j. keeps R j (ev e j)"
  shows "keeps R i (handle_apply W ev i)"
proof -
  have scope: "keeps R i (function_scope W i tag body)" for tag body
    unfolding function_scope_def by (rule keeps_read_state) (intro keeps_intros)
  have call: "keeps R i (bind (new_env d p) (\<lambda>j. bind (with_stack [] (seq (run_expr ev body j) (\<lambda>s. ret (stack s) s)))
      (\<lambda>result. case result of [] \<Rightarrow> ret () | x # _ \<Rightarrow> push_raw x)))" for d p body
    by (rule keeps_call) (intro keeps_intros keeps_run_expr ev)+
  show ?thesis
    unfolding handle_apply_def by (rule call scope keeps_if keeps_lift keeps_parts keeps_stack keeps_charge
        keeps_ret_state keeps_pop_args keeps_case_prod keeps_bind)+
qed

lemma keeps_seq_ops:
  assumes ev: "\<And>e j. keeps R j (ev e j)"
  shows "keeps R i (handle_map W ev i)" "keeps R i (handle_filter W ev i)" "keeps R i (handle_each W ev i)"
    "keeps R i (handle_fold W ev i)" "keeps R i (handle_find W ev i)"
proof -
  have "keeps R i (find_loop_elems W ev f i elems)" for f elems
    by (induction elems) (auto intro!: keeps_intros keeps_run_step ev)
  then show "keeps R i (handle_find W ev i)"
    unfolding handle_find_def by (intro keeps_intros)
qed (unfold handle_map_def handle_filter_def handle_each_def handle_fold_def,
    (intro keeps_intros keeps_run_step ev)+)

lemma keeps_handlers:
  assumes W: "world_keeps R W" and ev: "\<And>e j. keeps R j (ev e j)" and h: "(n, h) \<in> set (handlers W ev fuel i)"
  shows "keeps R i h"
proof -
  have plain: "keeps R i h'" if "(n', h') \<in> set (plain_handlers W ev fuel i)" for n' h'
    using that unfolding plain_handlers_def
    by (auto intro: keeps_intros keeps_split keeps_control_ops keeps_rec keeps_apply keeps_seq_ops ev W)
  then show ?thesis
    using h unfolding handlers_def
    by (auto intro: keeps_intros keeps_control_ops ev)
qed

lemma keeps_apply_operator:
  assumes W: "world_keeps R W" and ev: "\<And>e j. keeps R j (ev e j)"
  shows "keeps R i (apply_operator W ev fuel name i)"
proof -
  have "keeps R i (\<lambda>s. case map_of (handlers W ev fuel i) name of Some h \<Rightarrow> h s | None \<Rightarrow> other_op W name i s)"
  proof (cases "map_of (handlers W ev fuel i) name")
    case None
    have "keeps R i (other_op W name i)" using W by (simp add: world_keeps_def)
    with None show ?thesis by simp
  next
    case (Some h)
    with keeps_handlers [OF W ev map_of_SomeD] show ?thesis by simp
  qed
  then show ?thesis
    unfolding apply_operator_def
    by (intro keeps_if_state keeps_bind keeps_charge keeps_stack)
qed

lemma keeps_evaluation:
  assumes W: "world_keeps R W"
  shows "keeps R i (evaluation W fuel e i)"
proof (induction fuel arbitrary: e i)
  case 0
  then show ?case by (simp add: keeps_def)
next
  case (Suc n)
  have sym: "keeps R i (eval_symbol W (evaluation W n) n name i)" for name i
  proof -
    have "keeps R i (\<lambda>s. case env_get (envs s) i name of None \<Rightarrow> seq (charge k) (push x) s
        | Some b \<Rightarrow> seq (charge (k' + expr_size b)) (push b) s)" for k x k'
      by (intro keeps_case_option_state keeps_intros)
    moreover have "keeps R i (\<lambda>s. if deterministic s \<or> env_get (envs s) i name = None
        then guarded (apply_operator W (evaluation W n) n name i) s
        else seq (charge (expr_size (the (env_get (envs s) i name))))
               (guarded (evaluation W n (the (env_get (envs s) i name)) i)) s)"
    proof -
      have "keeps R i (guarded (apply_operator W (evaluation W n) n name i))"
        by (intro keeps_results keeps_apply_operator Suc W)
      moreover have "keeps R i (seq (charge k) (guarded (evaluation W n b i)))" for k b
        by (intro keeps_intros Suc)
      ultimately show ?thesis by (auto simp: keeps_def)
    qed
    ultimately show ?thesis
      unfolding eval_symbol_def Let_def
      by (auto simp: keeps_def split: if_splits option.splits)
  qed
  show ?case
  proof (cases e)
    case (Symbol name)
    then show ?thesis by (simp add: evaluation_step_def sym)
  next
    case NIL
    then show ?thesis by (simp only: evaluation.simps evaluation_step_def expr.case) (intro keeps_intros Suc)
  next
    case (Bytes b)
    then show ?thesis by (simp add: evaluation_step_def) (intro keeps_intros)
  next
    case (Link v h t hh th)
    then show ?thesis by (simp only: evaluation.simps evaluation_step_def expr.case) (intro keeps_intros Suc)
  qed
qed

lemma evaluation_relates:
  assumes "world_keeps R W" "evaluation W fuel e i s = Some (r, s')"
  shows "R i s s'"
  using keeps_evaluation [OF assms(1)] assms(2) unfolding keeps_def by blast

end

end
