(* ===== verification/Machine_Safety.thy ===== *)
theory Machine_Safety
  imports Machine_Laws
begin

text \<open>
  The two relations that every run of the machine keeps, as interpretations of
  \<open>machine_relation\<close>: the meter (\<open>meter.py\<close>) and the frame of environments (\<open>environment.py\<close>,
  \<open>main.py\<close>), and the containment of operator errors by \<open>evaluator.py\<close>.
\<close>

section \<open>The meter\<close>

definition meter_rel :: "nat \<Rightarrow> machine \<Rightarrow> machine \<Rightarrow> bool" where
  "meter_rel i s s' \<longleftrightarrow>
     limit s' = limit s \<and> deterministic s' = deterministic s \<and>
     meter_eval s \<le> meter_eval s' \<and> meter_storage s \<le> meter_storage s' \<and>
     (case limit s of
        None \<Rightarrow> meter_total s' = meter_total s
      | Some l \<Rightarrow> meter_total s \<le> l \<longrightarrow> meter_total s' \<le> l)"

interpretation meter: machine_relation meter_rel
proof unfold_locales
  fix i n b s r s' assume "charge_kind n b s = Some (r, s')"
  then show "meter_rel i s s'"
    by (auto simp: charge_kind_def meter_rel_def meter_total_def Let_def split: option.splits if_splits)
qed (auto simp: meter_rel_def meter_total_def new_env_def env_put_def split: option.splits)

section \<open>The frame of environments\<close>

text \<open>
  The environments that a hash captures: those of the library, each with its parent in it. A run in
  an environment that is none of them leaves them alone.
\<close>

definition library_envs :: "machine \<Rightarrow> nat set" where
  "library_envs s = snd ` set (library s)"

definition frame_ok :: "nat \<Rightarrow> machine \<Rightarrow> bool" where
  "frame_ok i s \<longleftrightarrow>
     i < length (envs s) \<and> i \<notin> library_envs s \<and>
     (\<forall>j\<in>library_envs s. j < length (envs s) \<and>
        (\<forall>p. env_parent (envs s ! j) = Some p \<longrightarrow> p \<in> library_envs s))"

definition extends :: "nat \<Rightarrow> machine \<Rightarrow> machine \<Rightarrow> bool" where
  "extends i s s' \<longleftrightarrow>
     length (envs s) \<le> length (envs s') \<and>
     (\<forall>j<length (envs s). j \<noteq> i \<longrightarrow> envs s' ! j = envs s ! j) \<and>
     (\<forall>j<length (envs s). env_parent (envs s' ! j) = env_parent (envs s ! j)) \<and>
     (\<exists>new. library s' = library s @ new \<and> (\<forall>(h, j)\<in>set new. length (envs s) \<le> j))"

definition frame_rel :: "nat \<Rightarrow> machine \<Rightarrow> machine \<Rightarrow> bool" where
  "frame_rel i s s' \<longleftrightarrow> (frame_ok i s \<longrightarrow> frame_ok i s' \<and> extends i s s')"

lemma extends_refl: "extends i s s"
  by (simp add: extends_def)

lemma extends_trans:
  assumes "extends i s s'" "extends i s' s''"
  shows "extends i s s''"
proof -
  obtain n1 where n1: "library s' = library s @ n1" "\<forall>(h, j)\<in>set n1. length (envs s) \<le> j"
    using assms(1) by (auto simp: extends_def)
  obtain n2 where n2: "library s'' = library s' @ n2" "\<forall>(h, j)\<in>set n2. length (envs s') \<le> j"
    using assms(2) by (auto simp: extends_def)
  have len: "length (envs s) \<le> length (envs s')" using assms(1) by (simp add: extends_def)
  have "library s'' = library s @ (n1 @ n2) \<and> (\<forall>(h, j)\<in>set (n1 @ n2). length (envs s) \<le> j)"
    using n1 n2 len by fastforce
  with assms len show ?thesis by (auto simp: extends_def)
qed

lemma frame_same:
  assumes "envs s' = envs s" "library s' = library s"
  shows "frame_rel i s s'"
  using assms by (simp add: frame_rel_def frame_ok_def extends_def library_envs_def)

lemma new_env_ok:
  assumes "new_env d p s = Some (out, s')" "frame_ok i s"
  shows "frame_ok i s'" "extends i s s'"
proof -
  have s': "envs s' = envs s @ [\<lparr>env_data = d, env_parent = p\<rparr>]" "library s' = library s"
    using assms(1) by (auto simp: new_env_def)
  then have "library_envs s' = library_envs s" by (simp add: library_envs_def)
  with assms(2) s'(1) show "frame_ok i s'" by (auto simp: frame_ok_def nth_append)
  show "extends i s s'" by (auto simp: extends_def s' nth_append)
qed

interpretation frame: machine_relation frame_rel
proof unfold_locales
  fix i s s' s'' assume "frame_rel i s s'" "frame_rel i s' s''"
  then show "frame_rel i s s''" unfolding frame_rel_def using extends_trans by blast
next
  fix i n b s r s' assume "charge_kind n b s = Some (r, s')"
  then show "frame_rel i s s'"
    by (intro frame_same) (auto simp: charge_kind_def Let_def split: option.splits if_splits)
next
  fix i d p s out s' assume "new_env d p s = Some (out, s')"
  from new_env_ok [OF this] show "frame_rel i s s'" by (simp add: frame_rel_def)
next
  fix i k v s r s' assume "env_put i k v s = Some (r, s')"
  then have s': "envs s' = (envs s)[i := (envs s ! i)\<lparr>env_data := AList.update k v (env_data (envs s ! i))\<rparr>]"
    "library s' = library s"
    by (auto simp: env_put_def)
  then have "library_envs s' = library_envs s" by (simp add: library_envs_def)
  then show "frame_rel i s s'"
    unfolding frame_rel_def frame_ok_def extends_def by (auto simp: s' nth_list_update)
next
  fix d q i s j s' h
  assume e: "new_env d (Option.bind q (map_of (library s))) s = Some (Inr j, s')"
  have s': "envs s' = envs s @ [\<lparr>env_data = d, env_parent = Option.bind q (map_of (library s))\<rparr>]"
    "library s' = library s" "j = length (envs s)"
    using e by (auto simp: new_env_def)
  have p: "Option.bind q (map_of (library s)) = Some k \<Longrightarrow> k \<in> library_envs s" for k
    by (cases q) (force simp: library_envs_def dest: map_of_SomeD)+
  show "frame_rel i s (s'\<lparr>library := library s' @ [(h, j)]\<rparr>)"
    unfolding frame_rel_def
  proof (intro impI conjI)
    assume ok: "frame_ok i s"
    have L: "library_envs (s'\<lparr>library := library s' @ [(h, j)]\<rparr>) = insert j (library_envs s)"
      by (auto simp: library_envs_def s')
    show "frame_ok i (s'\<lparr>library := library s' @ [(h, j)]\<rparr>)"
      using ok p unfolding frame_ok_def L by (auto simp: s' nth_append)
    show "extends i s (s'\<lparr>library := library s' @ [(h, j)]\<rparr>)"
      by (auto simp: extends_def s' nth_append)
  qed
next
  fix d p s j s' s'' i
  assume e: "new_env d p s = Some (Inr j, s')" and r: "frame_rel j s' s''"
  have s': "envs s' = envs s @ [\<lparr>env_data = d, env_parent = p\<rparr>]" "library s' = library s" "j = length (envs s)"
    using e by (auto simp: new_env_def)
  show "frame_rel i s s''"
    unfolding frame_rel_def
  proof (intro impI)
    assume ok: "frame_ok i s"
    then have okj: "frame_ok j s'" by (auto simp: frame_ok_def s' library_envs_def nth_append)
    with r have okj'': "frame_ok j s''" and x: "extends j s' s''" by (simp_all add: frame_rel_def)
    obtain new where new: "library s'' = library s @ new" "\<forall>(h, k)\<in>set new. length (envs s') \<le> k"
      using x s' by (auto simp: extends_def)
    have old: "envs s'' ! k = envs s ! k" if "k < length (envs s)" for k
      using x that by (auto simp: extends_def s' nth_append)
    have len: "length (envs s) < length (envs s'')" using x by (simp add: extends_def s')
    have fresh: "\<forall>(h, k)\<in>set new. length (envs s) \<le> k" using new(2) by (fastforce simp: s')
    have "i \<notin> library_envs s''"
      using ok fresh by (force simp: frame_ok_def library_envs_def new)
    then have "frame_ok i s''"
      using ok okj'' len by (simp add: frame_ok_def)
    moreover have "extends i s s''"
      unfolding extends_def using old len new(1) fresh by (auto intro: less_imp_le)
    ultimately show "frame_ok i s'' \<and> extends i s s''" by blast
  qed
qed (auto intro!: frame_same)

section \<open>A machine to run on concrete programs\<close>

definition demo_world :: world where
  "demo_world =
     \<lparr>blake3 = (\<lambda>b. b), read_node = (\<lambda>_ _. Some (Inr None)), read_cell = (\<lambda>_ _. None), known_block = None,
      float_arith = (\<lambda>_ _ _ _. Inl (PyError TypeError)), float_unary = (\<lambda>_ _ _. Inl (PyError TypeError)),
      float_cmp = (\<lambda>_ _ _. Inl (PyError TypeError)), float_nonzero = (\<lambda>_. Inl (PyError TypeError)),
      float_to_int = (\<lambda>_. Inl (PyError TypeError)), float_to_str = (\<lambda>_. Inl (PyError TypeError)),
      float_to_wire = (\<lambda>_ _. Inl (PyError TypeError)), lower = (\<lambda>s. s), parse_int = (\<lambda>_. None),
      other_op = (\<lambda>name _. fail name)\<rparr>"

definition demo_machine :: "int option \<Rightarrow> machine" where
  "demo_machine l =
     \<lparr>deterministic = True, limit = l, meter_eval = 0, meter_storage = 0, stack = [],
      envs = [\<lparr>env_data = [], env_parent = None\<rparr>, \<lparr>env_data = [(Some [121], NIL)], env_parent = None\<rparr>],
      library = [([9], 1)], logs = []\<rparr>"

text \<open>A program: the list of its parts.\<close>

fun program :: "expr list \<Rightarrow> expr" where
  "program [] = NIL"
| "program (e # es) = cons e (program es)"

definition demo_sum :: expr where
  "demo_sum = program [int_expr 2, int_expr 3, symbol ''+'']"

lemma demo_world_keeps: "world_keeps meter_rel demo_world" "world_keeps frame_rel demo_world"
  by (simp_all add: world_keeps_def demo_world_def meter.keeps_lift frame.keeps_lift)

section \<open>Properties\<close>

text \<open>
  C13: the meter is a hard limit. Whatever a program does, on every path and also when it raises, a
  run never changes the limit or the mode, the two counters only grow, and a total within the limit
  stays within it.
\<close>

theorem meter_respected:
  assumes "world_keeps meter_rel W" "evaluation W fuel e i s = Some (r, s')"
  shows "limit s' = limit s \<and> deterministic s' = deterministic s
    \<and> meter_eval s \<le> meter_eval s' \<and> meter_storage s \<le> meter_storage s'
    \<and> (\<forall>l. limit s = Some l \<and> meter_total s \<le> l \<longrightarrow> meter_total s' \<le> l)"
  using meter.evaluation_relates [OF assms] by (auto simp: meter_rel_def)

lemma demo_sum_runs: "\<exists>s'. evaluation demo_world 9 demo_sum 0 (demo_machine (Some 3)) = Some (Inr (), s') \<and> meter_total s' = 3"
  by (rule exI, rule conjI, rule refl [THEN trans [rotated]], code_simp, code_simp)

theorem meter_respected_witness:
  "\<exists>s'. evaluation demo_world 9 demo_sum 0 (demo_machine (Some 3)) = Some (Inr (), s')
     \<and> limit s' = Some 3 \<and> meter_total s' \<le> 3"
proof -
  obtain s' where run: "evaluation demo_world 9 demo_sum 0 (demo_machine (Some 3)) = Some (Inr (), s')"
    using demo_sum_runs by blast
  with meter_respected [OF demo_world_keeps(1) run] show ?thesis
    by (auto simp: demo_machine_def meter_total_def)
qed

text \<open>
  C14: an environment that a closure captured never changes. A run in an environment that the library
  does not hold keeps every entry of the library, and a lookup in an environment of the library,
  along its parents, gives the same before and after, whatever the run defines, calls or captures.
\<close>

theorem captured_env_fixed:
  assumes "world_keeps frame_rel W" "frame_ok i s" "evaluation W fuel e i s = Some (r, s')"
    and "map_of (library s) h = Some k"
  shows "frame_ok i s' \<and> map_of (library s') h = Some k \<and> env_get (envs s') k x = env_get (envs s) k x"
proof -
  have ok: "frame_ok i s'" and x: "extends i s s'"
    using frame.evaluation_relates [OF assms(1,3)] assms(2) by (auto simp: frame_rel_def)
  have "env_get (envs s') k x = env_get (envs s) k x" if "k \<in> library_envs s" for k
    using that
  proof (induction k rule: less_induct)
    case (less k)
    then have k: "k < length (envs s)" "k \<noteq> i" using assms(2) by (auto simp: frame_ok_def)
    then have same: "envs s' ! k = envs s ! k" "k < length (envs s')" using x by (auto simp: extends_def)
    have "env_parent (envs s ! k) = Some p \<Longrightarrow> p < k \<Longrightarrow> env_get (envs s') p x = env_get (envs s) p x" for p
      using less assms(2) by (auto simp: frame_ok_def)
    then show ?case
      using k same by (subst (1 2) env_get.simps) (auto split: option.split)
  qed
  moreover have "k \<in> library_envs s"
    using map_of_SomeD [OF assms(4)] by (force simp: library_envs_def)
  moreover have "map_of (library s') h = Some k"
    using x assms(4) by (auto simp: extends_def)
  ultimately show ?thesis using ok by blast
qed

theorem captured_env_fixed_witness:
  "\<exists>s'. evaluation demo_world 9 demo_sum 0 (demo_machine (Some 3)) = Some (Inr (), s')
     \<and> map_of (library s') [9] = Some 1 \<and> env_get (envs s') 1 [121] = Some NIL"
proof -
  obtain s' where run: "evaluation demo_world 9 demo_sum 0 (demo_machine (Some 3)) = Some (Inr (), s')"
    using demo_sum_runs by blast
  have ok: "frame_ok 0 (demo_machine (Some 3))" "map_of (library (demo_machine (Some 3))) [9] = Some 1"
    by (simp_all add: frame_ok_def demo_machine_def library_envs_def)
  have "env_get (envs (demo_machine (Some 3))) 1 [121] = Some NIL" by code_simp
  with captured_env_fixed [OF demo_world_keeps(2) ok(1) run ok(2), of "[121]"] run show ?thesis by auto
qed

text \<open>
  C23: the evaluator contains the errors of operators. Whatever the operators do, an evaluation ends
  with a result, with the meter exceeded, or with another Python exception; an \<open>OpError\<close> or an
  \<open>IndexError\<close> never leaves it.
\<close>

theorem operator_errors_contained:
  assumes "evaluation W fuel e i s = Some (Inl x, s')"
  shows "x = MeterExceeded \<or> (\<exists>p. x = PyError p \<and> p \<noteq> IndexError)"
proof -
  define fine where "fine x \<longleftrightarrow> x = MeterExceeded \<or> (\<exists>p. x = PyError p \<and> p \<noteq> IndexError)" for x
  define calm where "calm m \<longleftrightarrow> (\<forall>s x s'. m s = Some (Inl x, s') \<longrightarrow> fine x)" for m :: "unit step"
  have seqs: "calm m \<Longrightarrow> calm n \<Longrightarrow> calm (seq m n)" for m n
    unfolding calm_def by (blast elim: bind_cases)
  have charge: "calm (charge k)" "calm (push v)" "calm (ret ())" for k v
    by (auto simp: calm_def fine_def charge_def charge_kind_def push_def push_raw_def ret_def Let_def split: option.splits if_splits)
  have binds: "calm (bind (the_expr v) f)" if "\<And>e. calm (f e)" for v f
    using that by (auto simp: calm_def fine_def the_expr_def ret_def raise_def elim!: bind_cases split: option.splits)
  have guarded: "calm (guarded m)" for m
    using seqs [OF charge(1,2), of 1 NIL]
    by (auto simp: guarded_def calm_def fine_def on_op_error_def split: option.splits sum.splits mexc.splits exc.splits)
  have sym: "calm (eval_symbol W ev n name j)" for ev n name j
    unfolding eval_symbol_def Let_def using seqs [OF charge(1,2)] seqs [OF charge(1) guarded] guarded
    unfolding calm_def by (auto split: option.splits if_splits)
  have "calm (evaluation W fuel e i)"
  proof (induction fuel arbitrary: e i)
    case 0
    then show ?case by (simp add: calm_def)
  next
    case (Suc n)
    have opt: "calm (case y of None \<Rightarrow> m | Some t \<Rightarrow> f t)" if "calm m" "\<And>t. calm (f t)" for y :: "expr option" and m f
      using that by (cases y) auto
    have part: "calm (if b then m else n)" if "calm m" "calm n" for b m n
      using that by simp
    show ?case
      unfolding evaluation.simps evaluation_step_def
      by (cases e; simp only: expr.case; intro sym seqs charge binds opt part Suc)
  qed
  with assms show ?thesis by (auto simp: calm_def fine_def)
qed

theorem operator_errors_contained_witness:
  "fst (the (evaluation demo_world 9 demo_sum 0 (demo_machine (Some 2)))) = Inl MeterExceeded
   \<and> (MeterExceeded = MeterExceeded \<or> (\<exists>p. MeterExceeded = PyError p \<and> p \<noteq> IndexError))"
proof -
  have "evaluation demo_world 9 demo_sum 0 (demo_machine (Some 2)) \<noteq> None" 
    "fst (the (evaluation demo_world 9 demo_sum 0 (demo_machine (Some 2)))) = Inl MeterExceeded"
    by code_simp+
  then obtain s' where run: "evaluation demo_world 9 demo_sum 0 (demo_machine (Some 2)) = Some (Inl MeterExceeded, s')"
    by auto
  from operator_errors_contained [OF run] run show ?thesis by simp
qed

end
