(* ===== verification/Accounts.thy ===== *)
theory Accounts
  imports Radix_Laws Expr_Lists
begin

text \<open>
  Accounts: \<open>consensus/account/\<close> and the cache over the trie of accounts, \<open>consensus/models/accounts.py\<close>.

  \<open>node_ctx\<close> is what the code reads of the node: the hash function, storage as a block gives it, and
  the fuel of the model. Running out of it is \<open>OutOfFuel\<close>. Contacts only say whom to ask for a cell, so
  they are part of storage. A Python object that is shared is one entry of the cache here, and the code
  that holds it names it by its address.
\<close>

section \<open>The node\<close>

record node_ctx =
  cx_hash :: "bytes \<Rightarrow> bytes"
  cx_get :: storage_read
  cx_list :: storage_read
  cx_fuel :: nat

definition cx_reader :: "node_ctx \<Rightarrow> node_reader" where
  "cx_reader cx = storage_reader (cx_hash cx) (cx_get cx) (cx_list cx) (cx_fuel cx) False"

definition fetch_in :: "node_ctx \<Rightarrow> bytes option \<Rightarrow> bytes \<Rightarrow> expr option" where
  "fetch_in cx b h = cx_get cx h b"

text \<open>A run on a tree, with the tree as it was where the fuel ran out.\<close>

definition on_tree :: "radix_tree \<Rightarrow> 'a tree_run \<Rightarrow> (exc + 'a) \<times> radix_tree" where
  "on_tree t r = (case r of None \<Rightarrow> (Inl OutOfFuel, t) | Some x \<Rightarrow> x)"

definition tree_get :: "node_ctx \<Rightarrow> radix_tree \<Rightarrow> bytes \<Rightarrow> (exc + expr option \<times> bytes option) \<times> radix_tree" where
  "tree_get cx t k = on_tree t (get_with_block (cx_reader cx) (cx_get cx) (cx_fuel cx) t k)"

definition tree_put :: "node_ctx \<Rightarrow> radix_tree \<Rightarrow> bytes \<Rightarrow> rvalue \<Rightarrow> (exc + unit) \<times> radix_tree" where
  "tree_put cx t k v = on_tree t (put_in_radix_tree (cx_hash cx) (cx_reader cx) (cx_fuel cx) t k v)"

text \<open>\<open>resolve_list_exprs\<close> of a cell, and \<open>get_expr_tag(..) == "int"\<close> with \<open>get_expr_value\<close>.\<close>

definition list_items :: "node_ctx \<Rightarrow> bytes option \<Rightarrow> expr \<Rightarrow> exc + expr list \<times> bytes list" where
  "list_items cx b e =
     (case resolve_list_exprs (fetch_in cx b) (cx_fuel cx) (Some e) of
        None \<Rightarrow> Inl OutOfFuel
      | Some r \<Rightarrow> Inr r)"

definition tagged_int :: "node_ctx \<Rightarrow> bytes option \<Rightarrow> expr \<Rightarrow> exc + expr option" where
  "tagged_int cx b e =
     bind_exc (get_expr_tag (cx_hash cx) (Some (fetch_in cx b)) e) (\<lambda>(tag, e').
       Inr (if tag = u ''int'' then Some e' else None))"

definition int_value :: "node_ctx \<Rightarrow> bytes option \<Rightarrow> expr \<Rightarrow> exc + int" where
  "int_value cx b e =
     bind_exc (get_expr_value (cx_hash cx) (Some (fetch_in cx b)) e) (\<lambda>(v, _).
       case v of Some (PInt n) \<Rightarrow> Inr n | _ \<Rightarrow> Inl TypeError)"

lemma int_expr_read [simp]:
  "tagged_int cx b (int_expr n) = Inr (Some (int_expr n))" "int_value cx b (int_expr n) = Inr n"
  by (simp_all add: tagged_int_def int_value_def int_expr_def get_expr_tag_def get_expr_value_def tag_of_tail_def)

section \<open>Accounts\<close>

type_synonym account_key = "int \<times> int \<times> bytes \<times> bytes \<times> bytes"

record account =
  ac_balance :: int
  ac_code_hash :: bytes
  ac_counter :: int
  ac_data_hash :: bytes
  ac_channels_hash :: bytes
  ac_data :: radix_tree
  ac_channels :: radix_tree
  ac_data_block :: "bytes option"
  ac_code_block :: "bytes option"
  ac_channels_block :: "bytes option"
  ac_loaded :: "account_key option"

definition create_account ::
  "int \<Rightarrow> bytes \<Rightarrow> bytes \<Rightarrow> bytes \<Rightarrow> int \<Rightarrow> bytes option \<Rightarrow> bytes option \<Rightarrow> bytes option \<Rightarrow> account" where
  "create_account balance data_hash channels_hash code_hash counter data_block code_block channels_block =
     \<lparr>ac_balance = balance, ac_code_hash = code_hash, ac_counter = counter, ac_data_hash = data_hash,
      ac_channels_hash = channels_hash, ac_data = new_radix_tree (Some data_hash) data_block,
      ac_channels = new_radix_tree (Some channels_hash) channels_block, ac_data_block = data_block,
      ac_code_block = code_block, ac_channels_block = channels_block, ac_loaded = None\<rparr>"

text \<open>\<open>create_account()\<close> with its defaults.\<close>

definition new_account :: account where
  "new_account = create_account 0 ZERO32 ZERO32 ZERO32 0 None None None"

definition root_item :: "bytes \<Rightarrow> bytes option \<Rightarrow> expr" where
  "root_item root block = (if root = ZERO32 then hash_ref ZERO32 else pointer_item root block)"

definition account_to_expr :: "account \<Rightarrow> expr" where
  "account_to_expr a =
     cons (root_item (ac_data_hash a) (ac_data_block a))
       (cons (int_expr (ac_counter a))
         (cons (root_item (ac_code_hash a) (ac_code_block a))
           (cons (root_item (ac_channels_hash a) (ac_channels_block a))
             (cons (int_expr (ac_balance a)) NIL))))"

definition state_key :: "account \<Rightarrow> account_key" where
  "state_key a = (ac_balance a, ac_counter a, ac_data_hash a, ac_code_hash a, ac_channels_hash a)"

definition clone_account :: "account \<Rightarrow> account" where
  "clone_account a =
     a\<lparr>ac_data := clone_radix_tree (ac_data a), ac_channels := clone_radix_tree (ac_channels a)\<rparr>"

section \<open>The accounts of a block\<close>

record accounts =
  as_trie :: radix_tree
  as_cache :: "(bytes \<times> account) list"
  as_involved :: "bytes list"

definition new_accounts :: "bytes option \<Rightarrow> bytes option \<Rightarrow> accounts" where
  "new_accounts root block_hash =
     \<lparr>as_trie = new_radix_tree root block_hash, as_cache = [], as_involved = []\<rparr>"

definition read_account ::
  "node_ctx \<Rightarrow> expr \<Rightarrow> bytes option \<Rightarrow> exc + account option" where
  "read_account cx e b =
     (let field = \<lambda>x. read_field (cx_hash cx) (Some (fetch_in cx b)) x b in
      bind_exc (list_items cx b e) (\<lambda>(items, missed).
        if missed \<noteq> [] then Inr None
        else
          (case items of
             [data_node, counter_node, code_node, channels_node, balance_node] \<Rightarrow>
               bind_exc (field data_node) (\<lambda>data.
               bind_exc (field code_node) (\<lambda>code.
               bind_exc (field channels_node) (\<lambda>channels.
                 (case (data, code, channels) of
                    (Some (dh, db), Some (ch, cb), Some (xh, xb)) \<Rightarrow>
                      bind_exc (tagged_int cx b counter_node) (\<lambda>counter.
                      bind_exc (if counter = None then Inr None else tagged_int cx b balance_node) (\<lambda>balance.
                        (case (counter, balance) of
                           (Some c, Some n) \<Rightarrow>
                             bind_exc (int_value cx b n) (\<lambda>balance.
                             bind_exc (int_value cx b c) (\<lambda>counter.
                               Inr (Some (create_account balance dh xh ch counter db cb xb))))
                         | _ \<Rightarrow> Inr None)))
                  | _ \<Rightarrow> Inr None))))
           | _ \<Rightarrow> Inr None)))"

definition get_account :: "node_ctx \<Rightarrow> bytes \<Rightarrow> accounts \<Rightarrow> (exc + account option) \<times> accounts" where
  "get_account cx address s =
     (case map_of (as_cache s) address of
        Some a \<Rightarrow> (Inr (Some a), s)
      | None \<Rightarrow>
          (case tree_get cx (as_trie s) address of
             (Inl x, t) \<Rightarrow> (Inl x, s\<lparr>as_trie := t\<rparr>)
           | (Inr (None, b), t) \<Rightarrow> (Inr None, s\<lparr>as_trie := t\<rparr>)
           | (Inr (Some e, b), t) \<Rightarrow>
               (case read_account cx e b of
                  Inl x \<Rightarrow> (Inl x, s\<lparr>as_trie := t\<rparr>)
                | Inr None \<Rightarrow> (Inr None, s\<lparr>as_trie := t\<rparr>)
                | Inr (Some a) \<Rightarrow>
                    (let a' = a\<lparr>ac_loaded := Some (state_key a)\<rparr> in
                     (Inr (Some a'), s\<lparr>as_trie := t, as_cache := AList.update address a' (as_cache s)\<rparr>)))))"

definition set_account :: "bytes \<Rightarrow> account \<Rightarrow> accounts \<Rightarrow> accounts" where
  "set_account address a s =
     s\<lparr>as_cache := AList.update address a (as_cache s), as_involved := List.insert address (as_involved s)\<rparr>"

definition or_zero32 :: "bytes option \<Rightarrow> bytes" where
  "or_zero32 h = (case h of None \<Rightarrow> ZERO32 | Some x \<Rightarrow> if x = [] then ZERO32 else x)"

definition flush_account :: "account \<Rightarrow> account" where
  "flush_account a =
     a\<lparr>ac_data_hash := or_zero32 (root_hash (ac_data a)), ac_data_block := root_block (ac_data a),
       ac_channels_hash := or_zero32 (root_hash (ac_channels a)), ac_channels_block := root_block (ac_channels a)\<rparr>"

fun update_entries ::
  "node_ctx \<Rightarrow> (bytes \<times> account) list \<Rightarrow> radix_tree \<Rightarrow> (exc + (bytes \<times> account) list) \<times> radix_tree" where
  "update_entries cx [] t = (Inr [], t)"
| "update_entries cx ((address, a) # rest) t =
     (let a' = flush_account a; key = state_key a' in
      if ac_loaded a = Some key then
        (case update_entries cx rest t of
           (Inl x, t') \<Rightarrow> (Inl x, t')
         | (Inr es, t') \<Rightarrow> (Inr ((address, a') # es), t'))
      else
        (case tree_put cx t address (VExpr (account_to_expr a')) of
           (Inl x, t') \<Rightarrow> (Inl x, t')
         | (Inr _, t') \<Rightarrow>
             (case update_entries cx rest t' of
                (Inl x, t'') \<Rightarrow> (Inl x, t'')
              | (Inr es, t'') \<Rightarrow> (Inr ((address, a'\<lparr>ac_loaded := Some key\<rparr>) # es), t''))))"

text \<open>Entries that an error leaves unwritten keep their state; the code stops with the error.\<close>

definition update_trie :: "node_ctx \<Rightarrow> accounts \<Rightarrow> (exc + bytes option) \<times> accounts" where
  "update_trie cx s =
     (case update_entries cx (as_cache s) (as_trie s) of
        (Inl x, t) \<Rightarrow> (Inl x, s\<lparr>as_trie := t\<rparr>)
      | (Inr es, t) \<Rightarrow> (Inr (root_hash t), s\<lparr>as_trie := t, as_cache := es\<rparr>))"

end
