(* ===== verification/Floats64.thy ===== *)
theory Floats64
  imports Complex_Main Astreum_Prelude
begin

text \<open>
  Python's floats where the chain's rules use them. \<open>f64\<close> rounds a rational to the nearest binary64
  value, ties to even; an operation on floats is the exact one rounded. The values here are never
  subnormal, and one that is too large raises \<open>OverflowError\<close>.
\<close>

definition pow2 :: "int \<Rightarrow> rat" where
  "pow2 k = (if 0 \<le> k then 2 ^ nat k else 1 / 2 ^ nat (- k))"

definition binade :: "rat \<Rightarrow> int" where
  "binade x =
     (let (n, d) = quotient_of \<bar>x\<bar>;
          k = int (bit_length n) - int (bit_length d)
      in if pow2 k \<le> \<bar>x\<bar> then k else k - 1)"

definition round_half_even :: "rat \<Rightarrow> int" where
  "round_half_even x =
     (let f = \<lfloor>x\<rfloor>; r = x - of_int f
      in if r > 1 / 2 \<or> (r = 1 / 2 \<and> odd f) then f + 1 else f)"

definition f64 :: "rat \<Rightarrow> rat" where
  "f64 x = (if x = 0 then 0 else (let s = pow2 (binade x - 52) in of_int (round_half_even (x / s)) * s))"

definition float_of :: "rat \<Rightarrow> exc + rat" where
  "float_of x = (if \<bar>f64 x\<bar> \<ge> 2 ^ 1024 then Inl OverflowError else Inr (f64 x))"

definition trunc :: "rat \<Rightarrow> int" where
  "trunc x = (if x < 0 then \<lceil>x\<rceil> else \<lfloor>x\<rfloor>)"

end
