(* ===== verification/Block_Fees.thy ===== *)
theory Block_Fees
  imports Astreum_Prelude
begin

text \<open>
  The money rules of a block: fee settlement (\<open>consensus/transaction/fees.py\<close>), the validator's
  reward (\<open>block/reward.py\<close>), the statistics windows (\<open>block/rate_window.py\<close>) and the storage fee
  (\<open>block/rate.py\<close>), with their reference definitions.

  Amounts are Python integers. \<open>Fraction\<close> is a rational number. The statistics of a block are a list
  of six-tuples, entry 0 the totals and entry \<open>i + 1\<close> the window of \<open>2 ^ i\<close> blocks.
\<close>

section \<open>Settlement of fees\<close>

record settlement =
  set_transaction_fee :: int
  set_data_fee :: int
  set_storage_fee :: int
  set_transfer_amount :: int
  affordable :: bool

definition settlement_total :: "settlement \<Rightarrow> int" where
  "settlement_total r =
     set_transaction_fee r + set_data_fee r + set_storage_fee r + set_transfer_amount r"

definition settle_fees :: "int \<Rightarrow> int \<Rightarrow> int \<Rightarrow> int \<Rightarrow> int \<Rightarrow> settlement" where
  "settle_fees balance transaction_fee data_fee storage_fee transfer_amount =
     (if balance \<ge> transaction_fee + data_fee + storage_fee + transfer_amount then
        \<lparr>set_transaction_fee = transaction_fee, set_data_fee = data_fee, set_storage_fee = storage_fee,
         set_transfer_amount = transfer_amount, affordable = True\<rparr>
      else
        (let remaining = max 0 balance;
             paid0 = min remaining transaction_fee;
             remaining = remaining - paid0;
             paid1 = min remaining data_fee;
             remaining = remaining - paid1;
             paid2 = min remaining storage_fee
         in \<lparr>set_transaction_fee = paid0, set_data_fee = paid1, set_storage_fee = paid2,
             set_transfer_amount = 0, affordable = False\<rparr>))"

text \<open>
  C27: a settlement follows the rule of its module. Where the fees are not negative, a sender that can pay
  pays everything in full; one that cannot pays \<open>min(balance, owed)\<close> and moves no transfer, and a
  fee is paid only when those before it are paid in full. A settlement never takes more than the
  balance.
\<close>

theorem settle_fees_rule:
  assumes "0 \<le> balance" and "0 \<le> tf" and "0 \<le> df" and "0 \<le> sf"
    and "r = settle_fees balance tf df sf amount"
  shows "settlement_total r \<le> balance
    \<and> affordable r = (tf + df + sf + amount \<le> balance)
    \<and> (if affordable r then settlement_total r = tf + df + sf + amount
       else settlement_total r = min balance (tf + df + sf) \<and> set_transfer_amount r = 0)
    \<and> (set_data_fee r \<le> 0 \<or> set_transaction_fee r = tf)
    \<and> (set_storage_fee r \<le> 0 \<or> set_transaction_fee r = tf \<and> set_data_fee r = df)"
  using assms(1-4) unfolding assms(5) settle_fees_def settlement_total_def
  by (auto simp: Let_def min_def max_def)

lemma settle_fees_rule_witness:
  "settlement_total (settle_fees 5 3 4 2 10) \<le> 5 \<and> set_storage_fee (settle_fees 5 3 4 2 10) \<le> 0"
  using settle_fees_rule [of 5 3 4 2 "settle_fees 5 3 4 2 10" 10] by (simp add: settle_fees_def)

section \<open>Reward\<close>

record receipt =
  transaction_hash :: bytes
  transaction_fee :: int
  storage_fee :: int
  data_fee :: int
  execution_fee :: int
  status :: int
  logs_hash :: bytes
  mint :: int

definition receipt_total_fee :: "receipt \<Rightarrow> int" where
  "receipt_total_fee r = transaction_fee r + data_fee r + storage_fee r"

definition validator_reward :: "receipt list \<Rightarrow> int" where
  "validator_reward receipts =
     max (sum_list (map (\<lambda>r. transaction_fee r + data_fee r) receipts)) 1"

definition fee_income :: "receipt list \<Rightarrow> int" where
  "fee_income receipts = validator_reward receipts + sum_list (map storage_fee receipts)"

section \<open>Statistics\<close>

type_synonym stat = "int \<times> int \<times> int \<times> int \<times> int \<times> int"
type_synonym delta = "int \<times> int \<times> int"

definition bit_count :: "int \<Rightarrow> nat" where
  "bit_count height = (if height > 0 then bit_length height else 0)"

definition window_entry :: "int \<Rightarrow> stat list option \<Rightarrow> delta \<Rightarrow> nat \<Rightarrow> stat" where
  "window_entry height prev d i =
     (case d of (delta_fee, delta_stake, delta_claims) \<Rightarrow>
      let R = 2 ^ i;
          pi = i + 1;
          new_entry = (case prev of None \<Rightarrow> True | Some ps \<Rightarrow> \<not> (ps \<noteq> [] \<and> pi < length ps));
          (prev_fee, prev_stake, curr_fee, curr_stake, prev_claims, curr_claims) =
            (if new_entry then
               (case prev of
                  Some ((fee, stake, claims, _) # _) \<Rightarrow>
                    if height = R then (fee, stake, 0, 0, claims, 0) else (0, 0, 0, 0, 0, 0)
                | _ \<Rightarrow> (0, 0, 0, 0, 0, 0))
             else the prev ! pi)
      in if height mod R = 0 \<and> height > 0 then
           (if new_entry
            then (prev_fee, prev_stake, delta_fee, delta_stake, prev_claims, delta_claims)
            else (curr_fee, curr_stake, delta_fee, delta_stake, curr_claims, delta_claims))
         else (prev_fee, prev_stake, curr_fee + delta_fee, curr_stake + delta_stake, prev_claims,
               curr_claims + delta_claims))"

definition update_statistics :: "int \<Rightarrow> stat list option \<Rightarrow> delta \<Rightarrow> stat list" where
  "update_statistics height prev d =
     (case d of (delta_fee, delta_stake, delta_claims) \<Rightarrow>
      (let (fee, stake, claims) =
             (case prev of Some ((fee, stake, claims, _) # _) \<Rightarrow> (fee, stake, claims) | _ \<Rightarrow> (0, 0, 0))
       in (fee + delta_fee, stake + delta_stake, claims + delta_claims, 0, 0, 0)
          # map (window_entry height prev d) [0..<bit_count height]))"

text \<open>The statistics of a chain whose block at height \<open>h\<close> adds \<open>d h\<close>.\<close>

fun chain_statistics :: "(nat \<Rightarrow> delta) \<Rightarrow> nat \<Rightarrow> stat list" where
  "chain_statistics d 0 = update_statistics 0 None (d 0)"
| "chain_statistics d (Suc h) = update_statistics (int (Suc h)) (Some (chain_statistics d h)) (d (Suc h))"

text \<open>What the windows should hold: the sums of the current window of \<open>2 ^ i\<close> heights and of the one before it.\<close>

definition sums :: "(nat \<Rightarrow> delta) \<Rightarrow> nat \<Rightarrow> nat \<Rightarrow> delta" where
  "sums d a b =
     (\<Sum>h = a..<b. fst (d h), \<Sum>h = a..<b. fst (snd (d h)), \<Sum>h = a..<b. snd (snd (d h)))"

definition window_sums :: "(nat \<Rightarrow> delta) \<Rightarrow> nat \<Rightarrow> nat \<Rightarrow> stat" where
  "window_sums d h i =
     (let start = h div 2 ^ i * 2 ^ i;
          (prev_fee, prev_stake, prev_claims) = sums d (start - 2 ^ i) start;
          (curr_fee, curr_stake, curr_claims) = sums d start (h + 1)
      in (prev_fee, prev_stake, curr_fee, curr_stake, prev_claims, curr_claims))"

lemma bit_count_Suc: "i < bit_count (int h) \<longleftrightarrow> 2 ^ i \<le> h"
proof (cases "h = 0")
  case False
  then have "nat_bit_length h \<noteq> 0" by (simp add: nat_bit_length.simps)
  show ?thesis
  proof
    assume "i < bit_count (int h)"
    then have "i \<le> nat_bit_length h - 1" using False by (simp add: bit_count_def bit_length_def)
    then have "(2::nat) ^ i \<le> 2 ^ (nat_bit_length h - 1)" by (simp add: power_increasing)
    then show "2 ^ i \<le> h" using nat_bit_length_lower [OF False] by linarith
  next
    assume "2 ^ i \<le> h"
    then have "(2::nat) ^ i < 2 ^ nat_bit_length h" using nat_bit_length_upper [of h] by linarith
    then have "i < nat_bit_length h" by (simp add: power_strict_increasing_iff)
    then show "i < bit_count (int h)" using False by (simp add: bit_count_def bit_length_def)
  qed
qed (simp add: bit_count_def)

lemma sums_step: "a \<le> b \<Longrightarrow> sums d a (Suc b) =
    (case (sums d a b, d b) of ((x, y, z), (x', y', z')) \<Rightarrow> (x + x', y + y', z + z'))"
  by (simp add: sums_def split: prod.split)

lemma window_start:
  assumes "0 < (R::nat)"
  shows "Suc h mod R = 0 \<Longrightarrow> Suc h div R * R = Suc h \<and> h div R * R = Suc h - R \<and> R \<le> Suc h"
    and "Suc h mod R \<noteq> 0 \<Longrightarrow> Suc h div R * R = h div R * R"
proof -
  assume a: "Suc h mod R = 0"
  then obtain k where k: "Suc h = R * k" by (metis dvd_def mod_0_imp_dvd)
  then obtain k' where k': "k = Suc k'" by (cases k) auto
  have h: "h = R * k' + (R - 1)" using k k' assms by simp
  have "h div R = k'" using assms by (intro div_nat_eqI) (simp_all add: h)
  then show "Suc h div R * R = Suc h \<and> h div R * R = Suc h - R \<and> R \<le> Suc h"
    using k k' assms by simp
next
  assume "Suc h mod R \<noteq> 0"
  then show "Suc h div R * R = h div R * R" by (simp add: div_Suc)
qed

lemma chain_statistics_shape:
  "length (chain_statistics d h) = bit_count (int h) + 1 \<and>
   chain_statistics d h ! 0 = (case sums d 0 (Suc h) of (x, y, z) \<Rightarrow> (x, y, z, 0, 0, 0))"
proof (induction h)
  case 0
  then show ?case by (simp add: update_statistics_def bit_count_def sums_def split: prod.split)
next
  case (Suc h)
  then obtain e rest where e: "chain_statistics d h = e # rest"
    by (cases "chain_statistics d h") auto
  with Suc sums_step [of 0 "Suc h" d] show ?case
    by (auto simp: update_statistics_def split: prod.splits)
qed

lemma sums_one: "sums d h (Suc h) = d h"
  by (simp add: sums_def)

lemma window_entry_old:
  assumes "prev \<noteq> []" "Suc i < length prev" "prev ! Suc i = window_sums d h i"
  shows "window_entry (int (Suc h)) (Some prev) (d (Suc h)) i = window_sums d (Suc h) i"
proof -
  define R :: nat where "R = 2 ^ i"
  have R: "0 < R" "(2::nat) ^ i = R" "(2::int) ^ i = int R" by (simp_all add: R_def)
  obtain pf ps pc where p: "sums d (h div R * R - R) (h div R * R) = (pf, ps, pc)" by (metis prod.exhaust)
  obtain cf cs cc where c: "sums d (h div R * R) (h + 1) = (cf, cs, cc)" by (metis prod.exhaust)
  obtain df ds dc where d: "d (Suc h) = (df, ds, dc)" by (metis prod.exhaust)
  have prev: "prev ! Suc i = (pf, ps, cf, cs, pc, cc)"
    using assms(3) p c by (simp add: window_sums_def R Let_def)
  have int_mod: "int (Suc h) mod int R = 0 \<longleftrightarrow> Suc h mod R = 0"
    by (metis of_nat_0_eq_iff of_nat_mod)
  show ?thesis
  proof (cases "Suc h mod R = 0")
    case True
    note s = window_start(1) [OF R(1) True]
    have "sums d (Suc h div R * R - R) (Suc h div R * R) = (cf, cs, cc)"
      using s c by simp
    moreover have "sums d (Suc h div R * R) (Suc h + 1) = (df, ds, dc)"
      using s d by (simp add: sums_one)
    ultimately show ?thesis
      using assms(1,2) True int_mod by (simp add: window_entry_def window_sums_def R Let_def d prev del: of_nat_Suc)
  next
    case False
    note s = window_start(2) [OF R(1) False]
    have "sums d (Suc h div R * R - R) (Suc h div R * R) = (pf, ps, pc)" unfolding s by (rule p)
    moreover have "h div R * R \<le> Suc h" by (metis div_times_less_eq_dividend le_SucI)
    then have "sums d (Suc h div R * R) (Suc h + 1) = (cf + df, cs + ds, cc + dc)"
      unfolding s using sums_step [of "h div R * R" "Suc h" d] c d by simp
    ultimately show ?thesis
      using assms(1,2) False int_mod by (simp add: window_entry_def window_sums_def R Let_def d prev del: of_nat_Suc)
  qed
qed

lemma window_entry_new:
  assumes "prev \<noteq> []" "\<not> Suc i < length prev" "2 ^ i = Suc h"
    and "prev ! 0 = (case sums d 0 (Suc h) of (x, y, z) \<Rightarrow> (x, y, z, 0, 0, 0))"
  shows "window_entry (int (Suc h)) (Some prev) (d (Suc h)) i = window_sums d (Suc h) i"
proof -
  obtain pf ps pc where p: "sums d 0 (Suc h) = (pf, ps, pc)" by (metis prod.exhaust)
  obtain df ds dc where d: "d (Suc h) = (df, ds, dc)" by (metis prod.exhaust)
  obtain rest where prev: "prev = (pf, ps, pc, 0, 0, 0) # rest"
    using assms(1,4) p by (cases prev) auto
  have R: "(2::int) ^ i = int (Suc h)" using assms(3) by (metis of_nat_numeral of_nat_power)
  show ?thesis
    using assms(2) by (simp add: window_entry_def window_sums_def Let_def d prev p R assms(3) sums_one del: of_nat_Suc)
qed

lemma chain_window: "i < bit_count (int h) \<Longrightarrow> chain_statistics d h ! Suc i = window_sums d h i"
proof (induction h)
  case 0
  then show ?case by (simp add: bit_count_def)
next
  case (Suc h)
  let ?prev = "chain_statistics d h"
  have prev: "?prev \<noteq> []" "length ?prev = bit_count (int h) + 1"
    "?prev ! 0 = (case sums d 0 (Suc h) of (x, y, z) \<Rightarrow> (x, y, z, 0, 0, 0))"
    using chain_statistics_shape [of d h] by (auto simp del: chain_statistics.simps)
  have "window_entry (int (Suc h)) (Some ?prev) (d (Suc h)) i = window_sums d (Suc h) i"
  proof (cases "i < bit_count (int h)")
    case True
    show ?thesis by (rule window_entry_old) (use prev Suc.IH True in simp_all)
  next
    case False
    then have "2 ^ i = Suc h" using Suc.prems by (simp add: bit_count_Suc del: of_nat_Suc)
    then show ?thesis using window_entry_new prev False by simp
  qed
  then show ?case
    using Suc.prems by (auto simp: update_statistics_def simp del: of_nat_Suc split: prod.split)
qed

text \<open>
  C28: the statistics of a block are exact. On a chain that starts at height 0, entry 0 holds the totals,
  and entry \<open>i + 1\<close> holds the sums of the current window of \<open>2 ^ i\<close> blocks and of the completed window
  before it, for every window that has been completed once; the rotation and the seeding of a new
  window lose nothing and count nothing twice.
\<close>

theorem statistics_are_window_sums:
  "chain_statistics d h =
     (case sums d 0 (Suc h) of (x, y, z) \<Rightarrow> (x, y, z, 0, 0, 0)) # map (window_sums d h) [0..<bit_count (int h)]"
proof (rule nth_equalityI)
  show "length (chain_statistics d h) =
      length ((case sums d 0 (Suc h) of (x, y, z) \<Rightarrow> (x, y, z, 0, 0, 0)) # map (window_sums d h) [0..<bit_count (int h)])"
    using chain_statistics_shape by simp
next
  fix j assume "j < length (chain_statistics d h)"
  then show "chain_statistics d h ! j =
      ((case sums d 0 (Suc h) of (x, y, z) \<Rightarrow> (x, y, z, 0, 0, 0)) # map (window_sums d h) [0..<bit_count (int h)]) ! j"
    using chain_statistics_shape [of d h] chain_window [of "j - 1" h d] by (cases j) auto
qed

end
