(* ===== verification/Block_Rate.thy ===== *)
theory Block_Rate
  imports Floats64 Block_Fees
begin

text \<open>
  The storage rate: \<open>consensus/block/rate.py\<close>, the windowed rates of \<open>block/rate_window.py\<close>.

  A block is what these functions read of it, its height and its statistics; \<open>None\<close> is a previous
  block that is not loaded. \<open>Fraction\<close> is \<open>rat\<close>. The windowed rates use floats (\<open>Floats64\<close>).
\<close>

section \<open>Windows\<close>

text \<open>\<open>int(prev * (1 - alpha) + curr * alpha)\<close> with \<open>alpha = progress / R\<close>.\<close>

definition blend :: "int \<Rightarrow> int \<Rightarrow> int \<Rightarrow> int \<Rightarrow> exc + int" where
  "blend prev_v curr_v progress R =
     (let alpha = f64 (of_int progress / of_int R)
      in bind_exc (float_of (of_int prev_v)) (\<lambda>p. bind_exc (float_of (of_int curr_v)) (\<lambda>c.
         bind_exc (float_of (f64 (p * f64 (1 - alpha)) + f64 (c * alpha))) (\<lambda>x. Inr (trunc x)))))"

record head =
  head_height :: int
  head_statistics :: "stat list"

definition cumulative_total_fee :: "head \<Rightarrow> int" where
  "cumulative_total_fee b = (case head_statistics b of [] \<Rightarrow> 0 | (fee, _) # _ \<Rightarrow> fee)"

definition cumulative_stake :: "head \<Rightarrow> int" where
  "cumulative_stake b = (case head_statistics b of [] \<Rightarrow> 0 | (_, stake, _) # _ \<Rightarrow> stake)"

text \<open>\<open>duration <= 0 or (duration & (duration - 1)) != 0\<close>\<close>

definition power_of_two :: "int \<Rightarrow> bool" where
  "power_of_two d \<longleftrightarrow> 0 < d \<and> and d (d - 1) = 0"

definition windowed_rate_fraction :: "head option \<Rightarrow> int \<Rightarrow> exc + (int \<times> int) option" where
  "windowed_rate_fraction previous duration =
     (case previous of
        None \<Rightarrow> Inr None
      | Some b \<Rightarrow>
          (case head_statistics b of
             [] \<Rightarrow> Inr None
           | (fee, stake, _) # _ \<Rightarrow>
               if duration = 0 then Inr (if stake \<le> 0 then None else Some (fee, stake))
               else if \<not> power_of_two duration then Inr None
               else
                 (let idx = bit_length duration in
                  if length (head_statistics b) \<le> idx then Inr None
                  else
                    (case head_statistics b ! idx of
                       (prev_fee, prev_stake, curr_fee, curr_stake, _) \<Rightarrow>
                         if prev_stake \<le> 0 then Inr None
                         else
                           (let progress = head_height b mod duration in
                            bind_exc (blend prev_fee curr_fee progress duration) (\<lambda>fee'.
                            bind_exc (blend prev_stake curr_stake progress duration) (\<lambda>stake'.
                              Inr (if stake' \<le> 0 then None else Some (fee', stake')))))))))"

definition windowed_claims :: "head option \<Rightarrow> int \<Rightarrow> exc + int option" where
  "windowed_claims parent duration =
     (case parent of
        None \<Rightarrow> Inr None
      | Some b \<Rightarrow>
          if head_statistics b = [] \<or> \<not> power_of_two duration then Inr None
          else
            (let idx = bit_length duration in
             if length (head_statistics b) \<le> idx then Inr None
             else
               (case head_statistics b ! idx of
                  (_, _, _, _, prev_claims, curr_claims) \<Rightarrow>
                    bind_exc (blend prev_claims curr_claims (head_height b mod duration) duration)
                      (\<lambda>c. Inr (Some c)))))"

section \<open>The storage fee\<close>

definition PROVIDERS_PER_RECORD :: int where
  "PROVIDERS_PER_RECORD = 2"

definition calculate_storage_fee :: "head option \<Rightarrow> int \<Rightarrow> exc + int" where
  "calculate_storage_fee previous total_bytes =
     (case previous of
        None \<Rightarrow> Inr 0
      | Some b \<Rightarrow>
          (let numerator = total_bytes * cumulative_stake b; denominator = cumulative_total_fee b in
           if denominator \<le> 0
           then Inl (ValueError ''previous block cumulative total fees must be greater than zero'')
           else Inr ((numerator + denominator - 1) div denominator * PROVIDERS_PER_RECORD)))"

definition estimate_storage_rate :: "head \<Rightarrow> int \<Rightarrow> exc + rat" where
  "estimate_storage_rate b window =
     (if cumulative_total_fee b \<le> 0
      then Inl (ValueError ''head cumulative total fees must be greater than zero'')
      else
        (let rate_now = of_int (cumulative_stake b) / of_int (cumulative_total_fee b) in
         if length (head_statistics b) < 2 then Inr rate_now
         else if window = 0 then Inl (ValueError ''negative shift count'')
         else
           (let k = min (2 ^ (bit_length window - 1)) (2 ^ (length (head_statistics b) - 2)) in
            case head_statistics b ! bit_length k of
              (prev_fee, prev_stake, curr_fee, curr_stake, _) \<Rightarrow>
                (let remaining = k - 1 - head_height b mod k;
                     win_fee = curr_fee + prev_fee * remaining div k;
                     win_stake = curr_stake + prev_stake * remaining div k;
                     then_fee = cumulative_total_fee b - win_fee
                 in if then_fee \<le> 0 then Inr rate_now
                    else
                      (let rate_then = of_int (cumulative_stake b - win_stake) / of_int then_fee
                       in Inr (rate_now + max 0 (rate_now - rate_then)))))))"

definition storage_fee_at_rate :: "rat \<Rightarrow> int \<Rightarrow> int" where
  "storage_fee_at_rate rate walk_size =
     (case quotient_of rate of (num, denom) \<Rightarrow>
        (walk_size * num + denom - 1) div denom * PROVIDERS_PER_RECORD)"

lemma ceiling_div:
  assumes "0 < d"
  shows "(n + d - 1) div d = \<lceil>of_int n / (of_int d :: rat)\<rceil>"
proof -
  define k where "k = (n + d - 1) div d"
  have "(n + d - 1) = d * k + (n + d - 1) mod d" by (simp add: k_def)
  moreover have "0 \<le> (n + d - 1) mod d" "(n + d - 1) mod d < d" using assms by simp_all
  ultimately have b: "n \<le> d * k" "d * (k - 1) < n" by (simp_all add: right_diff_distrib)
  have "\<lceil>of_int n / (of_int d :: rat)\<rceil> = k"
  proof (rule ceiling_unique)
    have "of_int (d * (k - 1)) < (of_int n :: rat)" using b(2) by (simp only: of_int_less_iff)
    then show "of_int k - 1 < of_int n / (of_int d :: rat)" using assms by (simp add: field_simps)
    have "(of_int n :: rat) \<le> of_int (d * k)" using b(1) by (simp only: of_int_le_iff)
    then show "of_int n / (of_int d :: rat) \<le> of_int k" using assms by (simp add: field_simps)
  qed
  then show ?thesis by (simp add: k_def)
qed

lemma storage_fee_at_rate_ceiling: "storage_fee_at_rate r n = \<lceil>of_int n * r\<rceil> * 2"
proof -
  obtain a d where q: "quotient_of r = (a, d)" by (metis prod.exhaust)
  then have d: "0 < d" "r = of_int a / of_int d"
    by (simp_all add: quotient_of_denom_pos quotient_of_div)
  have "(n * a + d - 1) div d = \<lceil>of_int (n * a) / (of_int d :: rat)\<rceil>" by (rule ceiling_div [OF d(1)])
  moreover have "of_int (n * a) / of_int d = of_int n * r" by (simp add: d(2))
  ultimately show ?thesis by (simp add: storage_fee_at_rate_def q PROVIDERS_PER_RECORD_def)
qed

definition demo_head :: head where
  "demo_head = \<lparr>head_height = 2, head_statistics =
     [(30, 60, 3, 0, 0, 0), (10, 15, 10, 30, 1, 1), (10, 15, 20, 45, 1, 2)]\<rparr>"

lemma estimate_cases:
  assumes "estimate_storage_rate b window = Inr rate"
  shows "rate = of_int (cumulative_stake b) / of_int (cumulative_total_fee b)
    \<or> (\<exists>g. rate = of_int (cumulative_stake b) / of_int (cumulative_total_fee b) + max 0 g)"
proof -
  define P where "P r \<longleftrightarrow> r = of_int (cumulative_stake b) / of_int (cumulative_total_fee b)
    \<or> (\<exists>g. r = of_int (cumulative_stake b) / of_int (cumulative_total_fee b) + max 0 g)" for r :: rat
  have P: "P (of_int (cumulative_stake b) / of_int (cumulative_total_fee b))"
    "P (of_int (cumulative_stake b) / of_int (cumulative_total_fee b) + max 0 g)" for g
    by (auto simp: P_def)
  define ok where "ok res \<longleftrightarrow> (\<forall>r. res = Inr r \<longrightarrow> P r)" for res :: "exc + rat"
  have "ok (estimate_storage_rate b window)"
  proof -
    have ok: "ok (Inr x)" if "P x" for x using that by (simp add: ok_def)
    have err: "ok (Inl e)" for e by (simp add: ok_def)
    have if_ok: "ok (if c then x else y)" if "ok x" "ok y" for c x y using that by simp
    have prod: "ok (case p of (a, c, d, e, _) \<Rightarrow> f a c d e)" if "\<And>a c d e. ok (f a c d e)"
      for p :: stat and f using that by (simp split: prod.split)
    show ?thesis
      unfolding estimate_storage_rate_def Let_def by (intro if_ok prod ok err P)
  qed
  with assms show ?thesis by (simp add: ok_def P_def)
qed

text \<open>
  C29: an estimate never falls short of the fee that is charged now. The fee at the estimated rate is at
  least the fee that \<open>calculate_storage_fee\<close> takes from a transaction of this many bytes in a block on
  top of the head, and it is the same fee when the estimate has no growth in it.
\<close>

theorem estimated_fee_covers_now:
  assumes "estimate_storage_rate b window = Inr rate" and "calculate_storage_fee (Some b) n = Inr fee"
    and "0 \<le> n"
  shows "fee \<le> storage_fee_at_rate rate n
    \<and> fee = storage_fee_at_rate (of_int (cumulative_stake b) / of_int (cumulative_total_fee b)) n"
proof -
  let ?now = "of_int (cumulative_stake b) / of_int (cumulative_total_fee b) :: rat"
  have d: "0 < cumulative_total_fee b"
    using assms(2) by (auto simp: calculate_storage_fee_def Let_def split: if_splits)
  have "?now \<le> rate"
    using estimate_cases [OF assms(1)] by auto
  then have "\<lceil>of_int n * ?now\<rceil> \<le> \<lceil>of_int n * rate\<rceil>"
    using assms(3) by (intro ceiling_mono mult_left_mono) simp_all
  moreover have "fee = \<lceil>of_int n * ?now\<rceil> * 2"
    using assms(2) d ceiling_div [OF d, of "n * cumulative_stake b"]
    by (simp add: calculate_storage_fee_def PROVIDERS_PER_RECORD_def Let_def)
  ultimately show ?thesis by (simp add: storage_fee_at_rate_ceiling)
qed

lemma estimated_fee_covers_now_witness:
  "estimate_storage_rate demo_head 2 = Inr (12 / 5) \<and> calculate_storage_fee (Some demo_head) 3 = Inr 12
   \<and> 12 \<le> storage_fee_at_rate (12 / 5) 3"
proof -
  have a: "estimate_storage_rate demo_head 2 = Inr (12 / 5)" by code_simp
  have b: "calculate_storage_fee (Some demo_head) 3 = Inr 12" by code_simp
  from estimated_fee_covers_now [OF a b] a b show ?thesis by simp
qed

end
