(* ===== verification/Bloom.thy ===== *)
theory Bloom
  imports Radix_Bits Expr_Lists
begin

text \<open>
  Tiered bloom filters: \<open>src/astreum/crypto/bloom_filter/\<close>, and the search elements of a transaction,
  \<open>crypto/bloom_search/variants.py\<close>.

  Tier \<open>i\<close> has room for \<open>2 ^ i\<close> elements, and an element goes into the tier that is not full. The
  digest, blake3 with an output of \<open>SLICE * K\<close> bytes, is an argument \<open>D\<close>. A tier without bytes, which
  only a decoded filter can have, raises \<open>ZeroDivisionError\<close>.
\<close>

unbundle bit_operations_syntax

section \<open>The code\<close>

definition BITS_PER_ELEMENT :: nat where "BITS_PER_ELEMENT = 16"
definition K :: nat where "K = 11"
definition SLICE :: nat where "SLICE = 8"

record bloom_filter =
  bf_count :: int
  bf_tiers :: "bytes list"
  bf_start_hash :: "bytes option"

definition new_bloom_filter :: bloom_filter where
  "new_bloom_filter = \<lparr>bf_count = 0, bf_tiers = [], bf_start_hash = None\<rparr>"

definition bloom_positions :: "bytes \<Rightarrow> nat \<Rightarrow> exc + nat list" where
  "bloom_positions digest bits =
     (if bits = 0 then Inl ZeroDivisionError
      else Inr (map (\<lambda>i. nat (be_uint (take SLICE (drop (SLICE * i) digest)) mod int bits)) [0..<K]))"

function tier_loop :: "int \<Rightarrow> int \<Rightarrow> nat \<Rightarrow> nat" where
  "tier_loop cnt cum tier_idx =
     (if cum + 2 ^ tier_idx \<le> cnt then tier_loop cnt (cum + 2 ^ tier_idx) (tier_idx + 1) else tier_idx)"
  by pat_completeness auto
termination
  by (relation "measure (\<lambda>(cnt, cum, i). nat (cnt - cum))") (auto simp: nat_less_iff zless_nat_eq_int_zless)

declare tier_loop.simps [simp del]

definition new_tier :: "nat \<Rightarrow> bytes" where
  "new_tier idx = replicate ((2 ^ idx * BITS_PER_ELEMENT + 7) div 8) 0"

fun add_tiers :: "bytes list \<Rightarrow> nat \<Rightarrow> bytes list" where
  "add_tiers tiers 0 = tiers"
| "add_tiers tiers (Suc n) = add_tiers (tiers @ [new_tier (length tiers)]) n"

definition ensure_tier :: "bloom_filter \<Rightarrow> nat \<times> bloom_filter" where
  "ensure_tier bf =
     (let idx = tier_loop (bf_count bf) 0 0
      in (idx, bf\<lparr>bf_tiers := add_tiers (bf_tiers bf) (idx + 1 - length (bf_tiers bf))\<rparr>))"

definition set_bit_at :: "bytes \<Rightarrow> nat \<Rightarrow> bytes" where
  "set_bit_at tier pos = tier[pos div 8 := tier ! (pos div 8) OR push_bit (pos mod 8) 1]"

definition bloom_insert :: "(bytes \<Rightarrow> bytes) \<Rightarrow> bloom_filter \<Rightarrow> bytes \<Rightarrow> exc + bloom_filter" where
  "bloom_insert D bf element =
     (case ensure_tier bf of (idx, bf') \<Rightarrow>
      (let tier = bf_tiers bf' ! idx in
       bind_exc (bloom_positions (D element) (length tier * 8)) (\<lambda>ps.
         Inr (bf'\<lparr>bf_tiers := (bf_tiers bf')[idx := fold (\<lambda>p t. set_bit_at t p) ps tier],
                  bf_count := bf_count bf' + 1\<rparr>))))"

definition bit_at :: "bytes \<Rightarrow> nat \<Rightarrow> bool" where
  "bit_at tier pos \<longleftrightarrow> bit (tier ! (pos div 8)) (pos mod 8)"

fun test_tiers :: "bytes \<Rightarrow> bytes list \<Rightarrow> exc + bool" where
  "test_tiers digest [] = Inr False"
| "test_tiers digest (tier # tiers) =
     bind_exc (bloom_positions digest (length tier * 8)) (\<lambda>ps.
       if list_all (bit_at tier) ps then Inr True else test_tiers digest tiers)"

definition bloom_test :: "(bytes \<Rightarrow> bytes) \<Rightarrow> bloom_filter \<Rightarrow> bytes \<Rightarrow> exc + bool" where
  "bloom_test D bf element = test_tiers (D element) (bf_tiers bf)"

fun tiers_expr :: "bytes list \<Rightarrow> expr" where
  "tiers_expr [] = NIL"
| "tiers_expr (t # ts) = cons (Bytes t) (tiers_expr ts)"

definition bloom_to_expr :: "bloom_filter \<Rightarrow> expr" where
  "bloom_to_expr bf =
     (let detail = cons (int_expr (bf_count bf)) (tiers_expr (bf_tiers bf)) in
      case bf_start_hash bf of
        None \<Rightarrow> cons NIL detail
      | Some h \<Rightarrow> Link None None (Some detail) (Some h) None)"

text \<open>Reading an attribute of a part that is not loaded raises \<open>AttributeError\<close>.\<close>

definition part_of :: "expr option \<Rightarrow> exc + expr" where
  "part_of x = (case x of None \<Rightarrow> Inl AttributeError | Some e \<Rightarrow> Inr e)"

text \<open>\<open>bytearray(value)\<close>: bytes are copied, a number gives that many zeros, text and \<open>None\<close> raise.\<close>

definition bytearray :: "payload option \<Rightarrow> exc + bytes" where
  "bytearray v =
     (case v of
        Some (PBytes b) \<Rightarrow> Inr b
      | Some (PInt n) \<Rightarrow> if n < 0 then Inl (ValueError ''negative count'') else Inr (replicate (nat n) 0)
      | _ \<Rightarrow> Inl TypeError)"

fun tiers_from :: "(bytes \<Rightarrow> bytes) \<Rightarrow> expr option \<Rightarrow> exc + bytes list" where
  "tiers_from H (Some (Link v h t hh th)) =
     (if get_expr_builtin_tag H (Link v h t hh th) = u ''link'' then
        bind_exc (part_of h) (\<lambda>e. bind_exc (bytearray (value_of e)) (\<lambda>b.
          bind_exc (tiers_from H t) (\<lambda>bs. Inr (b # bs))))
      else Inr [])"
| "tiers_from H (Some (Bytes b)) = Inr [b]"
| "tiers_from H (Some _) = Inr []"
| "tiers_from H None = Inl AttributeError"

text \<open>The code keeps a count that is not a number; the model raises where the first insert would.\<close>

definition bloom_from_expr :: "(bytes \<Rightarrow> bytes) \<Rightarrow> expr \<Rightarrow> exc + bloom_filter" where
  "bloom_from_expr H e =
     (let start_hash =
            (case head_of e of
               None \<Rightarrow> None
             | Some h \<Rightarrow> if h = NIL then None else head_hash_of e)
      in bind_exc (part_of (tail_of e)) (\<lambda>d. bind_exc (part_of (head_of d)) (\<lambda>c.
         bind_exc (case value_of c of Some (PInt n) \<Rightarrow> Inr n | _ \<Rightarrow> Inl TypeError) (\<lambda>cnt.
         bind_exc (tiers_from H (tail_of d)) (\<lambda>tiers.
           Inr \<lparr>bf_count = cnt, bf_tiers = tiers, bf_start_hash = start_hash\<rparr>)))))"


section \<open>Tiers\<close>

text \<open>A filter that inserts have made: every tier has bytes.\<close>

definition tiers_ok :: "bytes list \<Rightarrow> bool" where
  "tiers_ok tiers \<longleftrightarrow> (\<forall>t\<in>set tiers. t \<noteq> [])"

lemma new_tier_nonempty [simp]: "new_tier i \<noteq> []"
proof -
  have "(1::nat) \<le> 2 ^ i" by simp
  then have "16 \<le> (2::nat) ^ i * 16 + 7" by linarith
  then have "0 < ((2::nat) ^ i * 16 + 7) div 8" by linarith
  then show ?thesis by (simp add: new_tier_def BITS_PER_ELEMENT_def)
qed

definition tier_size :: "nat \<Rightarrow> nat" where
  "tier_size i = 2 * 2 ^ i"

lemma length_new_tier [simp]: "length (new_tier i) = tier_size i"
proof -
  have "((2::nat) ^ i * 16 + 7) div 8 = 2 * 2 ^ i" by (rule div_nat_eqI) simp_all
  then show ?thesis by (simp add: new_tier_def BITS_PER_ELEMENT_def tier_size_def)
qed

lemma add_tiers_eq:
  "\<exists>new. add_tiers tiers n = tiers @ new \<and> length new = n \<and> tiers_ok new
     \<and> map length new = map tier_size [length tiers..<length tiers + n]"
proof (induction n arbitrary: tiers)
  case 0
  then show ?case by (simp add: tiers_ok_def)
next
  case (Suc n)
  from Suc [of "tiers @ [new_tier (length tiers)]"] show ?case
    by (auto simp: tiers_ok_def upt_conv_Cons [of "length tiers"] simp del: upt_Suc)
qed

text \<open>The set bits only grow.\<close>

definition covers :: "bytes \<Rightarrow> bytes \<Rightarrow> bool" where
  "covers s t \<longleftrightarrow> length t = length s \<and> (\<forall>p < 8 * length s. bit_at s p \<longrightarrow> bit_at t p)"

lemma covers_refl [simp]: "covers t t"
  by (simp add: covers_def)

lemma covers_trans: "covers r s \<Longrightarrow> covers s t \<Longrightarrow> covers r t"
  by (simp add: covers_def)

lemma set_bit_at:
  assumes "p < 8 * length t"
  shows "bit_at (set_bit_at t p) p" and "covers t (set_bit_at t p)"
proof -
  have i: "p div 8 < length t" using assms by linarith
  have "p mod 8 < 8" by simp
  then have "bit (push_bit (p mod 8) (1::8 word)) (p mod 8)" by (simp add: bit_push_bit_iff del: push_bit_of_1)
  then show "bit_at (set_bit_at t p) p"
    using i by (simp add: bit_at_def set_bit_at_def bit_or_iff del: push_bit_of_1)
  show "covers t (set_bit_at t p)"
    using i by (auto simp: covers_def bit_at_def set_bit_at_def bit_or_iff nth_list_update)
qed

lemma set_bits:
  "\<forall>p\<in>set ps. p < 8 * length t \<Longrightarrow>
     covers t (fold (\<lambda>p t. set_bit_at t p) ps t)
     \<and> (\<forall>p\<in>set ps. bit_at (fold (\<lambda>p t. set_bit_at t p) ps t) p)"
proof (induction ps arbitrary: t)
  case (Cons p ps)
  let ?t = "set_bit_at t p"
  have p: "bit_at ?t p" "covers t ?t" using set_bit_at Cons.prems by simp_all
  then have l: "length ?t = length t" by (simp add: covers_def)
  have ih: "covers ?t (fold (\<lambda>p t. set_bit_at t p) ps ?t)
      \<and> (\<forall>q\<in>set ps. bit_at (fold (\<lambda>p t. set_bit_at t p) ps ?t) q)"
    using Cons l by simp
  moreover have "bit_at (fold (\<lambda>p t. set_bit_at t p) ps ?t) p"
    using ih p(1) Cons.prems l by (simp add: covers_def)
  ultimately show ?case using covers_trans [OF p(2)] by simp
qed simp

lemma bloom_positions_ok:
  assumes "t \<noteq> []"
  obtains ps where "bloom_positions d (length t * 8) = Inr ps" "\<forall>p\<in>set ps. p < 8 * length t"
proof -
  have "nat (be_uint b mod int (length t * 8)) < 8 * length t" for b
    using assms by (simp add: nat_less_iff mult.commute)
  then show ?thesis using assms that by (auto simp: bloom_positions_def)
qed

text \<open>What a filter holds: an element has all its bits in some tier.\<close>

definition in_tier :: "bytes \<Rightarrow> bytes \<Rightarrow> bool" where
  "in_tier d t \<longleftrightarrow> (\<exists>ps. bloom_positions d (length t * 8) = Inr ps \<and> list_all (bit_at t) ps)"

lemma in_tier_covers: "in_tier d s \<Longrightarrow> covers s t \<Longrightarrow> in_tier d t"
proof -
  assume a: "in_tier d s" "covers s t"
  then obtain ps where ps: "bloom_positions d (length s * 8) = Inr ps" "list_all (bit_at s) ps"
    by (auto simp: in_tier_def)
  have ne: "s \<noteq> []" using ps(1) by (auto simp: bloom_positions_def)
  obtain qs where "bloom_positions d (length s * 8) = Inr qs" "\<forall>p\<in>set qs. p < 8 * length s"
    using bloom_positions_ok [OF ne] by blast
  with ps a(2) show ?thesis by (auto simp: in_tier_def covers_def list_all_iff)
qed

lemma test_tiers_iff:
  "tiers_ok tiers \<Longrightarrow> test_tiers d tiers = Inr (\<exists>t\<in>set tiers. in_tier d t)"
proof (induction tiers)
  case (Cons t ts)
  then have t: "t \<noteq> []" "tiers_ok ts" by (auto simp: tiers_ok_def)
  obtain ps where "bloom_positions d (length t * 8) = Inr ps"
    using bloom_positions_ok [OF t(1)] by blast
  with Cons t show ?case by (auto simp: in_tier_def)
qed simp

definition holds_element :: "(bytes \<Rightarrow> bytes) \<Rightarrow> bloom_filter \<Rightarrow> bytes \<Rightarrow> bool" where
  "holds_element D bf e \<longleftrightarrow> (\<exists>t\<in>set (bf_tiers bf). in_tier (D e) t)"

lemma bloom_test_iff: "tiers_ok (bf_tiers bf) \<Longrightarrow> bloom_test D bf e = Inr (holds_element D bf e)"
  by (simp add: bloom_test_def holds_element_def test_tiers_iff)

lemma bloom_insert_effect:
  assumes "tiers_ok (bf_tiers bf)"
  obtains bf' where "bloom_insert D bf e = Inr bf'" "tiers_ok (bf_tiers bf')"
    "bf_count bf' = bf_count bf + 1" "bf_start_hash bf' = bf_start_hash bf"
    "holds_element D bf' e" "\<And>x. holds_element D bf x \<Longrightarrow> holds_element D bf' x"
    "map length (bf_tiers bf') = map length (bf_tiers bf)
       @ map tier_size [length (bf_tiers bf)..<tier_loop (bf_count bf) 0 0 + 1]"
proof -
  define i where "i = tier_loop (bf_count bf) 0 0"
  define n where "n = i + 1 - length (bf_tiers bf)"
  obtain new where new: "add_tiers (bf_tiers bf) n = bf_tiers bf @ new" "length new = n" "tiers_ok new"
    "map length new = map tier_size [length (bf_tiers bf)..<length (bf_tiers bf) + n]"
    using add_tiers_eq by blast
  define ts where "ts = bf_tiers bf @ new"
  have ens: "ensure_tier bf = (i, bf\<lparr>bf_tiers := ts\<rparr>)"
    by (simp add: ensure_tier_def Let_def i_def [symmetric] n_def [simplified, symmetric] new(1) ts_def)
  have len: "i < length ts" "length ts = max (length (bf_tiers bf)) (i + 1)"
    using new(2) by (simp_all add: ts_def n_def)
  have ok: "tiers_ok ts" using assms new(3) by (auto simp: ts_def tiers_ok_def)
  then have ne: "ts ! i \<noteq> []" using len by (simp add: tiers_ok_def)
  obtain ps where ps: "bloom_positions (D e) (length (ts ! i) * 8) = Inr ps" "\<forall>p\<in>set ps. p < 8 * length (ts ! i)"
    using bloom_positions_ok [OF ne] by blast
  define t where "t = fold (\<lambda>p t. set_bit_at t p) ps (ts ! i)"
  have t: "covers (ts ! i) t" "\<forall>p\<in>set ps. bit_at t p" using set_bits [OF ps(2)] by (simp_all add: t_def)
  define bf' where "bf' = bf\<lparr>bf_tiers := ts[i := t], bf_count := bf_count bf + 1\<rparr>"
  show ?thesis
  proof (rule that [of bf'])
    show "bloom_insert D bf e = Inr bf'"
      by (simp add: bloom_insert_def ens Let_def ps(1) t_def bf'_def)
    have "t \<noteq> []" using t(1) ne by (auto simp: covers_def)
    then show "tiers_ok (bf_tiers bf')"
      using ok by (auto simp: bf'_def tiers_ok_def dest: set_update_subset_insert [THEN subsetD])
    have "in_tier (D e) t" using ps(1) t by (auto simp: in_tier_def covers_def list_all_iff)
    moreover have "t \<in> set (ts[i := t])" using len(1) by (simp add: set_update_memI)
    ultimately show "holds_element D bf' e" by (auto simp: bf'_def holds_element_def)
    fix x assume "holds_element D bf x"
    then obtain s where s: "s \<in> set (bf_tiers bf)" "in_tier (D x) s" by (auto simp: holds_element_def)
    then obtain j where j: "j < length (bf_tiers bf)" "s = bf_tiers bf ! j" by (metis in_set_conv_nth)
    have "in_tier (D x) (ts[i := t] ! j) \<and> j < length (ts[i := t])"
    proof (cases "j = i")
      case True
      then have "ts ! i = s" using j by (simp add: ts_def nth_append)
      with True len t(1) s(2) show ?thesis by (simp add: in_tier_covers)
    next
      case False
      with j s(2) show ?thesis by (simp add: ts_def nth_append)
    qed
    then show "holds_element D bf' x" by (auto simp: bf'_def holds_element_def intro: nth_mem)
  next
    have "map length (ts[i := t]) = map length ts"
      using t(1) len(1) by (simp add: map_update covers_def list_update_same_conv)
    moreover have "[length (bf_tiers bf)..<length (bf_tiers bf) + n] = [length (bf_tiers bf)..<i + 1]"
      by (cases "length (bf_tiers bf) \<le> i") (simp_all add: n_def)
    ultimately show "map length (bf_tiers bf') = map length (bf_tiers bf)
       @ map tier_size [length (bf_tiers bf)..<tier_loop (bf_count bf) 0 0 + 1]"
      by (simp add: bf'_def ts_def new(4) i_def)
  qed (simp_all add: bf'_def)
qed



section \<open>No false negatives, and the size\<close>

fun insert_all :: "(bytes \<Rightarrow> bytes) \<Rightarrow> bytes list \<Rightarrow> bloom_filter \<Rightarrow> exc + bloom_filter" where
  "insert_all D [] bf = Inr bf"
| "insert_all D (e # es) bf = bind_exc (bloom_insert D bf e) (insert_all D es)"

lemma tier_loop_bounds:
  "cum = 2 ^ i - 1 \<Longrightarrow> cum \<le> cnt \<Longrightarrow>
     2 ^ tier_loop cnt cum i \<le> cnt + 1 \<and> cnt + 1 < 2 ^ (tier_loop cnt cum i + 1)"
proof (induction cnt cum i rule: tier_loop.induct)
  case (1 cnt cum i)
  show ?case
  proof (cases "cum + 2 ^ i \<le> cnt")
    case True
    then show ?thesis
      using 1(1) [OF True] 1(2,3) by (subst (1 2) tier_loop.simps) simp
  next
    case False
    then show ?thesis using 1(2,3) by (subst (1 2) tier_loop.simps) simp
  qed
qed

text \<open>The tiers of a filter that has taken \<open>bf_count\<close> elements: as many as the count has bits.\<close>

definition well_sized :: "bloom_filter \<Rightarrow> bool" where
  "well_sized bf \<longleftrightarrow>
     tiers_ok (bf_tiers bf) \<and> 0 \<le> bf_count bf
     \<and> map length (bf_tiers bf) = map tier_size [0..<length (bf_tiers bf)]
     \<and> bf_count bf < 2 ^ length (bf_tiers bf)
     \<and> (bf_tiers bf \<noteq> [] \<longrightarrow> 2 ^ (length (bf_tiers bf) - 1) \<le> bf_count bf)"

lemma well_sized_new: "well_sized new_bloom_filter"
  by (simp add: well_sized_def new_bloom_filter_def tiers_ok_def)

lemma insert_well_sized:
  assumes "well_sized bf"
  obtains bf' where "bloom_insert D bf e = Inr bf'" "well_sized bf'"
    "bf_count bf' = bf_count bf + 1" "bf_start_hash bf' = bf_start_hash bf"
    "holds_element D bf' e" "\<And>x. holds_element D bf x \<Longrightarrow> holds_element D bf' x"
proof -
  define t where "t = tier_loop (bf_count bf) 0 0"
  define n where "n = length (bf_tiers bf)"
  have w: "tiers_ok (bf_tiers bf)" "0 \<le> bf_count bf" "map length (bf_tiers bf) = map tier_size [0..<n]"
    "bf_count bf < 2 ^ n" "0 < n \<longrightarrow> 2 ^ (n - 1) \<le> bf_count bf"
    using assms by (simp_all add: well_sized_def n_def)
  have t: "2 ^ t \<le> bf_count bf + 1" "bf_count bf + 1 < 2 ^ (t + 1)"
    using tier_loop_bounds [of 0 0 "bf_count bf"] w(2) by (simp_all add: t_def)
  have "n \<le> t + 1"
  proof (cases n)
    case (Suc m)
    then have "(2::int) ^ m < 2 ^ (t + 1)" using w(5) t(2) by simp
    then have "m < t + 1" using power_strict_increasing_iff by (metis one_less_numeral_iff semiring_norm(76))
    with Suc show ?thesis by simp
  qed simp
  obtain bf' where b: "bloom_insert D bf e = Inr bf'" "tiers_ok (bf_tiers bf')"
    "bf_count bf' = bf_count bf + 1" "bf_start_hash bf' = bf_start_hash bf"
    "holds_element D bf' e" "\<And>x. holds_element D bf x \<Longrightarrow> holds_element D bf' x"
    "map length (bf_tiers bf') = map length (bf_tiers bf) @ map tier_size [n..<t + 1]"
    using bloom_insert_effect [OF w(1), of D e] by (auto simp: t_def n_def)
  have m: "map length (bf_tiers bf') = map tier_size [0..<t + 1]"
    using b(7) w(3) upt_add_eq_append [of 0 n "t + 1 - n"] \<open>n \<le> t + 1\<close> by simp
  then have l: "length (bf_tiers bf') = t + 1" using map_eq_imp_length_eq by fastforce
  have "well_sized bf'"
    using b(2,3) w(2) m l t by (auto simp: well_sized_def simp del: upt_Suc)
  with b show ?thesis using that by blast
qed

lemma insert_all_holds:
  "well_sized bf \<Longrightarrow>
     \<exists>bf'. insert_all D es bf = Inr bf' \<and> well_sized bf' \<and> bf_count bf' = bf_count bf + int (length es)
       \<and> (\<forall>e. e \<in> set es \<or> holds_element D bf e \<longrightarrow> holds_element D bf' e)"
proof (induction es arbitrary: bf)
  case (Cons e es)
  obtain bf1 where b: "bloom_insert D bf e = Inr bf1" "well_sized bf1" "bf_count bf1 = bf_count bf + 1"
    "holds_element D bf1 e" "\<And>x. holds_element D bf x \<Longrightarrow> holds_element D bf1 x"
    using insert_well_sized [OF Cons.prems, of D e] by metis
  from Cons.IH [OF b(2)] b show ?case by fastforce
qed simp

lemma insert_all_effect:
  "tiers_ok (bf_tiers bf) \<Longrightarrow>
     \<exists>bf'. insert_all D es bf = Inr bf' \<and> tiers_ok (bf_tiers bf')
       \<and> (\<forall>e. e \<in> set es \<or> holds_element D bf e \<longrightarrow> holds_element D bf' e)"
proof (induction es arbitrary: bf)
  case (Cons e es)
  obtain bf1 where b: "bloom_insert D bf e = Inr bf1" "tiers_ok (bf_tiers bf1)"
    "holds_element D bf1 e" "\<And>x. holds_element D bf x \<Longrightarrow> holds_element D bf1 x"
    using bloom_insert_effect [OF Cons.prems, of D e] by metis
  from Cons.IH [OF b(2)] b show ?case by fastforce
qed simp

lemma sum_tier_size: "sum_list (map tier_size [0..<n]) = 2 * 2 ^ n - 2"
proof (induction n)
  case (Suc n)
  have "(1::nat) \<le> 2 ^ n" by simp
  with Suc show ?case by (simp add: tier_size_def)
qed simp

lemma well_sized_bytes: "well_sized bf \<Longrightarrow> int (sum_list (map length (bf_tiers bf))) \<le> 4 * bf_count bf"
proof (cases "length (bf_tiers bf)")
  case (Suc m)
  assume "well_sized bf"
  then have "map length (bf_tiers bf) = map tier_size [0..<Suc m]" "2 ^ m \<le> bf_count bf"
    using Suc by (auto simp: well_sized_def simp del: upt_Suc)
  then show ?thesis by (simp add: sum_tier_size del: upt_Suc)
qed (simp add: well_sized_def)

text \<open>C33: whatever elements are inserted into a new filter, and in whatever order, the inserts succeed,
  each of the elements is found by the test, the count is their number, and the tiers take at most
  four bytes for each insert.\<close>

theorem bloom_holds_inserted:
  "\<exists>bf. insert_all D es new_bloom_filter = Inr bf
     \<and> map (bloom_test D bf) es = map (\<lambda>_. Inr True) es
     \<and> bf_count bf = int (length es)
     \<and> int (sum_list (map length (bf_tiers bf))) \<le> 4 * int (length es)"
proof -
  obtain bf where bf: "insert_all D es new_bloom_filter = Inr bf" "well_sized bf"
    "bf_count bf = int (length es)" "\<forall>e\<in>set es. holds_element D bf e"
    using insert_all_holds [OF well_sized_new, of D es] by (auto simp: new_bloom_filter_def)
  moreover have "bloom_test D bf e = Inr True" if "e \<in> set es" for e
    using bf(2,4) that bloom_test_iff by (auto simp: well_sized_def)
  ultimately show ?thesis using well_sized_bytes [OF bf(2)] by auto
qed


section \<open>The cell of a filter\<close>

lemma tiers_from_expr: "tiers_from H (Some (tiers_expr ts)) = Inr ts"
proof (induction ts)
  case (Cons t ts)
  have "get_expr_builtin_tag H (cons (Bytes t) (tiers_expr ts)) = u ''link''"
    by (cases ts) (simp_all add: get_expr_builtin_tag_def link_def)
  with Cons show ?case by (simp add: part_of_def bytearray_def link_def)
qed simp

text \<open>A filter is read back from its cell with its count and its tiers, but without its start hash:
  the cell keeps the hash as a head that is not loaded, and the reader takes such a head for no hash.\<close>

theorem bloom_read_back:
  "bloom_from_expr H (bloom_to_expr bf) = Inr (bf\<lparr>bf_start_hash := None\<rparr>)"
  by (cases "bf_start_hash bf")
    (simp_all add: bloom_from_expr_def bloom_to_expr_def tiers_from_expr int_expr_def part_of_def link_def)

end
