(* ===== verification/Bloom_Tree.thy ===== *)
theory Bloom_Tree
  imports Bloom
begin

text \<open>
  The bloom tree of an era of 1024 blocks, \<open>src/astreum/crypto/bloom_tree/\<close>, and the search over it.

  A node is at a level from 0, the root, to 10, a leaf; a node of the tree in memory has one parent, so
  the tree is a datatype. A child that is not loaded is known by its hash and block. The nodes that the
  tree has written (\<open>_touched\<close>, keyed by identity) are named by their place, the level and the first
  offset. \<open>F\<close> is \<open>read_bloom_node\<close> with its node and contact, and \<open>None\<close> where the code passes no node.
  Recursion over levels has fuel; a tree with levels up to 10 needs 11.
\<close>

section \<open>Nodes\<close>

record bloom_meta =
  bm_level :: nat
  bm_start_hash :: "bytes option"
  bm_filter :: bloom_filter
  bm_left_hash :: "bytes option"
  bm_right_hash :: "bytes option"
  bm_left_block :: "bytes option"
  bm_right_block :: "bytes option"
  bm_stored :: "(bytes \<times> bytes option) option"
  bm_expr :: "expr option"

datatype bloom_node = BNode (bn_meta: bloom_meta) (bn_left: "bloom_node option") (bn_right: "bloom_node option")

definition new_bloom_node :: "nat \<Rightarrow> bytes option \<Rightarrow> bloom_node" where
  "new_bloom_node level start_hash =
     BNode \<lparr>bm_level = level, bm_start_hash = start_hash,
            bm_filter = (case start_hash of
                           None \<Rightarrow> new_bloom_filter
                         | Some h \<Rightarrow> new_bloom_filter\<lparr>bf_start_hash := Some h\<rparr>),
            bm_left_hash = None, bm_right_hash = None, bm_left_block = None, bm_right_block = None,
            bm_stored = None, bm_expr = None\<rparr> None None"

definition is_leaf :: "bloom_meta \<Rightarrow> bool" where
  "is_leaf m \<longleftrightarrow> bm_level m = 10"

definition bloom_ref :: "bytes option \<Rightarrow> expr" where
  "bloom_ref v = (case v of None \<Rightarrow> NIL | Some h \<Rightarrow> hash_ref h)"

definition child_item ::
  "(bytes \<Rightarrow> bytes) \<Rightarrow> (expr \<times> (bytes \<times> bytes option) option) option \<Rightarrow> bytes option \<Rightarrow> bytes option \<Rightarrow> expr"
where
  "child_item H child h block =
     (case child of
        Some (e, stored) \<Rightarrow>
          pointer_item (expr_hash H e)
            (case stored of Some (x, b) \<Rightarrow> if x = expr_hash H e then b else None | None \<Rightarrow> None)
      | None \<Rightarrow> (case h of None \<Rightarrow> NIL | Some x \<Rightarrow> pointer_item x block))"

text \<open>
  \<open>node.expr()\<close>: the cached cell, or a new one. The code stores the new one as well, which no later
  read can tell, since every change of a node drops the cached cells of the path to it.
\<close>

fun node_expr :: "(bytes \<Rightarrow> bytes) \<Rightarrow> bloom_node \<Rightarrow> expr" where
  "node_expr H (BNode m l r) =
     (case bm_expr m of
        Some e \<Rightarrow> e
      | None \<Rightarrow>
          cons (bloom_ref (bm_start_hash m))
            (cons (child_item H (map_option (\<lambda>c. (node_expr H c, bm_stored (bn_meta c))) l)
                     (bm_left_hash m) (bm_left_block m))
              (cons (child_item H (map_option (\<lambda>c. (node_expr H c, bm_stored (bn_meta c))) r)
                       (bm_right_hash m) (bm_right_block m))
                (cons (bloom_to_expr (bm_filter m)) NIL))))"

section \<open>Reading a node\<close>

definition loaded_part ::
  "(bytes \<Rightarrow> bytes) \<Rightarrow> (bytes \<Rightarrow> expr option) option \<Rightarrow> side \<Rightarrow> expr option \<Rightarrow> exc + expr option"
where
  "loaded_part H fetch s cell =
     (case cell of
        None \<Rightarrow> Inr None
      | Some c \<Rightarrow>
          bind_exc (cell_reader fetch False c s) (\<lambda>p.
            Inr (if is_nil H p None then None else p)))"

definition filter_count ::
  "(bytes \<Rightarrow> bytes) \<Rightarrow> (bytes \<Rightarrow> expr option) option \<Rightarrow> expr \<Rightarrow> exc + int" where
  "filter_count H fetch cell =
     (case value_of cell of
        Some (PInt n) \<Rightarrow> Inr n
      | Some _ \<Rightarrow> Inl TypeError
      | None \<Rightarrow>
          bind_exc (cell_reader fetch False cell Head) (\<lambda>h.
            case h of
              Some (Bytes b) \<Rightarrow> Inr (decode_int b)
            | _ \<Rightarrow> Inl (ValueError ''bloom filter count is not an int'')))"

fun read_tiers ::
  "nat \<Rightarrow> (bytes \<Rightarrow> bytes) \<Rightarrow> (bytes \<Rightarrow> expr option) option \<Rightarrow> expr option \<Rightarrow> exc + bytes list" where
  "read_tiers fuel H fetch None = Inr []"
| "read_tiers 0 H fetch (Some cell) = Inl OutOfFuel"
| "read_tiers (Suc k) H fetch (Some cell) =
     bind_exc (loaded_part H fetch Head (Some cell)) (\<lambda>tier.
     bind_exc (case tier of
                 None \<Rightarrow> Inr []
               | Some e \<Rightarrow> bind_exc (bytearray (value_of e)) (\<lambda>b. Inr [b])) (\<lambda>bs.
     bind_exc (loaded_part H fetch Tail (Some cell)) (\<lambda>next.
     bind_exc (read_tiers k H fetch next) (\<lambda>rest. Inr (bs @ rest)))))"

definition field_at ::
  "(bytes \<Rightarrow> bytes) \<Rightarrow> (bytes \<Rightarrow> expr option) option \<Rightarrow> expr option \<Rightarrow> bytes option
     \<Rightarrow> exc + (bytes \<times> bytes option) option" where
  "field_at H fetch cell block =
     (case cell of None \<Rightarrow> Inr None | Some c \<Rightarrow> read_field H fetch c block)"

definition bloom_node_from_expr ::
  "nat \<Rightarrow> (bytes \<Rightarrow> bytes) \<Rightarrow> (bytes \<Rightarrow> expr option) option \<Rightarrow> bytes option \<Rightarrow> nat option \<Rightarrow> expr
     \<Rightarrow> exc + bloom_node" where
  "bloom_node_from_expr fuel H fetch block level e =
     (let head = loaded_part H fetch Head; tail = loaded_part H fetch Tail in
      bind_exc (tail (Some e)) (\<lambda>c2. bind_exc (tail c2) (\<lambda>c3. bind_exc (tail c3) (\<lambda>c4.
      if c4 = None then Inl (ValueError ''malformed bloom node'') else
      bind_exc (head (Some e)) (\<lambda>block_ref. bind_exc (head c2) (\<lambda>left_ref.
      bind_exc (head c3) (\<lambda>right_ref. bind_exc (head c4) (\<lambda>filter_cell.
      if filter_cell = None then Inl (ValueError ''malformed bloom node: no filter'') else
      bind_exc (field_at H fetch left_ref block) (\<lambda>left.
      bind_exc (field_at H fetch right_ref block) (\<lambda>right.
      bind_exc (tail filter_cell) (\<lambda>detail. bind_exc (head detail) (\<lambda>count_cell.
      case count_cell of
        None \<Rightarrow> Inl (ValueError ''malformed bloom filter'')
      | Some c \<Rightarrow>
      bind_exc (filter_count H fetch c) (\<lambda>cnt.
      bind_exc (tail detail) (\<lambda>t. bind_exc (read_tiers fuel H fetch t) (\<lambda>tiers.
        let start = map_option (get_referenced_hash H) block_ref in
        Inr (BNode
          \<lparr>bm_level = (case level of Some l \<Rightarrow> l | None \<Rightarrow> if left = None \<and> right = None then 10 else 0),
           bm_start_hash = start,
           bm_filter = \<lparr>bf_count = cnt, bf_tiers = tiers, bf_start_hash = start\<rparr>,
           bm_left_hash = map_option fst left, bm_right_hash = map_option fst right,
           bm_left_block = Option.bind left snd, bm_right_block = Option.bind right snd,
           bm_stored = Some (expr_hash H e, block), bm_expr = Some e\<rparr> None None))))))))))))))))"

text \<open>The storage as the block \<open>b\<close> gives it is \<open>get b\<close>.\<close>

definition read_bloom_node ::
  "nat \<Rightarrow> (bytes \<Rightarrow> bytes) \<Rightarrow> (bytes option \<Rightarrow> bytes \<Rightarrow> expr option)
     \<Rightarrow> bytes \<Rightarrow> bytes option \<Rightarrow> nat \<Rightarrow> exc + bloom_node option" where
  "read_bloom_node fuel H get expr_id block level =
     (case get block expr_id of
        None \<Rightarrow> Inr None
      | Some e \<Rightarrow>
          (case bloom_node_from_expr fuel H (Some (get block)) block (Some level) e of
             Inr n \<Rightarrow> Inr (Some n)
           | Inl (ValueError _) \<Rightarrow> Inr None
           | Inl x \<Rightarrow> Inl x))"

section \<open>The tree\<close>

type_synonym bloom_reader = "(bytes \<Rightarrow> bytes option \<Rightarrow> nat \<Rightarrow> exc + bloom_node option) option"
type_synonym place = "nat \<times> int"

record bloom_tree =
  bt_root :: "bloom_node option"
  bt_touched :: "place list"

definition new_bloom_tree :: "bloom_reader \<Rightarrow> bytes option \<Rightarrow> bytes option \<Rightarrow> exc + bloom_tree" where
  "new_bloom_tree F root_hash block_hash =
     (case (root_hash, F) of
        (Some h, Some f) \<Rightarrow>
          if h = [] \<or> h = ZERO32 then Inr \<lparr>bt_root = None, bt_touched = []\<rparr>
          else bind_exc (f h block_hash 0) (\<lambda>r. Inr \<lparr>bt_root = r, bt_touched = []\<rparr>)
      | _ \<Rightarrow> Inr \<lparr>bt_root = None, bt_touched = []\<rparr>)"

definition touch :: "place \<Rightarrow> place list \<Rightarrow> place list" where
  "touch p ps = (if p \<in> set ps then ps else ps @ [p])"

definition resolve_child :: "bloom_reader \<Rightarrow> bloom_meta \<Rightarrow> bool \<Rightarrow> exc + bloom_node" where
  "resolve_child F m left =
     (let level = bm_level m + 1;
          h = (if left then bm_left_hash m else bm_right_hash m);
          b = (if left then bm_left_block m else bm_right_block m) in
      case (h, F) of
        (Some x, Some f) \<Rightarrow>
          if x = [] then Inr (new_bloom_node level None)
          else bind_exc (f x b level) (\<lambda>c.
                 Inr (case c of Some n \<Rightarrow> n | None \<Rightarrow> new_bloom_node level None))
      | _ \<Rightarrow> Inr (new_bloom_node level None))"

fun walk ::
  "(bytes \<Rightarrow> bytes) \<Rightarrow> bloom_reader \<Rightarrow> nat \<Rightarrow> bloom_node \<Rightarrow> int \<Rightarrow> int \<Rightarrow> int \<Rightarrow> bytes list \<Rightarrow> place list
     \<Rightarrow> exc + bloom_node \<times> place list" where
  "walk D F 0 n off lo hi vs ps = Inl OutOfFuel"
| "walk D F (Suc k) (BNode m l r) off lo hi vs ps =
     bind_exc (insert_all D vs (bm_filter m)) (\<lambda>f.
       let m' = m\<lparr>bm_expr := None, bm_filter := f\<rparr>; ps' = touch (bm_level m, lo) ps in
       if is_leaf m then Inr (BNode m' l r, ps')
       else
         let mid = (lo + hi) div 2 in
         if off < mid then
           bind_exc (case l of Some c \<Rightarrow> Inr c | None \<Rightarrow> resolve_child F m' True) (\<lambda>c.
           bind_exc (walk D F k c off lo mid vs ps') (\<lambda>(c', qs). Inr (BNode m' (Some c') r, qs)))
         else
           bind_exc (case r of Some c \<Rightarrow> Inr c | None \<Rightarrow> resolve_child F m' False) (\<lambda>c.
           bind_exc (walk D F k c off mid hi vs ps') (\<lambda>(c', qs). Inr (BNode m' l (Some c'), qs))))"

definition tree_insert ::
  "(bytes \<Rightarrow> bytes) \<Rightarrow> bloom_reader \<Rightarrow> bloom_tree \<Rightarrow> int \<Rightarrow> bytes list \<Rightarrow> exc + bloom_tree" where
  "tree_insert D F t off vs =
     (let root = (case bt_root t of Some n \<Rightarrow> n | None \<Rightarrow> new_bloom_node 0 None) in
      bind_exc (walk D F 11 root off 0 1024 vs (bt_touched t)) (\<lambda>(n, ps).
        Inr \<lparr>bt_root = Some n, bt_touched = ps\<rparr>))"

text \<open>\<open>_set_leaf\<close>: a child that is not loaded is resolved only with a node and a hash.\<close>

definition known_child :: "bloom_reader \<Rightarrow> bloom_meta \<Rightarrow> bool \<Rightarrow> bloom_node option \<Rightarrow> exc + bloom_node option" where
  "known_child F m left child =
     (case child of
        Some c \<Rightarrow> Inr (Some c)
      | None \<Rightarrow>
          (case (F, if left then bm_left_hash m else bm_right_hash m) of
             (Some f, Some h) \<Rightarrow>
               if h = [] then Inr None else bind_exc (resolve_child F m left) (\<lambda>c. Inr (Some c))
           | _ \<Rightarrow> Inr None))"

fun set_leaf ::
  "bloom_reader \<Rightarrow> nat \<Rightarrow> bloom_node \<Rightarrow> int \<Rightarrow> int \<Rightarrow> int \<Rightarrow> bytes \<Rightarrow> place list
     \<Rightarrow> exc + bool \<times> bloom_node \<times> place list" where
  "set_leaf F 0 n off lo hi h ps = Inl OutOfFuel"
| "set_leaf F (Suc k) (BNode m l r) off lo hi h ps =
     (if is_leaf m then
        Inr (True, BNode (m\<lparr>bm_expr := None, bm_start_hash := Some h,
                            bm_filter := (bm_filter m)\<lparr>bf_start_hash := Some h\<rparr>\<rparr>) l r,
             touch (bm_level m, lo) ps)
      else
        let mid = (lo + hi) div 2; left = off < mid in
        bind_exc (known_child F m left (if left then l else r)) (\<lambda>child.
          let put = (\<lambda>m c. if left then BNode m c r else BNode m l c) in
          case child of
            None \<Rightarrow> Inr (False, BNode m l r, ps)
          | Some c \<Rightarrow>
              bind_exc (set_leaf F k c off (if left then lo else mid) (if left then mid else hi) h ps)
                (\<lambda>(ok, c', qs).
                  if \<not> ok then Inr (False, put m (Some c'), qs)
                  else Inr (True, put (m\<lparr>bm_expr := None\<rparr>) (Some c'), touch (bm_level m, lo) qs))))"

definition set_leaf_start_hash ::
  "bloom_reader \<Rightarrow> bloom_tree \<Rightarrow> int \<Rightarrow> bytes \<Rightarrow> exc + bloom_tree" where
  "set_leaf_start_hash F t off h =
     (case bt_root t of
        None \<Rightarrow> Inr t
      | Some n \<Rightarrow>
          bind_exc (set_leaf F 11 n off 0 1024 h (bt_touched t)) (\<lambda>(_, n', ps).
            Inr \<lparr>bt_root = Some n', bt_touched = ps\<rparr>))"

definition rewrite_root :: "bloom_tree \<Rightarrow> bloom_tree" where
  "rewrite_root t =
     (case bt_root t of
        None \<Rightarrow> t
      | Some (BNode m l r) \<Rightarrow>
          \<lparr>bt_root = Some (BNode (m\<lparr>bm_expr := None, bm_stored := None\<rparr>) l r),
           bt_touched = touch (bm_level m, 0) (bt_touched t)\<rparr>)"

fun node_at :: "nat \<Rightarrow> int \<Rightarrow> int \<Rightarrow> place \<Rightarrow> bloom_node \<Rightarrow> bloom_node option" where
  "node_at 0 lo hi p n = (if (bm_level (bn_meta n), lo) = p then Some n else None)"
| "node_at (Suc k) lo hi p (BNode m l r) =
     (if (bm_level m, lo) = p then Some (BNode m l r)
      else let mid = (lo + hi) div 2 in
           if snd p < mid then Option.bind l (node_at k lo mid p) else Option.bind r (node_at k mid hi p))"

definition new_exprs :: "(bytes \<Rightarrow> bytes) \<Rightarrow> bloom_tree \<Rightarrow> expr list" where
  "new_exprs H t =
     (case bt_root t of
        None \<Rightarrow> []
      | Some n \<Rightarrow> map (node_expr H) (List.map_filter (\<lambda>p. node_at 10 0 1024 p n) (bt_touched t)))"

section \<open>Search\<close>

fun bloom_search :: "(bytes \<Rightarrow> bytes) \<Rightarrow> bytes \<Rightarrow> bloom_node \<Rightarrow> exc + bytes list" where
  "bloom_search D e (BNode m l r) =
     bind_exc (bloom_test D (bm_filter m) e) (\<lambda>hit.
       if \<not> hit then Inr []
       else if is_leaf m then
         Inr (case bm_start_hash m of Some h \<Rightarrow> if h = [] then [] else [h] | None \<Rightarrow> [])
       else
         bind_exc (case l of None \<Rightarrow> Inr [] | Some c \<Rightarrow> bloom_search D e c) (\<lambda>xs.
         bind_exc (case r of None \<Rightarrow> Inr [] | Some c \<Rightarrow> bloom_search D e c) (\<lambda>ys. Inr (xs @ ys))))"

definition stored_child ::
  "(bytes \<Rightarrow> bytes option \<Rightarrow> nat \<Rightarrow> exc + bloom_node option) \<Rightarrow> nat \<Rightarrow> bytes option \<Rightarrow> bytes option
     \<Rightarrow> exc + bloom_node option" where
  "stored_child f level h b =
     (case h of None \<Rightarrow> Inr None | Some x \<Rightarrow> if x = [] then Inr None else f x b level)"

fun search_leaves ::
  "(bytes \<Rightarrow> bytes) \<Rightarrow> (bytes \<Rightarrow> bytes option \<Rightarrow> nat \<Rightarrow> exc + bloom_node option) \<Rightarrow> nat \<Rightarrow> bytes \<Rightarrow> bloom_node
     \<Rightarrow> exc + bloom_node list" where
  "search_leaves D f 0 e n = Inl OutOfFuel"
| "search_leaves D f (Suc k) e (BNode m l r) =
     bind_exc (bloom_test D (bm_filter m) e) (\<lambda>hit.
       if \<not> hit then Inr []
       else if is_leaf m then Inr [BNode m l r]
       else
         bind_exc (stored_child f (bm_level m + 1) (bm_left_hash m) (bm_left_block m)) (\<lambda>c.
         bind_exc (case c of None \<Rightarrow> Inr [] | Some n \<Rightarrow> search_leaves D f k e n) (\<lambda>xs.
         bind_exc (stored_child f (bm_level m + 1) (bm_right_hash m) (bm_right_block m)) (\<lambda>c.
         bind_exc (case c of None \<Rightarrow> Inr [] | Some n \<Rightarrow> search_leaves D f k e n) (\<lambda>ys.
           Inr (xs @ ys))))))"

text \<open>\<open>_storage_find_leaf\<close>: the descent by offset.\<close>

fun find_leaf_loop ::
  "(bytes \<Rightarrow> bytes option \<Rightarrow> nat \<Rightarrow> exc + bloom_node option) \<Rightarrow> nat \<Rightarrow> int \<Rightarrow> int \<Rightarrow> int \<Rightarrow> bloom_node
     \<Rightarrow> exc + bytes option" where
  "find_leaf_loop f 0 off lo hi n = Inl OutOfFuel"
| "find_leaf_loop f (Suc k) off lo hi (BNode m l r) =
     (if is_leaf m then Inr (bm_start_hash m)
      else
        let mid = (lo + hi) div 2;
            h = (if off < mid then bm_left_hash m else bm_right_hash m);
            b = (if off < mid then bm_left_block m else bm_right_block m) in
        case h of
          None \<Rightarrow> Inr None
        | Some x \<Rightarrow>
            bind_exc (f x b (bm_level m + 1)) (\<lambda>c.
              case c of
                None \<Rightarrow> Inr None
              | Some n \<Rightarrow>
                  if off < mid then find_leaf_loop f k off lo mid n else find_leaf_loop f k off mid hi n))"

definition find_leaf ::
  "(bytes \<Rightarrow> bytes option \<Rightarrow> nat \<Rightarrow> exc + bloom_node option) \<Rightarrow> bytes \<Rightarrow> int \<Rightarrow> bytes option
     \<Rightarrow> exc + bytes option" where
  "find_leaf f root_hash off block_hash =
     bind_exc (f root_hash (if block_hash = Some [] then None else block_hash) 0) (\<lambda>n.
       case n of None \<Rightarrow> Inr None | Some n \<Rightarrow> find_leaf_loop f 11 off 0 1024 n)"

section \<open>Search elements\<close>

definition or_zero :: "bytes \<Rightarrow> bytes" where
  "or_zero b = (if b = [] then ZERO32 else b)"

definition make_search_variants :: "bytes \<Rightarrow> bytes \<Rightarrow> bytes \<Rightarrow> bytes \<Rightarrow> bytes list" where
  "make_search_variants tx_hash sender receiver key =
     (let z = ZERO32; t = or_zero tx_hash; s = or_zero sender; r = or_zero receiver; k = or_zero key in
      if k = z then
        [t @ z @ z @ z @ z, z @ s @ z @ z @ z, z @ z @ r @ z @ z, t @ s @ z @ z @ z,
         t @ z @ r @ z @ z, z @ s @ r @ z @ z, t @ s @ r @ z @ z]
      else
        [t @ z @ z @ k @ z, t @ s @ z @ k @ z, t @ z @ r @ k @ z, t @ s @ r @ k @ z])"

definition make_involved_variants :: "bytes \<Rightarrow> bytes \<Rightarrow> bytes list" where
  "make_involved_variants tx_hash account =
     (let z = ZERO32; t = or_zero tx_hash in
      [z @ z @ z @ z @ account, t @ z @ z @ z @ account])"

definition pad32 :: "bytes \<Rightarrow> bytes" where
  "pad32 b = (let x = or_zero b in take 32 (x @ replicate (32 - length x) 0))"

definition build_element :: "bytes \<Rightarrow> bytes \<Rightarrow> bytes \<Rightarrow> bytes \<Rightarrow> bytes \<Rightarrow> bytes" where
  "build_element tx_hash sender receiver key involved =
     pad32 tx_hash @ pad32 sender @ pad32 receiver @ pad32 key @ pad32 involved"


section \<open>What the tree finds\<close>

fun node_ok :: "nat \<Rightarrow> bloom_node \<Rightarrow> bool" where
  "node_ok level (BNode m l r) \<longleftrightarrow>
     bm_level m = level \<and> tiers_ok (bf_tiers (bm_filter m))
     \<and> (case l of None \<Rightarrow> True | Some c \<Rightarrow> level < 10 \<and> node_ok (level + 1) c)
     \<and> (case r of None \<Rightarrow> True | Some c \<Rightarrow> level < 10 \<and> node_ok (level + 1) c)"

definition reader_ok :: "bloom_reader \<Rightarrow> bool" where
  "reader_ok F \<longleftrightarrow>
     (\<forall>f. F = Some f \<longrightarrow> (\<forall>h b level. \<exists>c. f h b level = Inr c \<and> (\<forall>n. c = Some n \<longrightarrow> node_ok level n)))"

definition tree_ok :: "bloom_tree \<Rightarrow> bool" where
  "tree_ok t \<longleftrightarrow> (\<forall>n. bt_root t = Some n \<longrightarrow> node_ok 0 n)"

lemma node_ok_new: "node_ok level (new_bloom_node level s)"
  by (simp add: new_bloom_node_def new_bloom_filter_def tiers_ok_def split: option.split)

lemma resolve_child_ok:
  assumes "reader_ok F"
  obtains c where "resolve_child F m left = Inr c" "node_ok (bm_level m + 1) c"
proof (cases "F = None \<or> (if left then bm_left_hash m else bm_right_hash m) \<in> {None, Some []}")
  case True
  then have "resolve_child F m left = Inr (new_bloom_node (bm_level m + 1) None)"
    by (auto simp: resolve_child_def Let_def split: option.split)
  then show ?thesis using that node_ok_new by blast
next
  case False
  then obtain f x where f: "F = Some f" "(if left then bm_left_hash m else bm_right_hash m) = Some x" "x \<noteq> []"
    by auto
  let ?b = "if left then bm_left_block m else bm_right_block m"
  obtain c where c: "f x ?b (bm_level m + 1) = Inr c" "\<forall>n. c = Some n \<longrightarrow> node_ok (bm_level m + 1) n"
    using assms f(1) unfolding reader_ok_def by blast
  have "resolve_child F m left =
      Inr (case c of Some n \<Rightarrow> n | None \<Rightarrow> new_bloom_node (bm_level m + 1) None)"
    unfolding resolve_child_def Let_def f(2) using f(1,3) c(1) by simp
  then show ?thesis using that c(2) node_ok_new by (auto split: option.splits)
qed

text \<open>The nodes in memory from a node with \<open>k\<close> levels below it to the leaf of an offset.\<close>

fun path_holds :: "(bytes \<Rightarrow> bytes) \<Rightarrow> bytes \<Rightarrow> nat \<Rightarrow> int \<Rightarrow> int \<Rightarrow> bloom_node \<Rightarrow> bool" where
  "path_holds D e 0 off lo (BNode m l r) \<longleftrightarrow> holds_element D (bm_filter m) e"
| "path_holds D e (Suc k) off lo (BNode m l r) \<longleftrightarrow>
     holds_element D (bm_filter m) e
     \<and> (if off < lo + 2 ^ k then (case l of None \<Rightarrow> False | Some c \<Rightarrow> path_holds D e k off lo c)
        else (case r of None \<Rightarrow> False | Some c \<Rightarrow> path_holds D e k off (lo + 2 ^ k) c))"

fun leaf_start :: "nat \<Rightarrow> int \<Rightarrow> int \<Rightarrow> bloom_node \<Rightarrow> bytes option option" where
  "leaf_start 0 off lo (BNode m l r) = Some (bm_start_hash m)"
| "leaf_start (Suc k) off lo (BNode m l r) =
     (if off < lo + 2 ^ k then Option.bind l (leaf_start k off lo)
      else Option.bind r (leaf_start k off (lo + 2 ^ k)))"

lemma search_path:
  "node_ok (10 - k) n \<Longrightarrow> k \<le> 10 \<Longrightarrow>
     \<exists>hs. bloom_search D e n = Inr hs
       \<and> (path_holds D e k off lo n \<and> leaf_start k off lo n = Some (Some h) \<and> h \<noteq> [] \<longrightarrow> h \<in> set hs)"
proof (induction k arbitrary: n lo)
  case 0
  then show ?case by (cases n) (simp add: bloom_test_iff is_leaf_def)
next
  case (Suc k)
  obtain m l r where n: "n = BNode m l r" by (cases n)
  have lv: "bm_level m = 10 - Suc k" "10 - Suc k + 1 = 10 - k" "\<not> is_leaf m" "tiers_ok (bf_tiers (bm_filter m))"
    using Suc.prems by (auto simp: n is_leaf_def)
  have ok: "node_ok (10 - k) c" if "l = Some c \<or> r = Some c" for c
    using Suc.prems(1) that lv(2) by (auto simp: n)
  let ?s = "\<lambda>c. case c of None \<Rightarrow> Inr [] | Some c \<Rightarrow> bloom_search D e c"
  let ?in = "\<lambda>hs c lo. \<forall>x. c = Some x \<longrightarrow>
    path_holds D e k off lo x \<and> leaf_start k off lo x = Some (Some h) \<and> h \<noteq> [] \<longrightarrow> h \<in> set hs"
  have sub: "\<exists>hs. ?s c = Inr hs \<and> ?in hs c lo'" if "\<And>x. c = Some x \<Longrightarrow> node_ok (10 - k) x" for c lo'
    using Suc.IH [of _ lo'] that Suc.prems(2) by (cases c) auto
  obtain xs where xs: "?s l = Inr xs" "?in xs l lo" using sub [of l lo] ok by blast
  obtain ys where ys: "?s r = Inr ys" "?in ys r (lo + 2 ^ k)" using sub [of r "lo + 2 ^ k"] ok by blast
  have "bloom_search D e n = Inr (if holds_element D (bm_filter m) e then xs @ ys else [])"
    using lv xs(1) ys(1) by (simp add: n bloom_test_iff)
  moreover have "h \<in> set (xs @ ys)"
    if "path_holds D e (Suc k) off lo n" "leaf_start (Suc k) off lo n = Some (Some h)" "h \<noteq> []"
    using that xs(2) ys(2) by (cases l; cases r; simp add: n split: if_splits)
  ultimately show ?case by (simp add: n)
qed

lemma child_ok:
  assumes "reader_ok F" "\<And>c. child = Some c \<Longrightarrow> node_ok (bm_level m + 1) c"
  obtains c where "(case child of Some c \<Rightarrow> Inr c | None \<Rightarrow> resolve_child F m left) = Inr c"
    "node_ok (bm_level m + 1) c" "\<And>x. child = Some x \<Longrightarrow> c = x"
  using assms resolve_child_ok [OF assms(1), of m left] by (cases child) auto

lemma walk_effect:
  "reader_ok F \<Longrightarrow> node_ok (10 - k) n \<Longrightarrow> k \<le> 10 \<Longrightarrow>
     \<exists>n' qs. walk D F (Suc k) n off lo (lo + 2 ^ k) vs ps = Inr (n', qs) \<and> node_ok (10 - k) n'
       \<and> (\<forall>e\<in>set vs. path_holds D e k off lo n')
       \<and> (\<forall>e i. path_holds D e k i lo n \<longrightarrow> path_holds D e k i lo n')
       \<and> (\<forall>i s. leaf_start k i lo n = Some s \<longrightarrow> leaf_start k i lo n' = Some s)
       \<and> leaf_start k off lo n' \<noteq> None"
proof (induction k arbitrary: n lo ps)
  case 0
  obtain m l r where n: "n = BNode m l r" by (cases n)
  have "tiers_ok (bf_tiers (bm_filter m))" using 0 by (simp add: n)
  then obtain f where "insert_all D vs (bm_filter m) = Inr f" "tiers_ok (bf_tiers f)"
    "\<forall>e. e \<in> set vs \<or> holds_element D (bm_filter m) e \<longrightarrow> holds_element D f e"
    using insert_all_effect by blast
  with 0 show ?case by (auto simp: n is_leaf_def split: option.splits)
next
  case (Suc k)
  obtain m l r where n: "n = BNode m l r" by (cases n)
  have "tiers_ok (bf_tiers (bm_filter m))" using Suc.prems by (simp add: n)
  then obtain f where f: "insert_all D vs (bm_filter m) = Inr f" "tiers_ok (bf_tiers f)"
    "\<forall>e. e \<in> set vs \<or> holds_element D (bm_filter m) e \<longrightarrow> holds_element D f e"
    using insert_all_effect by blast
  define m' where "m' = m\<lparr>bm_expr := None, bm_filter := f\<rparr>"
  define ps' where "ps' = touch (bm_level m, lo) ps"
  have lv: "bm_level m' = 10 - Suc k" "10 - Suc k + 1 = 10 - k" "\<not> is_leaf m" "k \<le> 10"
    using Suc.prems by (auto simp: n is_leaf_def m'_def)
  have ok: "node_ok (bm_level m' + 1) c" if "l = Some c \<or> r = Some c" for c
    using Suc.prems(2) that lv(2) by (auto simp: n m'_def)
  have mid: "(lo + (lo + 2 ^ Suc k)) div 2 = lo + 2 ^ k" "lo + 2 ^ Suc k = lo + 2 ^ k + 2 ^ k" by simp_all
  show ?case
  proof (cases "off < lo + 2 ^ k")
    case True
    obtain c where c: "(case l of Some c \<Rightarrow> Inr c | None \<Rightarrow> resolve_child F m' True) = Inr c"
      "node_ok (10 - k) c" "\<And>x. l = Some x \<Longrightarrow> c = x"
      using child_ok [OF Suc.prems(1), of l m' True] ok lv by metis
    obtain c' qs where w: "walk D F (Suc k) c off lo (lo + 2 ^ k) vs ps' = Inr (c', qs)" "node_ok (10 - k) c'"
      "\<forall>e\<in>set vs. path_holds D e k off lo c'"
      "\<forall>e i. path_holds D e k i lo c \<longrightarrow> path_holds D e k i lo c'"
      "\<forall>i s. leaf_start k i lo c = Some s \<longrightarrow> leaf_start k i lo c' = Some s"
      "leaf_start k off lo c' \<noteq> None"
      using Suc.IH [OF Suc.prems(1) c(2) lv(4)] by metis
    have "walk D F (Suc (Suc k)) n off lo (lo + 2 ^ Suc k) vs ps = Inr (BNode m' (Some c') r, qs)"
      using lv(3) True c(1) w(1) by (simp only: n walk.simps f(1) bind_exc_simps Let_def m'_def [symmetric] mid)
        (simp add: ps'_def)
    moreover have "node_ok (10 - Suc k) (BNode m' (Some c') r)"
      using lv ok w(2) f(2) by (auto simp: m'_def split: option.split)
    ultimately show ?thesis
      using w(3-6) True f(3) c(3)
      by (cases l) (auto simp: n m'_def simp del: walk.simps split: option.splits if_splits)
  next
    case False
    obtain c where c: "(case r of Some c \<Rightarrow> Inr c | None \<Rightarrow> resolve_child F m' False) = Inr c"
      "node_ok (10 - k) c" "\<And>x. r = Some x \<Longrightarrow> c = x"
      using child_ok [OF Suc.prems(1), of r m' False] ok lv by metis
    let ?mid = "lo + 2 ^ k"
    obtain c' qs where w: "walk D F (Suc k) c off ?mid (?mid + 2 ^ k) vs ps' = Inr (c', qs)" "node_ok (10 - k) c'"
      "\<forall>e\<in>set vs. path_holds D e k off ?mid c'"
      "\<forall>e i. path_holds D e k i ?mid c \<longrightarrow> path_holds D e k i ?mid c'"
      "\<forall>i s. leaf_start k i ?mid c = Some s \<longrightarrow> leaf_start k i ?mid c' = Some s"
      "leaf_start k off ?mid c' \<noteq> None"
      using Suc.IH [OF Suc.prems(1) c(2) lv(4)] by metis
    have "walk D F (Suc (Suc k)) n off lo (lo + 2 ^ Suc k) vs ps = Inr (BNode m' l (Some c'), qs)"
      using lv(3) False c(1) w(1) by (simp only: n walk.simps f(1) bind_exc_simps Let_def m'_def [symmetric] mid)
        (simp add: ps'_def)
    moreover have "node_ok (10 - Suc k) (BNode m' l (Some c'))"
      using lv ok w(2) f(2) by (auto simp: m'_def split: option.split)
    ultimately show ?thesis
      using w(3-6) False f(3) c(3)
      by (cases r) (auto simp: n m'_def simp del: walk.simps split: option.splits if_splits)
  qed
qed

lemma known_child_ok:
  assumes "reader_ok F" "\<And>c. child = Some c \<Longrightarrow> node_ok (bm_level m + 1) c"
  obtains c where "known_child F m left child = Inr c"
    "\<And>x. c = Some x \<Longrightarrow> node_ok (bm_level m + 1) x" "\<And>x. child = Some x \<Longrightarrow> c = Some x"
proof (cases child)
  case None
  obtain x where "resolve_child F m left = Inr x" "node_ok (bm_level m + 1) x"
    using resolve_child_ok [OF assms(1)] .
  moreover from this have "known_child F m left child \<in> {Inr None, Inr (Some x)}"
    by (cases left) (auto simp: known_child_def None split: option.split)
  ultimately show ?thesis using that None by auto
qed (use assms(2) that in \<open>auto simp: known_child_def\<close>)

lemma holds_element_start [simp]: "holds_element D (f\<lparr>bf_start_hash := s\<rparr>) e = holds_element D f e"
  by (simp add: holds_element_def)

lemma set_leaf_effect:
  "reader_ok F \<Longrightarrow> node_ok (10 - k) n \<Longrightarrow> k \<le> 10 \<Longrightarrow> lo \<le> off \<Longrightarrow> off < lo + 2 ^ k \<Longrightarrow>
     \<exists>found n' qs. set_leaf F (Suc k) n off lo (lo + 2 ^ k) h ps = Inr (found, n', qs) \<and> node_ok (10 - k) n'
       \<and> (\<forall>e i. path_holds D e k i lo n \<longrightarrow> path_holds D e k i lo n')
       \<and> (\<forall>i s. lo \<le> i \<and> i < lo + 2 ^ k \<and> i \<noteq> off \<and> leaf_start k i lo n = Some s \<longrightarrow> leaf_start k i lo n' = Some s)
       \<and> (leaf_start k off lo n \<noteq> None \<longrightarrow> leaf_start k off lo n' = Some (Some h))"
proof (induction k arbitrary: n lo ps)
  case 0
  then show ?case by (cases n) (auto simp: is_leaf_def split: option.splits)
next
  case (Suc k)
  obtain m l r where n: "n = BNode m l r" by (cases n)
  have lv: "bm_level m = 10 - Suc k" "10 - Suc k + 1 = 10 - k" "\<not> is_leaf m" "k \<le> 10"
    using Suc.prems by (auto simp: n is_leaf_def)
  have ok: "node_ok (bm_level m + 1) c" if "l = Some c \<or> r = Some c" for c
    using Suc.prems(2) that lv(2) by (auto simp: n)
  define mid where "mid = lo + 2 ^ k"
  have mid: "(lo + (lo + 2 ^ Suc k)) div 2 = mid" "lo + 2 ^ Suc k = mid + 2 ^ k" by (simp_all add: mid_def)
  define left where "left \<longleftrightarrow> off < mid"
  define lo' where "lo' = (if left then lo else mid)"
  have lo': "(if left then mid else mid + 2 ^ k) = lo' + 2 ^ k" "lo' \<le> off" "off < lo' + 2 ^ k"
    using Suc.prems(4,5) by (auto simp: lo'_def left_def mid_def)
  have "node_ok (bm_level m + 1) c" if "(if left then l else r) = Some c" for c
    using ok that by (simp split: if_splits)
  then obtain child where c: "known_child F m left (if left then l else r) = Inr child"
    "\<And>x. child = Some x \<Longrightarrow> node_ok (bm_level m + 1) x"
    "\<And>x. (if left then l else r) = Some x \<Longrightarrow> child = Some x"
    using known_child_ok [OF Suc.prems(1), of "if left then l else r" m left] by blast
  have cok: "node_ok (10 - k) x" if "child = Some x" for x using c(2) [OF that] lv by simp
  let ?put = "\<lambda>m c. if left then BNode m c r else BNode m l c"
  have eq: "set_leaf F (Suc (Suc k)) n off lo (lo + 2 ^ Suc k) h ps =
     (case child of
        None \<Rightarrow> Inr (False, n, ps)
      | Some c \<Rightarrow> bind_exc (set_leaf F (Suc k) c off lo' (lo' + 2 ^ k) h ps) (\<lambda>(ok, c', qs).
          if \<not> ok then Inr (False, ?put m (Some c'), qs)
          else Inr (True, ?put (m\<lparr>bm_expr := None\<rparr>) (Some c'), touch (bm_level m, lo) qs)))"
    unfolding n set_leaf.simps(2) [of F "Suc k"] Let_def mid(1) left_def [symmetric] c(1) bind_exc_simps
      lo'_def [symmetric] unfolding mid(2) lo'(1)
    using lv(3) by simp
  show ?case
  proof (cases child)
    case None
    then have "(if left then l else r) = None" using c(3) by (metis option.distinct(1) option.exhaust)
    with None Suc.prems eq show ?thesis
      by (cases left) (auto simp: n left_def mid_def simp del: set_leaf.simps)
  next
    case (Some x)
    obtain found c' qs where w: "set_leaf F (Suc k) x off lo' (lo' + 2 ^ k) h ps = Inr (found, c', qs)"
      "node_ok (10 - k) c'" "\<forall>e i. path_holds D e k i lo' x \<longrightarrow> path_holds D e k i lo' c'"
      "\<forall>i s. lo' \<le> i \<and> i < lo' + 2 ^ k \<and> i \<noteq> off \<and> leaf_start k i lo' x = Some s \<longrightarrow> leaf_start k i lo' c' = Some s"
      "leaf_start k off lo' x \<noteq> None \<longrightarrow> leaf_start k off lo' c' = Some (Some h)"
      using Suc.IH [OF Suc.prems(1) cok [OF Some] lv(4) lo'(2,3), of ps] by blast
    define m' where "m' = (if found then m\<lparr>bm_expr := None\<rparr> else m)"
    have m': "bm_level m' = bm_level m" "bm_filter m' = bm_filter m" by (simp_all add: m'_def)
    have "\<exists>rs. set_leaf F (Suc (Suc k)) n off lo (lo + 2 ^ Suc k) h ps = Inr (found, ?put m' (Some c'), rs)"
      unfolding eq using Some w(1) by (cases found) (simp_all add: m'_def)
    moreover have "node_ok (10 - Suc k) (?put m' (Some c'))"
      using lv ok w(2) m' Suc.prems(2) by (auto simp: n split: option.splits)
    moreover have "path_holds D e (Suc k) i lo (?put m' (Some c'))" if "path_holds D e (Suc k) i lo n" for e i
      using that w(3) m' c(3) Some by (cases left) (auto simp: n lo'_def mid_def split: option.splits if_splits)
    moreover have "leaf_start (Suc k) i lo (?put m' (Some c')) = Some s"
      if "lo \<le> i" "i < lo + 2 ^ Suc k" "i \<noteq> off" "leaf_start (Suc k) i lo n = Some s" for i s
      using that w(4) c(3) Some
      by (cases left; cases "if left then l else r") (auto simp: n lo'_def mid_def split: if_splits)
    moreover have "leaf_start (Suc k) off lo (?put m' (Some c')) = Some (Some h)"
      if "leaf_start (Suc k) off lo n \<noteq> None"
      using that w(5) c(3) Some
      by (cases left; cases "if left then l else r") (auto simp: n lo'_def left_def mid_def split: if_splits)
    ultimately show ?thesis by blast
  qed
qed

datatype tree_op =
    InsertAt int "bytes list"
  | SetLeafAt int bytes

fun tree_step :: "(bytes \<Rightarrow> bytes) \<Rightarrow> bloom_reader \<Rightarrow> tree_op \<Rightarrow> bloom_tree \<Rightarrow> exc + bloom_tree" where
  "tree_step D F (InsertAt off vs) t = tree_insert D F t off vs"
| "tree_step D F (SetLeafAt off h) t = set_leaf_start_hash F t off h"

fun tree_run :: "(bytes \<Rightarrow> bytes) \<Rightarrow> bloom_reader \<Rightarrow> tree_op list \<Rightarrow> bloom_tree \<Rightarrow> exc + bloom_tree" where
  "tree_run D F [] t = Inr t"
| "tree_run D F (x # xs) t = bind_exc (tree_step D F x t) (tree_run D F xs)"

definition tree_finds :: "(bytes \<Rightarrow> bytes) \<Rightarrow> bytes list \<Rightarrow> int \<Rightarrow> bytes option \<Rightarrow> bloom_tree \<Rightarrow> bool" where
  "tree_finds D vs off start t \<longleftrightarrow>
     tree_ok t \<and> (\<exists>n. bt_root t = Some n \<and> (\<forall>v\<in>set vs. path_holds D v 10 off 0 n)
       \<and> (\<exists>s. leaf_start 10 off 0 n = Some s \<and> (start = None \<or> s = start)))"

lemma insert_finds:
  assumes "reader_ok F" "tree_ok t"
  obtains t' where "tree_insert D F t off vs = Inr t'" "tree_finds D vs off None t'"
    "\<And>us i s. tree_finds D us i s t \<Longrightarrow> tree_finds D us i s t'"
proof -
  define n where "n = (case bt_root t of Some n \<Rightarrow> n | None \<Rightarrow> new_bloom_node 0 None)"
  have n: "node_ok (10 - 10) n"
    using assms(2) node_ok_new by (auto simp: n_def tree_ok_def split: option.split)
  obtain n' qs where w: "walk D F (Suc 10) n off 0 (0 + 2 ^ 10) vs (bt_touched t) = Inr (n', qs)"
    "node_ok (10 - 10) n'" "\<forall>e\<in>set vs. path_holds D e 10 off 0 n'"
    "\<forall>e i. path_holds D e 10 i 0 n \<longrightarrow> path_holds D e 10 i 0 n'"
    "\<forall>i s. leaf_start 10 i 0 n = Some s \<longrightarrow> leaf_start 10 i 0 n' = Some s"
    "leaf_start 10 off 0 n' \<noteq> None"
    using walk_effect [OF assms(1) n] by (metis order_refl)
  show ?thesis
  proof (rule that [of "\<lparr>bt_root = Some n', bt_touched = qs\<rparr>"])
    show "tree_insert D F t off vs = Inr \<lparr>bt_root = Some n', bt_touched = qs\<rparr>"
      using w(1) by (simp add: tree_insert_def n_def [symmetric] del: walk.simps)
    show "tree_finds D vs off None \<lparr>bt_root = Some n', bt_touched = qs\<rparr>"
      using w(2,3,6) by (auto simp: tree_finds_def tree_ok_def)
    show "tree_finds D us i s \<lparr>bt_root = Some n', bt_touched = qs\<rparr>" if "tree_finds D us i s t" for us i s
      using that w(2,4,5) by (auto simp: tree_finds_def tree_ok_def n_def)
  qed
qed

lemma set_leaf_finds:
  assumes "reader_ok F" "tree_ok t" "0 \<le> off" "off < 1024"
  obtains t' where "set_leaf_start_hash F t off h = Inr t'" "tree_ok t'"
    "\<And>us. tree_finds D us off None t \<Longrightarrow> tree_finds D us off (Some h) t'"
    "\<And>us i s. tree_finds D us i s t \<Longrightarrow> 0 \<le> i \<Longrightarrow> i < 1024 \<Longrightarrow> i \<noteq> off \<Longrightarrow> tree_finds D us i s t'"
proof (cases "bt_root t")
  case None
  then show ?thesis using that assms(2) by (auto simp: set_leaf_start_hash_def tree_finds_def)
next
  case (Some n)
  have n: "node_ok (10 - 10) n" using assms(2) Some by (simp add: tree_ok_def)
  obtain found n' qs where w: "set_leaf F (Suc 10) n off 0 (0 + 2 ^ 10) h (bt_touched t) = Inr (found, n', qs)"
    "node_ok (10 - 10) n'" "\<forall>e i. path_holds D e 10 i 0 n \<longrightarrow> path_holds D e 10 i 0 n'"
    "\<forall>i s. 0 \<le> i \<and> i < 0 + 2 ^ 10 \<and> i \<noteq> off \<and> leaf_start 10 i 0 n = Some s \<longrightarrow> leaf_start 10 i 0 n' = Some s"
    "leaf_start 10 off 0 n \<noteq> None \<longrightarrow> leaf_start 10 off 0 n' = Some (Some h)"
    using set_leaf_effect [OF assms(1) n, of 0 off h "bt_touched t" D] assms(3,4) by auto
  show ?thesis
  proof (rule that [of "\<lparr>bt_root = Some n', bt_touched = qs\<rparr>"])
    show "set_leaf_start_hash F t off h = Inr \<lparr>bt_root = Some n', bt_touched = qs\<rparr>"
      using w(1) by (simp add: set_leaf_start_hash_def Some del: set_leaf.simps)
    show "tree_ok \<lparr>bt_root = Some n', bt_touched = qs\<rparr>" using w(2) by (simp add: tree_ok_def)
    then show "tree_finds D us off (Some h) \<lparr>bt_root = Some n', bt_touched = qs\<rparr>"
      if "tree_finds D us off None t" for us
      using that w(3,5) Some by (auto simp: tree_finds_def)
    show "tree_finds D us i s \<lparr>bt_root = Some n', bt_touched = qs\<rparr>"
      if "tree_finds D us i s t" "0 \<le> i" "i < 1024" "i \<noteq> off" for us i s
      using that w(2-4) Some by (auto simp: tree_finds_def tree_ok_def)
  qed
qed

definition other_leaf :: "int \<Rightarrow> tree_op \<Rightarrow> bool" where
  "other_leaf off x = (case x of InsertAt _ _ \<Rightarrow> True | SetLeafAt i _ \<Rightarrow> 0 \<le> i \<and> i < 1024 \<and> i \<noteq> off)"

lemma run_finds:
  "reader_ok F \<Longrightarrow> tree_finds D vs off s t \<Longrightarrow> 0 \<le> off \<Longrightarrow> off < 1024 \<Longrightarrow> list_all (other_leaf off) xs \<Longrightarrow>
     \<exists>t'. tree_run D F xs t = Inr t' \<and> tree_finds D vs off s t'"
proof (induction xs arbitrary: t)
  case (Cons x xs)
  have t: "tree_ok t" using Cons.prems(2) by (simp add: tree_finds_def)
  have "\<exists>t'. tree_step D F x t = Inr t' \<and> tree_finds D vs off s t'"
  proof (cases x)
    case (InsertAt i us)
    then show ?thesis using insert_finds [OF Cons.prems(1) t, of D i us] Cons.prems(2) by (metis tree_step.simps(1))
  next
    case (SetLeafAt i h)
    then have "0 \<le> i" "i < 1024" "off \<noteq> i" using Cons.prems(5) by (simp_all add: other_leaf_def)
    then show ?thesis
      using set_leaf_finds [OF Cons.prems(1) t, of i h D] Cons.prems(2-4) SetLeafAt by (metis tree_step.simps(2))
  qed
  with Cons show ?case by auto
qed simp

text \<open>C32: a block that inserted an element at its offset, and whose hash was then set on its leaf, is among
  the results of a search for the element, whatever is inserted afterwards and whatever other leaves
  are set, as long as the stored nodes are read without errors.\<close>

theorem bloom_tree_finds_block:
  assumes "reader_ok F" "tree_ok t" "0 \<le> off" "off < 1024" "v \<in> set vs" "h \<noteq> []"
    and "list_all (other_leaf off) later"
  shows "\<exists>t' n hs. tree_run D F (InsertAt off vs # SetLeafAt off h # later) t = Inr t'
     \<and> bt_root t' = Some n \<and> bloom_search D v n = Inr hs \<and> h \<in> set hs"
proof -
  obtain t1 where 1: "tree_insert D F t off vs = Inr t1" "tree_finds D vs off None t1"
    using insert_finds [OF assms(1,2)] by metis
  then have ok: "tree_ok t1" by (simp add: tree_finds_def)
  obtain t2 where 2: "set_leaf_start_hash F t1 off h = Inr t2" "tree_finds D vs off (Some h) t2"
    using set_leaf_finds [OF assms(1) ok assms(3,4)] 1(2) by metis
  obtain t' where t': "tree_run D F later t2 = Inr t'" "tree_finds D vs off (Some h) t'"
    using run_finds [OF assms(1) 2(2) assms(3,4,7)] by blast
  then obtain n where n: "bt_root t' = Some n" "node_ok 0 n" "path_holds D v 10 off 0 n"
    "leaf_start 10 off 0 n = Some (Some h)"
    using assms(5) by (auto simp: tree_finds_def tree_ok_def)
  then show ?thesis using search_path [of 10 n D v off 0 h] t'(1) 1(1) 2(1) assms(6) by auto
qed

lemma bloom_tree_finds_block_witness:
  "\<exists>t' n hs. tree_run (\<lambda>x. replicate 88 7) None
      (InsertAt 5 [[1], [2]] # SetLeafAt 5 [9] # [InsertAt 1023 [[3]], SetLeafAt 6 [8]])
      \<lparr>bt_root = None, bt_touched = []\<rparr> = Inr t'
     \<and> bt_root t' = Some n \<and> bloom_search (\<lambda>x. replicate 88 7) [2] n = Inr hs \<and> [9] \<in> set hs"
  by (rule bloom_tree_finds_block) (simp_all add: reader_ok_def tree_ok_def other_leaf_def)

end
