(* ===== verification/Ledger.thy ===== *)
theory Ledger
  imports Accounts Block_Rate Bloom_Tree
begin

text \<open>
  The state that transactions change: the block that is built or checked (\<open>consensus/models/block.py\<close>),
  with the accounts, and the transaction (\<open>transaction/model.py\<close>, \<open>code.py\<close>).

  An action runs on the block and returns a value or raises, and the block it leaves stays in both
  cases, as in Python: the worker that builds a block goes on after a transaction that raised.
\<close>

section \<open>Transactions\<close>

datatype transaction_code =
    TRANSFER
  | CHANNEL_UPDATE | CHANNEL_WITHDRAW | CHANNEL_CLOSE
  | TREASURY_DEPOSIT | TREASURY_BORROW | TREASURY_REPAY | TREASURY_CLOSE
  | TREASURY_GUARANTEE | TREASURY_BUY | TREASURY_CLAIM
  | STORAGE_CREATE | STORAGE_PAYMENT | STORAGE_REMOVE
  | CODE_ACCOUNT_CREATE | CODE_ACCOUNT_CALL

fun code_number :: "transaction_code \<Rightarrow> int" where
  "code_number TRANSFER = 0x00"
| "code_number CHANNEL_UPDATE = 0x10"
| "code_number CHANNEL_WITHDRAW = 0x11"
| "code_number CHANNEL_CLOSE = 0x12"
| "code_number TREASURY_DEPOSIT = 0x20"
| "code_number TREASURY_BORROW = 0x21"
| "code_number TREASURY_REPAY = 0x22"
| "code_number TREASURY_CLOSE = 0x23"
| "code_number TREASURY_GUARANTEE = 0x24"
| "code_number TREASURY_BUY = 0x25"
| "code_number TREASURY_CLAIM = 0x26"
| "code_number STORAGE_CREATE = 0x30"
| "code_number STORAGE_PAYMENT = 0x31"
| "code_number STORAGE_REMOVE = 0x32"
| "code_number CODE_ACCOUNT_CREATE = 0x40"
| "code_number CODE_ACCOUNT_CALL = 0x41"

definition transaction_codes :: "transaction_code list" where
  "transaction_codes =
     [TRANSFER, CHANNEL_UPDATE, CHANNEL_WITHDRAW, CHANNEL_CLOSE, TREASURY_DEPOSIT, TREASURY_BORROW,
      TREASURY_REPAY, TREASURY_CLOSE, TREASURY_GUARANTEE, TREASURY_BUY, TREASURY_CLAIM, STORAGE_CREATE,
      STORAGE_PAYMENT, STORAGE_REMOVE, CODE_ACCOUNT_CREATE, CODE_ACCOUNT_CALL]"

definition transaction_code_of :: "int \<Rightarrow> exc + transaction_code" where
  "transaction_code_of n =
     (case find (\<lambda>c. code_number c = n) transaction_codes of
        Some c \<Rightarrow> Inr c
      | None \<Rightarrow> Inl (ValueError ''not a valid TransactionCode''))"

definition transaction_code_to_bytes :: "transaction_code \<Rightarrow> bytes" where
  "transaction_code_to_bytes c = le_bytes 1 (code_number c)"

definition transaction_code_from_bytes :: "bytes \<Rightarrow> exc + transaction_code" where
  "transaction_code_from_bytes raw =
     (case raw of
        [b] \<Rightarrow> transaction_code_of (uint b)
      | _ \<Rightarrow> Inl (ValueError ''transaction code must be exactly 1 byte''))"

record transaction =
  tx_chain_id :: int
  tx_amount :: int
  tx_code :: transaction_code
  tx_counter :: int
  tx_cost_limit :: int
  tx_data :: expr
  tx_recipient :: bytes
  tx_sender :: bytes
  tx_signature :: "bytes option"

definition transaction_body :: "transaction \<Rightarrow> expr" where
  "transaction_body t =
     cons (int_expr (tx_amount t))
       (cons (int_expr (tx_chain_id t))
         (cons (int_expr (code_number (tx_code t)))
           (cons (int_expr (tx_cost_limit t))
             (cons (int_expr (tx_counter t))
               (cons (tx_data t)
                 (cons (Bytes (tx_recipient t)) (cons (Bytes (tx_sender t)) NIL)))))))"

definition transaction_to_expr :: "transaction \<Rightarrow> expr" where
  "transaction_to_expr t =
     cons (cons (transaction_body t)
            (cons (Bytes (case tx_signature t of None \<Rightarrow> ZERO32 | Some s \<Rightarrow> if s = [] then ZERO32 else s)) NIL))
       (symbol ''transaction'')"

text \<open>The check of a signature by the \<open>cryptography\<close> package is \<open>verify key message signature\<close>.\<close>

definition verify_signature ::
  "(bytes \<Rightarrow> bytes) \<Rightarrow> (bytes \<Rightarrow> bytes \<Rightarrow> bytes \<Rightarrow> bool) \<Rightarrow> transaction \<Rightarrow> bool" where
  "verify_signature H verify t =
     (case tx_signature t of
        None \<Rightarrow> False
      | Some s \<Rightarrow>
          length s = 64 \<and> length (tx_sender t) = 32
          \<and> verify (tx_sender t) (expr_hash H (transaction_body t)) s)"

section \<open>The block\<close>

record prev_block = head +
  pv_timestamp :: "int option"
  pv_storage_difficulty :: int

record block =
  bk_chain_id :: int
  bk_height :: int
  bk_timestamp :: "int option"
  bk_validation_difficulty :: "int option"
  bk_expr_id :: "bytes option"
  bk_previous_hash :: bytes
  bk_previous :: "prev_block option"
  bk_accounts :: accounts
  bk_pending :: "expr list"
  bk_bloom :: bloom_tree
  bk_bloom_keys :: "bytes list"
  bk_involved :: "bytes list"
  bk_transactions :: "transaction list"
  bk_receipts :: "receipt list"
  bk_receipts_trie :: radix_tree
  bk_loaned :: int
  bk_defaulted :: int
  bk_loan_count :: int
  bk_votes :: int
  bk_claims :: int
  bk_tx_keys :: "bytes list"
  bk_tx_inserts :: "bytes list"

text \<open>
  A block that is built has no time and no difficulty before its transactions are applied; a block that is
  checked has those of its header. \<open>bk_tx_keys\<close> and \<open>bk_tx_inserts\<close> are the sets \<open>pending_bloom_keys\<close> and \<open>pending_bloom_inserts\<close> of
  the transaction that is applied, which the machine fills. A trie of receipts that is \<open>None\<close> is a new
  tree.
\<close>

type_synonym block_snapshot =
  "(bytes \<times> account) list \<times> expr list \<times> int \<times> int \<times> int \<times> bytes list \<times> int \<times> int"

definition snapshot :: "block \<Rightarrow> block_snapshot" where
  "snapshot s =
     (map (\<lambda>(a, x). (a, clone_account x)) (as_cache (bk_accounts s)), bk_pending s, bk_loaned s,
      bk_defaulted s, bk_loan_count s, as_involved (bk_accounts s), bk_votes s, bk_claims s)"

definition restore :: "block_snapshot \<Rightarrow> block \<Rightarrow> block" where
  "restore snap s =
     (case snap of
        (saved_cache, saved_pending, saved_loaned, saved_defaulted, saved_count, saved_involved,
         saved_votes, saved_claims) \<Rightarrow>
          s\<lparr>bk_accounts := (bk_accounts s)\<lparr>as_cache := saved_cache, as_involved := saved_involved\<rparr>,
            bk_pending := saved_pending, bk_loaned := saved_loaned, bk_defaulted := saved_defaulted,
            bk_loan_count := saved_count, bk_votes := saved_votes, bk_claims := saved_claims\<rparr>)"

section \<open>Actions\<close>

type_synonym 'a act = "block \<Rightarrow> (exc + 'a) \<times> block"

definition ret :: "'a \<Rightarrow> 'a act" where
  "ret x s = (Inr x, s)"

definition raise :: "exc \<Rightarrow> 'a act" where
  "raise e s = (Inl e, s)"

definition bnd :: "'a act \<Rightarrow> ('a \<Rightarrow> 'b act) \<Rightarrow> 'b act" where
  "bnd m f s = (case m s of (Inl e, s') \<Rightarrow> (Inl e, s') | (Inr x, s') \<Rightarrow> f x s')"

definition lift :: "exc + 'a \<Rightarrow> 'a act" where
  "lift r s = (r, s)"

definition update :: "(block \<Rightarrow> block) \<Rightarrow> unit act" where
  "update f s = (Inr (), f s)"

definition reads :: "(block \<Rightarrow> 'a) \<Rightarrow> 'a act" where
  "reads f s = (Inr (f s), s)"

text \<open>\<open>except Exception\<close>: the block keeps what the action did before it raised.\<close>

definition catch :: "'a act \<Rightarrow> 'a \<Rightarrow> 'a act" where
  "catch m x s = (case m s of (Inl e, s') \<Rightarrow> (Inr x, s') | r \<Rightarrow> r)"

definition load_account :: "node_ctx \<Rightarrow> bytes \<Rightarrow> bool act" where
  "load_account cx a s =
     (case get_account cx a (bk_accounts s) of
        (Inl e, t) \<Rightarrow> (Inl e, s\<lparr>bk_accounts := t\<rparr>)
      | (Inr x, t) \<Rightarrow> (Inr (x \<noteq> None), s\<lparr>bk_accounts := t\<rparr>))"

definition cached :: "block \<Rightarrow> bytes \<Rightarrow> account option" where
  "cached s a = map_of (as_cache (bk_accounts s)) a"

text \<open>
  An account that was got is the object in the cache: it is named by its address. Using \<open>None\<close> raises
  \<open>AttributeError\<close>.
\<close>

definition account_of :: "bytes \<Rightarrow> account act" where
  "account_of a s = (case cached s a of None \<Rightarrow> (Inl AttributeError, s) | Some x \<Rightarrow> (Inr x, s))"

definition write_account :: "bytes \<Rightarrow> account \<Rightarrow> unit act" where
  "write_account a x =
     update (\<lambda>s. s\<lparr>bk_accounts := (bk_accounts s)\<lparr>as_cache := AList.update a x (as_cache (bk_accounts s))\<rparr>\<rparr>)"

definition change_account :: "bytes \<Rightarrow> (account \<Rightarrow> account) \<Rightarrow> unit act" where
  "change_account a f = bnd (account_of a) (\<lambda>x. write_account a (f x))"

definition add_balance :: "bytes \<Rightarrow> int \<Rightarrow> unit act" where
  "add_balance a n = change_account a (\<lambda>x. x\<lparr>ac_balance := ac_balance x + n\<rparr>)"

definition store_account :: "bytes \<Rightarrow> account \<Rightarrow> unit act" where
  "store_account a x = update (\<lambda>s. s\<lparr>bk_accounts := set_account a x (bk_accounts s)\<rparr>)"

text \<open>\<open>set_account(a, x)\<close> where \<open>x\<close> is the object the cache has.\<close>

definition touch_account :: "bytes \<Rightarrow> unit act" where
  "touch_account a = bnd (account_of a) (store_account a)"

definition add_pending :: "expr list \<Rightarrow> unit act" where
  "add_pending es = update (\<lambda>s. s\<lparr>bk_pending := bk_pending s @ es\<rparr>)"

text \<open>The trees of an account, read and written through the object.\<close>

definition data_get :: "node_ctx \<Rightarrow> bytes \<Rightarrow> bytes \<Rightarrow> (expr option \<times> bytes option) act" where
  "data_get cx a k =
     bnd (account_of a) (\<lambda>x.
       (case tree_get cx (ac_data x) k of (r, t) \<Rightarrow> bnd (write_account a (x\<lparr>ac_data := t\<rparr>)) (\<lambda>_. lift r)))"

definition data_put :: "node_ctx \<Rightarrow> bytes \<Rightarrow> bytes \<Rightarrow> rvalue \<Rightarrow> unit act" where
  "data_put cx a k v =
     bnd (account_of a) (\<lambda>x.
       (case tree_put cx (ac_data x) k v of (r, t) \<Rightarrow> bnd (write_account a (x\<lparr>ac_data := t\<rparr>)) (\<lambda>_. lift r)))"

definition channel_get :: "node_ctx \<Rightarrow> bytes \<Rightarrow> bytes \<Rightarrow> expr option act" where
  "channel_get cx a k =
     bnd (account_of a) (\<lambda>x.
       (case tree_get cx (ac_channels x) k of
          (r, t) \<Rightarrow> bnd (write_account a (x\<lparr>ac_channels := t\<rparr>)) (\<lambda>_. lift (map_sum id fst r))))"

definition channel_put :: "node_ctx \<Rightarrow> bytes \<Rightarrow> bytes \<Rightarrow> rvalue \<Rightarrow> unit act" where
  "channel_put cx a k v =
     bnd (account_of a) (\<lambda>x.
       (case tree_put cx (ac_channels x) k v of
          (r, t) \<Rightarrow> bnd (write_account a (x\<lparr>ac_channels := t\<rparr>)) (\<lambda>_. lift r)))"

text \<open>\<open>account.data_hash = account.data.root_hash or ZERO32\<close>, and the same for the channels.\<close>

definition sync_data_hash :: "bytes \<Rightarrow> unit act" where
  "sync_data_hash a = change_account a (\<lambda>x. x\<lparr>ac_data_hash := or_zero32 (root_hash (ac_data x))\<rparr>)"

definition sync_channels_hash :: "bytes \<Rightarrow> unit act" where
  "sync_channels_hash a = change_account a (\<lambda>x. x\<lparr>ac_channels_hash := or_zero32 (root_hash (ac_channels x))\<rparr>)"

section \<open>Reading the data of a transaction\<close>

fun data_nodes :: "(bytes \<Rightarrow> bytes) \<Rightarrow> expr \<Rightarrow> expr list" where
  "data_nodes H (Link v h t hh th) =
     (if get_expr_builtin_tag H (Link v h t hh th) = u ''link'' then
        (case h of None \<Rightarrow> [] | Some x \<Rightarrow> [x]) @ (case t of None \<Rightarrow> [] | Some x \<Rightarrow> data_nodes H x)
      else [])"
| "data_nodes H _ = []"

text \<open>\<open>get_expr_list\<close> of a cell that is at hand.\<close>

fun expand_list :: "(bytes \<Rightarrow> bytes) \<Rightarrow> (bytes \<Rightarrow> expr option) \<Rightarrow> nat \<Rightarrow> expr \<Rightarrow> exc + expr option" where
  "expand_list H fetch 0 e = Inl OutOfFuel"
| "expand_list H fetch (Suc n) e =
     (case e of
        Link v h t hh th \<Rightarrow>
          if get_expr_builtin_tag H e \<noteq> u ''link'' then Inr (Some e)
          else
            (case th of
               Some x \<Rightarrow>
                 if x = ZERO32 then Inr (Some (Link v h None hh None))
                 else
                   (case fetch x of
                      None \<Rightarrow> Inr None
                    | Some y \<Rightarrow>
                        bind_exc (expand_list H fetch n y) (\<lambda>r.
                          Inr (map_option (\<lambda>y'. Link v h (Some y') hh None) r)))
             | None \<Rightarrow>
                 (case t of
                    None \<Rightarrow> Inr (Some e)
                  | Some y \<Rightarrow>
                      bind_exc (expand_list H fetch n y) (\<lambda>r.
                        Inr (map_option (\<lambda>y'. Link v h (Some y') hh None) r))))
      | _ \<Rightarrow> Inr (Some e))"

definition list_of :: "node_ctx \<Rightarrow> bytes option \<Rightarrow> expr \<Rightarrow> exc + expr option" where
  "list_of cx b e = expand_list (cx_hash cx) (fetch_in cx b) (cx_fuel cx) e"

definition inner_exprs :: "node_ctx \<Rightarrow> bytes option \<Rightarrow> expr \<Rightarrow> exc + expr list \<times> bytes list" where
  "inner_exprs cx b e =
     (case resolve_inner_exprs (fetch_in cx b) (cx_fuel cx) e of None \<Rightarrow> Inl OutOfFuel | Some r \<Rightarrow> Inr r)"

text \<open>\<open>resolve_inner_exprs\<close> puts the parts it fetched into the cells: the expr as it is afterwards.\<close>

fun load_inner :: "(bytes \<Rightarrow> expr option) \<Rightarrow> nat \<Rightarrow> expr \<Rightarrow> expr" where
  "load_inner fetch (Suc n) (Link v h t hh th) =
     (let part = (\<lambda>c r. case c of
                     Some x \<Rightarrow> (Some (load_inner fetch n x), r)
                   | None \<Rightarrow> (case Option.bind r fetch of Some x \<Rightarrow> (Some (load_inner fetch n x), None) | None \<Rightarrow> (None, r)));
          (h', hh') = (if h = None \<and> v \<noteq> None then (h, hh) else part h hh);
          (t', th') = part t th
      in Link v h' t' hh' th')"
| "load_inner fetch n e = e"

definition load_whole :: "node_ctx \<Rightarrow> bytes option \<Rightarrow> expr \<Rightarrow> expr" where
  "load_whole cx b e = load_inner (fetch_in cx b) (cx_fuel cx) e"

end
