(* ===== verification/Ledger_Laws.thy ===== *)
theory Ledger_Laws
  imports Ledger
begin

text \<open>
  Laws of the actions: runs that return, triples over them, and the balances.

  \<open>R\<close> is the trie of accounts as it is stored, written out (\<open>Radix_Tree\<close>). The worth of an address is
  the balance of its account in the cache, else in the trie, and 0 if it has no account that can be
  read. Getting an account moves it into the cache, which changes no worth: reads of the trie keep
  what it holds (\<open>Radix_Laws\<close>).
\<close>

section \<open>Runs that return\<close>

lemma act_simps [simp]:
  "ret x s = (Inr x, s)" "raise e s = (Inl e, s)" "lift r s = (r, s)" "update f s = (Inr (), f s)"
  "reads g s = (Inr (g s), s)"
  by (simp_all add: ret_def raise_def lift_def update_def reads_def)

lemma bnd_Inr: "bnd m f s = (Inr y, s') \<longleftrightarrow> (\<exists>x s1. m s = (Inr x, s1) \<and> f x s1 = (Inr y, s'))"
  by (auto simp: bnd_def split: prod.split sum.split)

lemma bnd_runs: "m s = (Inr x, s') \<Longrightarrow> bnd m f s = f x s'"
  by (simp add: bnd_def)

lemma lift_Inr: "r = Inr x \<Longrightarrow> lift r s = (Inr x, s)"
  by (simp add: lift_def)

definition hoare :: "(block \<Rightarrow> bool) \<Rightarrow> 'a act \<Rightarrow> ('a \<Rightarrow> block \<Rightarrow> bool) \<Rightarrow> bool" where
  "hoare P m Q \<longleftrightarrow> (\<forall>s x s'. P s \<longrightarrow> m s = (Inr x, s') \<longrightarrow> Q x s')"

lemma hoare_bnd: "hoare P m Q \<Longrightarrow> (\<And>x. hoare (Q x) (f x) S) \<Longrightarrow> hoare P (bnd m f) S"
  by (fastforce simp: hoare_def bnd_Inr)

lemma hoare_ret: "(\<And>s. P s \<Longrightarrow> Q x s) \<Longrightarrow> hoare P (ret x) Q"
  by (simp add: hoare_def)

lemma hoare_lift: "(\<And>s x. P s \<Longrightarrow> r = Inr x \<Longrightarrow> Q x s) \<Longrightarrow> hoare P (lift r) Q"
  by (simp add: hoare_def)

lemma hoare_raise: "hoare P (raise e) Q"
  by (simp add: hoare_def)

lemma hoare_if: "(b \<Longrightarrow> hoare P m Q) \<Longrightarrow> (\<not> b \<Longrightarrow> hoare P m' Q) \<Longrightarrow> hoare P (if b then m else m') Q"
  by simp

lemma hoare_weaken: "hoare P m Q \<Longrightarrow> (\<And>s. P' s \<Longrightarrow> P s) \<Longrightarrow> (\<And>x s. Q x s \<Longrightarrow> Q' x s) \<Longrightarrow> hoare P' m Q'"
  unfolding hoare_def by blast

lemma hoare_option:
  "(x = None \<Longrightarrow> hoare P m Q) \<Longrightarrow> (\<And>y. x = Some y \<Longrightarrow> hoare P (f y) Q) \<Longrightarrow>
     hoare P (case x of None \<Rightarrow> m | Some y \<Rightarrow> f y) Q"
  by (cases x) simp_all

lemma hoare_sum:
  "(\<And>e. x = Inl e \<Longrightarrow> hoare P (g e) Q) \<Longrightarrow> (\<And>y. x = Inr y \<Longrightarrow> hoare P (f y) Q) \<Longrightarrow>
     hoare P (case x of Inl e \<Rightarrow> g e | Inr y \<Rightarrow> f y) Q"
  by (cases x) simp_all

lemma hoare_prod: "(\<And>a b. x = (a, b) \<Longrightarrow> hoare P (f a b) Q) \<Longrightarrow> hoare P (case x of (a, b) \<Rightarrow> f a b) Q"
  by (cases x) simp

section \<open>Reading the trie of accounts\<close>

definition stored_value :: "node_ctx \<Rightarrow> rtree option \<Rightarrow> bytes \<Rightarrow> expr option \<times> bytes option" where
  "stored_value cx R k =
     (case look_root R (bits_of k) of
        None \<Rightarrow> (None, None)
      | Some n \<Rightarrow>
          (case rn_value n of
             None \<Rightarrow> (None, None)
           | Some (VHash h) \<Rightarrow> (cx_get cx h (value_block n), value_block n)
           | Some (VExpr e) \<Rightarrow> (Some e, value_block n)))"

definition tree_ready :: "node_ctx \<Rightarrow> rtree option \<Rightarrow> radix_tree \<Rightarrow> bool" where
  "tree_ready cx R t \<longleftrightarrow>
     holds (cx_hash cx) (cx_reader cx) t R \<and> told_apart (cx_hash cx) R \<and> root_depth R \<le> cx_fuel cx"

lemma tree_get_ready:
  assumes "tree_ready cx R t"
  obtains t' where "tree_get cx t k = (Inr (stored_value cx R k), t')" "tree_ready cx R t'"
proof -
  obtain t' where t': "find_node (cx_reader cx) (cx_fuel cx) t k 0 = Some (Inr (look_root R (bits_of k)), t')"
    "holds (cx_hash cx) (cx_reader cx) t' R"
    using find_node_holds assms unfolding tree_ready_def by blast
  then show ?thesis
    using assms that [of t']
    by (simp add: tree_get_def on_tree_def get_with_block_def map_run_def stored_value_def tree_ready_def)
qed

definition account_at :: "node_ctx \<Rightarrow> rtree option \<Rightarrow> accounts \<Rightarrow> bytes \<Rightarrow> exc + account option" where
  "account_at cx R s a =
     (case map_of (as_cache s) a of
        Some x \<Rightarrow> Inr (Some x)
      | None \<Rightarrow>
          (case stored_value cx R a of
             (None, _) \<Rightarrow> Inr None
           | (Some e, b) \<Rightarrow>
               map_sum id (map_option (\<lambda>x. x\<lparr>ac_loaded := Some (state_key x)\<rparr>)) (read_account cx e b)))"

lemma get_account_ready:
  assumes "tree_ready cx R (as_trie s)"
  obtains s' where "get_account cx a s = (account_at cx R s a, s')" "tree_ready cx R (as_trie s')"
    "\<And>x. account_at cx R s' x = account_at cx R s x" "as_involved s' = as_involved s"
    "\<And>x. map_of (as_cache s') x =
       (if x = a then (case account_at cx R s a of Inr r \<Rightarrow> r | Inl _ \<Rightarrow> None) else map_of (as_cache s) x)"
proof (cases "map_of (as_cache s) a")
  case (Some x)
  with assms show ?thesis
    by (intro that [of s]) (auto simp: get_account_def account_at_def)
next
  case None
  obtain t' where t: "tree_get cx (as_trie s) a = (Inr (stored_value cx R a), t')" "tree_ready cx R t'"
    using tree_get_ready [OF assms] by blast
  obtain v b where v: "stored_value cx R a = (v, b)" by fastforce
  show ?thesis
  proof (cases "\<exists>e x. v = Some e \<and> read_account cx e b = Inr (Some x)")
    case True
    then obtain e x where e: "v = Some e" "read_account cx e b = Inr (Some x)" by blast
    let ?x = "x\<lparr>ac_loaded := Some (state_key x)\<rparr>"
    show ?thesis
      by (rule that [of "s\<lparr>as_trie := t', as_cache := AList.update a ?x (as_cache s)\<rparr>"])
        (use None t v e in \<open>auto simp: get_account_def account_at_def Let_def update_conv'\<close>)
  next
    case False
    then consider "v = None" | e x where "v = Some e" "read_account cx e b = Inl x"
      | e where "v = Some e" "read_account cx e b = Inr None"
      by (metis not_None_eq obj_sumE)
    then have "get_account cx a s = (account_at cx R s a, s\<lparr>as_trie := t'\<rparr>)
        \<and> (case account_at cx R s a of Inr r \<Rightarrow> r | Inl _ \<Rightarrow> None) = None"
      by cases (use None t v in \<open>simp_all add: get_account_def account_at_def\<close>)
    then show ?thesis
      using t(2) None by (intro that [of "s\<lparr>as_trie := t'\<rparr>"]) (auto simp: account_at_def)
  qed
qed

section \<open>Worth\<close>

definition worth :: "node_ctx \<Rightarrow> rtree option \<Rightarrow> block \<Rightarrow> bytes \<Rightarrow> int" where
  "worth cx R s a =
     (case account_at cx R (bk_accounts s) a of Inr (Some x) \<Rightarrow> ac_balance x | _ \<Rightarrow> 0)"

definition ready :: "node_ctx \<Rightarrow> rtree option \<Rightarrow> block \<Rightarrow> bool" where
  "ready cx R s \<longleftrightarrow> tree_ready cx R (as_trie (bk_accounts s))"

lemma worth_cached: "cached s a = Some x \<Longrightarrow> worth cx R s a = ac_balance x"
  by (simp add: worth_def account_at_def cached_def)

definition put_cached :: "bytes \<Rightarrow> account \<Rightarrow> block \<Rightarrow> block" where
  "put_cached a x s = s\<lparr>bk_accounts := (bk_accounts s)\<lparr>as_cache := AList.update a x (as_cache (bk_accounts s))\<rparr>\<rparr>"

lemma cached_put [simp]: "cached (put_cached a x s) b = (if b = a then Some x else cached s b)"
  by (simp add: cached_def put_cached_def update_conv')

lemma worth_put [simp]: "worth cx R (put_cached a x s) b = (if b = a then ac_balance x else worth cx R s b)"
  by (simp add: worth_def account_at_def put_cached_def update_conv')

lemma ready_put [simp]: "ready cx R (put_cached a x s) = ready cx R s"
  by (simp add: ready_def put_cached_def)

lemma account_of_eq: "account_of a s = (case cached s a of None \<Rightarrow> (Inl AttributeError, s) | Some x \<Rightarrow> (Inr x, s))"
  by (simp add: account_of_def)

lemma write_account_eq: "write_account a x s = (Inr (), put_cached a x s)"
  by (simp add: write_account_def put_cached_def)

lemma change_account_Inr:
  "change_account a f s = (Inr r, s') \<longleftrightarrow> (\<exists>x. cached s a = Some x \<and> s' = put_cached a (f x) s)"
  by (auto simp: change_account_def bnd_Inr account_of_eq write_account_eq split: option.splits)

lemma worth_store:
  "worth cx R (s\<lparr>bk_accounts := set_account a x (bk_accounts s)\<rparr>) b = (if b = a then ac_balance x else worth cx R s b)"
  by (simp add: worth_def account_at_def set_account_def update_conv')

lemma ready_store: "ready cx R (s\<lparr>bk_accounts := set_account a x (bk_accounts s)\<rparr>) = ready cx R s"
  by (simp add: ready_def set_account_def)

lemma load_account_ready:
  assumes "ready cx R s" "load_account cx a s = (Inr found, s')"
  shows "ready cx R s'" "worth cx R s' = worth cx R s" "found \<longleftrightarrow> cached s' a \<noteq> None"
    "\<not> found \<Longrightarrow> worth cx R s a = 0" "\<And>b. cached s b \<noteq> None \<Longrightarrow> cached s' b = cached s b"
    "bk_accounts (s'\<lparr>bk_accounts := bk_accounts s\<rparr>) = bk_accounts s" "s'\<lparr>bk_accounts := bk_accounts s\<rparr> = s"
proof -
  obtain t where t: "get_account cx a (bk_accounts s) = (account_at cx R (bk_accounts s) a, t)"
    "tree_ready cx R (as_trie t)" "\<And>x. account_at cx R t x = account_at cx R (bk_accounts s) x"
    "\<And>x. map_of (as_cache t) x =
       (if x = a then (case account_at cx R (bk_accounts s) a of Inr r \<Rightarrow> r | Inl _ \<Rightarrow> None)
        else map_of (as_cache (bk_accounts s)) x)"
    using get_account_ready assms(1) unfolding ready_def by blast
  with assms(2) obtain r where r: "account_at cx R (bk_accounts s) a = Inr r" "found = (r \<noteq> None)"
    "s' = s\<lparr>bk_accounts := t\<rparr>"
    by (auto simp: load_account_def split: sum.splits)
  show "ready cx R s'" "worth cx R s' = worth cx R s" "found \<longleftrightarrow> cached s' a \<noteq> None"
    "\<not> found \<Longrightarrow> worth cx R s a = 0"
    using t r by (auto simp: ready_def worth_def cached_def fun_eq_iff)
  show "cached s' b = cached s b" if "cached s b \<noteq> None" for b
    using that t(4) r by (auto simp: cached_def account_at_def)
  show "bk_accounts (s'\<lparr>bk_accounts := bk_accounts s\<rparr>) = bk_accounts s" "s'\<lparr>bk_accounts := bk_accounts s\<rparr> = s"
    using r(3) by simp_all
qed

section \<open>The supply\<close>

text \<open>Finitely many addresses have an account, so all the balances have a sum.\<close>

lemma finite_look: "finite {ks. look T ks \<noteq> None}"
proof (induction T)
  case (RT n l r)
  let ?below = "\<lambda>b c. (\<lambda>ks. label n @ b # ks) ` {ks. \<exists>T. c = Some T \<and> look T ks \<noteq> None}"
  have fin: "finite (?below b c)" if "\<And>T. c = Some T \<Longrightarrow> finite {ks. look T ks \<noteq> None}" for b c
    using that by (cases c) simp_all
  have "ks \<in> insert (label n) (?below False l \<union> ?below True r)" if "look (RT n l r) ks \<noteq> None" for ks
  proof (cases "take (length (label n)) ks = label n")
    case True
    define rest where "rest = drop (length (label n)) ks"
    have ks: "ks = label n @ rest" using True append_take_drop_id [of "length (label n)" ks] by (simp add: rest_def)
    then show ?thesis using that
      by (cases rest; cases "hd rest")
        (auto simp: look.simps split: option.splits)
  next
    case False
    then show ?thesis using that by (subst (asm) look.simps) simp
  qed
  then have "{ks. look (RT n l r) ks \<noteq> None} \<subseteq> insert (label n) (?below False l \<union> ?below True r)" by blast
  moreover have "finite (insert (label n) (?below False l \<union> ?below True r))"
    using RT fin [of l False] fin [of r True] by auto
  ultimately show ?case by (rule finite_subset)
qed

definition support :: "node_ctx \<Rightarrow> rtree option \<Rightarrow> block \<Rightarrow> bytes set" where
  "support cx R s = {a. worth cx R s a \<noteq> 0}"

lemma finite_support: "finite (support cx R s)"
proof -
  have "finite {a. look_root R (bits_of a) \<noteq> None}"
  proof (cases R)
    case (Some T)
    have "inj bits_of" by (simp add: inj_def bits_of_inj)
    then have "finite (bits_of -` {ks. look T ks \<noteq> None})" by (intro finite_vimageI finite_look) (simp add: inj_on_def)
    then show ?thesis by (simp add: Some look_root_def vimage_def)
  qed (simp add: look_root_def)
  moreover have "support cx R s \<subseteq> fst ` set (as_cache (bk_accounts s)) \<union> {a. look_root R (bits_of a) \<noteq> None}"
    by (auto simp: support_def worth_def account_at_def stored_value_def map_of_eq_None_iff
        split: option.splits sum.splits)
  ultimately show ?thesis by (meson finite_UnI finite_imageI finite_set finite_subset)
qed

definition coins :: "node_ctx \<Rightarrow> rtree option \<Rightarrow> block \<Rightarrow> int" where
  "coins cx R s = (\<Sum>a\<in>support cx R s. worth cx R s a)"

lemma coins_over: "finite A \<Longrightarrow> support cx R s \<subseteq> A \<Longrightarrow> coins cx R s = (\<Sum>a\<in>A. worth cx R s a)"
  unfolding coins_def by (rule sum.mono_neutral_left) (auto simp: support_def)

definition sums_to :: "node_ctx \<Rightarrow> rtree option \<Rightarrow> int \<Rightarrow> block \<Rightarrow> bool" where
  "sums_to cx R c s \<longleftrightarrow> ready cx R s \<and> coins cx R s = c"

named_theorems sums_rules \<open>triples that say how an action changes the balances\<close>

lemma coins_put:
  "coins cx R (put_cached a x s) = coins cx R s + (ac_balance x - worth cx R s a)"
proof -
  let ?A = "insert a (support cx R s)"
  have fin: "finite ?A" using finite_support by simp
  have "coins cx R (put_cached a x s) = (\<Sum>b\<in>?A. worth cx R (put_cached a x s) b)"
    by (rule coins_over [OF fin]) (auto simp: support_def)
  also have "\<dots> = ac_balance x + (\<Sum>b\<in>?A - {a}. worth cx R s b)"
    using fin by (simp add: sum.remove [OF fin, of a])
  also have "(\<Sum>b\<in>?A - {a}. worth cx R s b) = (\<Sum>b\<in>?A. worth cx R s b) - worth cx R s a"
    using fin by (simp add: sum.remove [OF fin, of a])
  also have "(\<Sum>b\<in>?A. worth cx R s b) = coins cx R s"
    by (rule coins_over [OF fin, symmetric]) auto
  finally show ?thesis by simp
qed

lemma coins_same: "worth cx R s' = worth cx R s \<Longrightarrow> coins cx R s' = coins cx R s"
  by (simp add: coins_def support_def)

lemma coins_store:
  "coins cx R (s\<lparr>bk_accounts := set_account a x (bk_accounts s)\<rparr>) = coins cx R (put_cached a x s)"
  by (rule coins_same) (simp add: worth_store fun_eq_iff)

lemma worth_same: "bk_accounts s' = bk_accounts s \<Longrightarrow> worth cx R s' = worth cx R s"
  by (simp add: worth_def fun_eq_iff)

lemma sums_change:
  assumes "\<And>x. ac_balance (f x) = ac_balance x + n"
  shows "hoare (sums_to cx R c) (change_account a f) (\<lambda>_. sums_to cx R (c + n))"
  using assms
  by (auto simp: hoare_def change_account_Inr sums_to_def coins_put worth_cached)

lemma sums_add_balance [sums_rules]:
  "hoare (sums_to cx R c) (add_balance a n) (\<lambda>_. sums_to cx R (c + n))"
  unfolding add_balance_def by (rule sums_change) simp_all

lemma sums_change_same:
  assumes "\<And>x. ac_balance (f x) = ac_balance x"
  shows "hoare (sums_to cx R c) (change_account a f) (\<lambda>_. sums_to cx R c)"
  using sums_change [of f 0 cx R c a] assms by simp

lemma sums_sync [sums_rules]:
  "hoare (sums_to cx R c) (sync_data_hash a) (\<lambda>_. sums_to cx R c)"
  "hoare (sums_to cx R c) (sync_channels_hash a) (\<lambda>_. sums_to cx R c)"
  unfolding sync_data_hash_def sync_channels_hash_def by (rule sums_change_same; simp)+

lemma sums_tree [sums_rules]:
  shows "hoare (sums_to cx R c) (data_get cx a k) (\<lambda>_. sums_to cx R c)"
    and "hoare (sums_to cx R c) (data_put cx a k v) (\<lambda>_. sums_to cx R c)"
    and "hoare (sums_to cx R c) (channel_get cx a k) (\<lambda>_. sums_to cx R c)"
    and "hoare (sums_to cx R c) (channel_put cx a k v) (\<lambda>_. sums_to cx R c)"
  by (auto simp: hoare_def data_get_def data_put_def channel_get_def channel_put_def bnd_Inr account_of_eq
      write_account_eq sums_to_def coins_put worth_cached split: option.splits prod.splits)

lemma sums_load [sums_rules]:
  "hoare (sums_to cx R c) (load_account cx a)
     (\<lambda>found s. sums_to cx R c s \<and> (\<not> found \<longrightarrow> worth cx R s a = 0))"
  using load_account_ready [of cx R] by (fastforce simp: hoare_def sums_to_def coins_def support_def)

lemma sums_touch [sums_rules]:
  "hoare (sums_to cx R c) (touch_account a) (\<lambda>_. sums_to cx R c)"
  by (auto simp: hoare_def touch_account_def bnd_Inr account_of_eq store_account_def sums_to_def ready_store
      coins_store coins_put worth_cached split: option.splits)

lemma sums_store_new [sums_rules]:
  "hoare (\<lambda>s. sums_to cx R c s \<and> worth cx R s a = 0) (store_account a x)
     (\<lambda>_. sums_to cx R (c + ac_balance x))"
  by (auto simp: hoare_def store_account_def sums_to_def ready_store coins_store coins_put)

lemma sums_update:
  "(\<And>s. bk_accounts (f s) = bk_accounts s) \<Longrightarrow> hoare (sums_to cx R c) (update f) (\<lambda>_. sums_to cx R c)"
  by (simp add: hoare_def sums_to_def ready_def coins_def support_def worth_def)

lemma sums_add_pending [sums_rules]:
  "hoare (sums_to cx R c) (add_pending es) (\<lambda>_. sums_to cx R c)"
  unfolding add_pending_def by (rule sums_update) simp

lemma sums_reads [sums_rules]:
  "hoare (sums_to cx R c) (reads f) (\<lambda>_. sums_to cx R c)"
  by (auto simp: hoare_def)

lemma sums_lift [sums_rules]:
  "hoare (sums_to cx R c) (lift r) (\<lambda>_. sums_to cx R c)"
  by (auto simp: hoare_def)

lemma sums_account_of [sums_rules]:
  "hoare (sums_to cx R c) (account_of a) (\<lambda>x s. sums_to cx R c s \<and> worth cx R s a = ac_balance x)"
  by (auto simp: hoare_def account_of_eq worth_cached split: option.splits)

text \<open>A snapshot that is restored gives the balances of its time.\<close>

lemma map_of_clone: "map_of (map (\<lambda>(a, x). (a, clone_account x)) xs) a = map_option clone_account (map_of xs a)"
  by (induction xs) auto

lemma clone_balance [simp]: "ac_balance (clone_account x) = ac_balance x"
  by (simp add: clone_account_def)

lemma worth_restore: "worth cx R (restore (snapshot s0) s) a = worth cx R s0 a"
  by (cases "map_of (as_cache (bk_accounts s0)) a")
    (simp_all add: worth_def account_at_def restore_def snapshot_def map_of_clone)

lemma restore_sums:
  "sums_to cx R c s0 \<Longrightarrow> ready cx R s \<Longrightarrow> sums_to cx R c (restore (snapshot s0) s)"
  by (simp add: sums_to_def ready_def coins_def support_def worth_restore) (simp add: restore_def snapshot_def)

end
