(* ===== verification/Channels.thy ===== *)
theory Channels
  imports Ledger_Laws
begin

text \<open>
  Payment channels: \<open>consensus/transaction/channel/\<close>.

  A payer locks funds under the address of a counterparty. Until the window ends the counterparty
  withdraws with vouchers that the payer signed; after it the payer takes the rest back. The rules of
  the three handlers are functions of their own; the handlers read and write the cells around them.
  The fields of a channel are payloads as they were read: one that is no number raises \<open>TypeError\<close>
  before the rule is applied.
\<close>

section \<open>Channels and their cells\<close>

record channel =
  ch_balance :: int
  ch_counter :: int
  ch_window :: int

definition channel_to_expr :: "channel \<Rightarrow> expr" where
  "channel_to_expr c =
     cons (int_expr (ch_balance c)) (cons (int_expr (ch_counter c)) (cons (int_expr (ch_window c)) NIL))"

type_synonym channel_fields = "payload option \<times> payload option \<times> payload option"

definition channel_from_storage :: "node_ctx \<Rightarrow> expr option \<Rightarrow> exc + channel_fields option" where
  "channel_from_storage cx head_cell =
     (let tag = get_expr_builtin_tag (cx_hash cx) in
      case head_cell of
        None \<Rightarrow> Inr None
      | Some e \<Rightarrow>
          bind_exc (list_of cx None e) (\<lambda>header.
            case header of
              None \<Rightarrow> Inr None
            | Some e' \<Rightarrow>
                if tag e' \<noteq> u ''link'' then Inr None
                else
                  bind_exc (list_items cx None e') (\<lambda>(items, missed).
                    if missed \<noteq> [] then Inr None
                    else
                      (case items of
                         [x, y, z] \<Rightarrow>
                           if tag x = u ''int'' \<and> tag y = u ''int'' \<and> tag z = u ''int''
                           then Inr (Some (value_of x, value_of y, value_of z))
                           else Inr None
                       | _ \<Rightarrow> Inr None))))"

definition as_int :: "payload option \<Rightarrow> exc + int" where
  "as_int p = (case p of Some (PInt n) \<Rightarrow> Inr n | _ \<Rightarrow> Inl TypeError)"

definition as_channel :: "channel_fields \<Rightarrow> exc + channel" where
  "as_channel fs =
     (case fs of (b, c, w) \<Rightarrow>
        bind_exc (as_int w) (\<lambda>w. bind_exc (as_int c) (\<lambda>c. bind_exc (as_int b) (\<lambda>b.
          Inr \<lparr>ch_balance = b, ch_counter = c, ch_window = w\<rparr>))))"

section \<open>The rules\<close>

definition update_rule :: "int option \<Rightarrow> int \<Rightarrow> channel \<Rightarrow> channel option" where
  "update_rule new_window amount c =
     (let w = (case new_window of None \<Rightarrow> ch_window c | Some x \<Rightarrow> x) in
      if w < ch_window c then None
      else Some \<lparr>ch_balance = (if amount > 0 then ch_balance c + amount else ch_balance c),
                 ch_counter = ch_counter c + 1, ch_window = w\<rparr>)"

definition withdraw_rule :: "int \<Rightarrow> int \<Rightarrow> int \<Rightarrow> channel \<Rightarrow> channel option" where
  "withdraw_rule time counter amount c =
     (if time \<ge> ch_window c then None
      else if counter \<le> ch_counter c then None
      else if amount > ch_balance c then None
      else Some \<lparr>ch_balance = ch_balance c - amount, ch_counter = counter, ch_window = ch_window c\<rparr>)"

definition close_rule :: "int \<Rightarrow> channel \<Rightarrow> channel option" where
  "close_rule time c =
     (if ch_window c \<ge> time then None
      else Some \<lparr>ch_balance = 0, ch_counter = ch_counter c + 1, ch_window = ch_window c\<rparr>)"

section \<open>The handlers\<close>

definition read_channel :: "node_ctx \<Rightarrow> bytes \<Rightarrow> bytes \<Rightarrow> channel_fields option act" where
  "read_channel cx owner k =
     bnd (channel_get cx owner k) (\<lambda>cell. lift (channel_from_storage cx cell))"

text \<open>What the three handlers do with a channel that changed; \<open>pay\<close> is done where the code does it.\<close>

definition write_channel :: "node_ctx \<Rightarrow> bytes \<Rightarrow> bytes \<Rightarrow> channel \<Rightarrow> unit act \<Rightarrow> bool act" where
  "write_channel cx owner k c pay =
     (let e = channel_to_expr c; h = expr_hash (cx_hash cx) e in
      if h = [] \<or> h = ZERO32 then ret False
      else
        bnd (channel_put cx owner k (VHash h)) (\<lambda>_.
        bnd (sync_channels_hash owner) (\<lambda>_.
        bnd pay (\<lambda>_.
        bnd (lift (inner_exprs cx None e)) (\<lambda>(es, _).
        bnd (add_pending es) (\<lambda>_. ret True))))))"

definition handle_channel_update ::
  "node_ctx \<Rightarrow> bytes \<Rightarrow> bytes \<Rightarrow> int option \<Rightarrow> int \<Rightarrow> bool act" where
  "handle_channel_update cx sender counterparty new_window amount =
     (if amount < 0 then ret False
      else
        bnd (read_channel cx sender counterparty) (\<lambda>state.
          case state of
            None \<Rightarrow> ret False
          | Some fs \<Rightarrow>
              bnd (lift (as_channel fs)) (\<lambda>c.
                case update_rule new_window amount c of
                  None \<Rightarrow> ret False
                | Some c' \<Rightarrow> write_channel cx sender counterparty c' (ret ()))))"

definition withdraw_message :: "int \<Rightarrow> bytes \<Rightarrow> bytes \<Rightarrow> int \<Rightarrow> int \<Rightarrow> bytes option" where
  "withdraw_message chain_id payer recipient counter amount =
     (case (to_bytes_unsigned_le chain_id 8, to_bytes_unsigned_le counter 8, to_bytes_unsigned_le amount 8) of
        (Some a, Some b, Some c) \<Rightarrow> Some ([2] @ a @ payer @ recipient @ b @ c)
      | _ \<Rightarrow> None)"

definition handle_channel_withdraw ::
  "node_ctx \<Rightarrow> (bytes \<Rightarrow> bytes \<Rightarrow> bytes \<Rightarrow> bool) \<Rightarrow> transaction \<Rightarrow> bool act" where
  "handle_channel_withdraw cx verify tx =
     (let tag = get_expr_builtin_tag (cx_hash cx); payer = tx_recipient tx; recipient = tx_sender tx in
      case data_nodes (cx_hash cx) (tx_data tx) of
        [counter_node, amount_node, sig_node] \<Rightarrow>
          if tag counter_node \<noteq> u ''int'' \<or> tag amount_node \<noteq> u ''int'' \<or> tag sig_node \<noteq> u ''bytes''
          then ret False
          else
            bnd (lift (as_int (value_of amount_node))) (\<lambda>amount.
            if amount < 0 then ret False
            else
              (case (as_int (value_of counter_node), value_of sig_node) of
                 (Inr counter, Some (PBytes sig)) \<Rightarrow>
                   (case withdraw_message (tx_chain_id tx) payer recipient counter amount of
                      None \<Rightarrow> ret False
                    | Some msg \<Rightarrow>
                        if \<not> verify payer msg sig then ret False
                        else
                          bnd (load_account cx payer) (\<lambda>found. if \<not> found then ret False
                          else
                            bnd (read_channel cx payer recipient) (\<lambda>state.
                              case state of
                                None \<Rightarrow> ret False
                              | Some fs \<Rightarrow>
                                  bnd (reads bk_previous) (\<lambda>prev.
                                    case prev of
                                      None \<Rightarrow> raise AttributeError
                                    | Some b \<Rightarrow>
                                        (case pv_timestamp b of
                                           None \<Rightarrow> ret False
                                         | Some time \<Rightarrow>
                                             bnd (lift (as_channel fs)) (\<lambda>c.
                                               case withdraw_rule time counter amount c of
                                                 None \<Rightarrow> ret False
                                               | Some c' \<Rightarrow>
                                                   bnd (write_channel cx payer recipient c'
                                                          (add_balance recipient amount)) (\<lambda>done.
                                                   if \<not> done then ret False
                                                   else bnd (touch_account payer) (\<lambda>_. ret True))))))))
               | _ \<Rightarrow> ret False))
      | _ \<Rightarrow> ret False)"

definition handle_channel_close :: "node_ctx \<Rightarrow> bytes \<Rightarrow> bytes \<Rightarrow> bool act" where
  "handle_channel_close cx sender counterparty =
     bnd (reads bk_previous) (\<lambda>prev.
       case Option.bind prev pv_timestamp of
         None \<Rightarrow> ret False
       | Some time \<Rightarrow>
           bnd (read_channel cx sender counterparty) (\<lambda>state.
             case state of
               None \<Rightarrow> ret False
             | Some fs \<Rightarrow>
                 bnd (lift (as_channel fs)) (\<lambda>c.
                   case close_rule time c of
                     None \<Rightarrow> ret False
                   | Some c' \<Rightarrow>
                       bnd (add_balance sender (ch_balance c)) (\<lambda>_.
                         write_channel cx sender counterparty c' (ret ())))))"

section \<open>The life of a channel\<close>

text \<open>
  The operations on one channel in the order of the chain, each with the guards of its handler, with
  what was locked, what vouchers paid, what the payer took back, and the counters of the vouchers that
  were paid.
\<close>

datatype channel_op =
    ChUpdate "int option" int
  | ChWithdraw int int int
  | ChClose int

definition channel_step :: "channel_op \<Rightarrow> channel \<Rightarrow> (channel \<times> int \<times> int \<times> int \<times> int list) option" where
  "channel_step x c =
     (case x of
        ChUpdate w n \<Rightarrow>
          if n < 0 then None else map_option (\<lambda>c'. (c', n, 0, 0, [])) (update_rule w n c)
      | ChWithdraw time k n \<Rightarrow>
          if n < 0 then None else map_option (\<lambda>c'. (c', 0, n, 0, [k])) (withdraw_rule time k n c)
      | ChClose time \<Rightarrow> map_option (\<lambda>c'. (c', 0, 0, ch_balance c, [])) (close_rule time c))"

fun channel_run :: "channel_op list \<Rightarrow> channel \<Rightarrow> channel \<times> int \<times> int \<times> int \<times> int list" where
  "channel_run [] c = (c, 0, 0, 0, [])"
| "channel_run (x # xs) c =
     (case channel_step x c of
        None \<Rightarrow> channel_run xs c
      | Some (c', l, p, b, ks) \<Rightarrow>
          (case channel_run xs c' of
             (d, locked, paid, taken, counters) \<Rightarrow> (d, l + locked, p + paid, b + taken, ks @ counters)))"

lemma channel_step_safe:
  assumes "channel_step x c = Some (d, l, p, b, ks)" "0 \<le> ch_balance c"
  shows "0 \<le> ch_balance d" "ch_balance d = ch_balance c + l - p - b" "0 \<le> p"
    "ch_window c \<le> ch_window d" "ch_counter c < ch_counter d" "ks = [] \<or> ks = [ch_counter d]"
  using assms
  by (auto simp: channel_step_def update_rule_def withdraw_rule_def close_rule_def Let_def
      split: channel_op.splits option.splits if_splits)

text \<open>C34: the funds of a channel are safe. Whatever operations come, in whatever order and at whatever
  times, the balance of a channel never becomes negative and is what was there, plus what was locked,
  less what vouchers paid and what the payer took back; and the counters of the vouchers that are paid
  rise strictly, so that no voucher is paid twice.\<close>

theorem channel_funds_safe:
  assumes "0 \<le> ch_balance c" and "channel_run xs c = (d, locked, paid, taken, counters)"
  shows "0 \<le> ch_balance d \<and> ch_balance d = ch_balance c + locked - paid - taken
     \<and> sorted_wrt (<) (ch_counter c # counters) \<and> ch_window c \<le> ch_window d"
  using assms
proof (induction xs arbitrary: c locked paid taken counters)
  case (Cons x xs)
  show ?case
  proof (cases "channel_step x c")
    case None
    from Cons.IH [of c locked paid taken counters] None Cons.prems show ?thesis by auto
  next
    case (Some r)
    obtain c' l p b ks where r: "r = (c', l, p, b, ks)" by (cases r)
    obtain locked' paid' taken' counters' where run: "channel_run xs c' = (d, locked', paid', taken', counters')"
      "locked = l + locked'" "paid = p + paid'" "taken = b + taken'" "counters = ks @ counters'"
      using Cons.prems(2) Some r by (auto split: prod.splits)
    have step: "0 \<le> ch_balance c'" "ch_balance c' = ch_balance c + l - p - b"
      "ch_window c \<le> ch_window c'" "ch_counter c < ch_counter c'" "ks = [] \<or> ks = [ch_counter c']"
      using channel_step_safe Some r Cons.prems(1) by metis+
    from Cons.IH [OF step(1) run(1)] step run(2-5) show ?thesis by (auto simp: sorted_wrt_append)
  qed
qed simp

lemma channel_funds_safe_witness:
  "0 \<le> (0::int) \<and> 0 = 5 + 10 - 7 - (8::int) \<and> sorted_wrt (<) [1, 4, 9 :: int] \<and> 50 \<le> (60::int)"
  using channel_funds_safe
    [of "\<lparr>ch_balance = 5, ch_counter = 1, ch_window = 50\<rparr>"
      "[ChUpdate (Some 60) 10, ChWithdraw 20 4 3, ChWithdraw 21 4 3, ChWithdraw 22 9 4, ChClose 60, ChClose 61]"]
  by (simp add: channel_step_def update_rule_def withdraw_rule_def close_rule_def)

section \<open>What the handlers do\<close>

lemma sums_read_channel [sums_rules]:
  "hoare (sums_to cx R c) (read_channel cx a k) (\<lambda>_. sums_to cx R c)"
  unfolding read_channel_def by (rule hoare_bnd sums_rules)+

lemma sums_write_channel:
  assumes "\<And>c. hoare (sums_to cx R c) pay (\<lambda>_. sums_to cx R (c + n))"
  shows "hoare (sums_to cx R c) (write_channel cx a k ch pay) (\<lambda>r s. r \<longrightarrow> sums_to cx R (c + n) s)"
  unfolding write_channel_def Let_def
  by (rule hoare_if hoare_bnd sums_rules assms hoare_prod hoare_ret | simp)+

text \<open>What reading and writing a channel do to the account that holds it.\<close>

definition with_channels :: "account \<Rightarrow> radix_tree \<Rightarrow> account" where
  "with_channels x t = x\<lparr>ac_channels := t, ac_channels_hash := or_zero32 (root_hash t)\<rparr>"

lemma read_channel_Inr:
  assumes "read_channel cx a k s = (Inr fs, s')"
  obtains x cell b t where "cached s a = Some x" "tree_get cx (ac_channels x) k = (Inr (cell, b), t)"
    "channel_from_storage cx cell = Inr fs" "s' = put_cached a (x\<lparr>ac_channels := t\<rparr>) s"
proof -
  from assms obtain cell where get: "channel_get cx a k s = (Inr cell, s')" and cell: "channel_from_storage cx cell = Inr fs"
    by (auto simp: read_channel_def bnd_Inr)
  from get obtain x where x: "cached s a = Some x"
    by (auto simp: channel_get_def bnd_Inr account_of_eq split: option.splits)
  obtain r t where t: "tree_get cx (ac_channels x) k = (r, t)" by (rule prod.exhaust)
  from get x t obtain b where "r = Inr (cell, b)" "s' = put_cached a (x\<lparr>ac_channels := t\<rparr>) s"
    by (cases r) (auto simp: channel_get_def bnd_Inr account_of_eq write_account_eq)
  with that x t cell show ?thesis by blast
qed

lemma write_channel_Inr:
  assumes "write_channel cx a k c pay s = (Inr True, s')" "cached s a = Some x"
  obtains t s1 y es m where
    "tree_put cx (ac_channels x) k (VHash (expr_hash (cx_hash cx) (channel_to_expr c))) = (Inr (), t)"
    "pay (put_cached a (with_channels x t) s) = (Inr y, s1)"
    "inner_exprs cx None (channel_to_expr c) = Inr (es, m)" "s' = s1\<lparr>bk_pending := bk_pending s1 @ es\<rparr>"
proof -
  let ?h = "expr_hash (cx_hash cx) (channel_to_expr c)"
  obtain r t where t: "tree_put cx (ac_channels x) k (VHash ?h) = (r, t)" by (rule prod.exhaust)
  have twice: "put_cached a y (put_cached a z u) = put_cached a y u" for y z u
    by (simp add: put_cached_def update_last)
  from assms t obtain s1 y es m where "r = Inr ()" "pay (put_cached a (with_channels x t) s) = (Inr y, s1)"
    "inner_exprs cx None (channel_to_expr c) = Inr (es, m)" "s' = s1\<lparr>bk_pending := bk_pending s1 @ es\<rparr>"
    by (auto simp: write_channel_def Let_def bnd_Inr channel_put_def account_of_eq write_account_eq
        sync_channels_hash_def change_account_Inr add_pending_def twice with_channels_def split: if_splits)
  with that t show ?thesis by blast
qed

definition withdraw_fields :: "node_ctx \<Rightarrow> transaction \<Rightarrow> (int \<times> int \<times> bytes) option" where
  "withdraw_fields cx tx =
     (case data_nodes (cx_hash cx) (tx_data tx) of
        [n, a, g] \<Rightarrow>
          (case (value_of n, value_of a, value_of g) of
             (Some (PInt counter), Some (PInt amount), Some (PBytes sig)) \<Rightarrow> Some (counter, amount, sig)
           | _ \<Rightarrow> None)
      | _ \<Rightarrow> None)"

lemma touch_account_Inr:
  "touch_account a s = (Inr w, s') \<Longrightarrow> cached s' = cached s \<and> bk_pending s' = bk_pending s"
  by (auto simp: touch_account_def bnd_Inr account_of_eq store_account_def cached_def set_account_def update_conv' fun_eq_iff
      split: option.splits)

lemma load_account_keeps: "load_account cx a s = (r, s') \<Longrightarrow> bk_previous s' = bk_previous s \<and> bk_pending s' = bk_pending s"
  by (auto simp: load_account_def split: prod.splits sum.splits)

lemma withdraw_rule_Some:
  "withdraw_rule time counter amount c = Some c' \<longleftrightarrow>
     time < ch_window c \<and> ch_counter c < counter \<and> amount \<le> ch_balance c
     \<and> c' = c\<lparr>ch_balance := ch_balance c - amount, ch_counter := counter\<rparr>"
  by (auto simp: withdraw_rule_def)

lemma as_channel_Inr:
  "as_channel fs = Inr c \<Longrightarrow> fs = (Some (PInt (ch_balance c)), Some (PInt (ch_counter c)), Some (PInt (ch_window c)))"
  by (auto simp: as_channel_def as_int_def bind_exc_eq_Inr split: prod.splits option.splits payload.splits)

lemma withdraw_admitted:
  assumes "handle_channel_withdraw cx verify tx s = (Inr True, s')"
  obtains counter amount sig msg s1 fs s2 c prev time c' s3 where
    "withdraw_fields cx tx = Some (counter, amount, sig)" "0 \<le> amount"
    "withdraw_message (tx_chain_id tx) (tx_recipient tx) (tx_sender tx) counter amount = Some msg"
    "verify (tx_recipient tx) msg sig"
    "load_account cx (tx_recipient tx) s = (Inr True, s1)"
    "read_channel cx (tx_recipient tx) (tx_sender tx) s1 = (Inr (Some fs), s2)" "as_channel fs = Inr c"
    "bk_previous s2 = Some prev" "pv_timestamp prev = Some time" "withdraw_rule time counter amount c = Some c'"
    "write_channel cx (tx_recipient tx) (tx_sender tx) c' (add_balance (tx_sender tx) amount) s2 = (Inr True, s3)"
    "touch_account (tx_recipient tx) s3 = (Inr (), s')"
proof -
  let ?tag = "get_expr_builtin_tag (cx_hash cx)"
  from assms obtain n a g where nodes: "data_nodes (cx_hash cx) (tx_data tx) = [n, a, g]"
    by (auto simp: handle_channel_withdraw_def Let_def split: list.splits)
  from assms nodes have tags: "\<not> (?tag n \<noteq> u ''int'' \<or> ?tag a \<noteq> u ''int'' \<or> ?tag g \<noteq> u ''bytes'')"
    by (auto simp: handle_channel_withdraw_def Let_def split: if_splits)
  note run = assms [unfolded handle_channel_withdraw_def Let_def nodes list.case tags if_not_P [OF tags]]
  obtain amount where amount: "as_int (value_of a) = Inr amount" "0 \<le> amount"
    using run by (auto simp: bnd_Inr split: if_splits)
  obtain counter sig where cs: "as_int (value_of n) = Inr counter" "value_of g = Some (PBytes sig)"
    using run amount by (auto simp: bnd_Inr split: sum.splits option.splits payload.splits)
  from amount cs have fields: "withdraw_fields cx tx = Some (counter, amount, sig)"
    by (auto simp: withdraw_fields_def nodes as_int_def split: option.splits payload.splits)
  obtain msg where msg: "withdraw_message (tx_chain_id tx) (tx_recipient tx) (tx_sender tx) counter amount = Some msg"
    "verify (tx_recipient tx) msg sig"
    using run amount cs by (auto simp: bnd_Inr split: option.splits if_splits)
  obtain s1 where load: "load_account cx (tx_recipient tx) s = (Inr True, s1)"
    using run amount cs msg by (auto simp: bnd_Inr split: if_splits)
  note run = run [unfolded bnd_runs [of "lift (as_int (value_of a))", OF lift_Inr [OF amount(1)]] cs msg(1)]
  have run: "bnd (read_channel cx (tx_recipient tx) (tx_sender tx)) (\<lambda>state.
      case state of
        None \<Rightarrow> ret False
      | Some fs \<Rightarrow>
          bnd (reads bk_previous) (\<lambda>prev.
            case prev of
              None \<Rightarrow> raise AttributeError
            | Some b \<Rightarrow>
                (case pv_timestamp b of
                   None \<Rightarrow> ret False
                 | Some time \<Rightarrow>
                     bnd (lift (as_channel fs)) (\<lambda>c.
                       case withdraw_rule time counter amount c of
                         None \<Rightarrow> ret False
                       | Some c' \<Rightarrow>
                           bnd (write_channel cx (tx_recipient tx) (tx_sender tx) c' (add_balance (tx_sender tx) amount)) (\<lambda>done.
                           if \<not> done then ret False
                           else bnd (touch_account (tx_recipient tx)) (\<lambda>_. ret True)))))) s1 = (Inr True, s')"
    using run amount(2) msg by (simp add: bnd_runs [of "load_account cx (tx_recipient tx)", OF load])
  obtain fs s2 where read: "read_channel cx (tx_recipient tx) (tx_sender tx) s1 = (Inr (Some fs), s2)"
    using run by (auto simp: bnd_Inr split: option.splits)
  obtain prev time where prev: "bk_previous s2 = Some prev" "pv_timestamp prev = Some time"
    using run read by (auto simp: bnd_Inr split: option.splits)
  obtain c where c: "as_channel fs = Inr c" using run read prev by (auto simp: bnd_Inr)
  obtain c' where rule: "withdraw_rule time counter amount c = Some c'"
    using run read prev c by (auto simp: bnd_Inr split: option.splits)
  obtain s3 where "write_channel cx (tx_recipient tx) (tx_sender tx) c' (add_balance (tx_sender tx) amount) s2 = (Inr True, s3)"
    "touch_account (tx_recipient tx) s3 = (Inr (), s')"
    using run read prev c rule by (auto simp: bnd_Inr split: if_splits)
  from that [OF fields amount(2) msg load read c prev rule this] show ?thesis .
qed

text \<open>C35: a withdrawal that succeeds was allowed, and does what the voucher says. The payer signed the
  voucher, for this chain, this recipient, this counter and this amount; the channel under the payer's
  account had a later window than the time of the parent, a lower counter and enough funds. The cell
  that is written takes the amount off the balance and keeps the counter of the voucher; the recipient's
  balance grows by the amount; no other account changes; the new cell waits to be stored.\<close>

theorem withdraw_needs_voucher:
  assumes "handle_channel_withdraw cx verify tx s = (Inr True, s')"
  shows "\<exists>counter amount sig msg prev time s1 payer cell b t c t' es m.
     let paid = with_channels payer t'; after = (cached s1)(tx_recipient tx \<mapsto> paid) in
       withdraw_fields cx tx = Some (counter, amount, sig) \<and> 0 \<le> amount
     \<and> withdraw_message (tx_chain_id tx) (tx_recipient tx) (tx_sender tx) counter amount = Some msg
     \<and> verify (tx_recipient tx) msg sig
     \<and> load_account cx (tx_recipient tx) s = (Inr True, s1) \<and> cached s1 (tx_recipient tx) = Some payer
     \<and> tree_get cx (ac_channels payer) (tx_sender tx) = (Inr (cell, b), t)
     \<and> channel_from_storage cx cell
         = Inr (Some (Some (PInt (ch_balance c)), Some (PInt (ch_counter c)), Some (PInt (ch_window c))))
     \<and> bk_previous s = Some prev \<and> pv_timestamp prev = Some time
     \<and> time < ch_window c \<and> ch_counter c < counter \<and> amount \<le> ch_balance c
     \<and> tree_put cx t (tx_sender tx) (VHash (expr_hash (cx_hash cx)
           (channel_to_expr (c\<lparr>ch_balance := ch_balance c - amount, ch_counter := counter\<rparr>)))) = (Inr (), t')
     \<and> (\<exists>x. after (tx_sender tx) = Some x
          \<and> cached s' = after(tx_sender tx \<mapsto> x\<lparr>ac_balance := ac_balance x + amount\<rparr>))
     \<and> inner_exprs cx None (channel_to_expr (c\<lparr>ch_balance := ch_balance c - amount, ch_counter := counter\<rparr>)) = Inr (es, m)
     \<and> bk_pending s' = bk_pending s @ es"
proof -
  let ?p = "tx_recipient tx" and ?r = "tx_sender tx"
  from withdraw_admitted [OF assms] obtain counter amount sig msg s1 fs s2 c prev time c' s3 where
    w: "withdraw_fields cx tx = Some (counter, amount, sig)" "0 \<le> amount"
      "withdraw_message (tx_chain_id tx) ?p ?r counter amount = Some msg" "verify ?p msg sig"
      "load_account cx ?p s = (Inr True, s1)" and read: "read_channel cx ?p ?r s1 = (Inr (Some fs), s2)"
    and c: "as_channel fs = Inr c" and prev: "bk_previous s2 = Some prev" "pv_timestamp prev = Some time"
    and rule: "withdraw_rule time counter amount c = Some c'"
    and wrote: "write_channel cx ?p ?r c' (add_balance ?r amount) s2 = (Inr True, s3)"
    and touch: "touch_account ?p s3 = (Inr (), s')" .
  from read_channel_Inr [OF read] obtain x cell b t where
    x: "cached s1 ?p = Some x" "tree_get cx (ac_channels x) ?r = (Inr (cell, b), t)"
      "channel_from_storage cx cell = Inr (Some fs)" and s2: "s2 = put_cached ?p (x\<lparr>ac_channels := t\<rparr>) s1" .
  have here: "cached s2 ?p = Some (x\<lparr>ac_channels := t\<rparr>)" by (simp add: s2)
  from write_channel_Inr [OF wrote here] obtain t' s4 y es m where
    put: "tree_put cx (ac_channels (x\<lparr>ac_channels := t\<rparr>)) ?r (VHash (expr_hash (cx_hash cx) (channel_to_expr c'))) = (Inr (), t')"
    and pay: "add_balance ?r amount (put_cached ?p (with_channels (x\<lparr>ac_channels := t\<rparr>) t') s2) = (Inr y, s4)"
    and es: "inner_exprs cx None (channel_to_expr c') = Inr (es, m)" "s3 = s4\<lparr>bk_pending := bk_pending s4 @ es\<rparr>" .
  have same: "with_channels (x\<lparr>ac_channels := t\<rparr>) t' = with_channels x t'" by (simp add: with_channels_def)
  let ?after = "(cached s1)(?p \<mapsto> with_channels x t')"
  have after: "cached (put_cached ?p (with_channels x t') s2) = ?after" by (auto simp: s2)
  from pay obtain z where z: "?after ?r = Some z"
    "s4 = put_cached ?r (z\<lparr>ac_balance := ac_balance z + amount\<rparr>) (put_cached ?p (with_channels x t') s2)"
    unfolding add_balance_def change_account_Inr same after by blast
  have s4: "cached s4 = ?after(?r \<mapsto> z\<lparr>ac_balance := ac_balance z + amount\<rparr>)"
    by (rule ext) (simp add: z(2) after [symmetric])
  have end_: "cached s' = cached s4 \<and> bk_pending s' = bk_pending s4 @ es"
    using touch_account_Inr [OF touch] es(2) by (simp add: cached_def fun_eq_iff)
  from rule have c': "time < ch_window c" "ch_counter c < counter" "amount \<le> ch_balance c"
    "c' = c\<lparr>ch_balance := ch_balance c - amount, ch_counter := counter\<rparr>"
    by (simp_all add: withdraw_rule_Some)
  note put = put [unfolded c'(4), simplified] and es = es [unfolded c'(4)]
  note stored = x(3) [unfolded as_channel_Inr [OF c]]
  note s4 = s4 [folded conjunct1 [OF end_]]
  have s: "bk_previous s = Some prev" "bk_pending s' = bk_pending s @ es"
    using prev(1) load_account_keeps [OF w(5)] end_ by (simp_all add: s2 put_cached_def z(2))
  show ?thesis
    unfolding Let_def
    by (intro exI conjI; (rule w x(1,2) stored s prev(2) c'(1-3) put z(1) s4 es(1)))
qed

text \<open>A block with two accounts, the second with a channel to the first.\<close>

definition demo_cx :: node_ctx where
  "demo_cx = \<lparr>cx_hash = (\<lambda>x. x), cx_get = (\<lambda>h b. None), cx_list = (\<lambda>h b. None), cx_fuel = 9\<rparr>"

definition demo_account :: "int \<Rightarrow> account" where
  "demo_account n = new_account\<lparr>ac_balance := n\<rparr>"

definition demo_payer :: account where
  "demo_payer = (demo_account 100)\<lparr>ac_channels :=
     snd (tree_put demo_cx (new_radix_tree None None) [1]
            (VExpr (channel_to_expr \<lparr>ch_balance = 30, ch_counter = 4, ch_window = 500\<rparr>)))\<rparr>"

definition demo_block :: block where
  "demo_block =
     \<lparr>bk_chain_id = 1, bk_height = 7, bk_timestamp = Some 402, bk_validation_difficulty = Some 2, bk_expr_id = None, bk_previous_hash = [9],
      bk_previous = Some \<lparr>head_height = 6, head_statistics = [(1, 1, 0, 0, 0, 0)], pv_timestamp = Some 400,
                          pv_storage_difficulty = 0\<rparr>,
      bk_accounts = \<lparr>as_trie = new_radix_tree None None,
                     as_cache = [([1], demo_account 50), ([2], demo_payer)], as_involved = []\<rparr>,
      bk_pending = [], bk_bloom = \<lparr>bt_root = None, bt_touched = []\<rparr>, bk_bloom_keys = [], bk_involved = [],
      bk_transactions = [], bk_receipts = [], bk_receipts_trie = new_radix_tree None None, bk_loaned = 0,
      bk_defaulted = 0, bk_loan_count = 0, bk_votes = 0, bk_claims = 0, bk_tx_keys = [], bk_tx_inserts = []\<rparr>"

definition demo_withdraw :: transaction where
  "demo_withdraw =
     \<lparr>tx_chain_id = 1, tx_amount = 0, tx_code = CHANNEL_WITHDRAW, tx_counter = 0, tx_cost_limit = 0,
      tx_data = cons (int_expr 5) (cons (int_expr 12) (cons (Bytes [8]) NIL)), tx_recipient = [2],
      tx_sender = [1], tx_signature = Some [3]\<rparr>"

lemma withdraw_needs_voucher_witness:
  "\<exists>s' x. handle_channel_withdraw demo_cx (\<lambda>_ _ _. True) demo_withdraw demo_block = (Inr True, s')
     \<and> cached s' [1] = Some (x\<lparr>ac_balance := ac_balance x + 12\<rparr>)"
proof -
  have "fst (handle_channel_withdraw demo_cx (\<lambda>_ _ _. True) demo_withdraw demo_block) = Inr True"
    by code_simp
  then obtain s' where run: "handle_channel_withdraw demo_cx (\<lambda>_ _ _. True) demo_withdraw demo_block = (Inr True, s')"
    by (metis prod.collapse)
  have fields: "withdraw_fields demo_cx demo_withdraw = Some (5, 12, [8])" "tx_sender demo_withdraw = [1]" by code_simp+
  from withdraw_needs_voucher [OF run] show ?thesis unfolding Let_def fields using run by (auto simp: fun_eq_iff)
qed

text \<open>an update cannot open a channel: where the trie has no cell for the counterparty the update
  fails and writes nothing. No other transaction writes a channel that was not there.\<close>

theorem update_never_opens:
  assumes "channel_get cx a k s = (Inr None, s1)" and "0 \<le> amount"
  shows "handle_channel_update cx a k w amount s = (Inr False, s1)"
  using assms
  by (simp add: handle_channel_update_def read_channel_def bnd_def channel_from_storage_def)

lemma update_never_opens_witness:
  "fst (handle_channel_update demo_cx [1] [2] None 5 demo_block) = Inr False"
proof -
  have "fst (channel_get demo_cx [1] [2] demo_block) = Inr None" by code_simp
  then obtain s1 where "channel_get demo_cx [1] [2] demo_block = (Inr None, s1)" by (metis prod.collapse)
  from update_never_opens [OF this, of 5 None] show ?thesis by simp
qed

end
