(* ===== verification/Merkle.thy ===== *)
theory Merkle
  imports Expr
begin

text \<open>
  Merkle trees over a list of 32-byte values: \<open>src/astreum/crypto/merkle.py\<close>. A block's storage record
  commits to its list of cells by such a root, and a storage claim proves one of them.

  A level of odd length hands its last node up unchanged. The proof of an index is the list of
  siblings from the leaf to the root, without an entry where a node is handed up. The hash is an
  argument \<open>H\<close>; the isinstance checks of the code have no counterpart, the types settle them.
\<close>

unbundle bit_operations_syntax

section \<open>The code\<close>

definition HASH_LEN :: nat where
  "HASH_LEN = 32"

record merkle_tree =
  mt_root :: bytes
  mt_count :: int
  mt_levels :: "bytes list list option"

definition merkle_leaf :: "(bytes \<Rightarrow> bytes) \<Rightarrow> bytes \<Rightarrow> bytes" where
  "merkle_leaf H v = H (0 # v)"

definition merkle_node :: "(bytes \<Rightarrow> bytes) \<Rightarrow> bytes \<Rightarrow> bytes \<Rightarrow> bytes" where
  "merkle_node H l r = H (1 # l @ r)"

fun next_level :: "(bytes \<Rightarrow> bytes) \<Rightarrow> bytes list \<Rightarrow> bytes list" where
  "next_level H (a # b # rest) = merkle_node H a b # next_level H rest"
| "next_level H [a] = [a]"
| "next_level H [] = []"

lemma length_next_level [simp]: "length (next_level H xs) = (length xs + 1) div 2"
  by (induction H xs rule: next_level.induct) auto

function level_list :: "(bytes \<Rightarrow> bytes) \<Rightarrow> bytes list \<Rightarrow> bytes list list" where
  "level_list H level =
     (if length level \<le> 1 then [level] else level # level_list H (next_level H level))"
  by pat_completeness auto
termination by (relation "measure (\<lambda>(H, level). length level)") auto

declare level_list.simps [simp del]

definition create_merkle_tree :: "(bytes \<Rightarrow> bytes) \<Rightarrow> bytes list \<Rightarrow> exc + merkle_tree" where
  "create_merkle_tree H values =
     (if \<exists>v\<in>set values. length v \<noteq> HASH_LEN then Inl (ValueError ''merkle values must be 32 bytes'')
      else if values = [] then Inr \<lparr>mt_root = ZERO32, mt_count = 0, mt_levels = Some []\<rparr>
      else
        (let ls = level_list H (map (merkle_leaf H) values)
         in Inr \<lparr>mt_root = last ls ! 0, mt_count = int (length values), mt_levels = Some ls\<rparr>))"

fun siblings :: "bytes list list \<Rightarrow> nat \<Rightarrow> bytes list" where
  "siblings [] i = []"
| "siblings (level # rest) i =
     (if i XOR 1 < length level then level ! (i XOR 1) # siblings rest (i div 2)
      else siblings rest (i div 2))"

definition generate_merkle_tree_proof :: "merkle_tree \<Rightarrow> int \<Rightarrow> exc + bytes list" where
  "generate_merkle_tree_proof t index =
     (case mt_levels t of
        None \<Rightarrow> Inl (ValueError ''merkle tree has no levels'')
      | Some ls \<Rightarrow>
          if \<not> (0 \<le> index \<and> index < mt_count t) then Inl (ValueError ''index out of range'')
          else Inr (siblings (butlast ls) (nat index)))"

text \<open>The loop of the check: the index and the last index of the level, the hash so far, the rest of the proof.\<close>

function climb ::
  "(bytes \<Rightarrow> bytes) \<Rightarrow> nat \<Rightarrow> nat \<Rightarrow> bytes \<Rightarrow> bytes list \<Rightarrow> (bytes \<times> bytes list) option" where
  "climb H fn sn r proof =
     (if sn = 0 then Some (r, proof)
      else if odd fn then
        (case proof of [] \<Rightarrow> None | p # ps \<Rightarrow> climb H (fn div 2) (sn div 2) (merkle_node H p r) ps)
      else if fn < sn then
        (case proof of [] \<Rightarrow> None | p # ps \<Rightarrow> climb H (fn div 2) (sn div 2) (merkle_node H r p) ps)
      else climb H (fn div 2) (sn div 2) r proof)"
  by pat_completeness auto
termination by (relation "measure (\<lambda>(H, fn, sn, r, proof). sn)") auto

declare climb.simps [simp del]

definition verify_merkle_tree_proof ::
  "(bytes \<Rightarrow> bytes) \<Rightarrow> merkle_tree \<Rightarrow> int \<Rightarrow> bytes \<Rightarrow> bytes list \<Rightarrow> bool" where
  "verify_merkle_tree_proof H t index v proof \<longleftrightarrow>
     0 \<le> index \<and> index < mt_count t \<and> length v = HASH_LEN
     \<and> (\<forall>s\<in>set proof. length s = HASH_LEN)
     \<and> climb H (nat index) (nat (mt_count t - 1)) (merkle_leaf H v) proof = Some (mt_root t, [])"

section \<open>Levels\<close>

lemma xor_one: "(i::nat) XOR Suc 0 = (if even i then Suc i else i - 1)"
  by (auto simp: xor_Suc_0_eq)

lemma nth_next_level:
  "j < length (next_level H xs) \<Longrightarrow>
     next_level H xs ! j =
       (if 2 * j + 1 < length xs then merkle_node H (xs ! (2 * j)) (xs ! (2 * j + 1)) else xs ! (2 * j))"
proof (induction H xs arbitrary: j rule: next_level.induct)
  case (1 H a b rest)
  then show ?case by (cases j) auto
qed auto

lemma level_list_top: "level \<noteq> [] \<Longrightarrow> length (last (level_list H level)) = 1"
proof (induction H level rule: level_list.induct)
  case (1 H level)
  have "level_list H (next_level H level) \<noteq> []" by (subst level_list.simps) simp
  moreover have "next_level H level \<noteq> []" if "\<not> length level \<le> 1"
  proof -
    have "0 < length (next_level H level)" using that by simp
    then show ?thesis by blast
  qed
  ultimately show ?case
    using 1 by (subst level_list.simps) (cases level; auto)
qed

lemma level_list_nonempty [simp]: "level_list H level \<noteq> []"
  by (subst level_list.simps) simp

text \<open>One step of the check goes from an entry of a level to the entry of the next level.\<close>

lemma climb_step:
  assumes "i < length level" and "1 < length level"
  shows "climb H i (length level - 1) (level ! i) (siblings (level # rest) i @ extra) =
    climb H (i div 2) (length (next_level H level) - 1) (next_level H level ! (i div 2))
      (siblings rest (i div 2) @ extra)"
proof -
  have sn: "(length level - 1) div 2 = length (next_level H level) - 1" using assms by simp
  have j: "i div 2 < length (next_level H level)" using assms by simp
  show ?thesis
  proof (cases "odd i")
    case True
    then have "2 * (i div 2) = i - 1" "2 * (i div 2) + 1 = i" "0 < i" by presburger+
    then have "next_level H level ! (i div 2) = merkle_node H (level ! (i - 1)) (level ! i)"
      using nth_next_level [OF j] assms by simp
    moreover have "siblings (level # rest) i = level ! (i - 1) # siblings rest (i div 2)"
      using True assms by (simp add: xor_one)
    ultimately show ?thesis
      using True assms by (subst climb.simps) (simp add: sn [simplified] del: siblings.simps)
  next
    case False
    then have e: "2 * (i div 2) = i" by presburger
    show ?thesis
    proof (cases "i + 1 < length level")
      case True
      then have "next_level H level ! (i div 2) = merkle_node H (level ! i) (level ! (i + 1))"
        using nth_next_level [OF j] e by simp
      moreover have "siblings (level # rest) i = level ! (i + 1) # siblings rest (i div 2)"
        using True False by (simp add: xor_one)
      moreover have "i < length level - 1" using True by simp
      ultimately show ?thesis
        using True False assms by (subst climb.simps) (simp add: sn [simplified] del: siblings.simps)
    next
      case last: False
      then have "next_level H level ! (i div 2) = level ! i"
        using nth_next_level [OF j] e by simp
      moreover have "siblings (level # rest) i = siblings rest (i div 2)"
        using last False by (simp add: xor_one)
      moreover have "\<not> i < length level - 1" using last assms by linarith
      ultimately show ?thesis
        using last False assms by (subst climb.simps) (simp add: sn [simplified] del: siblings.simps)
    qed
  qed
qed

lemma climb_siblings:
  "i < length level \<Longrightarrow>
     climb H i (length level - 1) (level ! i) (siblings (butlast (level_list H level)) i @ extra) =
       Some (last (level_list H level) ! 0, extra)"
proof (induction H level arbitrary: i rule: level_list.induct)
  case (1 H level)
  show ?case
  proof (cases "length level \<le> 1")
    case True
    then have "i = 0" "level_list H level = [level]" using 1(2) by (simp_all add: level_list.simps)
    then show ?thesis using True by (simp add: climb.simps)
  next
    case False
    have l: "level_list H level = level # level_list H (next_level H level)"
      using False by (subst level_list.simps) simp
    have "i div 2 < length (next_level H level)" using 1(2) False by simp
    from 1(1) [OF False this] show ?thesis
      using climb_step [of i level H "butlast (level_list H (next_level H level))" extra] 1(2) False
      by (simp add: l del: siblings.simps length_next_level)
  qed
qed

section \<open>What a check hashes\<close>

text \<open>The inputs of the hash function in the making of a tree and in a check.\<close>

fun pair_inputs :: "bytes list \<Rightarrow> bytes list" where
  "pair_inputs (a # b # rest) = (1 # a @ b) # pair_inputs rest"
| "pair_inputs _ = []"

function level_inputs :: "(bytes \<Rightarrow> bytes) \<Rightarrow> bytes list \<Rightarrow> bytes list" where
  "level_inputs H level =
     (if length level \<le> 1 then [] else pair_inputs level @ level_inputs H (next_level H level))"
  by pat_completeness auto
termination by (relation "measure (\<lambda>(H, level). length level)") auto

declare level_inputs.simps [simp del]

function climb_inputs :: "(bytes \<Rightarrow> bytes) \<Rightarrow> nat \<Rightarrow> nat \<Rightarrow> bytes \<Rightarrow> bytes list \<Rightarrow> bytes list" where
  "climb_inputs H fn sn r proof =
     (if sn = 0 then []
      else if odd fn then
        (case proof of [] \<Rightarrow> []
         | p # ps \<Rightarrow> (1 # p @ r) # climb_inputs H (fn div 2) (sn div 2) (merkle_node H p r) ps)
      else if fn < sn then
        (case proof of [] \<Rightarrow> []
         | p # ps \<Rightarrow> (1 # r @ p) # climb_inputs H (fn div 2) (sn div 2) (merkle_node H r p) ps)
      else climb_inputs H (fn div 2) (sn div 2) r proof)"
  by pat_completeness auto
termination by (relation "measure (\<lambda>(H, fn, sn, r, proof). sn)") auto

declare climb_inputs.simps [simp del]

lemma climb_cases:
  "sn \<noteq> 0 \<Longrightarrow> odd fn \<Longrightarrow>
     climb H fn sn r (p # ps) = climb H (fn div 2) (sn div 2) (merkle_node H p r) ps"
  "sn \<noteq> 0 \<Longrightarrow> even fn \<Longrightarrow> fn < sn \<Longrightarrow>
     climb H fn sn r (p # ps) = climb H (fn div 2) (sn div 2) (merkle_node H r p) ps"
  "sn \<noteq> 0 \<Longrightarrow> even fn \<Longrightarrow> \<not> fn < sn \<Longrightarrow> climb H fn sn r proof = climb H (fn div 2) (sn div 2) r proof"
  by (subst climb.simps, simp)+

lemma climb_inputs_cases:
  "sn \<noteq> 0 \<Longrightarrow> odd fn \<Longrightarrow>
     climb_inputs H fn sn r (p # ps) = (1 # p @ r) # climb_inputs H (fn div 2) (sn div 2) (merkle_node H p r) ps"
  "sn \<noteq> 0 \<Longrightarrow> even fn \<Longrightarrow> fn < sn \<Longrightarrow>
     climb_inputs H fn sn r (p # ps) = (1 # r @ p) # climb_inputs H (fn div 2) (sn div 2) (merkle_node H r p) ps"
  "sn \<noteq> 0 \<Longrightarrow> even fn \<Longrightarrow> \<not> fn < sn \<Longrightarrow>
     climb_inputs H fn sn r proof = climb_inputs H (fn div 2) (sn div 2) r proof"
  by (subst climb_inputs.simps, simp)+

lemma length_merkle_node: "\<forall>x. length (H x) = n \<Longrightarrow> length (merkle_node H a b) = n"
  by (simp add: merkle_node_def)

definition tree_inputs :: "(bytes \<Rightarrow> bytes) \<Rightarrow> bytes list \<Rightarrow> bytes set" where
  "tree_inputs H values = set (map ((#) 0) values @ level_inputs H (map (merkle_leaf H) values))"

definition check_inputs :: "(bytes \<Rightarrow> bytes) \<Rightarrow> merkle_tree \<Rightarrow> int \<Rightarrow> bytes \<Rightarrow> bytes list \<Rightarrow> bytes set" where
  "check_inputs H t i v proof =
     set ((0 # v) # climb_inputs H (nat i) (nat (mt_count t - 1)) (merkle_leaf H v) proof)"

lemma pair_in_inputs: "2 * j + 1 < length xs \<Longrightarrow> 1 # xs ! (2 * j) @ xs ! (2 * j + 1) \<in> set (pair_inputs xs)"
proof (induction xs arbitrary: j rule: pair_inputs.induct)
  case (1 a b rest)
  then show ?case by (cases j) auto
qed auto

lemma length_next_level_entry:
  "(\<And>x. length (H x) = n) \<Longrightarrow> \<forall>x\<in>set level. length x = n \<Longrightarrow> \<forall>x\<in>set (next_level H level). length x = n"
  by (induction H level rule: next_level.induct) (auto simp: merkle_node_def)

text \<open>A check against a level that reaches the root went through the entries of the tree.\<close>

lemma climb_sound:
  "\<forall>x. length (H x) = n \<Longrightarrow> i < length level \<Longrightarrow> \<forall>x\<in>set level. length x = n \<Longrightarrow> length r = n \<Longrightarrow>
    \<forall>s\<in>set proof. length s = n \<Longrightarrow>
    inj_on H (set (level_inputs H level) \<union> set (climb_inputs H i (length level - 1) r proof)) \<Longrightarrow>
    climb H i (length level - 1) r proof = Some (last (level_list H level) ! 0, []) \<Longrightarrow>
    r = level ! i \<and> proof = siblings (butlast (level_list H level)) i"
proof (induction H level arbitrary: i r "proof" rule: level_list.induct)
  case (1 H level)
  note H = 1(2) and i = 1(3) and level = 1(4) and r = 1(5) and sibs = 1(6) and inj = 1(7) and run = 1(8)
  show ?case
  proof (cases "length level \<le> 1")
    case True
    then have "i = 0" "level_list H level = [level]" using i by (simp_all add: level_list.simps)
    then show ?thesis using True run by (simp add: climb.simps)
  next
    case False
    let ?nxt = "next_level H level" and ?sn = "length level - 1"
    have l: "level_list H level = level # level_list H ?nxt"
      using False by (subst level_list.simps) simp
    have sn: "?sn div 2 = length ?nxt - 1" "?sn \<noteq> 0" using False by simp_all
    have j: "i div 2 < length ?nxt" using i False by simp
    have lv: "level_inputs H level = pair_inputs level @ level_inputs H ?nxt"
      using False by (subst level_inputs.simps) simp
    have nxt: "\<forall>x\<in>set ?nxt. length x = n" using length_next_level_entry H level by blast
    have last: "last (level_list H level) = last (level_list H ?nxt)" by (simp add: l)
    have sib: "siblings (butlast (level_list H level)) i =
        (if i XOR 1 < length level then [level ! (i XOR 1)] else []) @ siblings (butlast (level_list H ?nxt)) (i div 2)"
      by (simp add: l)
    have up: "r' = ?nxt ! (i div 2) \<and> ps = siblings (butlast (level_list H ?nxt)) (i div 2)"
      if "climb H i ?sn r proof = climb H (i div 2) (length ?nxt - 1) r' ps"
        and "set (climb_inputs H (i div 2) (length ?nxt - 1) r' ps) \<subseteq> set (climb_inputs H i ?sn r proof)"
        and "length r' = n" "set ps \<subseteq> set proof" for r' ps
    proof (rule 1(1) [OF False H j nxt that(3)])
      show "inj_on H (set (level_inputs H ?nxt) \<union> set (climb_inputs H (i div 2) (length ?nxt - 1) r' ps))"
        by (rule inj_on_subset [OF inj]) (use that(2) lv in auto)
      show "\<forall>s\<in>set ps. length s = n" using sibs that(4) by blast
      show "climb H (i div 2) (length ?nxt - 1) r' ps = Some (last (level_list H ?nxt) ! 0, [])"
        using run that(1) last by simp
    qed
    have same: "a = a' \<and> b = b'"
      if "merkle_node H a b = merkle_node H a' b'" "length a = n" "length a' = n"
        "1 # a @ b \<in> set (climb_inputs H i ?sn r proof)" "1 # a' @ b' \<in> set (pair_inputs level)" for a b a' b'
    proof -
      have "1 # a @ b = 1 # a' @ b'"
        by (rule inj_onD [OF inj]) (use that lv in \<open>auto simp: merkle_node_def\<close>)
      with that show ?thesis by simp
    qed
    show ?thesis
    proof (cases "odd i")
      case odd: True
      then have e: "2 * (i div 2) = i - 1" "2 * (i div 2) + 1 = i" "0 < i" by presburger+
      obtain p ps where p: "proof = p # ps" using run sn odd by (subst (asm) climb.simps) (auto split: list.splits)
      have eq: "merkle_node H p r = ?nxt ! (i div 2) \<and> ps = siblings (butlast (level_list H ?nxt)) (i div 2)"
      proof (rule up [OF _ _ length_merkle_node [OF H]])
        show "climb H i ?sn r proof = climb H (i div 2) (length ?nxt - 1) (merkle_node H p r) ps"
          unfolding p climb_cases(1) [OF sn(2) odd] sn(1) by (rule refl)
        show "set (climb_inputs H (i div 2) (length ?nxt - 1) (merkle_node H p r) ps) \<subseteq> set (climb_inputs H i ?sn r proof)"
          unfolding p climb_inputs_cases(1) [OF sn(2) odd] sn(1) by (simp only: list.set subset_insertI)
      qed (simp add: p subset_insertI)
      have entry: "?nxt ! (i div 2) = merkle_node H (level ! (i - 1)) (level ! i)"
        using nth_next_level [OF j] e i by simp
      have in1: "1 # p @ r \<in> set (climb_inputs H i ?sn r proof)"
        using climb_inputs_cases(1) [OF sn(2) odd] p by simp
      have in2: "1 # level ! (i - 1) @ level ! i \<in> set (pair_inputs level)"
        using pair_in_inputs [of "i div 2" level] e i by simp
      have len: "length p = n" "length (level ! (i - 1)) = n" using sibs p level i by auto
      have "p = level ! (i - 1) \<and> r = level ! i"
        by (rule same [OF _ len in1 in2]) (simp only: eq entry)
      moreover have "siblings (butlast (level_list H level)) i = level ! (i - 1) # ps"
        unfolding sib using eq odd i by (simp add: xor_one)
      ultimately show ?thesis by (simp add: p)
    next
      case False
      then have even: "even i" and e: "2 * (i div 2) = i" by presburger+
      show ?thesis
      proof (cases "i < ?sn")
        case lt: True
        obtain p ps where p: "proof = p # ps" using run sn even lt by (subst (asm) climb.simps) (auto split: list.splits)
        have eq: "merkle_node H r p = ?nxt ! (i div 2) \<and> ps = siblings (butlast (level_list H ?nxt)) (i div 2)"
        proof (rule up [OF _ _ length_merkle_node [OF H]])
          show "climb H i ?sn r proof = climb H (i div 2) (length ?nxt - 1) (merkle_node H r p) ps"
            unfolding p climb_cases(2) [OF sn(2) even lt] sn(1) by (rule refl)
          show "set (climb_inputs H (i div 2) (length ?nxt - 1) (merkle_node H r p) ps) \<subseteq> set (climb_inputs H i ?sn r proof)"
            unfolding p climb_inputs_cases(2) [OF sn(2) even lt] sn(1) by (simp only: list.set subset_insertI)
        qed (simp add: p subset_insertI)
        have entry: "?nxt ! (i div 2) = merkle_node H (level ! i) (level ! (i + 1))"
          using nth_next_level [OF j] lt unfolding e by (simp add: less_diff_conv)
        have in1: "1 # r @ p \<in> set (climb_inputs H i ?sn r proof)"
          using climb_inputs_cases(2) [OF sn(2) even lt] p by simp
        have in2: "1 # level ! i @ level ! (i + 1) \<in> set (pair_inputs level)"
          using pair_in_inputs [of "i div 2" level] e lt by simp
        have len: "length (level ! i) = n" using level i by auto
        have "r = level ! i \<and> p = level ! (i + 1)"
          by (rule same [OF _ r len in1 in2]) (simp only: eq entry)
        moreover have "siblings (butlast (level_list H level)) i = level ! (i + 1) # ps"
          unfolding sib using eq even lt by (simp add: xor_one)
        ultimately show ?thesis by (simp add: p)
      next
        case eq: False
        have up': "r = ?nxt ! (i div 2) \<and> proof = siblings (butlast (level_list H ?nxt)) (i div 2)"
          using climb_cases(3) [OF sn(2) even eq, of H r "proof"] climb_inputs_cases(3) [OF sn(2) even eq, of H r "proof"] r
          unfolding sn(1) by (intro up) simp_all
        have "?nxt ! (i div 2) = level ! i"
          using nth_next_level [OF j] eq i unfolding e by auto
        moreover have "siblings (butlast (level_list H level)) i = proof"
          unfolding sib using up' even eq by (simp add: xor_one)
        ultimately show ?thesis using up' by simp
      qed
    qed
  qed
qed

lemma siblings_subset: "set (siblings ls i) \<subseteq> \<Union> (set ` set ls)"
proof (induction ls i rule: siblings.induct)
  case (2 level rest i)
  then show ?case by auto
qed simp

lemma level_list_entries:
  "\<forall>x. length (H x) = n \<Longrightarrow> \<forall>x\<in>set level. length x = n \<Longrightarrow> l \<in> set (level_list H level) \<Longrightarrow> \<forall>x\<in>set l. length x = n"
proof (induction H level rule: level_list.induct)
  case (1 H level)
  note H = 1(2) and entries = 1(3) and l = 1(4)
  show ?case
  proof (cases "length level \<le> 1")
    case True
    then have "level_list H level = [level]" by (subst level_list.simps) simp
    with l entries show ?thesis by simp
  next
    case False
    then have "level_list H level = level # level_list H (next_level H level)" by (subst level_list.simps) simp
    with l consider "l = level" | "l \<in> set (level_list H (next_level H level))" by auto
    then show ?thesis
    proof cases
      case 2
      have "\<forall>x\<in>set (next_level H level). length x = n"
        by (rule length_next_level_entry) (use H entries in blast)+
      from 1(1) [OF False H this 2] show ?thesis .
    qed (use entries in simp)
  qed
qed

lemma siblings_length:
  assumes "\<And>x. length (H x) = n" and "\<forall>x\<in>set level. length x = n"
  shows "\<forall>s\<in>set (siblings (butlast (level_list H level)) i). length s = n"
proof
  fix s assume "s \<in> set (siblings (butlast (level_list H level)) i)"
  then obtain l where "l \<in> set (butlast (level_list H level))" "s \<in> set l" using siblings_subset by blast
  then show "length s = n" using level_list_entries assms in_set_butlastD by metis
qed

section \<open>Properties\<close>

lemma create_merkle_tree_eq:
  assumes "create_merkle_tree H values = Inr t" and "values \<noteq> []"
  shows "t = \<lparr>mt_root = last (level_list H (map (merkle_leaf H) values)) ! 0, mt_count = int (length values),
      mt_levels = Some (level_list H (map (merkle_leaf H) values))\<rparr>"
    and "\<forall>v\<in>set values. length v = HASH_LEN"
  using assms by (auto simp: create_merkle_tree_def Let_def split: if_splits)

definition demo_values :: "bytes list" where
  "demo_values = map (replicate 32) [3, 4, 5]"

text \<open>
  C26: every value of a tree can be proved. For each index of a list of values the generated proof
  exists and the check accepts it, for every length of the list, odd levels included.
\<close>

theorem merkle_complete:
  assumes "\<And>x. length (H x) = HASH_LEN" and "create_merkle_tree H values = Inr t" and "i < length values"
  shows "\<exists>proof. generate_merkle_tree_proof t (int i) = Inr proof
     \<and> verify_merkle_tree_proof H t (int i) (values ! i) proof"
proof -
  let ?level = "map (merkle_leaf H) values"
  have ne: "values \<noteq> []" using assms(3) by auto
  note t = create_merkle_tree_eq [OF assms(2) ne]
  let ?proof = "siblings (butlast (level_list H ?level)) i"
  have "climb H i (length ?level - 1) (?level ! i) (?proof @ []) = Some (last (level_list H ?level) ! 0, [])"
    using assms(3) by (intro climb_siblings) simp
  moreover have "\<forall>s\<in>set ?proof. length s = HASH_LEN"
    using siblings_length [OF assms(1), of ?level] assms(1) by (auto simp: merkle_leaf_def)
  moreover have "generate_merkle_tree_proof t (int i) = Inr ?proof"
    using assms(3) by (simp add: generate_merkle_tree_proof_def t(1))
  ultimately show ?thesis
    using assms(3) t(2) by (simp add: verify_merkle_tree_proof_def t(1) nat_diff_distrib)
qed

lemma merkle_complete_witness:
  "\<exists>t proof. create_merkle_tree toy_hash demo_values = Inr t \<and> generate_merkle_tree_proof t 2 = Inr proof
     \<and> verify_merkle_tree_proof toy_hash t 2 (replicate 32 5) proof"
proof -
  have "\<exists>t. create_merkle_tree toy_hash demo_values = Inr t"
    by (simp add: create_merkle_tree_def demo_values_def HASH_LEN_def Let_def)
  then obtain t where t: "create_merkle_tree toy_hash demo_values = Inr t" by blast
  have "2 < length demo_values" "demo_values ! 2 = replicate 32 5" by (simp_all add: demo_values_def)
  with merkle_complete [OF _ t this(1)] t show ?thesis by (auto simp: HASH_LEN_def)
qed

text \<open>
  C25: a proof that the check accepts is the proof of the value at that index. Unless the hash function
  collides on two of the inputs that making the tree and running the check hash, no other value and no
  other proof is accepted at an index, whatever the proof's length.
\<close>

theorem merkle_sound:
  assumes "\<And>x. length (H x) = HASH_LEN" and "create_merkle_tree H values = Inr t"
    and "verify_merkle_tree_proof H t i v proof"
    and "inj_on H (tree_inputs H values \<union> check_inputs H t i v proof)"
  shows "v = values ! nat i \<and> generate_merkle_tree_proof t i = Inr proof"
proof -
  let ?level = "map (merkle_leaf H) values"
  have i: "0 \<le> i" "i < mt_count t" using assms(3) by (simp_all add: verify_merkle_tree_proof_def)
  have ne: "values \<noteq> []" using assms(2) i by (auto simp: create_merkle_tree_def)
  note t = create_merkle_tree_eq [OF assms(2) ne]
  have n: "nat i < length ?level" "nat (mt_count t - 1) = length ?level - 1"
    using i by (simp_all add: t(1) nat_diff_distrib)
  have "merkle_leaf H v = ?level ! nat i \<and> proof = siblings (butlast (level_list H ?level)) (nat i)"
  proof (rule climb_sound [of H HASH_LEN])
    show "inj_on H (set (level_inputs H ?level) \<union> set (climb_inputs H (nat i) (length ?level - 1) (merkle_leaf H v) proof))"
      by (rule inj_on_subset [OF assms(4)]) (auto simp: tree_inputs_def check_inputs_def n(2) [simplified])
  qed (use assms(1,3) n in \<open>auto simp: verify_merkle_tree_proof_def t(1) merkle_leaf_def nat_diff_distrib\<close>)
  moreover from this have "H (0 # v) = H (0 # values ! nat i)" using n by (simp add: merkle_leaf_def)
  then have "0 # v = 0 # values ! nat i"
    by (rule inj_onD [OF assms(4)]) (use n in \<open>auto simp: tree_inputs_def check_inputs_def\<close>)
  ultimately show ?thesis
    using i by (simp add: generate_merkle_tree_proof_def t(1))
qed

lemma merkle_sound_witness:
  "let t = \<lparr>mt_root = toy_hash (0 # replicate 32 3), mt_count = 1, mt_levels = Some [[toy_hash (0 # replicate 32 3)]]\<rparr>
   in replicate 32 3 = [replicate 32 (3::byte)] ! nat 0 \<and> generate_merkle_tree_proof t 0 = Inr []"
  unfolding Let_def
proof (rule merkle_sound)
  show "create_merkle_tree toy_hash [replicate 32 3] =
      Inr \<lparr>mt_root = toy_hash (0 # replicate 32 3), mt_count = 1, mt_levels = Some [[toy_hash (0 # replicate 32 3)]]\<rparr>"
    by (simp add: create_merkle_tree_def HASH_LEN_def level_list.simps merkle_leaf_def)
qed (simp_all add: HASH_LEN_def verify_merkle_tree_proof_def climb.simps merkle_leaf_def tree_inputs_def
    check_inputs_def level_inputs.simps climb_inputs.simps)

end
