(* ===== verification/Storage_Walk.thy ===== *)
theory Storage_Walk
  imports Channels Merkle
begin

text \<open>
  The walk that sizes what a transaction stores and that collects the slots of a block's record:
  \<open>consensus/transaction/storage/initial.py\<close> and the fixed point of \<open>storage/contract.py\<close>.

  \<open>UnresolvedRecordExpr\<close> is raised where a cell cannot be fetched. A walk takes the fuel of the node,
  one unit for each item of its stack.
\<close>

section \<open>One cell\<close>

definition block_scope :: "block \<Rightarrow> bytes option" where
  "block_scope s =
     (case bk_expr_id s of None \<Rightarrow> None | Some x \<Rightarrow> if x = [] \<or> x = ZERO32 then None else Some x)"

text \<open>The encoders of the builtin types take the values that the constructors give them.\<close>

definition typed_payload_size :: "node_ctx \<Rightarrow> bytes option \<Rightarrow> expr \<Rightarrow> exc + int option" where
  "typed_payload_size cx b e =
     (case e of
        Link v h t hh th \<Rightarrow>
          if is_builtin_composite e then
            (case v of
               Some _ \<Rightarrow> (case inline_bytes v t of Some p \<Rightarrow> Inr (Some (int (length p))) | None \<Rightarrow> Inl TypeError)
             | None \<Rightarrow> Inr (map_option (\<lambda>p. int (length p)) (head_bytes h)))
          else
            (let tail_hash = (case th of Some x \<Rightarrow> Some x | None \<Rightarrow> map_option (expr_hash (cx_hash cx)) t) in
             if \<not> (case tail_hash of Some x \<Rightarrow> is_composite_type_hash (cx_hash cx) x | None \<Rightarrow> False)
             then Inr None
             else
               bind_exc
                 (case (h, hh) of
                    (None, Some x) \<Rightarrow>
                      (case fetch_in cx b x of None \<Rightarrow> Inl UnresolvedRecordExpr | Some y \<Rightarrow> Inr (Some y))
                  | _ \<Rightarrow> Inr h)
                 (\<lambda>head. Inr (map_option (\<lambda>p. int (length p)) (head_bytes head))))
      | _ \<Rightarrow> Inr None)"

definition flat_size :: "node_ctx \<Rightarrow> bytes option \<Rightarrow> expr \<Rightarrow> exc + int" where
  "flat_size cx b e =
     bind_exc (typed_payload_size cx b e) (\<lambda>typed.
       Inr (case typed of
              Some n \<Rightarrow> n
            | None \<Rightarrow> if get_expr_builtin_tag (cx_hash cx) e \<noteq> u ''link'' then int (expr_size e) else 64))"

definition single_cell :: "node_ctx \<Rightarrow> bytes option \<Rightarrow> expr \<Rightarrow> exc + expr" where
  "single_cell cx b e =
     (if get_expr_builtin_tag (cx_hash cx) e \<noteq> u ''link'' then Inr e
      else
        bind_exc (typed_payload_size cx b e) (\<lambda>typed.
          if typed \<noteq> None then Inr e
          else
            (let cell = Link None None None (Some (get_expr_head_hash (cx_hash cx) e))
                          (Some (get_expr_tail_hash (cx_hash cx) e))
             in Inr (if expr_hash (cx_hash cx) cell = expr_hash (cx_hash cx) e then cell else e))))"

type_synonym walk_item = "expr option \<times> bytes"

definition child_part :: "(bytes \<Rightarrow> bytes) \<Rightarrow> bool \<Rightarrow> expr option \<Rightarrow> bytes option \<Rightarrow> walk_item list" where
  "child_part H follow_refs child r =
     (case child of
        Some c \<Rightarrow> if follow_refs \<and> expr_hash H c = ZERO32 then [] else [(Some c, expr_hash H c)]
      | None \<Rightarrow>
          (case r of
             Some x \<Rightarrow> if follow_refs \<and> x \<noteq> ZERO32 then [(None, x)] else []
           | None \<Rightarrow> []))"

definition cell_children :: "node_ctx \<Rightarrow> bool \<Rightarrow> bytes option \<Rightarrow> expr \<Rightarrow> exc + walk_item list" where
  "cell_children cx follow_refs b e =
     (if get_expr_builtin_tag (cx_hash cx) e \<noteq> u ''link'' then Inr []
      else
        bind_exc (if follow_refs then typed_payload_size cx b e else Inr None) (\<lambda>typed.
          if typed \<noteq> None then Inr []
          else Inr (child_part (cx_hash cx) follow_refs (head_of e) (head_hash_of e)
                    @ child_part (cx_hash cx) follow_refs (tail_of e) (tail_hash_of e))))"

section \<open>The size of an expr\<close>

text \<open>The items of the stack, the next one first.\<close>

fun size_loop :: "node_ctx \<Rightarrow> bytes option \<Rightarrow> nat \<Rightarrow> walk_item list \<Rightarrow> bytes list \<Rightarrow> int \<Rightarrow> exc + int option" where
  "size_loop cx b n [] seen acc = Inr (Some acc)"
| "size_loop cx b 0 (x # stack) seen acc = Inl OutOfFuel"
| "size_loop cx b (Suc n) ((c, h) # stack) seen acc =
     (if h \<in> set seen then size_loop cx b n stack seen acc
      else
        (case (case c of Some e \<Rightarrow> Some e | None \<Rightarrow> fetch_in cx b h) of
           None \<Rightarrow> Inr None
         | Some e \<Rightarrow>
             bind_exc (flat_size cx b e) (\<lambda>k.
             bind_exc (cell_children cx True b e) (\<lambda>children.
               size_loop cx b n (children @ stack) (h # seen) (acc + k)))))"

definition storage_walk_size :: "node_ctx \<Rightarrow> block \<Rightarrow> expr \<Rightarrow> bytes list \<Rightarrow> exc + int option" where
  "storage_walk_size cx s e exclude =
     (case size_loop cx (block_scope s) (cx_fuel cx) [(Some e, expr_hash (cx_hash cx) e)] exclude 0 of
        Inl UnresolvedRecordExpr \<Rightarrow> Inr None
      | r \<Rightarrow> r)"

definition prev_head :: "block \<Rightarrow> head option" where
  "prev_head s =
     map_option (\<lambda>b. \<lparr>head_height = head_height b, head_statistics = head_statistics b\<rparr>) (bk_previous s)"

definition storage_fee_of :: "block \<Rightarrow> int \<Rightarrow> exc + int" where
  "storage_fee_of s n = calculate_storage_fee (prev_head s) n"

definition storage_walk_fee :: "node_ctx \<Rightarrow> block \<Rightarrow> expr \<Rightarrow> bytes list \<Rightarrow> exc + int option" where
  "storage_walk_fee cx s e exclude =
     bind_exc (storage_walk_size cx s e exclude) (\<lambda>size.
       case size of None \<Rightarrow> Inr None | Some n \<Rightarrow> map_sum id Some (storage_fee_of s n))"

section \<open>The slots of a record\<close>

text \<open>
  The walk with the trie it looks in, the slots so far, the cells found in the trie, and the size, all
  the newest first. The cells it slots come back as single cells, with their hash.
\<close>

fun slot_loop ::
  "node_ctx \<Rightarrow> bool \<Rightarrow> bytes option \<Rightarrow> nat \<Rightarrow> walk_item list \<Rightarrow> radix_tree \<Rightarrow> bytes list \<Rightarrow> bytes list \<Rightarrow>
     (bytes \<times> expr) list \<Rightarrow> int \<Rightarrow> exc + bytes list \<times> bytes list \<times> (bytes \<times> expr) list \<times> int" where
  "slot_loop cx follow b n [] t slots found cells acc = Inr (rev slots, rev found, rev cells, acc)"
| "slot_loop cx follow b 0 (x # stack) t slots found cells acc = Inl OutOfFuel"
| "slot_loop cx follow b (Suc n) ((c, h) # stack) t slots found cells acc =
     (if h \<in> set slots then slot_loop cx follow b n stack t slots found cells acc
      else
        (case tree_get cx t h of
           (Inl x, _) \<Rightarrow> Inl x
         | (Inr (Some _, _), t') \<Rightarrow> slot_loop cx follow b n stack t' slots (h # found) cells acc
         | (Inr (None, _), t') \<Rightarrow>
             (case (case c of Some e \<Rightarrow> Some e | None \<Rightarrow> fetch_in cx b h) of
                None \<Rightarrow> Inl UnresolvedRecordExpr
              | Some e \<Rightarrow>
                  bind_exc (if follow then flat_size cx b e else Inr (int (expr_size e))) (\<lambda>k.
                  bind_exc (single_cell cx b e) (\<lambda>cell.
                  bind_exc (cell_children cx follow b e) (\<lambda>children.
                    slot_loop cx follow b n (children @ stack) t' (h # slots) found ((h, cell) # cells)
                      (acc + k)))))))"

definition walk_record_slots ::
  "node_ctx \<Rightarrow> bool \<Rightarrow> expr \<Rightarrow> radix_tree \<Rightarrow> exc + bytes list \<times> bytes list \<times> (bytes \<times> expr) list \<times> int" where
  "walk_record_slots cx follow_refs e lookup =
     (let b = (if follow_refs then Some (expr_hash (cx_hash cx) e) else None) in
      bind_exc (cell_children cx follow_refs b e) (\<lambda>children.
        slot_loop cx follow_refs b (cx_fuel cx) children lookup [] [] [] 0))"

section \<open>The receipt\<close>

definition receipt_to_expr :: "receipt \<Rightarrow> expr" where
  "receipt_to_expr r =
     cons (cons (cons (int_expr (data_fee r))
                (cons (int_expr (execution_fee r))
                (cons (hash_ref (logs_hash r))
                (cons (int_expr (mint r))
                (cons (int_expr (status r))
                (cons (int_expr (storage_fee r))
                (cons (int_expr (transaction_fee r)) (hash_ref (transaction_hash r)))))))))
           NIL)
       (symbol ''receipt'')"

fun fixed_point_rounds ::
  "node_ctx \<Rightarrow> block \<Rightarrow> (int \<Rightarrow> receipt) \<Rightarrow> int \<Rightarrow> bytes list \<Rightarrow> nat \<Rightarrow> int \<Rightarrow> exc + receipt option" where
  "fixed_point_rounds cx s build base named 0 fee = Inr (Some (build fee))"
| "fixed_point_rounds cx s build base named (Suc n) fee =
     bind_exc (storage_walk_fee cx s (receipt_to_expr (build fee)) named) (\<lambda>own.
       case own of
         None \<Rightarrow> Inr None
       | Some k \<Rightarrow>
           if base + k = fee then Inr (Some (build fee))
           else fixed_point_rounds cx s build base named n (max fee (base + k)))"

definition receipt_at_fixed_point ::
  "node_ctx \<Rightarrow> block \<Rightarrow> (int \<Rightarrow> receipt) \<Rightarrow> int \<Rightarrow> bytes list \<Rightarrow> exc + receipt option" where
  "receipt_at_fixed_point cx s build base named = fixed_point_rounds cx s build base named 8 base"

definition calculate_transaction_costs :: "node_ctx \<Rightarrow> block \<Rightarrow> transaction \<Rightarrow> exc + int" where
  "calculate_transaction_costs cx s tx =
     (let e = transaction_to_expr tx; tx_hash = expr_hash (cx_hash cx) e in
      bind_exc (storage_walk_fee cx s e []) (\<lambda>fee.
        case fee of
          None \<Rightarrow> Inl (ValueError ''transaction cannot be sized'')
        | Some tx_fee \<Rightarrow>
            bind_exc
              (receipt_at_fixed_point cx s
                 (\<lambda>k. \<lparr>transaction_hash = tx_hash, transaction_fee = 1, storage_fee = k, data_fee = 0,
                       execution_fee = 0, status = 0, logs_hash = ZERO32, mint = 0\<rparr>)
                 tx_fee [tx_hash, ZERO32])
              (\<lambda>r. case r of
                     None \<Rightarrow> Inl (ValueError ''receipt cannot be sized'')
                   | Some r \<Rightarrow> Inr (storage_fee r))))"

section \<open>The contract that charges for a list\<close>

text \<open>
  The branches of \<open>handle_storage_initial_contract\<close> with a transaction; the caller always has one. Its
  \<open>except\<close> returns \<open>None\<close>, and nothing was changed before the last two steps.
\<close>

fun sum_sizes :: "node_ctx \<Rightarrow> block \<Rightarrow> expr list \<Rightarrow> int \<Rightarrow> exc + int option" where
  "sum_sizes cx s [] acc = Inr (Some acc)"
| "sum_sizes cx s (e # es) acc =
     bind_exc (storage_walk_size cx s e []) (\<lambda>k.
       case k of None \<Rightarrow> Inr None | Some n \<Rightarrow> sum_sizes cx s es (acc + n))"

definition initial_list :: "node_ctx \<Rightarrow> block \<Rightarrow> transaction \<Rightarrow> exc + expr list option" where
  "initial_list cx s tx =
     (let tag = get_expr_builtin_tag (cx_hash cx) in
      bind_exc (inner_exprs cx (block_scope s) (transaction_to_expr tx)) (\<lambda>(_, missed).
        if missed \<noteq> [] then Inr None
        else
          (case head_of (load_whole cx (block_scope s) (tx_data tx)) of
             None \<Rightarrow> Inr None
           | Some data_head \<Rightarrow>
               if tag data_head \<noteq> u ''link'' then Inr None
               else
                 (case head_of data_head of
                    None \<Rightarrow> Inr None
                  | Some list_expr \<Rightarrow>
                      if tag list_expr \<noteq> u ''link'' then Inr None
                      else
                        bind_exc (list_items cx (block_scope s) list_expr) (\<lambda>(items, missed).
                          Inr (if missed \<noteq> [] then None else Some items))))))"

definition handle_storage_initial_contract ::
  "node_ctx \<Rightarrow> transaction \<Rightarrow> bytes \<Rightarrow> bytes \<Rightarrow> int \<Rightarrow> int option act" where
  "handle_storage_initial_contract cx tx sender storage current_fees =
     catch
       (bnd (reads (\<lambda>s. bind_exc (initial_list cx s tx) (\<lambda>items.
                case items of None \<Rightarrow> Inr None | Some es \<Rightarrow> sum_sizes cx s es 0))) (\<lambda>r.
        bnd (lift r) (\<lambda>acc.
          case acc of
            None \<Rightarrow> ret None
          | Some n \<Rightarrow>
              bnd (reads (\<lambda>s. storage_fee_of s n)) (\<lambda>r.
              bnd (lift r) (\<lambda>cost.
              bnd (account_of sender) (\<lambda>x.
                if ac_balance x < current_fees + cost then ret None
                else
                  bnd (add_balance storage cost) (\<lambda>_.
                  bnd (add_balance sender (- cost)) (\<lambda>_. ret (Some cost)))))))))
       None"


section \<open>The size does not depend on how much is loaded\<close>

text \<open>
  \<open>U\<close> holds the cells at hand: the expr, in whatever form, and what storage returns. No two different
  cells of it have one hash, every part that is a hash can be fetched, and the cells are well tagged: a
  cell whose tail is the symbol of a builtin type holds bytes, and a value is only kept in such a cell.
\<close>

definition well_tagged :: "(bytes \<Rightarrow> bytes) \<Rightarrow> (bytes \<Rightarrow> expr option) \<Rightarrow> expr set \<Rightarrow> expr \<Rightarrow> bool" where
  "well_tagged H fetch U e \<longleftrightarrow>
     (case e of
        Link v h t hh th \<Rightarrow>
          (h = None \<or> hh = None) \<and> (t = None \<or> th = None)
          \<and> (if is_composite_type_hash H (get_expr_tail_hash H e) then
               (case v of
                  Some _ \<Rightarrow> h = None \<and> hh = None \<and> (case inline_bytes v t of Some b \<Rightarrow> Bytes b \<in> U | None \<Rightarrow> False)
                | None \<Rightarrow>
                    (case (h, hh) of
                       (Some c, _) \<Rightarrow> head_bytes h \<noteq> None
                     | (None, Some x) \<Rightarrow> x \<noteq> ZERO32 \<and> head_bytes (fetch x) \<noteq> None
                     | _ \<Rightarrow> False))
             else v = None)
      | _ \<Rightarrow> True)"

definition at_hand :: "(bytes \<Rightarrow> bytes) \<Rightarrow> (bytes \<Rightarrow> expr option) \<Rightarrow> expr set \<Rightarrow> bytes \<Rightarrow> bool" where
  "at_hand H fetch U x \<longleftrightarrow> (case fetch x of Some c \<Rightarrow> c \<in> U \<and> expr_hash H c = x | None \<Rightarrow> False)"

definition parts_at_hand :: "(bytes \<Rightarrow> bytes) \<Rightarrow> (bytes \<Rightarrow> expr option) \<Rightarrow> expr set \<Rightarrow> expr \<Rightarrow> bool" where
  "parts_at_hand H fetch U e \<longleftrightarrow>
     (case head_of e of Some c \<Rightarrow> c \<in> U
      | None \<Rightarrow> (case head_hash_of e of Some x \<Rightarrow> x = ZERO32 \<or> at_hand H fetch U x | None \<Rightarrow> True))
     \<and> (case tail_of e of Some c \<Rightarrow> c \<in> U
        | None \<Rightarrow> (case tail_hash_of e of
             Some x \<Rightarrow> x = ZERO32 \<or> is_composite_type_hash H x \<or> at_hand H fetch U x | None \<Rightarrow> True))"

definition cells_agree :: "(bytes \<Rightarrow> bytes) \<Rightarrow> (bytes \<Rightarrow> expr option) \<Rightarrow> expr set \<Rightarrow> bool" where
  "cells_agree H fetch U \<longleftrightarrow>
     (\<forall>e\<in>U. well_tagged H fetch U e \<and> parts_at_hand H fetch U e
        \<and> is_composite_type_hash H (expr_hash H e) = (case e of Symbol s \<Rightarrow> is_composite_tag s | _ \<Rightarrow> False))
     \<and> (\<forall>a\<in>U. \<forall>b\<in>U. expr_hash H a = expr_hash H b \<longrightarrow> by_hash H a = by_hash H b)
     \<and> \<not> is_composite_type_hash H ZERO32"

definition item_ok :: "(bytes \<Rightarrow> bytes) \<Rightarrow> (bytes \<Rightarrow> expr option) \<Rightarrow> expr set \<Rightarrow> walk_item \<Rightarrow> bool" where
  "item_ok H fetch U i \<longleftrightarrow>
     (case fst i of Some c \<Rightarrow> c \<in> U \<and> expr_hash H c = snd i | None \<Rightarrow> at_hand H fetch U (snd i))"

text \<open>What the walk does at a cell, from its canonical form alone.\<close>

definition kids :: "(bytes \<Rightarrow> bytes) \<Rightarrow> expr \<Rightarrow> bytes list" where
  "kids H e =
     (if base_of e = BLink \<and> \<not> is_composite_type_hash H (get_expr_tail_hash H e)
      then filter (\<lambda>x. x \<noteq> ZERO32) [get_expr_head_hash H e, get_expr_tail_hash H e] else [])"

lemma by_hash_same:
  assumes "by_hash H a = by_hash H b"
  shows "kids H a = kids H b"
    "base_of a = BLink \<longleftrightarrow> base_of b = BLink"
    "get_expr_head_hash H a = get_expr_head_hash H b" "get_expr_tail_hash H a = get_expr_tail_hash H b"
    "base_of a \<noteq> BLink \<Longrightarrow> a = b"
  using assms by (cases a; cases b; simp add: by_hash_def kids_def)+

lemma child_part_ok:
  assumes "case c of Some y \<Rightarrow> y \<in> U | None \<Rightarrow> (case r of Some x \<Rightarrow> x = ZERO32 \<or> at_hand H fetch U x | None \<Rightarrow> True)"
    and "x = (case r of Some x \<Rightarrow> x | None \<Rightarrow> (case c of Some y \<Rightarrow> expr_hash H y | None \<Rightarrow> ZERO32))"
    and "c = None \<or> r = None"
  shows "map snd (child_part H True c r) = filter (\<lambda>x. x \<noteq> ZERO32) [x] \<and> list_all (item_ok H fetch U) (child_part H True c r)"
  using assms by (auto simp: child_part_def item_ok_def split: option.splits)

lemma cell_view:
  assumes "cells_agree (cx_hash cx) (fetch_in cx b) U" and "e \<in> U"
  shows "\<exists>k items. flat_size cx b e = Inr k \<and> cell_children cx True b e = Inr items
     \<and> map snd items = kids (cx_hash cx) e \<and> list_all (item_ok (cx_hash cx) (fetch_in cx b) U) items
     \<and> (if base_of e \<noteq> BLink then k = int (expr_size e)
        else if is_composite_type_hash (cx_hash cx) (get_expr_tail_hash (cx_hash cx) e)
        then (\<exists>p. Bytes p \<in> U \<and> k = int (length p) \<and> get_expr_head_hash (cx_hash cx) e = terminal_hash (cx_hash cx) 2 p)
        else k = 64)"
proof (cases e)
  case (Link v h t hh th)
  let ?H = "cx_hash cx" and ?f = "fetch_in cx b"
  have wt: "well_tagged ?H ?f U e" and parts: "parts_at_hand ?H ?f U e"
    and zero: "\<not> is_composite_type_hash ?H ZERO32"
    and tags: "\<And>c. c \<in> U \<Longrightarrow> is_composite_type_hash ?H (expr_hash ?H c) \<longleftrightarrow> (\<exists>s. c = Symbol s \<and> is_composite_tag s)"
    using assms by (auto simp: cells_agree_def split: expr.splits)
  have hb: "head_bytes x = Some p \<longleftrightarrow> x = Some (Bytes p)" for x p
    by (simp add: head_bytes_def split: option.splits expr.splits)
  show ?thesis
  proof (cases "is_composite_type_hash ?H (get_expr_tail_hash ?H e)")
    case True
    have tail: "is_composite_type_hash ?H x" if "t = None" "th = Some x" for x
      using True that by (simp add: Link)
    have some_tail: "t \<noteq> None \<or> th \<noteq> None" using True zero by (auto simp: Link split: option.splits)
    have sym: "\<exists>s. c = Symbol s \<and> is_composite_tag s" if "t = Some c" for c
    proof -
      have "th = None" "c \<in> U" using wt parts that by (simp_all add: Link well_tagged_def parts_at_hand_def)
      then show ?thesis using True that tags [of c] by (simp add: Link)
    qed
    have "\<exists>p. Bytes p \<in> U \<and> typed_payload_size cx b e = Inr (Some (int (length p)))
        \<and> get_expr_head_hash ?H e = terminal_hash ?H 2 p"
    proof (cases v)
      case (Some q)
      then obtain p where p: "h = None" "hh = None" "inline_bytes v t = Some p" "Bytes p \<in> U"
        using wt True by (auto simp: well_tagged_def Link split: option.splits)
      moreover from p(3) Some obtain s where "t = Some (Symbol s)"
        by (auto simp: inline_bytes_def split: option.splits expr.splits)
      ultimately show ?thesis
        using Some sym by (auto simp: Link typed_payload_size_def is_builtin_composite_def inline_head_hash_def)
    next
      case None
      then consider p where "h = Some (Bytes p)"
        | p x where "h = None" "hh = Some x" "x \<noteq> ZERO32" "?f x = Some (Bytes p)"
        using wt True by (auto simp: well_tagged_def Link hb split: option.splits)
      then show ?thesis
      proof cases
        case 1
        then have "hh = None" "Bytes p \<in> U" using wt parts by (simp_all add: Link well_tagged_def parts_at_hand_def)
        with 1 None show ?thesis
          using some_tail tail sym
          by (cases t; cases th)
            (auto simp: Link typed_payload_size_def is_builtin_composite_def head_bytes_def)
      next
        case 2
        then have "Bytes p \<in> U" "x = terminal_hash ?H 2 p"
          using parts 2 by (auto simp: Link parts_at_hand_def at_hand_def)
        moreover have "typed_payload_size cx b e = Inr (Some (int (length p)))"
        proof -
          have "is_composite_type_hash ?H (expr_hash ?H c)" if "t = Some c" for c
            using sym [OF that] tags [of c] parts that by (auto simp: Link parts_at_hand_def)
          then show ?thesis
            using 2 None some_tail tail wt
            by (cases t; cases th)
              (auto simp: Link well_tagged_def typed_payload_size_def is_builtin_composite_def head_bytes_def)
        qed
        ultimately show ?thesis using 2 by (auto simp: Link)
      qed
    qed
    then show ?thesis using True
      by (auto simp: flat_size_def cell_children_def kids_def Link)
  next
    case False
    have v: "v = None" "h = None \<or> hh = None" "t = None \<or> th = None"
      using wt False by (simp_all add: well_tagged_def Link)
    have no_sym: "\<not> is_composite_tag s" if "t = Some (Symbol s)" for s
      using that v parts False tags [of "Symbol s"] by (auto simp: Link parts_at_hand_def)
    have no_hash: "\<not> is_composite_type_hash ?H x" if "t = None" "th = Some x" for x
      using that False by (simp add: Link)
    have tag: "get_expr_builtin_tag ?H e = u ''link''"
      using no_sym no_hash
      by (auto simp: Link get_expr_builtin_tag_def is_composite_type_hash_def split: option.splits expr.splits)
    have typed: "typed_payload_size cx b e = Inr None"
      using no_sym v False
      by (auto simp: Link typed_payload_size_def is_builtin_composite_def split: option.splits expr.splits)
    have "map snd (child_part ?H True h hh) = filter (\<lambda>x. x \<noteq> ZERO32) [get_expr_head_hash ?H e]
        \<and> list_all (item_ok ?H ?f U) (child_part ?H True h hh)"
      "map snd (child_part ?H True t th) = filter (\<lambda>x. x \<noteq> ZERO32) [get_expr_tail_hash ?H e]
        \<and> list_all (item_ok ?H ?f U) (child_part ?H True t th)"
      by (rule child_part_ok; use parts v no_hash in \<open>auto simp: Link parts_at_hand_def split: option.splits\<close>)+
    then show ?thesis using False tag typed
      by (auto simp: flat_size_def cell_children_def kids_def Link)
  qed
qed (use assms(1) in \<open>simp_all add: cells_agree_def flat_size_def cell_children_def typed_payload_size_def
       get_expr_builtin_tag_def kids_def child_part_def\<close>)


lemma same_view:
  assumes "cells_agree (cx_hash cx) (fetch_in cx b) U" and "e \<in> U" "e' \<in> U"
    and "expr_hash (cx_hash cx) e = expr_hash (cx_hash cx) e'"
  obtains k items items' where "flat_size cx b e = Inr k" "flat_size cx b e' = Inr k"
    "cell_children cx True b e = Inr items" "cell_children cx True b e' = Inr items'"
    "map snd items = map snd items'"
    "list_all (item_ok (cx_hash cx) (fetch_in cx b) U) items" "list_all (item_ok (cx_hash cx) (fetch_in cx b) U) items'"
proof -
  have hash: "by_hash (cx_hash cx) x = by_hash (cx_hash cx) y"
    if "x \<in> U" "y \<in> U" "expr_hash (cx_hash cx) x = expr_hash (cx_hash cx) y" for x y
    by (rule assms(1) [unfolded cells_agree_def, THEN conjunct2, THEN conjunct1, rule_format]; fact that)
  note same = hash [OF assms(2-4)]
  have bytes: "p = q" if "Bytes p \<in> U" "Bytes q \<in> U" "terminal_hash (cx_hash cx) 2 p = terminal_hash (cx_hash cx) 2 q" for p q
  proof -
    show ?thesis using hash [of "Bytes p" "Bytes q"] that by (simp add: by_hash_def)
  qed
  obtain k items k' items' where a: "flat_size cx b e = Inr k" "cell_children cx True b e = Inr items"
    "map snd items = kids (cx_hash cx) e" "list_all (item_ok (cx_hash cx) (fetch_in cx b) U) items"
    "if base_of e \<noteq> BLink then k = int (expr_size e)
     else if is_composite_type_hash (cx_hash cx) (get_expr_tail_hash (cx_hash cx) e)
     then (\<exists>p. Bytes p \<in> U \<and> k = int (length p) \<and> get_expr_head_hash (cx_hash cx) e = terminal_hash (cx_hash cx) 2 p)
     else k = 64"
    and b: "flat_size cx b e' = Inr k'" "cell_children cx True b e' = Inr items'"
    "map snd items' = kids (cx_hash cx) e'" "list_all (item_ok (cx_hash cx) (fetch_in cx b) U) items'"
    "if base_of e' \<noteq> BLink then k' = int (expr_size e')
     else if is_composite_type_hash (cx_hash cx) (get_expr_tail_hash (cx_hash cx) e')
     then (\<exists>p. Bytes p \<in> U \<and> k' = int (length p) \<and> get_expr_head_hash (cx_hash cx) e' = terminal_hash (cx_hash cx) 2 p)
     else k' = 64"
    using cell_view [OF assms(1,2)] cell_view [OF assms(1,3)] by blast
  have "k = k'"
    using a(5) b(5) by_hash_same [OF same] by (auto split: if_splits dest: bytes)
  then show ?thesis
    using that [of k items items'] a b by_hash_same(1) [OF same] by simp
qed

lemma size_loop_same:
  assumes "cells_agree (cx_hash cx) (fetch_in cx b) U"
    and "list_all (item_ok (cx_hash cx) (fetch_in cx b) U) st" "list_all (item_ok (cx_hash cx) (fetch_in cx b) U) st'"
    and "map snd st = map snd st'"
  shows "size_loop cx b n st seen acc = size_loop cx b n st' seen acc"
  using assms(2-4)
proof (induction n arbitrary: st st' seen acc)
  case 0
  then show ?case by (cases st; cases st') auto
next
  case (Suc n)
  show ?case
  proof (cases st)
    case Nil
    with Suc.prems show ?thesis by simp
  next
    case (Cons i rest)
    with Suc.prems obtain c c' h rest' where i: "i = (c, h)" and st': "st' = (c', h) # rest'"
      and rest: "map snd rest = map snd rest'"
      by (cases st'; cases i; cases "hd st'") auto
    have get: "\<exists>e\<in>U. (case d of Some e \<Rightarrow> Some e | None \<Rightarrow> fetch_in cx b h) = Some e \<and> expr_hash (cx_hash cx) e = h"
      if "item_ok (cx_hash cx) (fetch_in cx b) U (d, h)" for d
      using that by (auto simp: item_ok_def at_hand_def split: option.splits)
    obtain e where e: "e \<in> U" "(case c of Some e \<Rightarrow> Some e | None \<Rightarrow> fetch_in cx b h) = Some e" "expr_hash (cx_hash cx) e = h"
      using get [of c] Suc.prems(1) by (auto simp: Cons i)
    obtain e' where e': "e' \<in> U" "(case c' of Some e \<Rightarrow> Some e | None \<Rightarrow> fetch_in cx b h) = Some e'" "expr_hash (cx_hash cx) e' = h"
      using get [of c'] Suc.prems(2) by (auto simp: st')
    obtain k items items' where v: "flat_size cx b e = Inr k" "flat_size cx b e' = Inr k"
      "cell_children cx True b e = Inr items" "cell_children cx True b e' = Inr items'" "map snd items = map snd items'"
      "list_all (item_ok (cx_hash cx) (fetch_in cx b) U) items" "list_all (item_ok (cx_hash cx) (fetch_in cx b) U) items'"
      using same_view [OF assms(1) e(1) e'(1)] e(3) e'(3) by metis
    show ?thesis
      using Suc.prems rest v e(2) e'(2)
      by (simp add: Cons i st' Suc.IH [of rest rest'] Suc.IH [of "items @ rest" "items' @ rest'"])
  qed
qed

text \<open>C38: the size a sender is charged for does not depend on how much of an expr a node has loaded. On
  well-tagged cells that can be fetched, two forms of one expr have the same size: whole, by its hash,
  or anything between; and when the walk runs out of its fuel for one it does for the other.\<close>

theorem walk_size_same:
  assumes "cells_agree (cx_hash cx) (fetch_in cx (block_scope s)) U" and "e \<in> U" and "e' \<in> U"
    and "expr_hash (cx_hash cx) e = expr_hash (cx_hash cx) e'"
  shows "storage_walk_size cx s e exclude = storage_walk_size cx s e' exclude"
  using size_loop_same [OF assms(1), of "[(Some e, expr_hash (cx_hash cx) e)]" "[(Some e', expr_hash (cx_hash cx) e')]"] assms(2-4)
  by (simp add: storage_walk_size_def item_ok_def)


text \<open>A list whose item is loaded, the same list by hash, and a storage with its cells.\<close>

definition demo_cells :: "expr list" where
  "demo_cells =
     (let e = cons (int_expr 5) NIL; h = (\<lambda>x. x) in
      [e, by_hash h e, int_expr 5, by_hash h (int_expr 5), symbol ''int'', Bytes [5], NIL])"

definition walk_cx :: node_ctx where
  "walk_cx = demo_cx\<lparr>cx_get := (\<lambda>x b.
     find (\<lambda>e. expr_hash (\<lambda>x. x) e = x) (tl demo_cells))\<rparr>"

lemma demo_cells_agree: "cells_agree (\<lambda>x. x) (fetch_in walk_cx None) (set demo_cells)"
  by code_simp

lemma walk_size_same_witness:
  "storage_walk_size walk_cx demo_block (cons (int_expr 5) NIL) [] = storage_walk_size walk_cx demo_block (demo_cells ! 1) []
   \<and> storage_walk_size walk_cx demo_block (demo_cells ! 1) [] = Inr (Some 65)"
proof
  show "storage_walk_size walk_cx demo_block (cons (int_expr 5) NIL) [] = storage_walk_size walk_cx demo_block (demo_cells ! 1) []"
  proof (rule walk_size_same)
    show "cells_agree (cx_hash walk_cx) (fetch_in walk_cx (block_scope demo_block)) (set demo_cells)"
      using demo_cells_agree by (simp add: walk_cx_def demo_cx_def demo_block_def block_scope_def)
    show "expr_hash (cx_hash walk_cx) (cons (int_expr 5) NIL) = expr_hash (cx_hash walk_cx) (demo_cells ! 1)" by code_simp
  qed (simp_all add: demo_cells_def Let_def)
  show "storage_walk_size walk_cx demo_block (demo_cells ! 1) [] = Inr (Some 65)" by code_simp
qed

text \<open>
  A cell that is tagged as an int and holds a list is not well tagged, and its two forms have different
  sizes: 64 bytes by its hash, and what happens to be loaded below it otherwise.
\<close>

definition mistagged :: expr where
  "mistagged = cons (cons (cons (Bytes [1]) (Bytes [2])) (Bytes [3])) (symbol ''int'')"

lemma mistagged_sizes:
  "expr_hash (cx_hash demo_cx) (by_hash (cx_hash demo_cx) mistagged) = expr_hash (cx_hash demo_cx) mistagged
   \<and> storage_walk_size demo_cx demo_block mistagged [] \<noteq> storage_walk_size demo_cx demo_block (by_hash (cx_hash demo_cx) mistagged) []"
  by code_simp

end
