(* ===== verification/Work.thy ===== *)
theory Work
  imports Floats64 Radix_Bits
begin

text \<open>
  Proof of work: \<open>consensus/block/utils/bits.py\<close>, \<open>consensus/block/nonce.py\<close>,
  \<open>consensus/block/difficulty.py\<close>, \<open>communication/message_pow.py\<close> and \<open>communication/difficulty.py\<close>.

  A block's hash with a nonce is an argument, a function of the nonce: the code builds the block's
  expr again for each nonce and signs it. The search of a block nonce may run forever, so it takes
  fuel; the search of a message nonce ends with an error after \<open>2 ^ 64\<close> nonces.
\<close>

section \<open>The code\<close>

definition byte_bit_length :: "byte \<Rightarrow> nat" where
  "byte_bit_length b = nat_bit_length (unat b)"

text \<open>\<open>count_leading_zero_bits\<close> and \<open>_leading_zero_bits\<close> are the same code.\<close>

fun count_leading_zero_bits :: "bytes \<Rightarrow> nat" where
  "count_leading_zero_bits [] = 0"
| "count_leading_zero_bits (b # buf) =
     (if b = 0 then 8 + count_leading_zero_bits buf else 8 - byte_bit_length b)"

fun nonce_loop :: "(int \<Rightarrow> bytes) \<Rightarrow> int \<Rightarrow> nat \<Rightarrow> int \<Rightarrow> int option" where
  "nonce_loop block_hash target 0 nonce = None"
| "nonce_loop block_hash target (Suc fuel) nonce =
     (if int (count_leading_zero_bits (block_hash nonce)) \<ge> target then Some nonce
      else nonce_loop block_hash target fuel (nonce + 1))"

definition generate_block_nonce :: "(int \<Rightarrow> bytes) \<Rightarrow> int \<Rightarrow> int option \<Rightarrow> nat \<Rightarrow> int option" where
  "generate_block_nonce block_hash difficulty block_nonce fuel =
     nonce_loop block_hash (max 1 difficulty) fuel (case block_nonce of None \<Rightarrow> 0 | Some n \<Rightarrow> n)"

definition MAX_MESSAGE_NONCE :: int where
  "MAX_MESSAGE_NONCE = 2 ^ 64 - 1"

function message_nonce_loop :: "(bytes \<Rightarrow> bytes) \<Rightarrow> bytes \<Rightarrow> int \<Rightarrow> int \<Rightarrow> exc + int" where
  "message_nonce_loop H message target nonce =
     (if nonce > MAX_MESSAGE_NONCE then Inl (ValueError ''nonce search exhausted'')
      else if int (count_leading_zero_bits (H (message @ be_bytes 8 nonce))) \<ge> target then Inr nonce
      else message_nonce_loop H message target (nonce + 1))"
  by pat_completeness auto
termination by (relation "measure (\<lambda>(H, message, target, nonce). nat (MAX_MESSAGE_NONCE + 1 - nonce))") auto

declare message_nonce_loop.simps [simp del]

definition calculate_message_nonce :: "(bytes \<Rightarrow> bytes) \<Rightarrow> bytes \<Rightarrow> int \<Rightarrow> exc + int" where
  "calculate_message_nonce H message difficulty = message_nonce_loop H message (max 1 difficulty) 0"

definition calculate_block_difficulty :: "int option \<Rightarrow> int option \<Rightarrow> int option \<Rightarrow> int \<Rightarrow> int" where
  "calculate_block_difficulty previous_timestamp current_timestamp previous_difficulty target_spacing =
     (let base_difficulty =
            max 1 (case previous_difficulty of None \<Rightarrow> 1 | Some d \<Rightarrow> if d = 0 then 1 else d)
      in case (previous_timestamp, current_timestamp) of
           (Some p, Some c) \<Rightarrow>
             (let spacing = max 0 (c - p) in
              if spacing \<le> 1 then base_difficulty + 1
              else if spacing > target_spacing then max 1 (base_difficulty - 1)
              else base_difficulty)
         | _ \<Rightarrow> base_difficulty)"

definition message_difficulty :: "int \<Rightarrow> int \<Rightarrow> int" where
  "message_difficulty queued limit =
     (if limit \<le> 0 then 1
      else
        (let pressure = f64 (of_int queued / of_int limit);
             value =
               (if pressure < f64 (70 / 100) then 1
                else if pressure < f64 (75 / 100) then 3
                else if pressure < f64 (80 / 100) then 5
                else if pressure < f64 (85 / 100) then 8
                else if pressure < f64 (90 / 100) then 12
                else if pressure < f64 (93 / 100) then 16
                else if pressure < f64 (95 / 100) then 19
                else if pressure < f64 (97 / 100) then 22
                else if pressure < f64 (98 / 100) then 24
                else 26)
         in max 1 (min 255 value)))"

section \<open>Leading zeros\<close>

text \<open>The reference: the bits before the first one.\<close>

definition leading_zeros :: "bool list \<Rightarrow> nat" where
  "leading_zeros bs = length (takeWhile Not bs)"

lemma nat_bit_length_unique: "2 ^ k \<le> n \<Longrightarrow> n < 2 ^ Suc k \<Longrightarrow> nat_bit_length n = Suc k"
proof -
  assume a: "2 ^ k \<le> n" "n < 2 ^ Suc k"
  then have n: "n \<noteq> 0" by (cases n) simp_all
  have "(2::nat) ^ k < 2 ^ nat_bit_length n"
    using a(1) nat_bit_length_upper [of n] by linarith
  then have "k < nat_bit_length n" by (simp add: power_strict_increasing_iff)
  moreover have "(2::nat) ^ (nat_bit_length n - 1) < 2 ^ Suc k"
    using a(2) nat_bit_length_lower [OF n] by linarith
  then have "nat_bit_length n - 1 < Suc k" by (simp only: power_strict_increasing_iff one_less_numeral_iff semiring_norm)
  ultimately show ?thesis by linarith
qed

lemma bit_length_bits_val: "nat_bit_length (nat (bits_val bs)) = length (dropWhile Not bs)"
proof (induction bs)
  case Nil
  then show ?case by simp
next
  case (Cons b bs)
  have v: "bits_val (b # bs) = of_bool b * 2 ^ length bs + bits_val bs"
    using bits_val_append [of "[b]" bs] by (simp add: bits_val_def)
  show ?case
  proof (cases b)
    case False
    then show ?thesis using Cons v by simp
  next
    case True
    have "nat (bits_val (b # bs)) = 2 ^ length bs + nat (bits_val bs)"
      using v True bits_val_bounds [of bs] by (simp add: nat_add_distrib nat_power_eq)
    moreover have "nat (bits_val bs) < 2 ^ length bs"
      using bits_val_bounds [of bs] by (simp add: nat_less_iff)
    ultimately have "nat_bit_length (nat (bits_val (b # bs))) = Suc (length bs)"
      by (intro nat_bit_length_unique) simp_all
    then show ?thesis using True by simp
  qed
qed

lemma byte_bit_length_eq: "byte_bit_length b = length (dropWhile Not (byte_bits b))"
  using bit_length_bits_val [of "byte_bits b"] by (simp add: bits_val_byte byte_bit_length_def)

lemma leading_zeros_byte: "leading_zeros (byte_bits b) = 8 - byte_bit_length b"
proof -
  have "length (takeWhile Not (byte_bits b)) + length (dropWhile Not (byte_bits b)) = 8"
    by (metis length_append length_byte_bits takeWhile_dropWhile_id)
  then show ?thesis by (simp add: leading_zeros_def byte_bit_length_eq)
qed

lemma byte_bits_all_zero: "(\<forall>x\<in>set (byte_bits b). \<not> x) \<longleftrightarrow> b = 0"
proof
  assume "\<forall>x\<in>set (byte_bits b). \<not> x"
  then have "byte_bits b = replicate 8 False" by (metis (full_types) length_byte_bits replicate_eqI)
  then have "uint b = 0" by (metis bits_val_byte bits_val_zeros)
  then show "b = 0" by (simp add: uint_0_iff)
qed (simp add: byte_bits_def)

lemma count_leading_zero_bits_eq: "count_leading_zero_bits buf = leading_zeros (bits_of buf)"
proof (induction buf)
  case Nil
  then show ?case by (simp add: leading_zeros_def)
next
  case (Cons b buf)
  show ?case
  proof (cases "b = 0")
    case True
    then have "takeWhile Not (byte_bits b @ bits_of buf) = byte_bits b @ takeWhile Not (bits_of buf)"
      using byte_bits_all_zero [of b] by (intro takeWhile_append2) blast
    with True Cons show ?thesis by (simp add: leading_zeros_def bits_of_Cons)
  next
    case False
    then obtain x where "x \<in> set (byte_bits b)" "\<not> Not x" using byte_bits_all_zero [of b] by blast
    then have "takeWhile Not (byte_bits b @ bits_of buf) = takeWhile Not (byte_bits b)"
      by (rule takeWhile_append1)
    with False show ?thesis
      using leading_zeros_byte [of b] by (simp add: leading_zeros_def bits_of_Cons)
  qed
qed

section \<open>Properties\<close>

text \<open>
  C30: a mined nonce is the first one that meets the target. With enough fuel the search returns exactly
  when some nonce from the start on gives a hash with \<open>max 1 difficulty\<close> leading zero bits, and it
  returns the least such nonce.
\<close>

theorem block_nonce_is_first:
  assumes "start = (case block_nonce of None \<Rightarrow> 0 | Some n \<Rightarrow> n)"
  shows "generate_block_nonce block_hash difficulty block_nonce fuel = Some nonce \<longleftrightarrow>
    start \<le> nonce \<and> nonce < start + int fuel
    \<and> max 1 difficulty \<le> int (leading_zeros (bits_of (block_hash nonce)))
    \<and> (\<forall>n. start \<le> n \<and> n < nonce \<longrightarrow> int (leading_zeros (bits_of (block_hash n))) < max 1 difficulty)"
proof -
  have "nonce_loop block_hash target fuel s = Some nonce \<longleftrightarrow>
    s \<le> nonce \<and> nonce < s + int fuel \<and> target \<le> int (leading_zeros (bits_of (block_hash nonce)))
    \<and> (\<forall>n. s \<le> n \<and> n < nonce \<longrightarrow> int (leading_zeros (bits_of (block_hash n))) < target)" for target s
  proof (induction fuel arbitrary: s)
    case 0
    then show ?case by simp
  next
    case (Suc fuel)
    show ?case
    proof (cases "target \<le> int (leading_zeros (bits_of (block_hash s)))")
      case True
      then have "nonce_loop block_hash target (Suc fuel) s = Some s" by (simp add: count_leading_zero_bits_eq)
      moreover have "s \<le> nonce \<Longrightarrow> (\<forall>n. s \<le> n \<and> n < nonce \<longrightarrow> int (leading_zeros (bits_of (block_hash n))) < target) \<Longrightarrow> nonce = s"
        using True by (metis linorder_not_le order_le_less order_refl)
      ultimately show ?thesis using True by auto
    next
      case False
      then have "nonce_loop block_hash target (Suc fuel) s = nonce_loop block_hash target fuel (s + 1)"
        by (simp add: count_leading_zero_bits_eq)
      also have "\<dots> = Some nonce \<longleftrightarrow>
        s \<le> nonce \<and> nonce < s + int (Suc fuel) \<and> target \<le> int (leading_zeros (bits_of (block_hash nonce)))
        \<and> (\<forall>n. s \<le> n \<and> n < nonce \<longrightarrow> int (leading_zeros (bits_of (block_hash n))) < target)"
      proof -
        have "nonce \<noteq> s" if "target \<le> int (leading_zeros (bits_of (block_hash nonce)))"
          using False that by auto
        moreover have "(\<forall>n. s \<le> n \<and> n < nonce \<longrightarrow> int (leading_zeros (bits_of (block_hash n))) < target) =
            (\<forall>n. s + 1 \<le> n \<and> n < nonce \<longrightarrow> int (leading_zeros (bits_of (block_hash n))) < target)"
          (is "?A = ?B")
        proof
          assume ?B
          moreover have "n = s \<or> s + 1 \<le> n" if "s \<le> n" for n using that by linarith
          ultimately show ?A using False by (metis linorder_not_le)
        qed simp
        ultimately show ?thesis unfolding Suc.IH by auto
      qed
      finally show ?thesis .
    qed
  qed
  then show ?thesis by (simp add: generate_block_nonce_def assms)
qed

lemma block_nonce_is_first_witness:
  "generate_block_nonce (\<lambda>n. [word_of_int (128 - n)]) 1 (Some 0) 5 = Some 1
    \<and> \<not> 1 \<le> leading_zeros (bits_of [128])"
proof -
  have run: "generate_block_nonce (\<lambda>n. [word_of_int (128 - n)]) 1 (Some 0) 5 = Some 1" by code_simp
  from run [unfolded block_nonce_is_first [OF refl]] have "int (leading_zeros (bits_of [word_of_int (128 - 0)])) < max 1 1"
    by (auto dest: spec [of _ 0])
  with run show ?thesis by simp
qed

lemma message_nonce_loop_result:
  assumes "0 \<le> nonce"
  shows "case message_nonce_loop H m target nonce of
      Inr n \<Rightarrow> nonce \<le> n \<and> n \<le> MAX_MESSAGE_NONCE
        \<and> target \<le> int (leading_zeros (bits_of (H (m @ be_bytes 8 n))))
        \<and> (\<forall>k. nonce \<le> k \<and> k < n \<longrightarrow> int (leading_zeros (bits_of (H (m @ be_bytes 8 k)))) < target)
    | Inl e \<Rightarrow> e = ValueError ''nonce search exhausted''
        \<and> (\<forall>k. nonce \<le> k \<and> k \<le> MAX_MESSAGE_NONCE \<longrightarrow> int (leading_zeros (bits_of (H (m @ be_bytes 8 k)))) < target)"
  using assms
proof (induction H m target nonce rule: message_nonce_loop.induct)
  case (1 H m target nonce)
  let ?z = "\<lambda>k. int (leading_zeros (bits_of (H (m @ be_bytes 8 k))))"
  consider "nonce > MAX_MESSAGE_NONCE" | "nonce \<le> MAX_MESSAGE_NONCE" "target \<le> ?z nonce"
    | "nonce \<le> MAX_MESSAGE_NONCE" "?z nonce < target" by linarith
  then show ?case
  proof cases
    case 1
    then show ?thesis by (subst message_nonce_loop.simps) simp
  next
    case 2
    then show ?thesis by (subst message_nonce_loop.simps) (simp add: count_leading_zero_bits_eq)
  next
    case 3
    then have step: "message_nonce_loop H m target nonce = message_nonce_loop H m target (nonce + 1)"
      by (subst message_nonce_loop.simps) (simp add: count_leading_zero_bits_eq)
    have more: "k = nonce \<or> nonce + 1 \<le> k" if "nonce \<le> k" for k using that by linarith
    have "0 \<le> nonce + 1" using 1(2) by simp
    with 1(1) 3 have "case message_nonce_loop H m target (nonce + 1) of
        Inr n \<Rightarrow> nonce + 1 \<le> n \<and> n \<le> MAX_MESSAGE_NONCE \<and> target \<le> ?z n
          \<and> (\<forall>k. nonce + 1 \<le> k \<and> k < n \<longrightarrow> ?z k < target)
      | Inl e \<Rightarrow> e = ValueError ''nonce search exhausted''
          \<and> (\<forall>k. nonce + 1 \<le> k \<and> k \<le> MAX_MESSAGE_NONCE \<longrightarrow> ?z k < target)"
      by (simp add: count_leading_zero_bits_eq)
    then show ?thesis
      unfolding step using more 3(2) by (auto split: sum.splits)
  qed
qed

text \<open>
  C31: the search of a message nonce always ends. It returns the least nonce below \<open>2 ^ 64\<close> whose hash has
  \<open>max 1 difficulty\<close> leading zero bits, and it raises only when there is none.
\<close>

theorem message_nonce_is_first:
  "case calculate_message_nonce H m difficulty of
      Inr n \<Rightarrow> 0 \<le> n \<and> n \<le> MAX_MESSAGE_NONCE
        \<and> max 1 difficulty \<le> int (leading_zeros (bits_of (H (m @ be_bytes 8 n))))
        \<and> (\<forall>k. 0 \<le> k \<and> k < n \<longrightarrow> int (leading_zeros (bits_of (H (m @ be_bytes 8 k)))) < max 1 difficulty)
    | Inl e \<Rightarrow> e = ValueError ''nonce search exhausted''
        \<and> (\<forall>k. 0 \<le> k \<and> k \<le> MAX_MESSAGE_NONCE \<longrightarrow> int (leading_zeros (bits_of (H (m @ be_bytes 8 k)))) < max 1 difficulty)"
  unfolding calculate_message_nonce_def by (rule message_nonce_loop_result) simp

lemma message_nonce_is_first_witness:
  "calculate_message_nonce (\<lambda>_. [16]) [1] 3 = Inr 0 \<and> 3 \<le> leading_zeros (bits_of [16])"
proof -
  have run: "calculate_message_nonce (\<lambda>_. [16]) [1] 3 = Inr 0" by code_simp
  then show ?thesis using message_nonce_is_first [of "\<lambda>_. [16]" "[1]" 3] by simp
qed

lemma difficulty_moves_by_one:
  "1 \<le> calculate_block_difficulty p c d spacing
    \<and> \<bar>calculate_block_difficulty p c d spacing - max 1 (case d of None \<Rightarrow> 1 | Some d \<Rightarrow> d)\<bar> \<le> 1"
  by (auto simp: calculate_block_difficulty_def Let_def max_def split: option.splits)

lemma message_difficulty_range: "1 \<le> message_difficulty n l \<and> message_difficulty n l \<le> 26"
  by (simp add: message_difficulty_def Let_def)

end
