(* ===== verification/Storage_Difficulty.thy ===== *)
theory Storage_Difficulty
  imports Block_Rate Work
begin

text \<open>
  The difficulty of a storage claim: \<open>consensus/transaction/storage/difficulty.py\<close>. A provider near the
  record in the xor metric needs fewer bits of work, and every doubling of the time since the last
  claim takes one bit off.
\<close>

unbundle bit_operations_syntax

section \<open>The code\<close>

definition shared_prefix_bits :: "bytes \<Rightarrow> bytes \<Rightarrow> int" where
  "shared_prefix_bits a b =
     int (length a * 8) - int (bit_length (be_uint (map (\<lambda>(x, y). x XOR y) (zip a b))))"

definition distance_delta :: "bytes \<Rightarrow> bytes \<Rightarrow> bytes \<Rightarrow> int" where
  "distance_delta sender winner storage_id =
     (if winner = ZERO32 then 0
      else shared_prefix_bits sender storage_id - shared_prefix_bits winner storage_id)"

definition required_bits :: "bytes \<Rightarrow> bytes \<Rightarrow> bytes \<Rightarrow> int \<Rightarrow> int \<Rightarrow> int" where
  "required_bits sender winner storage_id elapsed storage_difficulty =
     (if sender = winner then 0
      else max 0 (storage_difficulty - (int (bit_length (max 1 elapsed)) - 1)
                  - distance_delta sender winner storage_id))"

definition takeover_position :: "int \<Rightarrow> int \<Rightarrow> int" where
  "takeover_position elapsed delta =
     (if delta < 0 then drop_bit (nat (- delta)) elapsed else push_bit (nat delta) elapsed)"

definition takeover_vote :: "int \<Rightarrow> int option \<Rightarrow> int" where
  "takeover_vote position fair =
     (case fair of
        None \<Rightarrow> 0
      | Some f \<Rightarrow> if position = f then 0 else if position < f then 1 else -1)"

definition next_storage_difficulty :: "int \<Rightarrow> int \<Rightarrow> int" where
  "next_storage_difficulty parent votes = max 0 (parent + of_bool (votes > 0) - of_bool (votes < 0))"

text \<open>The loop of \<open>fair_interval\<close> over the windows, with the last window and its claims.\<close>

fun fair_loop :: "head \<Rightarrow> int \<Rightarrow> nat list \<Rightarrow> int \<Rightarrow> int \<Rightarrow> exc + int \<times> int" where
  "fair_loop parent lanes [] window claims = Inr (window, claims)"
| "fair_loop parent lanes (i # is) window claims =
     bind_exc (windowed_claims (Some parent) (2 ^ i)) (\<lambda>c.
       let claims' = (case c of None \<Rightarrow> 0 | Some c \<Rightarrow> c) in
       if claims' \<ge> lanes then Inr (2 ^ i, claims') else fair_loop parent lanes is (2 ^ i) claims')"

definition fair_interval :: "head option \<Rightarrow> exc + int option" where
  "fair_interval parent =
     (case parent of
        None \<Rightarrow> Inr None
      | Some b \<Rightarrow>
          if head_statistics b = [] then Inr None
          else
            (let lanes = PROVIDERS_PER_RECORD * head_height b in
             bind_exc (fair_loop b lanes [0..<length (head_statistics b) - 1] 0 0) (\<lambda>(window, claims).
               Inr (if claims \<le> 0 then None else Some (lanes * window div claims)))))"

section \<open>The xor metric\<close>

lemma bits_of_xor:
  "length a = length b \<Longrightarrow> bits_of (map (\<lambda>(x, y). x XOR y) (zip a b)) = map2 (\<noteq>) (bits_of a) (bits_of b)"
proof (induction a b rule: list_induct2)
  case (Cons x xs y ys)
  have "byte_bits (x XOR y) = map2 (\<noteq>) (byte_bits x) (byte_bits y)"
    by (simp add: byte_bits_def bit_xor_iff)
  then show ?case using Cons by (simp add: bits_of_Cons)
qed simp

fun common_prefix :: "'a list \<Rightarrow> 'a list \<Rightarrow> nat" where
  "common_prefix (x # xs) (y # ys) = (if x = y then Suc (common_prefix xs ys) else 0)"
| "common_prefix _ _ = 0"

lemma takeWhile_common_prefix:
  "length xs = length ys \<Longrightarrow> length (takeWhile Not (map2 (\<noteq>) xs ys)) = common_prefix xs ys"
  by (induction xs ys rule: list_induct2) auto

lemma shared_prefix_bits_eq:
  assumes "length a = length b"
  shows "shared_prefix_bits a b = int (common_prefix (bits_of a) (bits_of b))"
proof -
  let ?x = "map (\<lambda>(x, y). x XOR y) (zip a b)"
  have "bit_length (be_uint ?x) = length (dropWhile Not (bits_of ?x))"
    using bit_length_bits_val [of "bits_of ?x"] bits_val_bounds [of "bits_of ?x"]
    by (simp add: bit_length_def bits_val_bits_of)
  moreover have "length (takeWhile Not (bits_of ?x)) + length (dropWhile Not (bits_of ?x)) = 8 * length a"
    using assms by (metis length_append length_bits_of length_map length_zip min.idem takeWhile_dropWhile_id)
  moreover have "length (takeWhile Not (bits_of ?x)) = common_prefix (bits_of a) (bits_of b)"
    unfolding bits_of_xor [OF assms] using assms by (intro takeWhile_common_prefix) simp
  ultimately show ?thesis by (simp add: shared_prefix_bits_def)
qed

section \<open>Properties\<close>

lemma bit_length_mono: "0 \<le> x \<Longrightarrow> x \<le> y \<Longrightarrow> bit_length x \<le> bit_length y"
proof (cases "x = 0")
  case False
  assume "0 \<le> x" "x \<le> y"
  then have n: "nat x \<noteq> 0" "nat x \<le> nat y" using False by simp_all
  have "(2::nat) ^ (nat_bit_length (nat x) - 1) < 2 ^ nat_bit_length (nat y)"
    using nat_bit_length_lower [OF n(1)] nat_bit_length_upper [of "nat y"] n(2) by linarith
  then have "nat_bit_length (nat x) - 1 < nat_bit_length (nat y)" by (simp add: power_strict_increasing_iff)
  then show ?thesis using \<open>0 \<le> x\<close> \<open>x \<le> y\<close> by (simp add: bit_length_def)
qed (simp add: bit_length_def)

text \<open>
  The work of a claim is fair. The current winner needs no work; anyone else needs no more work the
  longer the lane has been quiet, and of two providers the one whose address shares more leading bits
  with the record needs no more than the other. The work is never negative and, against the winner's
  own distance and with no time passed, it is the difficulty itself.
\<close>

theorem required_bits_fair:
  assumes "length s = length storage_id" and "length s' = length storage_id"
    and "s \<noteq> winner" and "s' \<noteq> winner" and "elapsed \<le> elapsed'"
    and "common_prefix (bits_of s) (bits_of storage_id) \<le> common_prefix (bits_of s') (bits_of storage_id)"
  shows "required_bits winner winner storage_id elapsed diff = 0
    \<and> 0 \<le> required_bits s' winner storage_id elapsed' diff
    \<and> required_bits s' winner storage_id elapsed' diff \<le> required_bits s winner storage_id elapsed diff
    \<and> (winner = ZERO32 \<and> 0 \<le> diff \<longrightarrow> required_bits s winner storage_id 0 diff = diff)"
proof -
  have "bit_length (max 1 elapsed) \<le> bit_length (max 1 elapsed')"
    using assms(5) by (intro bit_length_mono) simp_all
  moreover have "distance_delta s winner storage_id \<le> distance_delta s' winner storage_id"
    using assms(6) by (simp add: distance_delta_def shared_prefix_bits_eq [OF assms(1)] shared_prefix_bits_eq [OF assms(2)])
  ultimately show ?thesis
    using assms(3,4) by (auto simp: required_bits_def distance_delta_def bit_length_def)
qed

lemma required_bits_fair_witness:
  "required_bits [0xF0] [0x00] [0xF1] 4 9 \<le> required_bits [0xC0] [0x00] [0xF1] 1 9"
proof -
  have a: "common_prefix (bits_of [0xC0]) (bits_of [0xF1]) \<le> common_prefix (bits_of [0xF0]) (bits_of [0xF1])"
    by code_simp
  show ?thesis
    using required_bits_fair [of "[0xC0]" "[0xF1]" "[0xF0]" "[0x00]" 1 4 9] a by simp
qed

end
