(* ===== verification/Storage_Payment.thy ===== *)
theory Storage_Payment
  imports Storage_Walk Storage_Difficulty
begin

text \<open>
  The records of stored blocks and the claims that pay their providers:
  \<open>consensus/transaction/storage/model.py\<close> and \<open>payment.py\<close>.

  A field that holds no value of its type raises \<open>TypeError\<close> when it is read. The handler turns every
  error into a payment of 0, and the transaction then fails and is rolled back.
\<close>

section \<open>Records\<close>

definition STORAGE_ADDRESS :: bytes where
  "STORAGE_ADDRESS = replicate 32 0"

definition TREASURY_ADDRESS :: bytes where
  "TREASURY_ADDRESS = replicate 32 255"

record storage_lane =
  ln_block_hash :: bytes
  ln_height :: int
  ln_winner :: bytes

record storage_record =
  sr_creation :: bytes
  sr_lanes :: "storage_lane list"
  sr_new_size :: int
  sr_new_count :: int
  sr_slots_root :: bytes

definition storage_lane_to_expr :: "storage_lane \<Rightarrow> expr" where
  "storage_lane_to_expr l =
     cons (hash_ref (ln_block_hash l)) (cons (int_expr (ln_height l)) (cons (Bytes (ln_winner l)) NIL))"

definition storage_record_to_expr :: "storage_record \<Rightarrow> expr" where
  "storage_record_to_expr r =
     cons (exprs_to_linked_expr (map storage_lane_to_expr (sr_lanes r)))
       (cons (hash_ref (sr_creation r))
         (cons (Bytes (sr_slots_root r))
           (cons (int_expr (sr_new_count r)) (cons (int_expr (sr_new_size r)) NIL))))"

definition extract_hash :: "(bytes \<Rightarrow> bytes) \<Rightarrow> expr \<Rightarrow> bytes" where
  "extract_hash H e =
     (if get_expr_builtin_tag H e = u ''link'' then
        (case head_hash_of e of
           Some x \<Rightarrow> x
         | None \<Rightarrow> (case head_of e of Some h \<Rightarrow> expr_hash H h | None \<Rightarrow> ZERO32))
      else ZERO32)"

definition tag_in :: "node_ctx \<Rightarrow> bytes option \<Rightarrow> expr \<Rightarrow> exc + pystr" where
  "tag_in cx b e = map_sum id fst (get_expr_tag (cx_hash cx) (Some (fetch_in cx b)) e)"

definition bytes_value :: "node_ctx \<Rightarrow> bytes option \<Rightarrow> expr \<Rightarrow> exc + bytes" where
  "bytes_value cx b e =
     bind_exc (get_expr_value (cx_hash cx) (Some (fetch_in cx b)) e) (\<lambda>(v, _).
       case v of Some (PBytes x) \<Rightarrow> Inr x | _ \<Rightarrow> Inl TypeError)"

text \<open>The checks of the tags of some items in order, each only if those before it passed.\<close>

fun tags_are :: "node_ctx \<Rightarrow> bytes option \<Rightarrow> (expr \<times> string) list \<Rightarrow> exc + bool" where
  "tags_are cx b [] = Inr True"
| "tags_are cx b ((e, t) # rest) =
     bind_exc (tag_in cx b e) (\<lambda>x. if x = u t then tags_are cx b rest else Inr False)"

definition storage_lane_from_expr :: "node_ctx \<Rightarrow> bytes option \<Rightarrow> expr \<Rightarrow> exc + storage_lane option" where
  "storage_lane_from_expr cx b e =
     (if get_expr_builtin_tag (cx_hash cx) e \<noteq> u ''link'' then Inr None
      else
        bind_exc (list_items cx b e) (\<lambda>(items, missed).
          if missed \<noteq> [] then Inr None
          else
            (case items of
               [hash_item, height_item, winner_item] \<Rightarrow>
                 bind_exc (tags_are cx b [(hash_item, ''link''), (height_item, ''int''), (winner_item, ''bytes'')]) (\<lambda>ok.
                   if \<not> ok then Inr None
                   else
                     bind_exc (int_value cx b height_item) (\<lambda>height.
                     bind_exc (bytes_value cx b winner_item) (\<lambda>winner.
                       Inr (Some \<lparr>ln_block_hash = extract_hash (cx_hash cx) hash_item, ln_height = height,
                                  ln_winner = winner\<rparr>))))
             | _ \<Rightarrow> Inr None)))"

fun lanes_from :: "node_ctx \<Rightarrow> bytes option \<Rightarrow> expr list \<Rightarrow> exc + storage_lane list option" where
  "lanes_from cx b [] = Inr (Some [])"
| "lanes_from cx b (e # es) =
     bind_exc (storage_lane_from_expr cx b e) (\<lambda>l.
       case l of
         None \<Rightarrow> Inr None
       | Some x \<Rightarrow> bind_exc (lanes_from cx b es) (\<lambda>r. Inr (map_option (Cons x) r)))"

definition storage_record_from_expr :: "node_ctx \<Rightarrow> bytes option \<Rightarrow> expr option \<Rightarrow> exc + storage_record option" where
  "storage_record_from_expr cx b header =
     (case header of
        None \<Rightarrow> Inr None
      | Some e \<Rightarrow>
          if get_expr_builtin_tag (cx_hash cx) e \<noteq> u ''link'' then Inr None
          else
            bind_exc (list_items cx b e) (\<lambda>(items, missed).
              if missed \<noteq> [] then Inr None
              else
                (case items of
                   [lanes_node, creation_node, root_node, count_node, size_node] \<Rightarrow>
                     bind_exc (tags_are cx b [(lanes_node, ''link''), (creation_node, ''link''), (root_node, ''bytes''),
                                              (count_node, ''int''), (size_node, ''int'')]) (\<lambda>ok.
                       if \<not> ok then Inr None
                       else
                         bind_exc (list_items cx b lanes_node) (\<lambda>(lane_nodes, missed).
                           if missed \<noteq> [] \<or> int (length lane_nodes) \<noteq> PROVIDERS_PER_RECORD then Inr None
                           else
                             bind_exc (lanes_from cx b lane_nodes) (\<lambda>lanes.
                               case lanes of
                                 None \<Rightarrow> Inr None
                               | Some ls \<Rightarrow>
                                   bind_exc (bytes_value cx b root_node) (\<lambda>r.
                                   bind_exc (int_value cx b count_node) (\<lambda>c.
                                   bind_exc (int_value cx b size_node) (\<lambda>n.
                                     Inr (Some \<lparr>sr_creation = extract_hash (cx_hash cx) creation_node, sr_lanes = ls,
                                                sr_new_size = n, sr_new_count = c, sr_slots_root = r\<rparr>)))))))
                 | _ \<Rightarrow> Inr None)))"

definition storage_record_from_storage :: "node_ctx \<Rightarrow> bytes option \<Rightarrow> bytes \<Rightarrow> exc + storage_record option" where
  "storage_record_from_storage cx b expr_id = storage_record_from_expr cx b (fetch_in cx b expr_id)"

text \<open>The cells that a record holds itself, each hash once, from the front to the back.\<close>

fun cells_from :: "(bytes \<Rightarrow> bytes) \<Rightarrow> expr \<Rightarrow> bytes list \<times> expr list \<Rightarrow> bytes list \<times> expr list" where
  "cells_from H (Link v h t hh th) (seen, out) =
     (let e = Link v h t hh th; x = expr_hash H e in
      if x \<in> set seen \<or> x = ZERO32 then (seen, out)
      else
        (let s1 = (x # seen, out @ [e]) in
         if get_expr_builtin_tag H e \<noteq> u ''link'' then s1
         else
           (let s2 = (case h of None \<Rightarrow> s1 | Some c \<Rightarrow> cells_from H c s1)
            in (case t of None \<Rightarrow> s2 | Some c \<Rightarrow> cells_from H c s2))))"
| "cells_from H e (seen, out) =
     (let x = expr_hash H e in
      if x \<in> set seen \<or> x = ZERO32 then (seen, out) else (x # seen, out @ [e]))"

definition storage_record_cells :: "(bytes \<Rightarrow> bytes) \<Rightarrow> storage_record \<Rightarrow> expr list" where
  "storage_record_cells H r = snd (cells_from H (storage_record_to_expr r) ([], []))"

section \<open>New records\<close>

definition generate_initial_storage_record ::
  "node_ctx \<Rightarrow> block \<Rightarrow> radix_tree \<Rightarrow> expr \<Rightarrow> bool \<Rightarrow> exc + (storage_record \<times> bytes list \<times> bytes list \<times> int) option" where
  "generate_initial_storage_record cx s storage_data e follow_refs =
     (case tree_get cx storage_data (expr_hash (cx_hash cx) e) of
        (Inl x, _) \<Rightarrow> Inl x
      | (Inr (Some _, _), _) \<Rightarrow> Inr None
      | (Inr (None, _), lookup) \<Rightarrow>
          bind_exc (walk_record_slots cx follow_refs e lookup) (\<lambda>(slots, found, _, n).
          bind_exc (storage_fee_of s n) (\<lambda>fee.
          bind_exc (create_merkle_tree (cx_hash cx) slots) (\<lambda>tree.
            Inr (Some (\<lparr>sr_creation = bk_previous_hash s,
                        sr_lanes = replicate (nat PROVIDERS_PER_RECORD)
                          \<lparr>ln_block_hash = bk_previous_hash s, ln_height = bk_height s - 1, ln_winner = ZERO32\<rparr>,
                        sr_new_size = n, sr_new_count = int (length slots), sr_slots_root = mt_root tree\<rparr>,
                       slots, found, fee))))))"

section \<open>Claims\<close>

definition MAX_PROOF_LEN :: nat where
  "MAX_PROOF_LEN = 64"

record claim =
  cl_storage_id :: bytes
  cl_slot :: bytes
  cl_proof :: "bytes list"
  cl_nonce :: "payload option"
  cl_lane :: int

definition nil_expr :: "(bytes \<Rightarrow> bytes) \<Rightarrow> expr \<Rightarrow> bool" where
  "nil_expr H e \<longleftrightarrow>
     e = NIL
     \<or> (get_expr_builtin_tag H e = u ''link'' \<and> head_of e = None \<and> tail_of e = None
        \<and> head_hash_of e \<in> {None, Some ZERO32} \<and> tail_hash_of e \<in> {None, Some ZERO32})"

text \<open>The items of a loaded list of at most \<open>n\<close> cells.\<close>

fun claim_items :: "(bytes \<Rightarrow> bytes) \<Rightarrow> expr \<Rightarrow> nat \<Rightarrow> expr list option" where
  "claim_items H (Link v h t hh th) n =
     (if nil_expr H (Link v h t hh th) then Some []
      else if get_expr_builtin_tag H (Link v h t hh th) \<noteq> u ''link'' then None
      else
        (case h of
           None \<Rightarrow> None
         | Some x \<Rightarrow>
             if n = 0 then None
             else map_option (Cons x) (case t of None \<Rightarrow> Some [] | Some y \<Rightarrow> claim_items H y (n - 1))))"
| "claim_items H NIL n = Some []"
| "claim_items H _ n = None"

definition bytes_items :: "expr list \<Rightarrow> bytes list option" where
  "bytes_items es = those (map (\<lambda>e. case e of Bytes b \<Rightarrow> Some b | _ \<Rightarrow> None) es)"

text \<open>The \<open>except ValueError\<close> around the reading of the nonce and the lane.\<close>

definition or_none :: "exc + 'a option \<Rightarrow> exc + 'a option" where
  "or_none r = (case r of Inl (ValueError m) \<Rightarrow> Inr None | _ \<Rightarrow> r)"

definition parse_claim :: "node_ctx \<Rightarrow> bytes option \<Rightarrow> expr \<Rightarrow> exc + claim option" where
  "parse_claim cx b e =
     (case claim_items (cx_hash cx) e 5 of
        Some [Bytes sid, Bytes slot, proof_e, nonce_e, lane_e] \<Rightarrow>
          bind_exc
            (or_none
              (bind_exc (tags_are cx b [(nonce_e, ''int'')]) (\<lambda>ok. if \<not> ok then Inr None else
               bind_exc (get_expr_value (cx_hash cx) (Some (fetch_in cx b)) nonce_e) (\<lambda>(nonce, _).
               bind_exc (tags_are cx b [(lane_e, ''int'')]) (\<lambda>ok. if \<not> ok then Inr None else
               bind_exc (get_expr_value (cx_hash cx) (Some (fetch_in cx b)) lane_e) (\<lambda>(lane, _).
                 Inr (Some (nonce, lane))))))))
            (\<lambda>r. case r of
               None \<Rightarrow> Inr None
             | Some (nonce, lane) \<Rightarrow>
                 bind_exc (as_int lane) (\<lambda>k.
                   if \<not> (0 \<le> k \<and> k < PROVIDERS_PER_RECORD) then Inr None
                   else
                     Inr (map_option (\<lambda>p. \<lparr>cl_storage_id = sid, cl_slot = slot, cl_proof = p, cl_nonce = nonce, cl_lane = k\<rparr>)
                            (Option.bind (claim_items (cx_hash cx) proof_e MAX_PROOF_LEN) bytes_items))))
      | _ \<Rightarrow> Inr None)"

fun parse_claims :: "node_ctx \<Rightarrow> bytes option \<Rightarrow> expr list \<Rightarrow> exc + claim list" where
  "parse_claims cx b [] = Inr []"
| "parse_claims cx b (e # es) =
     bind_exc (parse_claim cx b e) (\<lambda>c. bind_exc (parse_claims cx b es) (\<lambda>cs.
       Inr (case c of None \<Rightarrow> cs | Some x \<Rightarrow> x # cs)))"

definition challenge_index :: "(bytes \<Rightarrow> bytes) \<Rightarrow> bytes \<Rightarrow> bytes \<Rightarrow> int \<Rightarrow> int \<Rightarrow> int" where
  "challenge_index H paid storage_id new_count lane =
     le_uint (take 8 (H (paid @ storage_id @ [word_of_int lane]))) mod new_count"

section \<open>The rules of a lane\<close>

text \<open>\<open>lane_payout\<close> holds the guards on the record, and what a claim on the lane is paid.\<close>

definition lane_free :: "storage_record \<Rightarrow> int \<Rightarrow> bytes \<Rightarrow> bool" where
  "lane_free r k sender \<longleftrightarrow>
     int (length (sr_lanes r)) = PROVIDERS_PER_RECORD \<and> 0 \<le> k \<and> k < int (length (sr_lanes r))
     \<and> (\<forall>i<length (sr_lanes r). int i \<noteq> k \<longrightarrow> ln_winner (sr_lanes r ! i) \<noteq> sender)"

definition lane_payout :: "storage_record \<Rightarrow> int \<Rightarrow> int \<Rightarrow> int option" where
  "lane_payout r k height =
     (let paid = ln_height (sr_lanes r ! nat k) in
      if sr_new_size r \<le> 0 \<or> height \<le> paid then None
      else
        (let payout = sr_new_size r * (height - paid) in
         if payout \<le> 0 then None else Some payout))"

definition claim_lane :: "storage_record \<Rightarrow> int \<Rightarrow> bytes \<Rightarrow> int \<Rightarrow> bytes \<Rightarrow> storage_record" where
  "claim_lane r k previous_hash height sender =
     r\<lparr>sr_lanes := (sr_lanes r)[nat k :=
         (sr_lanes r ! nat k)\<lparr>ln_block_hash := previous_hash, ln_height := height, ln_winner := sender\<rparr>]\<rparr>"

section \<open>The handler\<close>

definition proof_holds :: "(bytes \<Rightarrow> bytes) \<Rightarrow> storage_record \<Rightarrow> claim \<Rightarrow> bytes \<Rightarrow> bool" where
  "proof_holds H r c slot_id \<longleftrightarrow>
     verify_merkle_tree_proof H \<lparr>mt_root = sr_slots_root r, mt_count = sr_new_count r, mt_levels = None\<rparr>
       (challenge_index H (ln_block_hash (sr_lanes r ! nat (cl_lane c))) (cl_storage_id c) (sr_new_count r) (cl_lane c))
       slot_id (cl_proof c)"

definition work_bits :: "(bytes \<Rightarrow> bytes) \<Rightarrow> storage_record \<Rightarrow> claim \<Rightarrow> bytes \<Rightarrow> bytes \<Rightarrow> int \<Rightarrow> int" where
  "work_bits H r c sender slot_id nonce =
     int (count_leading_zero_bits
       (H (ln_block_hash (sr_lanes r ! nat (cl_lane c)) @ sender @ cl_storage_id c @ slot_id @ cl_slot c
           @ encode_int nonce @ [word_of_int (cl_lane c)])))"

definition parent_storage_difficulty :: "block \<Rightarrow> int" where
  "parent_storage_difficulty s = (case bk_previous s of None \<Rightarrow> 0 | Some b \<Rightarrow> pv_storage_difficulty b)"

definition judge_claim ::
  "(bytes \<Rightarrow> bytes) \<Rightarrow> block \<Rightarrow> bytes \<Rightarrow> claim \<Rightarrow> storage_record \<Rightarrow> exc + int option" where
  "judge_claim H s sender c r =
     (let k = cl_lane c; lane = sr_lanes r ! nat k in
      if \<not> lane_free r k sender then Inr None
      else if length (ln_block_hash lane) \<noteq> 32 then Inr None
      else if sr_new_count r \<le> 0 \<or> length (sr_slots_root r) \<noteq> 32 then Inr None
      else
        (case decode_expr_from_bytes (cl_slot c) of
           Inl _ \<Rightarrow> Inr None
         | Inr slot \<Rightarrow>
             if \<not> proof_holds H r c (expr_hash H slot) then Inr None
             else
               bind_exc (as_int (cl_nonce c)) (\<lambda>nonce.
                 if work_bits H r c sender (expr_hash H slot) nonce
                      < required_bits sender (ln_winner lane) (cl_storage_id c) (bk_height s - ln_height lane)
                          (parent_storage_difficulty s)
                 then Inr None
                 else Inr (lane_payout r k (bk_height s)))))"

definition check_claim :: "node_ctx \<Rightarrow> bytes \<Rightarrow> claim \<Rightarrow> (storage_record \<times> int) option act" where
  "check_claim cx sender c =
     bnd (data_get cx STORAGE_ADDRESS (cl_storage_id c)) (\<lambda>(head, b).
       case head of
         None \<Rightarrow> ret None
       | Some e \<Rightarrow>
           bnd (lift (storage_record_from_storage cx b (expr_hash (cx_hash cx) e))) (\<lambda>r.
             case r of
               None \<Rightarrow> ret None
             | Some r \<Rightarrow>
                 bnd (reads (\<lambda>s. judge_claim (cx_hash cx) s sender c r)) (\<lambda>j.
                 bnd (lift j) (\<lambda>payout. ret (map_option (Pair r) payout)))))"

definition vote_of :: "block \<Rightarrow> bytes \<Rightarrow> bytes \<Rightarrow> bytes \<Rightarrow> int \<Rightarrow> exc + int" where
  "vote_of s sender winner storage_id elapsed =
     (if sender = winner then Inr 0
      else
        bind_exc (fair_interval (prev_head s)) (\<lambda>fair.
          Inr (takeover_vote (takeover_position elapsed (distance_delta sender winner storage_id)) fair)))"

text \<open>A tree that was written has a root, so its hash is \<open>sync_data_hash\<close>.\<close>

definition pay_claim :: "node_ctx \<Rightarrow> bytes \<Rightarrow> claim \<Rightarrow> int act" where
  "pay_claim cx sender c =
     bnd (check_claim cx sender c) (\<lambda>checked.
       case checked of
         None \<Rightarrow> ret 0
       | Some (r, payout) \<Rightarrow>
           bnd (add_balance sender payout) (\<lambda>_.
           bnd (reads (\<lambda>s. (bk_height s, bk_previous_hash s))) (\<lambda>(height, previous_hash).
           (let lane = sr_lanes r ! nat (cl_lane c);
                r' = claim_lane r (cl_lane c) previous_hash height sender in
            bnd (data_put cx STORAGE_ADDRESS (cl_storage_id c) (VExpr (storage_record_to_expr r'))) (\<lambda>_.
            bnd (sync_data_hash STORAGE_ADDRESS) (\<lambda>_.
            bnd (add_pending (storage_record_cells (cx_hash cx) r')) (\<lambda>_.
            bnd (update (\<lambda>s. s\<lparr>bk_claims := bk_claims s + 1\<rparr>)) (\<lambda>_.
            bnd (reads (\<lambda>s. vote_of s sender (ln_winner lane) (cl_storage_id c) (height - ln_height lane))) (\<lambda>v.
            bnd (lift v) (\<lambda>vote.
            bnd (update (\<lambda>s. s\<lparr>bk_votes := bk_votes s + vote\<rparr>)) (\<lambda>_.
              ret payout)))))))))))"

fun pay_claims :: "node_ctx \<Rightarrow> bytes \<Rightarrow> claim list \<Rightarrow> int \<Rightarrow> int act" where
  "pay_claims cx sender [] minted = ret minted"
| "pay_claims cx sender (c # cs) minted =
     bnd (pay_claim cx sender c) (\<lambda>n. pay_claims cx sender cs (minted + n))"

definition handle_storage_payment_contract :: "node_ctx \<Rightarrow> bytes \<Rightarrow> expr \<Rightarrow> int act" where
  "handle_storage_payment_contract cx sender payload =
     catch
       (bnd (reads block_scope) (\<lambda>b.
        bnd (lift (list_items cx b payload)) (\<lambda>(nodes, missed).
          if missed \<noteq> [] then ret 0
          else
            bnd (lift (parse_claims cx b nodes)) (\<lambda>claims.
              if claims = [] then ret 0 else pay_claims cx sender claims 0))))
       0"


section \<open>What claims are paid\<close>

lemma sums_catch:
  assumes "hoare (sums_to cx R c) m Q" and "\<And>s. Q x s"
  shows "hoare (sums_to cx R c) (catch m x) Q"
  using assms by (auto simp: hoare_def catch_def split: prod.splits sum.splits)

lemma sums_check_claim [sums_rules]:
  "hoare (sums_to cx R c) (check_claim cx sender cl) (\<lambda>_. sums_to cx R c)"
  unfolding check_claim_def
  by (rule hoare_bnd sums_rules hoare_prod hoare_option hoare_ret | simp)+

lemma sums_pay_claim [sums_rules]:
  "hoare (sums_to cx R c) (pay_claim cx sender cl) (\<lambda>n. sums_to cx R (c + n))"
  unfolding pay_claim_def Let_def
  by (rule hoare_bnd sums_rules hoare_prod hoare_option sums_update hoare_ret | simp)+

lemma sums_pay_claims:
  "hoare (sums_to cx R c) (pay_claims cx sender cs m) (\<lambda>n. sums_to cx R (c + n - m))"
proof (induction cs arbitrary: c m)
  case Nil
  show ?case unfolding pay_claims.simps by (rule hoare_ret) simp
next
  case (Cons x xs)
  show ?case unfolding pay_claims.simps
  proof (rule hoare_bnd, rule sums_pay_claim)
    show "hoare (sums_to cx R (c + n)) (pay_claims cx sender xs (m + n)) (\<lambda>k. sums_to cx R (c + k - m))" for n
      using Cons.IH [of "c + n" "m + n"] by (simp add: algebra_simps)
  qed
qed

lemma sums_payment:
  "hoare (sums_to cx R c) (handle_storage_payment_contract cx sender payload) (\<lambda>n s. n \<noteq> 0 \<longrightarrow> sums_to cx R (c + n) s)"
proof -
  let ?Q = "\<lambda>n s'. n \<noteq> 0 \<longrightarrow> sums_to cx R (c + n) s'"
  have pay: "hoare (sums_to cx R c) (pay_claims cx sender cs 0) ?Q" for cs
    by (rule hoare_weaken, rule sums_pay_claims [where cx = cx and R = R and c = c]) simp_all
  show ?thesis
    unfolding handle_storage_payment_contract_def
    apply (rule sums_catch)
     apply (rule hoare_bnd sums_rules hoare_prod)+
     apply (rule hoare_if, rule hoare_ret, simp)
     apply (rule hoare_bnd sums_rules)+
     apply (rule hoare_if, rule hoare_ret, simp)
     apply (rule pay)
    apply simp
    done
qed

text \<open>C36: storage payments mint exactly what they report. A handler that returns \<open>n\<close> other than 0 has
  raised the balances of all accounts together by \<open>n\<close>, for any list of claims, the invalid ones among
  them included. (One that returns 0 may have paid before an error: the transaction is rolled back.)\<close>

theorem payment_mints_what_it_reports:
  assumes "ready cx R s" and "handle_storage_payment_contract cx sender payload s = (Inr n, s')" and "n \<noteq> 0"
  shows "ready cx R s' \<and> coins cx R s' = coins cx R s + n"
  using sums_payment [of cx R "coins cx R s" sender payload, unfolded hoare_def, rule_format, OF _ assms(2,3)] assms(1)
  by (simp add: sums_to_def)

text \<open>A block whose storage account holds a record of one slot, and a claim on its first lane.\<close>

definition pay_record :: storage_record where
  "pay_record =
     \<lparr>sr_creation = replicate 32 5, sr_lanes = replicate 2 \<lparr>ln_block_hash = replicate 32 6, ln_height = 3, ln_winner = ZERO32\<rparr>,
      sr_new_size = 7, sr_new_count = 1, sr_slots_root = merkle_leaf toy_hash (expr_hash toy_hash (Bytes [1]))\<rparr>"

definition pay_cx :: node_ctx where
  "pay_cx = \<lparr>cx_hash = toy_hash,
     cx_get = (\<lambda>h b. if h = expr_hash toy_hash (storage_record_to_expr pay_record)
                     then Some (storage_record_to_expr pay_record) else None),
     cx_list = (\<lambda>h b. None), cx_fuel = 9\<rparr>"

definition pay_block :: block where
  "pay_block = demo_block\<lparr>bk_accounts := (bk_accounts demo_block)\<lparr>as_cache :=
     [([1], demo_account 50),
      (STORAGE_ADDRESS, (demo_account 0)\<lparr>ac_data :=
         snd (tree_put pay_cx (new_radix_tree None None) (replicate 32 7) (VExpr (storage_record_to_expr pay_record)))\<rparr>)]\<rparr>\<rparr>"

definition pay_claims_expr :: expr where
  "pay_claims_expr =
     cons (cons (Bytes (replicate 32 7)) (cons (Bytes [2, 1]) (cons NIL (cons (int_expr 0) (cons (int_expr 0) NIL))))) NIL"

lemma payment_mints_what_it_reports_witness:
  "fst (handle_storage_payment_contract pay_cx [1] pay_claims_expr pay_block) = Inr 28
   \<and> coins pay_cx None (snd (handle_storage_payment_contract pay_cx [1] pay_claims_expr pay_block))
       = coins pay_cx None pay_block + 28"
proof
  show run: "fst (handle_storage_payment_contract pay_cx [1] pay_claims_expr pay_block) = Inr 28"
    by code_simp
  have "ready pay_cx None pay_block"
    by (simp add: ready_def tree_ready_def holds_def root_depth_def pay_block_def demo_block_def
        new_radix_tree_def)
  moreover have "handle_storage_payment_contract pay_cx [1] pay_claims_expr pay_block
      = (Inr 28, snd (handle_storage_payment_contract pay_cx [1] pay_claims_expr pay_block))"
    using run by (simp add: prod_eq_iff)
  ultimately show "coins pay_cx None (snd (handle_storage_payment_contract pay_cx [1] pay_claims_expr pay_block))
       = coins pay_cx None pay_block + 28"
    using payment_mints_what_it_reports [of pay_cx None pay_block "[1]" pay_claims_expr 28] by simp
qed

section \<open>The life of a record\<close>

text \<open>
  Claims that pass the guards of \<open>judge_claim\<close> on one record, in the order of the chain: the lane, the
  sender, and the height and the previous block of the block that holds the claim. Others leave the
  record as it is.
\<close>

type_synonym lane_claim = "int \<times> bytes \<times> int \<times> bytes"

definition record_step :: "storage_record \<Rightarrow> lane_claim \<Rightarrow> storage_record \<times> int" where
  "record_step r x =
     (case x of (k, sender, height, previous_hash) \<Rightarrow>
        if \<not> lane_free r k sender then (r, 0)
        else
          (case lane_payout r k height of
             None \<Rightarrow> (r, 0)
           | Some n \<Rightarrow> (claim_lane r k previous_hash height sender, n)))"

fun record_run :: "storage_record \<Rightarrow> lane_claim list \<Rightarrow> storage_record \<times> int" where
  "record_run r [] = (r, 0)"
| "record_run r (x # xs) =
     (case record_step r x of (r', n) \<Rightarrow> (case record_run r' xs of (r'', m) \<Rightarrow> (r'', n + m)))"

definition lanes_apart :: "storage_record \<Rightarrow> bool" where
  "lanes_apart r \<longleftrightarrow> distinct (filter (\<lambda>w. w \<noteq> ZERO32) (map ln_winner (sr_lanes r)))"

definition heights :: "storage_record \<Rightarrow> int" where
  "heights r = sum_list (map ln_height (sr_lanes r))"

lemma distinct_filter_update:
  "distinct (filter P xs) \<Longrightarrow> i < length xs \<Longrightarrow> (\<And>j. j < length xs \<Longrightarrow> j \<noteq> i \<Longrightarrow> xs ! j \<noteq> x)
     \<Longrightarrow> distinct (filter P (xs[i := x]))"
proof (induction xs arbitrary: i)
  case (Cons a xs)
  show ?case
  proof (cases i)
    case 0
    have "x \<notin> set xs" using Cons.prems(3) [of "Suc j" for j] 0 by (fastforce simp: in_set_conv_nth)
    then show ?thesis using Cons.prems(1) 0 by (auto split: if_splits)
  next
    case (Suc k)
    have "distinct (filter P (xs[k := x]))"
      using Cons.prems(1,2) Cons.prems(3) [of "Suc j" for j] Suc by (intro Cons.IH) (auto split: if_splits)
    moreover have "a \<noteq> x" using Cons.prems(3) [of 0] Suc by simp
    moreover have "set (xs[k := x]) \<subseteq> insert x (set xs)" by (rule set_update_subset_insert)
    ultimately show ?thesis using Cons.prems(1) Suc by (auto split: if_splits)
  qed
qed simp

lemma sum_list_update_int: "i < length xs \<Longrightarrow> sum_list (xs[i := x]) = sum_list xs - xs ! i + (x :: int)"
  by (induction xs arbitrary: i) (auto split: nat.splits)

lemma record_step_safe:
  assumes "lanes_apart r" and "record_step r x = (r', n)"
  shows "lanes_apart r'" "n = sr_new_size r * (heights r' - heights r)" "0 \<le> n" "sr_new_size r' = sr_new_size r"
    "length (sr_lanes r') = length (sr_lanes r)"
    "\<forall>i<length (sr_lanes r). ln_height (sr_lanes r ! i) \<le> ln_height (sr_lanes r' ! i)"
proof -
  obtain k sender h p where x: "x = (k, sender, h, p)" by (cases x)
  have "lanes_apart r' \<and> n = sr_new_size r * (heights r' - heights r) \<and> 0 \<le> n \<and> sr_new_size r' = sr_new_size r
    \<and> length (sr_lanes r') = length (sr_lanes r)
    \<and> (\<forall>i<length (sr_lanes r). ln_height (sr_lanes r ! i) \<le> ln_height (sr_lanes r' ! i))"
  proof (cases "lane_free r k sender \<and> lane_payout r k h \<noteq> None")
    case False
    with assms show ?thesis by (auto simp: record_step_def x split: if_splits option.splits)
  next
    case True
    let ?i = "nat k" and ?ls = "sr_lanes r"
    have i: "?i < length ?ls" and free: "\<And>j. j < length ?ls \<Longrightarrow> j \<noteq> ?i \<Longrightarrow> ln_winner (?ls ! j) \<noteq> sender"
      using True by (auto simp: lane_free_def)
    let ?l = "(?ls ! ?i)\<lparr>ln_block_hash := p, ln_height := h, ln_winner := sender\<rparr>"
    have r': "r' = r\<lparr>sr_lanes := ?ls[?i := ?l]\<rparr>" and n: "n = sr_new_size r * (h - ln_height (?ls ! ?i))" "0 \<le> n"
      and h: "ln_height (?ls ! ?i) < h"
      using True assms(2) by (auto simp: record_step_def x claim_lane_def lane_payout_def Let_def split: if_splits)
    have "lanes_apart r'"
      using assms(1) i free
      by (simp add: lanes_apart_def r' map_update) (rule distinct_filter_update; simp)
    moreover have "heights r' = heights r - ln_height (?ls ! ?i) + h"
      using i by (simp add: heights_def r' map_update sum_list_update_int)
    moreover have "\<forall>j<length ?ls. ln_height (?ls ! j) \<le> ln_height (?ls[?i := ?l] ! j)"
      using h i by (auto simp: nth_list_update)
    ultimately show ?thesis using n by (simp add: r')
  qed
  then show "lanes_apart r'" "n = sr_new_size r * (heights r' - heights r)" "0 \<le> n" "sr_new_size r' = sr_new_size r"
    "length (sr_lanes r') = length (sr_lanes r)"
    "\<forall>i<length (sr_lanes r). ln_height (sr_lanes r ! i) \<le> ln_height (sr_lanes r' ! i)"
    by simp_all
qed

text \<open>C37: a record pays for every block once on each lane. Whatever claims come, in whatever order and from
  whomever, the total that a record paid is its size times the number of blocks by which its lanes
  moved on; no lane moves back; and no key other than the zero key ever holds two lanes.\<close>

theorem record_pays_each_block_once:
  assumes "lanes_apart r" and "record_run r xs = (r', paid)"
  shows "lanes_apart r' \<and> paid = sr_new_size r * (heights r' - heights r) \<and> 0 \<le> paid
     \<and> length (sr_lanes r') = length (sr_lanes r)
     \<and> (\<forall>i<length (sr_lanes r). ln_height (sr_lanes r ! i) \<le> ln_height (sr_lanes r' ! i))"
  using assms
proof (induction xs arbitrary: r paid)
  case (Cons x xs)
  obtain r1 n where step: "record_step r x = (r1, n)" by fastforce
  obtain m where run: "record_run r1 xs = (r', m)" "paid = n + m"
    using Cons.prems(2) step by (auto split: prod.splits)
  note s = record_step_safe [OF Cons.prems(1) step]
  have IH: "lanes_apart r' \<and> m = sr_new_size r1 * (heights r' - heights r1) \<and> 0 \<le> m
     \<and> length (sr_lanes r') = length (sr_lanes r1)
     \<and> (\<forall>i<length (sr_lanes r1). ln_height (sr_lanes r1 ! i) \<le> ln_height (sr_lanes r' ! i))"
    by (rule Cons.IH [OF s(1) run(1)])
  have "paid = sr_new_size r * (heights r' - heights r)"
    using IH s(2,4) run(2) by (simp add: algebra_simps)
  then show ?case using IH s(3,5,6) run(2) by (fastforce intro: order_trans)
qed simp

definition demo_record :: storage_record where
  "demo_record = \<lparr>sr_creation = [], sr_lanes = replicate 2 \<lparr>ln_block_hash = [], ln_height = 10, ln_winner = ZERO32\<rparr>,
                  sr_new_size = 7, sr_new_count = 1, sr_slots_root = ZERO32\<rparr>"

lemma record_pays_each_block_once_witness:
  "snd (record_run demo_record [(0, [1], 15, []), (1, [1], 16, []), (1, [2], 16, []), (0, [1], 15, [])]) = 7 * (5 + 6)"
proof -
  have "lanes_apart demo_record" by code_simp
  moreover have "heights demo_record = 20"
    "heights (fst (record_run demo_record [(0, [1], 15, []), (1, [1], 16, []), (1, [2], 16, []), (0, [1], 15, [])])) = 31"
    "sr_new_size demo_record = 7"
    by code_simp+
  ultimately show ?thesis
    using record_pays_each_block_once
      [of demo_record "[(0, [1], 15, []), (1, [1], 16, []), (1, [2], 16, []), (0, [1], 15, [])]", OF _ prod.collapse [symmetric]]
    by (simp del: record_run.simps)
qed

end
