(* ===== verification/Transaction_Store.thy ===== *)
theory Transaction_Store
  imports Storage_Payment
begin

text \<open>
  Reading transactions and receipts from storage: \<open>consensus/transaction/from_storage.py\<close> and
  \<open>Receipt.from_storage\<close> of \<open>consensus/models/receipt.py\<close>.

  A transaction is read only from a header whose body is loaded, a receipt also from one whose parts are
  hashes; both come back as they were written.
\<close>

section \<open>Transactions\<close>

definition list_root :: "node_ctx \<Rightarrow> bytes option \<Rightarrow> bytes \<Rightarrow> exc + expr option" where
  "list_root cx b h = (case fetch_in cx b h of None \<Rightarrow> Inr None | Some e \<Rightarrow> list_of cx b e)"

definition value_error :: "string \<Rightarrow> exc + 'a" where
  "value_error m = Inl (ValueError m)"

text \<open>The items of a list that must have \<open>n\<close> of them and miss none.\<close>

definition exact_items :: "node_ctx \<Rightarrow> bytes option \<Rightarrow> nat \<Rightarrow> expr \<Rightarrow> exc + expr list" where
  "exact_items cx b n e =
     bind_exc (list_items cx b e) (\<lambda>(items, missed).
       if missed \<noteq> [] then value_error ''unable to resolve''
       else if length items \<noteq> n then value_error ''malformed length''
       else Inr items)"

fun all_ints :: "node_ctx \<Rightarrow> bytes option \<Rightarrow> expr list \<Rightarrow> exc + unit" where
  "all_ints cx b [] = Inr ()"
| "all_ints cx b (e # es) =
     bind_exc (tag_in cx b e) (\<lambda>t. if t \<noteq> u ''int'' then value_error ''expected Int'' else all_ints cx b es)"

definition get_transaction_from_storage :: "node_ctx \<Rightarrow> bytes option \<Rightarrow> bytes \<Rightarrow> exc + transaction" where
  "get_transaction_from_storage cx b transaction_id =
     (let tag = get_expr_builtin_tag (cx_hash cx) in
      bind_exc (list_root cx b transaction_id) (\<lambda>header.
      case header of
        None \<Rightarrow> value_error ''unable to load transaction from storage''
      | Some e \<Rightarrow>
          if tag e \<noteq> u ''link'' then value_error ''transaction header must be a Link''
          else if tail_of e \<noteq> Some (symbol ''transaction'') then value_error ''invalid transaction type tag''
          else
            (case head_of e of
               None \<Rightarrow> value_error ''transaction inner header must be a Link''
             | Some inner \<Rightarrow>
                 if tag inner \<noteq> u ''link'' then value_error ''transaction inner header must be a Link''
                 else
                   bind_exc (exact_items cx b 2 inner) (\<lambda>parts.
                   case parts ! 1 of
                     Bytes sig \<Rightarrow>
                       if tag (parts ! 0) \<noteq> u ''link'' then value_error ''transaction body must be a Link chain''
                       else
                         bind_exc (exact_items cx b 8 (parts ! 0)) (\<lambda>ns.
                         bind_exc (all_ints cx b (take 5 ns)) (\<lambda>_.
                         case (ns ! 6, ns ! 7) of
                           (Bytes recipient, Bytes sender) \<Rightarrow>
                             bind_exc (int_value cx b (ns ! 1)) (\<lambda>chain_id.
                             bind_exc (int_value cx b (ns ! 0)) (\<lambda>amount.
                             bind_exc (int_value cx b (ns ! 2)) (\<lambda>c.
                             bind_exc (transaction_code_of c) (\<lambda>code.
                             bind_exc (int_value cx b (ns ! 4)) (\<lambda>counter.
                             bind_exc (int_value cx b (ns ! 3)) (\<lambda>cost_limit.
                               Inr \<lparr>tx_chain_id = chain_id, tx_amount = amount, tx_code = code, tx_counter = counter,
                                    tx_cost_limit = cost_limit, tx_data = load_whole cx b (ns ! 5),
                                    tx_recipient = recipient, tx_sender = sender, tx_signature = Some sig\<rparr>))))))
                         | _ \<Rightarrow> value_error ''expected Bytes''))
                   | _ \<Rightarrow> value_error ''invalid transaction signature''))))"

section \<open>Receipts\<close>

text \<open>
  \<open>_read_body\<close>: the values before the last cell, the hash that the last cell names, and what was missed.
\<close>

fun read_body ::
  "node_ctx \<Rightarrow> bytes option \<Rightarrow> nat \<Rightarrow> expr option \<Rightarrow> expr list \<Rightarrow> exc + expr list \<times> bytes option \<times> bytes list" where
  "read_body cx b n None items = Inr (items, None, [])"
| "read_body cx b 0 (Some e) items = Inl OutOfFuel"
| "read_body cx b (Suc n) (Some e) items =
     (if base_of e \<noteq> BLink then Inr (items, None, [])
      else if tail_of e = None \<and> tail_hash_of e \<in> {None, Some ZERO32} then
        Inr (items,
             (case head_hash_of e of
                Some x \<Rightarrow> Some x
              | None \<Rightarrow> map_option (expr_hash (cx_hash cx)) (head_of e)), [])
      else
        (case (case head_of e of
                 Some h \<Rightarrow> Inr (Some h)
               | None \<Rightarrow>
                   (case head_hash_of e of
                      None \<Rightarrow> Inr None
                    | Some x \<Rightarrow> (case fetch_in cx b x of None \<Rightarrow> Inl x | Some h \<Rightarrow> Inr (Some h)))) of
           Inl x \<Rightarrow> Inr (items, None, [x])
         | Inr None \<Rightarrow> Inl AttributeError
         | Inr (Some h) \<Rightarrow>
             (case tail_of e of
                Some t \<Rightarrow> read_body cx b n (Some t) (items @ [h])
              | None \<Rightarrow>
                  (case tail_hash_of e of
                     None \<Rightarrow> Inr (items @ [h], None, [])
                   | Some x \<Rightarrow>
                       (case fetch_in cx b x of
                          None \<Rightarrow> Inr (items @ [h], None, [x])
                        | Some t \<Rightarrow> read_body cx b n (Some t) (items @ [h]))))))"

definition STATUS_SUCCESS :: int where "STATUS_SUCCESS = 0"
definition STATUS_FAILED :: int where "STATUS_FAILED = 1"

definition receipt_from_storage :: "node_ctx \<Rightarrow> bytes option \<Rightarrow> bytes \<Rightarrow> exc + receipt" where
  "receipt_from_storage cx b receipt_id =
     (let tag = get_expr_builtin_tag (cx_hash cx) in
      bind_exc (list_root cx b receipt_id) (\<lambda>header.
      case header of
        None \<Rightarrow> value_error ''unable to load receipt from storage''
      | Some e \<Rightarrow>
          if tag e \<noteq> u ''link'' then value_error ''receipt header must be a Link''
          else if tail_of e \<noteq> Some (symbol ''receipt'') then value_error ''invalid receipt type tag''
          else
            (case (case head_of e of Some h \<Rightarrow> Some h | None \<Rightarrow> Option.bind (head_hash_of e) (fetch_in cx b)) of
               None \<Rightarrow> value_error ''receipt inner header must be a Link''
             | Some inner \<Rightarrow>
                 if tag inner \<noteq> u ''link'' then value_error ''receipt inner header must be a Link''
                 else
                   bind_exc (exact_items cx b 1 inner) (\<lambda>parts.
                   if tag (parts ! 0) \<noteq> u ''link'' then value_error ''receipt body must be a Link chain''
                   else
                     bind_exc (read_body cx b (cx_fuel cx) (Some (parts ! 0)) []) (\<lambda>(ns, tx_hash, missed).
                     if missed \<noteq> [] then value_error ''unable to resolve receipt body''
                     else
                       (case tx_hash of
                          None \<Rightarrow> value_error ''malformed receipt body length''
                        | Some th \<Rightarrow>
                            if length ns \<noteq> 7 then value_error ''malformed receipt body length''
                            else
                              bind_exc (all_ints cx b [ns ! 0, ns ! 1]) (\<lambda>_.
                              if tag (ns ! 2) \<noteq> u ''link'' then value_error ''expected Link for logs_hash''
                              else
                                bind_exc (all_ints cx b [ns ! 3]) (\<lambda>_.
                                bind_exc (int_value cx b (ns ! 3)) (\<lambda>mint_value.
                                if mint_value < 0 then value_error ''mint must not be negative''
                                else
                                  bind_exc (all_ints cx b [ns ! 4, ns ! 5, ns ! 6]) (\<lambda>_.
                                  bind_exc (int_value cx b (ns ! 4)) (\<lambda>status_value.
                                  if status_value \<notin> {STATUS_SUCCESS, STATUS_FAILED}
                                  then value_error ''unsupported receipt status''
                                  else
                                    bind_exc (int_value cx b (ns ! 6)) (\<lambda>tf.
                                    bind_exc (int_value cx b (ns ! 5)) (\<lambda>sf.
                                    bind_exc (int_value cx b (ns ! 0)) (\<lambda>df.
                                    bind_exc (int_value cx b (ns ! 1)) (\<lambda>xf.
                                      Inr \<lparr>transaction_hash = th, transaction_fee = tf, storage_fee = sf,
                                           data_fee = df, execution_fee = xf, status = status_value,
                                           logs_hash =
                                             (case head_hash_of (ns ! 2) of
                                                Some x \<Rightarrow> x
                                              | None \<Rightarrow>
                                                  (case head_of (ns ! 2) of
                                                     None \<Rightarrow> ZERO32 | Some h \<Rightarrow> expr_hash (cx_hash cx) h)),
                                           mint = mint_value\<rparr>)))))))))))))))"


section \<open>What is written is read\<close>

lemma tag_cons [simp]: "get_expr_builtin_tag H (cons a (cons b c)) = u ''link''"
  "get_expr_builtin_tag H (cons a NIL) = u ''link''" "get_expr_builtin_tag H (cons a (hash_ref x)) = u ''link''"
  by (simp_all add: link_def get_expr_builtin_tag_def hash_ref_def)

lemma tag_in_int [simp]: "tag_in cx b (int_expr n) = Inr (u ''int'')"
  by (simp add: tag_in_def int_expr_def get_expr_tag_def tag_of_tail_def)

lemma list_items_Nil: "0 < cx_fuel cx \<Longrightarrow> list_items cx b NIL = Inr ([], [])"
  by (cases "cx_fuel cx") (simp_all add: list_items_def resolve_head_def resolve_tail_def)

lemma resolve_list_cons [simp]:
  "resolve_list_exprs f (Suc n) (Some (cons a t)) = map_option (\<lambda>(rs, ms). (a # rs, ms)) (resolve_list_exprs f n (Some t))"
  by (cases "resolve_list_exprs f n (Some t)") (simp_all add: link_def resolve_head_def resolve_tail_def split: prod.splits)

lemma resolve_list_NIL [simp]: "resolve_list_exprs f (Suc n) (Some NIL) = Some ([], [])"
  by (simp add: resolve_head_def resolve_tail_def)

lemma expand_tagged:
  "expand_list H f (Suc (Suc n)) (cons a (Symbol s)) = Inr (Some (cons a (Symbol s)))"
  if "\<not> is_composite_tag s"
  using that by (simp add: link_def get_expr_builtin_tag_def)

lemma fuel_steps: "(k :: nat) \<le> n \<Longrightarrow> \<exists>m. n = k + m"
  by (simp add: le_iff_add)

lemma list_of_header:
  assumes "fetch_in cx b h = Some (cons a (symbol t))" "\<not> is_composite_tag (u t)" "2 \<le> cx_fuel cx"
  shows "list_root cx b h = Inr (Some (cons a (symbol t)))"
  using fuel_steps [OF assms(3)] assms(1,2) expand_tagged
  by (auto simp: list_root_def list_of_def symbol_def)

lemma tag_header: "\<not> is_composite_tag (u t) \<Longrightarrow> get_expr_builtin_tag H (cons a (symbol t)) = u ''link''"
  by (simp add: link_def symbol_def get_expr_builtin_tag_def)

lemma head_tail_cons [simp]: "head_of (cons a t) = Some a" "tail_of (cons a t) = Some t"
  by (simp_all add: link_def)

lemma hash_ref_read [simp]:
  "get_expr_builtin_tag H (hash_ref x) = u ''link''" "head_hash_of (hash_ref x) = Some x"
  by (simp_all add: hash_ref_def get_expr_builtin_tag_def)

lemma names_not_composite: "\<not> is_composite_tag (u ''transaction'')" "\<not> is_composite_tag (u ''receipt'')"
  by (simp_all add: is_composite_tag_def is_float_tag_def float_tags_def)

lemma code_back: "transaction_code_of (code_number c) = Inr c"
  by (cases c) (simp_all add: transaction_code_of_def transaction_codes_def)

text \<open>An expr whose parts are all at hand: reading it whole fetches nothing.\<close>

fun fully_loaded :: "expr \<Rightarrow> bool" where
  "fully_loaded (Link v h t hh th) \<longleftrightarrow>
     (h = None \<and> v \<noteq> None \<or> (case h of None \<Rightarrow> hh = None | Some x \<Rightarrow> fully_loaded x))
     \<and> (case t of None \<Rightarrow> th = None | Some x \<Rightarrow> fully_loaded x)"
| "fully_loaded e \<longleftrightarrow> True"

lemma load_inner_same: "fully_loaded e \<Longrightarrow> load_inner fetch n e = e"
proof (induction e arbitrary: n rule: fully_loaded.induct)
  case (1 v h t hh th)
  then show ?case by (cases n; cases h; cases t) (auto simp: Let_def)
qed (simp_all split: nat.split)

lemma transaction_loaded:
  assumes "fetch_in cx b h = Some (transaction_to_expr tx)" and "9 \<le> cx_fuel cx"
  shows "get_transaction_from_storage cx b h =
     Inr (tx\<lparr>tx_data := load_whole cx b (tx_data tx),
            tx_signature := Some (case tx_signature tx of None \<Rightarrow> ZERO32 | Some s \<Rightarrow> if s = [] then ZERO32 else s)\<rparr>)"
proof -
  obtain m where m: "cx_fuel cx = Suc (Suc (Suc (Suc (Suc (Suc (Suc (Suc (Suc m))))))))"
    using fuel_steps [OF assms(2)] by (auto simp: numeral_eq_Suc)
  have root: "list_root cx b h = Inr (Some (transaction_to_expr tx))"
    using list_of_header [of cx b h] assms names_not_composite by (simp add: transaction_to_expr_def)
  show ?thesis
    unfolding get_transaction_from_storage_def Let_def root
    by (simp add: transaction_to_expr_def transaction_body_def tag_header names_not_composite exact_items_def
        list_items_def m code_back del: resolve_list_exprs.simps(3))
qed

text \<open>A transaction whose header names its body by hash is refused.\<close>

lemma transaction_cell_refused:
  "fetch_in cx b h = Some (Link None None t (Some x) th) \<Longrightarrow> get_transaction_from_storage cx b h \<noteq> Inr tx"
  by (cases "cx_fuel cx")
    (auto simp: get_transaction_from_storage_def Let_def list_root_def list_of_def value_error_def bind_exc_eq_Inr
      split: option.splits if_splits)

text \<open>
  C39: what reading a transaction gives depends on the form its header has in storage. Where storage
  serves the header with its parts at hand, as the node that made or parsed it keeps it, a signed
  transaction is read back as it was written, in every field. Where storage serves the header as a cell
  that names its parts by hash, as its wire form is decoded, no transaction is read: the reader asks
  for the loaded body and does not fetch it.
\<close>

theorem transaction_read_back:
  assumes "9 \<le> cx_fuel cx" and "tx_signature tx = Some sig" and "sig \<noteq> []" and "fully_loaded (tx_data tx)"
  shows "(fetch_in cx b h = Some (transaction_to_expr tx) \<longrightarrow> get_transaction_from_storage cx b h = Inr tx)
     \<and> (fetch_in cx b h = Some (by_hash (cx_hash cx) (transaction_to_expr tx)) \<longrightarrow>
          (\<forall>tx'. get_transaction_from_storage cx b h \<noteq> Inr tx'))"
proof -
  have "load_whole cx b (tx_data tx) = tx_data tx"
    using assms(4) by (simp add: load_whole_def load_inner_same)
  then have loaded: "fetch_in cx b h = Some (transaction_to_expr tx) \<Longrightarrow> get_transaction_from_storage cx b h = Inr tx"
    using transaction_loaded [OF _ assms(1)] assms(2,3) by simp
  obtain x y where "by_hash (cx_hash cx) (transaction_to_expr tx) = Link None None None (Some x) (Some y)"
    by (simp add: by_hash_def transaction_to_expr_def link_def)
  then have "fetch_in cx b h = Some (by_hash (cx_hash cx) (transaction_to_expr tx)) \<longrightarrow>
      (\<forall>tx'. get_transaction_from_storage cx b h \<noteq> Inr tx')"
    using transaction_cell_refused by metis
  with loaded show ?thesis by blast
qed

lemma transaction_read_back_witness:
  "get_transaction_from_storage (demo_cx\<lparr>cx_get := \<lambda>h b. Some (transaction_to_expr demo_withdraw)\<rparr>) None []
     = Inr demo_withdraw
   \<and> (\<forall>tx'. get_transaction_from_storage
        (demo_cx\<lparr>cx_get := \<lambda>h b. Some (by_hash (\<lambda>x. x) (transaction_to_expr demo_withdraw))\<rparr>) None [] \<noteq> Inr tx')"
proof -
  have demo: "tx_signature demo_withdraw = Some [3]" "fully_loaded (tx_data demo_withdraw)" by code_simp+
  have fuel: "9 \<le> cx_fuel (demo_cx\<lparr>cx_get := f\<rparr>)" "cx_hash (demo_cx\<lparr>cx_get := f\<rparr>) = (\<lambda>x. x)"
    "fetch_in (demo_cx\<lparr>cx_get := f\<rparr>) None [] = f [] None" for f
    by (simp_all add: demo_cx_def fetch_in_def)
  show ?thesis
    using transaction_read_back [OF fuel(1) demo(1) _ demo(2), of "\<lambda>h b. Some (transaction_to_expr demo_withdraw)" None "[]"]
      transaction_read_back [OF fuel(1) demo(1) _ demo(2), of "\<lambda>h b. Some (by_hash (\<lambda>x. x) (transaction_to_expr demo_withdraw))" None "[]"]
    unfolding fuel by simp
qed

text \<open>C40: a receipt is read back from storage as it was written.\<close>

theorem receipt_read_back:
  assumes "fetch_in cx b h = Some (receipt_to_expr r)" and "9 \<le> cx_fuel cx"
    and "status r \<in> {STATUS_SUCCESS, STATUS_FAILED}" and "0 \<le> mint r"
  shows "receipt_from_storage cx b h = Inr r"
proof -
  obtain m where m: "cx_fuel cx = Suc (Suc (Suc (Suc (Suc (Suc (Suc (Suc (Suc m))))))))"
    using fuel_steps [OF assms(2)] by (auto simp: numeral_eq_Suc)
  have root: "list_root cx b h = Inr (Some (receipt_to_expr r))"
    using list_of_header [of cx b h] assms names_not_composite by (simp add: receipt_to_expr_def)
  have step: "read_body cx b (Suc n) (Some (cons x (cons y t))) items = read_body cx b n (Some (cons y t)) (items @ [x])"
    "read_body cx b (Suc n) (Some (cons x (hash_ref z))) items = read_body cx b n (Some (hash_ref z)) (items @ [x])"
    "read_body cx b (Suc n) (Some (hash_ref z)) items = Inr (items, Some z, [])" for n x y t z items
    by (simp_all add: link_def hash_ref_def)
  show ?thesis
    unfolding receipt_from_storage_def Let_def root
    using assms(3,4)
    by (auto simp: receipt_to_expr_def tag_header names_not_composite exact_items_def
        list_items_def m step simp del: resolve_list_exprs.simps(3) read_body.simps)
qed


lemma receipt_read_back_witness:
  "receipt_from_storage (demo_cx\<lparr>cx_get := \<lambda>h b. Some (receipt_to_expr
     \<lparr>transaction_hash = [1], transaction_fee = 2, storage_fee = 3, data_fee = 4, execution_fee = 5, status = 0,
      logs_hash = [6], mint = 7\<rparr>)\<rparr>) None []
   = Inr \<lparr>transaction_hash = [1], transaction_fee = 2, storage_fee = 3, data_fee = 4, execution_fee = 5,
          status = 0, logs_hash = [6], mint = 7\<rparr>"
  by (rule receipt_read_back) (simp_all add: fetch_in_def demo_cx_def STATUS_SUCCESS_def)

end
