(* ===== verification/Treasury_Records.thy ===== *)
theory Treasury_Records
  imports Storage_Payment Radix_All "HOL-Library.List_Lexorder"
begin

text \<open>
  The records of the treasury, \<open>consensus/transaction/treasury/record.py\<close>, the arithmetic of loans in
  \<open>utils.py\<close> and \<open>discount.py\<close>, and the trees that a handler opens.

  Records live in tries by the hash of their cells. A field that holds no value of its type raises
  \<open>TypeError\<close> when it is read.
\<close>

section \<open>Loan types and requests\<close>

datatype loan_type = SECURED | UNSECURED

definition loan_type_number :: "loan_type \<Rightarrow> int" where
  "loan_type_number t = (case t of SECURED \<Rightarrow> 0 | UNSECURED \<Rightarrow> 1)"

definition loan_type_of :: "int \<Rightarrow> exc + loan_type" where
  "loan_type_of n =
     (if n = 0 then Inr SECURED else if n = 1 then Inr UNSECURED else Inl (ValueError ''not a valid LoanType''))"

record borrow_request =
  br_type :: loan_type
  br_interval :: int
  br_count :: int

definition BORROW_REQUEST_VERSION :: int where "BORROW_REQUEST_VERSION = 1"
definition BORROW_REQUEST_SIZE :: nat where "BORROW_REQUEST_SIZE = 18"

definition encode_borrow_request :: "borrow_request \<Rightarrow> exc + bytes" where
  "encode_borrow_request r =
     (if br_interval r \<le> 0 then Inl (ValueError ''payment_interval_blocks must be positive'')
      else if br_count r \<le> 0 then Inl (ValueError ''payment_count must be positive'')
      else
        (case (to_bytes_unsigned_le (br_interval r) 8, to_bytes_unsigned_le (br_count r) 8) of
           (Some a, Some b) \<Rightarrow>
             Inr (word_of_int BORROW_REQUEST_VERSION # word_of_int (loan_type_number (br_type r)) # a @ b)
         | _ \<Rightarrow> Inl OverflowError))"

definition decode_borrow_request :: "bytes \<Rightarrow> borrow_request option" where
  "decode_borrow_request p =
     (if length p \<noteq> BORROW_REQUEST_SIZE \<or> uint (p ! 0) \<noteq> BORROW_REQUEST_VERSION then None
      else
        (case loan_type_of (uint (p ! 1)) of
           Inl _ \<Rightarrow> None
         | Inr t \<Rightarrow>
             (let interval = le_uint (take 8 (drop 2 p)); count = le_uint (drop 10 p) in
              if interval \<le> 0 \<or> count \<le> 0 then None
              else Some \<lparr>br_type = t, br_interval = interval, br_count = count\<rparr>)))"

section \<open>The record of a user\<close>

record user_record =
  ur_balance :: int
  ur_loans_root :: bytes
  ur_interest :: int
  ur_guarantees_root :: bytes
  ur_loaned :: int
  ur_defaulted :: int
  ur_guaranteed :: int
  ur_loans_block :: "bytes option"
  ur_guarantees_block :: "bytes option"

definition new_user_record :: user_record where
  "new_user_record =
     \<lparr>ur_balance = 0, ur_loans_root = ZERO32, ur_interest = 0, ur_guarantees_root = ZERO32, ur_loaned = 0,
      ur_defaulted = 0, ur_guaranteed = 0, ur_loans_block = None, ur_guarantees_block = None\<rparr>"

definition user_record_to_expr :: "user_record \<Rightarrow> expr" where
  "user_record_to_expr r =
     cons (int_expr (ur_balance r))
       (cons (root_item (ur_loans_root r) (ur_loans_block r))
         (cons (int_expr (ur_interest r))
           (cons (root_item (ur_guarantees_root r) (ur_guarantees_block r))
             (cons (int_expr (ur_loaned r))
               (cons (int_expr (ur_defaulted r)) (cons (int_expr (ur_guaranteed r)) NIL))))))"

text \<open>\<open>get_expr_list\<close> of what a trie holds and its items: \<open>None\<close> where a record cannot be read.\<close>

definition record_items :: "node_ctx \<Rightarrow> bytes option \<Rightarrow> expr option \<Rightarrow> exc + expr list option" where
  "record_items cx b stored =
     (case stored of
        None \<Rightarrow> Inr None
      | Some e \<Rightarrow>
          bind_exc (list_of cx b e) (\<lambda>header.
            case header of
              None \<Rightarrow> Inr None
            | Some e' \<Rightarrow>
                if get_expr_builtin_tag (cx_hash cx) e' \<noteq> u ''link'' then Inr None
                else bind_exc (list_items cx b e') (\<lambda>(items, missed). Inr (if missed \<noteq> [] then None else Some items))))"

fun ints_from :: "node_ctx \<Rightarrow> bytes option \<Rightarrow> expr list \<Rightarrow> exc + int list option" where
  "ints_from cx b [] = Inr (Some [])"
| "ints_from cx b (e # es) =
     bind_exc (tag_in cx b e) (\<lambda>t.
       if t \<noteq> u ''int'' then Inr None
       else bind_exc (int_value cx b e) (\<lambda>n. bind_exc (ints_from cx b es) (\<lambda>r. Inr (map_option (Cons n) r))))"

definition root_field :: "node_ctx \<Rightarrow> bytes option \<Rightarrow> expr \<Rightarrow> exc + (bytes \<times> bytes option) option" where
  "root_field cx b e =
     bind_exc (read_field (cx_hash cx) (Some (fetch_in cx b)) e b) (\<lambda>r.
       Inr (map_option (\<lambda>(h, block). (h, if h \<noteq> ZERO32 then block else None)) r))"

definition user_record_from_storage :: "node_ctx \<Rightarrow> bytes option \<Rightarrow> expr option \<Rightarrow> exc + user_record option" where
  "user_record_from_storage cx b stored =
     bind_exc (record_items cx b stored) (\<lambda>items.
       case items of
         Some (x0 # x1 # x2 # x3 # rest) \<Rightarrow>
           if length rest \<noteq> 0 \<and> length rest \<noteq> 3 then Inr None
           else
             bind_exc (ints_from cx b [x0]) (\<lambda>a. if a = None then Inr None else
             bind_exc (root_field cx b x1) (\<lambda>loans. if loans = None then Inr None else
             bind_exc (ints_from cx b [x2]) (\<lambda>c. if c = None then Inr None else
             bind_exc (root_field cx b x3) (\<lambda>guarantees. if guarantees = None then Inr None else
             bind_exc (ints_from cx b rest) (\<lambda>r. if r = None then Inr None else
               (let more_fields = (if the r = [] then [0, 0, 0] else the r) in
                Inr (Some \<lparr>ur_balance = hd (the a), ur_loans_root = fst (the loans), ur_interest = hd (the c),
                           ur_guarantees_root = fst (the guarantees), ur_loaned = more_fields ! 0,
                           ur_defaulted = more_fields ! 1, ur_guaranteed = more_fields ! 2,
                           ur_loans_block = snd (the loans), ur_guarantees_block = snd (the guarantees)\<rparr>)))))))
       | _ \<Rightarrow> Inr None)"

section \<open>Loans and guarantees\<close>

type_synonym claimed = "bytes \<times> bytes \<times> int"

record loan =
  lo_creation :: int
  lo_type :: loan_type
  lo_discounted :: int
  lo_payment :: int
  lo_interval :: int
  lo_next :: int
  lo_count :: int
  lo_claimed :: "claimed list"
  lo_insurance :: int
  lo_missed :: int
  lo_owner :: bytes

definition claimed_to_expr :: "claimed list \<Rightarrow> expr" where
  "claimed_to_expr cs =
     exprs_to_linked_expr (map (\<lambda>(g, i, n). cons (Bytes g) (cons (Bytes i) (cons (int_expr n) NIL))) cs)"

definition claimed_entry :: "node_ctx \<Rightarrow> bytes option \<Rightarrow> expr \<Rightarrow> exc + claimed option" where
  "claimed_entry cx b e =
     bind_exc (list_items cx b e) (\<lambda>(items, missed).
       case (missed, items) of
         ([], [Bytes g, Bytes i, n]) \<Rightarrow>
           bind_exc (ints_from cx b [n]) (\<lambda>r. Inr (map_option (\<lambda>ns. (g, i, hd ns)) r))
       | _ \<Rightarrow> Inr None)"

fun claimed_entries :: "node_ctx \<Rightarrow> bytes option \<Rightarrow> expr list \<Rightarrow> exc + claimed list option" where
  "claimed_entries cx b [] = Inr (Some [])"
| "claimed_entries cx b (e # es) =
     bind_exc (claimed_entry cx b e) (\<lambda>x.
       case x of
         None \<Rightarrow> Inr None
       | Some y \<Rightarrow> bind_exc (claimed_entries cx b es) (\<lambda>r. Inr (map_option (Cons y) r)))"

definition claimed_from_expr :: "node_ctx \<Rightarrow> bytes option \<Rightarrow> expr \<Rightarrow> exc + claimed list option" where
  "claimed_from_expr cx b e =
     (if e = NIL then Inr (Some [])
      else
        bind_exc (list_items cx b e) (\<lambda>(items, missed).
          if missed \<noteq> [] then Inr None else claimed_entries cx b items))"

definition loan_to_expr :: "loan \<Rightarrow> expr" where
  "loan_to_expr l =
     cons (int_expr (lo_creation l))
       (cons (int_expr (lo_discounted l))
         (cons (int_expr (lo_count l))
           (cons (int_expr (loan_type_number (lo_type l)))
             (cons (int_expr (lo_next l))
               (cons (int_expr (lo_payment l))
                 (cons (int_expr (lo_interval l))
                   (cons (claimed_to_expr (lo_claimed l))
                     (cons (int_expr (lo_insurance l))
                       (cons (int_expr (lo_missed l)) (cons (Bytes (lo_owner l)) NIL))))))))))"

definition loan_from_storage :: "node_ctx \<Rightarrow> bytes option \<Rightarrow> expr option \<Rightarrow> exc + loan option" where
  "loan_from_storage cx b stored =
     bind_exc (record_items cx b stored) (\<lambda>items.
       case items of
         Some [n0, n1, n2, n3, n4, n5, n6, n7, n8, n9, n10] \<Rightarrow>
           bind_exc (ints_from cx b [n0, n1, n2, n3, n4, n5, n6]) (\<lambda>ints. if ints = None then Inr None else
           bind_exc (claimed_from_expr cx b n7) (\<lambda>claimed. if claimed = None then Inr None else
           bind_exc (ints_from cx b [n8, n9]) (\<lambda>more_ints. if more_ints = None then Inr None else
             (case (n10, loan_type_of (the ints ! 3)) of
                (Bytes owner, Inr t) \<Rightarrow>
                  Inr (Some \<lparr>lo_creation = the ints ! 0, lo_type = t, lo_discounted = the ints ! 1,
                             lo_payment = the ints ! 5, lo_interval = the ints ! 6, lo_next = the ints ! 4,
                             lo_count = the ints ! 2, lo_claimed = the claimed, lo_insurance = the more_ints ! 0,
                             lo_missed = the more_ints ! 1, lo_owner = owner\<rparr>)
              | _ \<Rightarrow> Inr None))))
       | _ \<Rightarrow> Inr None)"

record guarantee =
  gu_amount :: int
  gu_duration :: int
  gu_price :: int
  gu_expiry :: int
  gu_claimed_by :: bytes

definition guarantee_to_expr :: "guarantee \<Rightarrow> expr" where
  "guarantee_to_expr g =
     cons (int_expr (gu_amount g))
       (cons (int_expr (gu_duration g))
         (cons (int_expr (gu_price g)) (cons (int_expr (gu_expiry g)) (cons (Bytes (gu_claimed_by g)) NIL))))"

text \<open>The code takes ints and bytes in every place; here a value of the wrong one raises at once.\<close>

fun guarantee_fields :: "node_ctx \<Rightarrow> bytes option \<Rightarrow> expr list \<Rightarrow> exc + payload option list option" where
  "guarantee_fields cx b [] = Inr (Some [])"
| "guarantee_fields cx b (e # es) =
     bind_exc (tag_in cx b e) (\<lambda>t.
       if t \<noteq> u ''int'' \<and> t \<noteq> u ''bytes'' then Inr None
       else
         bind_exc (if t = u ''int'' then map_sum id fst (get_expr_value (cx_hash cx) (Some (fetch_in cx b)) e)
                   else Inr (value_of e))
           (\<lambda>v. bind_exc (guarantee_fields cx b es) (\<lambda>r. Inr (map_option (Cons v) r))))"

definition as_bytes :: "payload option \<Rightarrow> exc + bytes" where
  "as_bytes p = (case p of Some (PBytes x) \<Rightarrow> Inr x | _ \<Rightarrow> Inl TypeError)"

definition guarantee_from_storage :: "node_ctx \<Rightarrow> bytes option \<Rightarrow> expr option \<Rightarrow> exc + guarantee option" where
  "guarantee_from_storage cx b stored =
     bind_exc (record_items cx b stored) (\<lambda>items.
       case items of
         Some [n0, n1, n2, n3, n4] \<Rightarrow>
           bind_exc (guarantee_fields cx b [n0, n1, n2, n3, n4]) (\<lambda>fs.
             case fs of
               Some [f0, f1, f2, f3, f4] \<Rightarrow>
                 bind_exc (as_int f0) (\<lambda>amount. bind_exc (as_int f1) (\<lambda>duration. bind_exc (as_int f2) (\<lambda>price.
                 bind_exc (as_int f3) (\<lambda>expiry. bind_exc (as_bytes f4) (\<lambda>by.
                   Inr (Some \<lparr>gu_amount = amount, gu_duration = duration, gu_price = price,
                              gu_expiry = expiry, gu_claimed_by = by\<rparr>))))))
             | _ \<Rightarrow> Inr None)
       | _ \<Rightarrow> Inr None)"

end
