(* ===== verification/Block_Codec.thy ===== *)
theory Block_Codec
  imports Shape Transaction_Store Treasury_Records
begin

text \<open>
  Blocks in storage: \<open>consensus/block/encoding/encode.py\<close> and \<open>decode.py\<close>, \<open>create.py\<close> and the shape
  of \<open>shape.py\<close> that asks for all that the reading needs.

  \<open>stored_block\<close> holds the fields of a \<open>Block\<close> that its cells carry. A block that was read has them
  all. The batched fetch by shape before the reading only fills the store that \<open>cx_get\<close> reads.
\<close>

record stored_block =
  sb_chain_id :: int
  sb_previous_hash :: bytes
  sb_height :: int
  sb_timestamp :: int
  sb_accounts_hash :: bytes
  sb_transaction_fee :: int
  sb_storage_fee :: int
  sb_transactions_hash :: bytes
  sb_receipts_hash :: bytes
  sb_validation_difficulty :: int
  sb_storage_difficulty :: int
  sb_validator :: bytes
  sb_nonce :: int
  sb_bloom_hash :: bytes
  sb_era_hash :: bytes
  sb_signature :: bytes
  sb_expr_id :: bytes
  sb_body_hash :: bytes
  sb_statistics :: "stat list"
  sb_loaned :: int
  sb_defaulted :: int
  sb_loan_count :: int

definition sb_total_fee :: "stored_block \<Rightarrow> int" where
  "sb_total_fee b = sb_transaction_fee b + sb_storage_fee b"

section \<open>Writing\<close>

definition first_stat_to_expr :: "stat \<Rightarrow> expr" where
  "first_stat_to_expr s =
     (case s of (fee, stake, claims, _) \<Rightarrow> exprs_to_linked_expr [int_expr fee, int_expr stake, int_expr claims])"

definition stat_to_expr :: "stat \<Rightarrow> expr" where
  "stat_to_expr s =
     (case s of (pf, ps, cf, cs, pc, cc) \<Rightarrow> exprs_to_linked_expr (map int_expr [pf, ps, cf, cs, pc, cc]))"

fun statistics_to_expr :: "stat list \<Rightarrow> expr" where
  "statistics_to_expr [] = NIL"
| "statistics_to_expr (s # ss) = cons (first_stat_to_expr s) (exprs_to_linked_expr (map stat_to_expr ss))"

definition block_body :: "stored_block \<Rightarrow> expr" where
  "block_body b =
     exprs_to_linked_expr
       [int_expr (sb_loaned b), int_expr (sb_defaulted b), int_expr (sb_loan_count b),
        hash_ref (sb_accounts_hash b), hash_ref (sb_bloom_hash b), int_expr (sb_chain_id b),
        int_expr (sb_validation_difficulty b), int_expr (sb_height b), int_expr (sb_nonce b),
        hash_ref (sb_previous_hash b), hash_ref (sb_era_hash b), hash_ref (sb_receipts_hash b),
        int_expr (sb_storage_difficulty b), int_expr (sb_timestamp b), int_expr (sb_storage_fee b),
        int_expr (sb_transaction_fee b), hash_ref (sb_transactions_hash b), Bytes (sb_validator b),
        statistics_to_expr (sb_statistics b)]"

definition block_to_expr :: "stored_block \<Rightarrow> expr" where
  "block_to_expr b = cons (cons (block_body b) (cons (Bytes (sb_signature b)) NIL)) (symbol ''block'')"

section \<open>Reading\<close>

definition body_tags :: "pystr list" where
  "body_tags =
     map u [''int'', ''int'', ''int'', ''link'', ''link'', ''int'', ''int'', ''int'', ''int'', ''link'', ''link'',
            ''link'', ''int'', ''int'', ''int'', ''int'', ''link'', ''bytes'']"

fun expect_tags :: "node_ctx \<Rightarrow> bytes option \<Rightarrow> pystr list \<Rightarrow> expr list \<Rightarrow> exc + unit" where
  "expect_tags cx b (t # ts) (e # es) =
     bind_exc (tag_in cx b e) (\<lambda>x. if x \<noteq> t then value_error ''unexpected field'' else expect_tags cx b ts es)"
| "expect_tags cx b _ _ = Inr ()"

text \<open>
  The values of an entry. One that is not an int is refused here; the code keeps it, and fails where the
  statistics are compared or summed.
\<close>

fun int_values :: "node_ctx \<Rightarrow> bytes option \<Rightarrow> expr list \<Rightarrow> exc + int list" where
  "int_values cx b [] = Inr []"
| "int_values cx b (e # es) =
     bind_exc (int_value cx b e) (\<lambda>n. bind_exc (int_values cx b es) (\<lambda>ns. Inr (n # ns)))"

definition resolved :: "node_ctx \<Rightarrow> bytes option \<Rightarrow> expr \<Rightarrow> exc + expr list" where
  "resolved cx b e =
     bind_exc (list_items cx b e) (\<lambda>(items, missed).
       if missed \<noteq> [] then value_error ''unable to resolve'' else Inr items)"

fun read_statistics :: "node_ctx \<Rightarrow> bytes option \<Rightarrow> nat \<Rightarrow> expr list \<Rightarrow> exc + stat list" where
  "read_statistics cx b j [] = Inr []"
| "read_statistics cx b j (e # es) =
     (if e = NIL then read_statistics cx b (Suc j) es
      else
        bind_exc (resolved cx b e) (\<lambda>ns.
        bind_exc (if j = 0 \<and> length ns = 3 \<or> j > 0 \<and> length ns = 6 then int_values cx b ns
                  else value_error ''invalid statistics entry length'') (\<lambda>vs.
        bind_exc (case vs of
                    [fee, stake, claims] \<Rightarrow> Inr (fee, stake, claims, 0, 0, 0)
                  | [pf, ps, cf, cs, pc, cc] \<Rightarrow> Inr (pf, ps, cf, cs, pc, cc)
                  | _ \<Rightarrow> Inl IndexError) (\<lambda>s.
        bind_exc (read_statistics cx b (Suc j) es) (\<lambda>ss. Inr (s # ss))))))"

definition statistics_from :: "node_ctx \<Rightarrow> bytes option \<Rightarrow> expr \<Rightarrow> exc + stat list" where
  "statistics_from cx b e =
     bind_exc (tag_in cx b e) (\<lambda>t.
       if t = u ''link'' then bind_exc (resolved cx b e) (read_statistics cx b 0)
       else if t = u ''symbol'' then Inr []
       else value_error ''expected Link or Symbol for statistics'')"

text \<open>\<open>create_block\<close> puts 32 zero bytes for an empty hash, key or signature.\<close>

definition or_zeros :: "bytes \<Rightarrow> bytes" where
  "or_zeros b = (if b = [] then ZERO32 else b)"

definition header_parts :: "node_ctx \<Rightarrow> bytes \<Rightarrow> exc + expr \<times> expr" where
  "header_parts cx block_hash =
     (let tag = get_expr_builtin_tag (cx_hash cx); b = Some block_hash in
      bind_exc (list_root cx b block_hash) (\<lambda>header.
      case header of
        None \<Rightarrow> value_error ''unable to load block header from storage''
      | Some e \<Rightarrow>
          if tag e \<noteq> u ''link'' then value_error ''block header must be a Link''
          else if tail_of e \<noteq> Some (symbol ''block'') then value_error ''invalid block type tag''
          else
            (case (case head_of e of Some h \<Rightarrow> Some h | None \<Rightarrow> Option.bind (head_hash_of e) (fetch_in cx b)) of
               None \<Rightarrow> value_error ''block inner header must be a Link''
             | Some inner \<Rightarrow>
                 if tag inner \<noteq> u ''link'' then value_error ''block inner header must be a Link''
                 else bind_exc (exact_items cx b 2 inner) (\<lambda>parts. Inr (parts ! 0, parts ! 1)))))"

definition get_block_from_storage :: "node_ctx \<Rightarrow> bytes \<Rightarrow> exc + stored_block" where
  "get_block_from_storage cx block_hash =
     (let tag = get_expr_builtin_tag (cx_hash cx); b = Some block_hash; H = cx_hash cx;
          ref = (\<lambda>e. or_zeros (get_expr_head_hash H e)) in
      bind_exc (header_parts cx block_hash) (\<lambda>(body, sig).
      if tag sig \<noteq> u ''bytes'' then value_error ''invalid block signature: expected Bytes''
      else
        bind_exc (as_bytes (value_of sig)) (\<lambda>signature.
        if tag body \<noteq> u ''link'' then value_error ''block body must be a Link chain''
        else
          bind_exc (exact_items cx b 19 body) (\<lambda>ns.
          bind_exc (expect_tags cx b body_tags ns) (\<lambda>_.
          bind_exc (statistics_from cx b (ns ! 18)) (\<lambda>statistics.
          bind_exc (int_values cx b (map ((!) ns) [5, 7, 13, 15, 14, 6, 12])) (\<lambda>vs.
          bind_exc (bytes_value cx b (ns ! 17)) (\<lambda>key.
          bind_exc (int_values cx b (map ((!) ns) [8, 0, 1, 2])) (\<lambda>ws.
            Inr \<lparr>sb_chain_id = vs ! 0, sb_previous_hash = ref (ns ! 9), sb_height = vs ! 1, sb_timestamp = vs ! 2,
                 sb_accounts_hash = ref (ns ! 3), sb_transaction_fee = vs ! 3, sb_storage_fee = vs ! 4,
                 sb_transactions_hash = ref (ns ! 16), sb_receipts_hash = ref (ns ! 11),
                 sb_validation_difficulty = vs ! 5, sb_storage_difficulty = vs ! 6, sb_validator = or_zeros key,
                 sb_nonce = ws ! 0, sb_bloom_hash = ref (ns ! 4), sb_era_hash = ref (ns ! 10),
                 sb_signature = or_zeros signature, sb_expr_id = or_zeros block_hash,
                 sb_body_hash = or_zeros (expr_hash H body), sb_statistics = statistics,
                 sb_loaned = ws ! 1, sb_defaulted = ws ! 2, sb_loan_count = ws ! 3\<rparr>)))))))))"

text \<open>The parent of a block, from local storage alone; any failure is \<open>None\<close>.\<close>

definition get_previous_block_hash_local :: "node_ctx \<Rightarrow> bytes \<Rightarrow> bytes option" where
  "get_previous_block_hash_local cx block_hash =
     (let items = (\<lambda>n e. case list_items cx None e of
                            Inr (ns, []) \<Rightarrow> if length ns = n then Some ns else None
                          | _ \<Rightarrow> None) in
      case list_root cx None block_hash of
        Inr (Some e) \<Rightarrow>
          Option.bind (case head_of e of Some h \<Rightarrow> Some h | None \<Rightarrow> Option.bind (head_hash_of e) (fetch_in cx None)) (\<lambda>inner.
          Option.bind (items 2 inner) (\<lambda>parts.
          Option.bind (items 19 (parts ! 0)) (\<lambda>ns. Some (get_expr_head_hash (cx_hash cx) (ns ! 9)))))
      | _ \<Rightarrow> None)"

section \<open>The shape of a block\<close>

definition body_fields :: "bytes list" where
  "body_fields =
     replicate 3 INT_SHAPE @ replicate 2 SEND @ replicate 4 INT_SHAPE @ replicate 3 SEND @ replicate 4 INT_SHAPE
     @ replicate 2 SEND @ [repeat (repeat INT_SHAPE)]"

definition body_shape :: bytes where
  "body_shape = foldr pair body_fields HOLD"

definition BLOCK_SHAPE :: bytes where
  "BLOCK_SHAPE = pair (pair body_shape (pair SEND HOLD)) SEND"

section \<open>A block is read back\<close>

definition block_ok :: "stored_block \<Rightarrow> bool" where
  "block_ok b \<longleftrightarrow>
     (\<forall>x\<in>{sb_previous_hash b, sb_accounts_hash b, sb_transactions_hash b, sb_receipts_hash b, sb_validator b,
           sb_bloom_hash b, sb_era_hash b, sb_signature b}. x \<noteq> [])
     \<and> (case sb_statistics b of [] \<Rightarrow> False | s # _ \<Rightarrow> snd (snd (snd s)) = (0, 0, 0))"

lemma block_not_composite: "\<not> is_composite_tag (u ''block'')"
  by (simp add: is_composite_tag_def is_float_tag_def float_tags_def)

lemma exact_linked:
  assumes "length xs < cx_fuel cx" "length xs = n"
  shows "exact_items cx b n (exprs_to_linked_expr xs) = Inr xs" "resolved cx b (exprs_to_linked_expr xs) = Inr xs"
proof -
  have "list_items cx b (exprs_to_linked_expr xs) = Inr (xs, [])"
    using resolve_built_list [of xs "cx_fuel cx"] assms by (simp add: list_items_def)
  then show "exact_items cx b n (exprs_to_linked_expr xs) = Inr xs" "resolved cx b (exprs_to_linked_expr xs) = Inr xs"
    using assms(2) by (simp_all add: exact_items_def resolved_def)
qed

lemma int_values_back [simp]: "int_values cx b (map int_expr ns) = Inr ns"
  by (induction ns) simp_all


lemma tag_in_parts [simp]:
  "tag_in cx b (hash_ref x) = Inr (u ''link'')" "tag_in cx b (Bytes k) = Inr (u ''bytes'')"
  "tag_in cx b (cons a NIL) = Inr (u ''link'')" "tag_in cx b (cons a (cons c d)) = Inr (u ''link'')"
  by (simp_all add: tag_in_def hash_ref_def get_expr_tag_def tag_of_tail_def link_def)

lemma read_windows:
  assumes "6 < cx_fuel cx" "0 < j"
  shows "read_statistics cx b j (map stat_to_expr ss) = Inr ss"
  using assms(2)
proof (induction ss arbitrary: j)
  case (Cons s ss)
  obtain pf ps cf cs pc cc where s: "s = (pf, ps, cf, cs, pc, cc)" by (cases s)
  have "resolved cx b (stat_to_expr s) = Inr (map int_expr [pf, ps, cf, cs, pc, cc])"
    unfolding s stat_to_expr_def prod.case by (rule exact_linked) (use assms(1) in simp_all)
  moreover have "stat_to_expr s \<noteq> NIL" by (simp add: s stat_to_expr_def link_def)
  ultimately show ?case
    using Cons.IH [of "Suc j"] int_values_back [of cx b "[pf, ps, cf, cs, pc, cc]"] Cons.prems s
    by simp
qed simp

lemma statistics_back:
  assumes "block_ok blk" "6 < cx_fuel cx" "length (sb_statistics blk) < cx_fuel cx"
  shows "statistics_from cx b (statistics_to_expr (sb_statistics blk)) = Inr (sb_statistics blk)"
proof -
  from assms(1) obtain fee stake claims ss where ss: "sb_statistics blk = (fee, stake, claims, 0, 0, 0) # ss"
    by (auto simp: block_ok_def split: list.splits)
  let ?first = "first_stat_to_expr (fee, stake, claims, 0, 0, 0)"
  have all: "statistics_to_expr (sb_statistics blk) = exprs_to_linked_expr (?first # map stat_to_expr ss)"
    by (simp add: ss)
  have items: "resolved cx b (exprs_to_linked_expr (?first # map stat_to_expr ss)) = Inr (?first # map stat_to_expr ss)"
    by (rule exact_linked) (use assms(3) ss in simp_all)
  have first: "resolved cx b ?first = Inr (map int_expr [fee, stake, claims])"
    unfolding first_stat_to_expr_def prod.case
    using exact_linked(2) [of "[int_expr fee, int_expr stake, int_expr claims]" cx 3 b] assms(2) by simp
  have tag: "tag_in cx b (exprs_to_linked_expr (?first # map stat_to_expr ss)) = Inr (u ''link'')"
    by (cases ss) simp_all
  have "?first \<noteq> NIL" by (simp add: first_stat_to_expr_def link_def)
  then show ?thesis
    unfolding all statistics_from_def tag
    using items first int_values_back [of cx b "[fee, stake, claims]"] read_windows [OF assms(2), of 1 b ss] ss
    by simp
qed

text \<open>
  C11: a block is read back from storage as it was written, with every field of its header, its statistics
  and its signature; the reader adds the hash it was asked for and the hash of the body, which is what
  the validator signs.
\<close>

theorem block_read_back:
  assumes "fetch_in cx (Some h) h = Some (block_to_expr blk)" and "block_ok blk"
    and "20 \<le> cx_fuel cx" and "length (sb_statistics blk) < cx_fuel cx"
  shows "get_block_from_storage cx h =
     Inr (blk\<lparr>sb_expr_id := or_zeros h, sb_body_hash := or_zeros (expr_hash (cx_hash cx) (block_body blk))\<rparr>)"
proof -
  have root: "list_root cx (Some h) h = Inr (Some (block_to_expr blk))"
    using list_of_header [of cx "Some h" h] assms(1,3) block_not_composite by (simp add: block_to_expr_def)
  have two: "exact_items cx b 2 (cons x (cons y NIL)) = Inr [x, y]" for b x y
    using exact_linked(1) [of "[x, y]" cx 2 b] assms(3) by simp
  have parts: "header_parts cx h = Inr (block_body blk, Bytes (sb_signature blk))"
    unfolding header_parts_def Let_def root
    by (simp add: block_to_expr_def tag_header block_not_composite two)
  have body: "exact_items cx b 19 (block_body blk) = Inr ns" if "block_body blk = exprs_to_linked_expr ns" "length ns = 19" for b ns
    unfolding that(1) by (rule exact_linked(1)) (use assms(3) that(2) in simp_all)
  have link: "get_expr_builtin_tag (cx_hash cx) (block_body blk) = u ''link''" by (simp add: block_body_def)
  have bytes: "bytes_value cx b (Bytes k) = Inr k" for b k
    by (simp add: bytes_value_def get_expr_value_def)
  have ref: "get_expr_head_hash (cx_hash cx) (hash_ref x) = x" for x by (simp add: hash_ref_def)
  have sig: "get_expr_builtin_tag (cx_hash cx) (Bytes s) = u ''bytes''" for s by (simp add: get_expr_builtin_tag_def)
  note stats = statistics_back [OF assms(2) _ assms(4)]
  show ?thesis
    unfolding get_block_from_storage_def Let_def parts
    apply (simp add: sig link as_bytes_def)
    apply (subst body, rule block_body_def, simp)
    using assms(2,3)
    apply (simp add: body_tags_def stats bytes ref block_ok_def or_zeros_def)
    done
qed

definition demo_stored :: stored_block where
  "demo_stored =
     \<lparr>sb_chain_id = 1, sb_previous_hash = [1], sb_height = 7, sb_timestamp = 70, sb_accounts_hash = [2],
      sb_transaction_fee = 3, sb_storage_fee = 4, sb_transactions_hash = [3], sb_receipts_hash = [4],
      sb_validation_difficulty = 2, sb_storage_difficulty = 5, sb_validator = [6], sb_nonce = 99,
      sb_bloom_hash = [7], sb_era_hash = [8], sb_signature = [9], sb_expr_id = [], sb_body_hash = [],
      sb_statistics = [(1, 2, 3, 0, 0, 0), (1, 2, 3, 4, 5, 6)], sb_loaned = 10, sb_defaulted = 0, sb_loan_count = 1\<rparr>"

lemma block_read_back_witness:
  "get_block_from_storage (demo_cx\<lparr>cx_get := \<lambda>h b. Some (block_to_expr demo_stored), cx_fuel := 20\<rparr>) [5]
   = Inr (demo_stored\<lparr>sb_expr_id := [5], sb_body_hash := or_zeros (expr_hash (\<lambda>x. x) (block_body demo_stored))\<rparr>)"
  using block_read_back [of "demo_cx\<lparr>cx_get := \<lambda>h b. Some (block_to_expr demo_stored), cx_fuel := 20\<rparr>" "[5]" demo_stored]
  by (simp add: fetch_in_def demo_cx_def demo_stored_def block_ok_def) (simp add: or_zeros_def)

text \<open>The shape is one that \<open>parse_shape\<close> accepts.\<close>

lemma block_shape_parses: "\<exists>r. parse_shape BLOCK_SHAPE = Inr r"
proof -
  have "(case parse_shape BLOCK_SHAPE of Inr r \<Rightarrow> True | Inl e \<Rightarrow> False)" by code_simp
  then show ?thesis by (auto split: sum.splits)
qed

end
