(* ===== verification/Treasury.thy ===== *)
theory Treasury
  imports Treasury_Records Transaction_Store
begin

text \<open>
  The handlers of the treasury: \<open>consensus/transaction/treasury/\<close>.

  The account of the treasury and that of the sender are objects in the cache of the block, named by
  their addresses. The trie of the loans of a user is opened from the user's record, is an object of
  the handler alone, and goes back as its root hash. A handler returns \<open>True\<close> for \<open>STATUS_SUCCESS\<close>.
\<close>

section \<open>Tries of a handler\<close>

definition open_trie :: "bytes \<Rightarrow> bytes option \<Rightarrow> radix_tree" where
  "open_trie rh b = new_radix_tree (if rh = [] \<or> rh = ZERO32 then None else Some rh) b"

definition trie_get :: "node_ctx \<Rightarrow> radix_tree \<Rightarrow> bytes \<Rightarrow> ((expr option \<times> bytes option) \<times> radix_tree) act" where
  "trie_get cx t k = (case tree_get cx t k of (r, t') \<Rightarrow> lift (map_sum id (\<lambda>x. (x, t')) r))"

definition trie_put :: "node_ctx \<Rightarrow> radix_tree \<Rightarrow> bytes \<Rightarrow> rvalue \<Rightarrow> radix_tree act" where
  "trie_put cx t k v = (case tree_put cx t k v of (r, t') \<Rightarrow> lift (map_sum id (\<lambda>_. t') r))"

fun collect_sub_exprs :: "(bytes \<Rightarrow> bytes) \<Rightarrow> expr \<Rightarrow> expr list" where
  "collect_sub_exprs H (Link v h t hh th) =
     Link v h t hh th
     # (if get_expr_builtin_tag H (Link v h t hh th) = u ''link'' then
          (case h of None \<Rightarrow> [] | Some x \<Rightarrow> collect_sub_exprs H x)
          @ (case t of None \<Rightarrow> [] | Some x \<Rightarrow> collect_sub_exprs H x)
        else [])"
| "collect_sub_exprs H e = [e]"

definition trie_exprs :: "(bytes \<Rightarrow> bytes) \<Rightarrow> radix_tree \<Rightarrow> expr list" where
  "trie_exprs H t =
     concat (map (\<lambda>(h, n). let e = convert_radix_node_to_expr H n in
                    if expr_hash H e \<noteq> h then [] else collect_sub_exprs H e)
              (sort_key fst (nodes t)))"

definition load_user_record :: "node_ctx \<Rightarrow> bytes \<Rightarrow> user_record option act" where
  "load_user_record cx k =
     bnd (data_get cx TREASURY_ADDRESS k) (\<lambda>(e, b). lift (user_record_from_storage cx b e))"

definition load_loan :: "node_ctx \<Rightarrow> radix_tree \<Rightarrow> bytes \<Rightarrow> (loan option \<times> radix_tree) act" where
  "load_loan cx t k =
     bnd (trie_get cx t k) (\<lambda>((e, b), t'). lift (map_sum id (\<lambda>l. (l, t')) (loan_from_storage cx b e)))"

text \<open>\<open>put_in_radix_tree(trie, node, key, record.expr().hash())\<close>, and the cells of a record.\<close>

definition put_record :: "node_ctx \<Rightarrow> radix_tree \<Rightarrow> bytes \<Rightarrow> expr \<Rightarrow> radix_tree act" where
  "put_record cx t k e = trie_put cx t k (VHash (expr_hash (cx_hash cx) e))"

definition put_user_record :: "node_ctx \<Rightarrow> bytes \<Rightarrow> user_record \<Rightarrow> unit act" where
  "put_user_record cx k r =
     data_put cx TREASURY_ADDRESS k (VHash (expr_hash (cx_hash cx) (user_record_to_expr r)))"

definition record_cells :: "node_ctx \<Rightarrow> expr \<Rightarrow> expr list act" where
  "record_cells cx e = bnd (lift (inner_exprs cx None e)) (\<lambda>(es, _). ret es)"

definition with_loans :: "radix_tree \<Rightarrow> user_record \<Rightarrow> user_record" where
  "with_loans t r = r\<lparr>ur_loans_root := or_zero32 (root_hash t), ur_loans_block := root_block t\<rparr>"

section \<open>The arithmetic of loans\<close>

definition calculate_discounted_amount :: "int \<Rightarrow> int \<Rightarrow> int \<Rightarrow> int \<Rightarrow> int \<Rightarrow> int option" where
  "calculate_discounted_amount payment_amount interval cnt rate_numerator rate_denominator =
     (if payment_amount \<le> 0 \<or> interval \<le> 0 \<or> cnt \<le> 0 \<or> rate_denominator \<le> 0 then None
      else
        (let factor = rate_denominator + rate_numerator in
         if factor \<le> 0 then None
         else if rate_numerator = 0 then Some (payment_amount * cnt)
         else
           (let pn = factor ^ nat interval; pd = rate_denominator ^ nat interval;
                n = payment_amount * pd * (pn ^ nat cnt - pd ^ nat cnt);
                d = pn ^ nat cnt * (pn - pd) in
            if d = 0 then None
            else
              (let n' = (if d < 0 then - n else n); d' = (if d < 0 then - d else d) in
               if n' \<le> 0 \<or> n' div d' < 1 then None else Some (n' div d')))))"

definition paid_payment_count :: "loan \<Rightarrow> int option" where
  "paid_payment_count l =
     (if lo_next l = 0 then Some (lo_count l)
      else if lo_interval l \<le> 0 then None
      else
        (let span = lo_next l - lo_creation l in
         if span \<le> 0 \<or> span mod lo_interval l \<noteq> 0 then None else Some (span div lo_interval l - 1)))"

definition remaining_payment_count :: "loan \<Rightarrow> int option" where
  "remaining_payment_count l =
     (case paid_payment_count l of
        None \<Rightarrow> None
      | Some p \<Rightarrow> if lo_count l - p < 0 then None else Some (lo_count l - p))"

definition interest_paid_delta :: "loan \<Rightarrow> int \<Rightarrow> int \<Rightarrow> int \<Rightarrow> int option" where
  "interest_paid_delta l paid_before paid_after cnt =
     (let total_interest = lo_payment l * cnt - lo_discounted l in
      if total_interest < 0 then None
      else Some (total_interest * paid_after div cnt - total_interest * paid_before div cnt))"

definition final_block :: "loan \<Rightarrow> int" where
  "final_block l = lo_creation l + lo_interval l * lo_count l"

text \<open>
  The loop that moves the next payment on by \<open>n\<close> payments: \<open>None\<close> where the code fails, and 0 after the
  last one.
\<close>

fun advance :: "int \<Rightarrow> int \<Rightarrow> int \<Rightarrow> nat \<Rightarrow> int option" where
  "advance final interval nxt 0 = Some nxt"
| "advance final interval nxt (Suc n) =
     (if nxt = 0 then None
      else if nxt = final then (if n = 0 then Some 0 else None)
      else if nxt + interval > final then None
      else advance final interval (nxt + interval) n)"

text \<open>The installments that were due before \<open>height\<close>: how many, and the next one. It may take fuel.\<close>

fun overdue :: "nat \<Rightarrow> int \<Rightarrow> int \<Rightarrow> int \<Rightarrow> int \<Rightarrow> int \<Rightarrow> (int \<times> int) option" where
  "overdue fuel final interval height nxt missed =
     (if nxt = 0 \<or> nxt \<ge> height then Some (missed, nxt)
      else
        (case fuel of
           0 \<Rightarrow> None
         | Suc n \<Rightarrow>
             overdue n final interval height (if nxt = final then 0 else nxt + interval) (missed + 1)))"

declare overdue.simps [simp del]

definition paid_at :: "loan \<Rightarrow> int \<Rightarrow> exc + int" where
  "paid_at l nxt =
     (if nxt = 0 then Inr (lo_count l)
      else if lo_interval l = 0 then Inl ZeroDivisionError
      else Inr ((nxt - lo_creation l) div lo_interval l - 1))"

section \<open>Guarantees\<close>

definition claim_guarantee ::
  "node_ctx \<Rightarrow> radix_tree \<Rightarrow> bytes \<Rightarrow> bytes \<Rightarrow> int \<Rightarrow> (guarantee option \<times> radix_tree) act" where
  "claim_guarantee cx t gid claimant height =
     bnd (trie_get cx t gid) (\<lambda>((e, b), t').
     bnd (lift (guarantee_from_storage cx b e)) (\<lambda>g.
       case g of
         None \<Rightarrow> ret (None, t')
       | Some g \<Rightarrow>
           if gu_claimed_by g \<noteq> ZERO32 \<or> height \<ge> gu_expiry g then ret (None, t')
           else
             (let g' = g\<lparr>gu_claimed_by := claimant\<rparr> in
              bnd (put_record cx t' gid (guarantee_to_expr g')) (\<lambda>t''. ret (Some g', t'')))))"

definition handle_treasury_guarantee :: "node_ctx \<Rightarrow> transaction \<Rightarrow> bytes \<Rightarrow> bool act" where
  "handle_treasury_guarantee cx tx tx_hash =
     (let tag = get_expr_builtin_tag (cx_hash cx) in
      if tx_recipient tx \<noteq> TREASURY_ADDRESS \<or> tx_sender tx = TREASURY_ADDRESS then ret False
      else
        bnd (reads (\<lambda>s. cached s TREASURY_ADDRESS)) (\<lambda>treasury. if treasury = None then ret False else
        (case data_nodes (cx_hash cx) (tx_data tx) of
           [n0, n1, n2, n3] \<Rightarrow>
             if tag n0 \<noteq> u ''int'' \<or> tag n1 \<noteq> u ''int'' \<or> tag n2 \<noteq> u ''int'' \<or> tag n3 \<noteq> u ''int'' then ret False
             else
               bnd (reads bk_height) (\<lambda>height.
               bnd (lift (as_int (value_of n0))) (\<lambda>amount. if amount \<le> 0 then ret False else
               bnd (lift (as_int (value_of n1))) (\<lambda>duration. if \<not> power_of_two duration then ret False else
               bnd (lift (as_int (value_of n2))) (\<lambda>price. if price < 0 then ret False else
               bnd (lift (as_int (value_of n3))) (\<lambda>expiry. if expiry \<le> height then ret False else
               bnd (load_user_record cx (tx_sender tx)) (\<lambda>r.
               (let r = (case r of None \<Rightarrow> new_user_record | Some r \<Rightarrow> r);
                    g = \<lparr>gu_amount = amount, gu_duration = duration, gu_price = price, gu_expiry = expiry,
                         gu_claimed_by = ZERO32\<rparr> in
                bnd (trie_get cx (open_trie (ur_guarantees_root r) (ur_guarantees_block r)) tx_hash) (\<lambda>((old, _), t).
                  if old \<noteq> None then ret False
                  else
                    bnd (put_record cx t tx_hash (guarantee_to_expr g)) (\<lambda>t.
                    bnd (record_cells cx (guarantee_to_expr g)) (\<lambda>guarantee_exprs.
                    (let r' = r\<lparr>ur_guarantees_root := or_zero32 (root_hash t), ur_guarantees_block := root_block t\<rparr> in
                     bnd (put_user_record cx (tx_sender tx) r') (\<lambda>_.
                     bnd (sync_data_hash TREASURY_ADDRESS) (\<lambda>_.
                     bnd (record_cells cx (user_record_to_expr r')) (\<lambda>user_exprs.
                     bnd (add_pending (guarantee_exprs @ trie_exprs (cx_hash cx) t @ user_exprs)) (\<lambda>_.
                       ret True)))))))))))))))
         | _ \<Rightarrow> ret False)))"

section \<open>Borrowing\<close>

fun remaining_total :: "node_ctx \<Rightarrow> (bytes \<times> value_entry) list \<Rightarrow> int \<Rightarrow> exc + int option" where
  "remaining_total cx [] acc = Inr (Some acc)"
| "remaining_total cx ((_, (e, b)) # rest) acc =
     bind_exc (loan_from_storage cx b e) (\<lambda>l.
       case l of
         None \<Rightarrow> Inr None
       | Some l \<Rightarrow>
           if lo_type l \<noteq> SECURED \<or> lo_next l = 0 then remaining_total cx rest acc
           else
             (case remaining_payment_count l of
                None \<Rightarrow> Inr None
              | Some n \<Rightarrow> remaining_total cx rest (acc + n * lo_payment l)))"

definition all_entries :: "node_ctx \<Rightarrow> radix_tree \<Rightarrow> exc + (bytes \<times> value_entry) list" where
  "all_entries cx t =
     fst (on_tree t (get_all_with_blocks
       (\<lambda>h b. get_radix_node_from_storage (cx_hash cx) (cx_get cx) (cx_list cx) (cx_fuel cx) h b False)
       (cx_get cx) (cx_fuel cx) t))"

definition secured_loan_remaining_total :: "node_ctx \<Rightarrow> bytes \<Rightarrow> bytes option \<Rightarrow> exc + int option" where
  "secured_loan_remaining_total cx rh b =
     (if rh = [] \<or> rh = ZERO32 then Inr (Some 0)
      else bind_exc (all_entries cx (new_radix_tree (Some rh) b)) (\<lambda>es. remaining_total cx es 0))"

definition new_loan :: "loan_type \<Rightarrow> int \<Rightarrow> int \<Rightarrow> borrow_request \<Rightarrow> int \<Rightarrow> claimed list \<Rightarrow> int \<Rightarrow> loan" where
  "new_loan type height discounted req payment claims insurance =
     \<lparr>lo_creation = height, lo_type = type, lo_discounted = discounted, lo_payment = payment,
      lo_interval = br_interval req, lo_next = height + br_interval req, lo_count = br_count req,
      lo_claimed = claims, lo_insurance = insurance, lo_missed = 0, lo_owner = TREASURY_ADDRESS\<rparr>"

definition discounted_for :: "block \<Rightarrow> transaction \<Rightarrow> borrow_request \<Rightarrow> exc + int option option" where
  "discounted_for s tx req =
     bind_exc (windowed_rate_fraction (prev_head s) (br_interval req * br_count req)) (\<lambda>rate.
       Inr (map_option (\<lambda>(n, d). calculate_discounted_amount (tx_amount tx) (br_interval req) (br_count req) n d) rate))"

definition handle_secured_borrow :: "node_ctx \<Rightarrow> transaction \<Rightarrow> bytes \<Rightarrow> borrow_request \<Rightarrow> bool act" where
  "handle_secured_borrow cx tx tx_hash req =
     bnd (reads (\<lambda>s. discounted_for s tx req)) (\<lambda>d. bnd (lift d) (\<lambda>d.
       case d of
         None \<Rightarrow> ret False
       | Some discounted \<Rightarrow>
           bnd (load_user_record cx (tx_sender tx)) (\<lambda>r.
           bnd (lift (case r of None \<Rightarrow> Inr None
                      | Some r \<Rightarrow> secured_loan_remaining_total cx (ur_loans_root r) (ur_loans_block r))) (\<lambda>existing.
           bnd (account_of TREASURY_ADDRESS) (\<lambda>treasury.
             (case (discounted, r, existing) of
                (Some n, Some r, Some e) \<Rightarrow>
                  if n \<le> 0 \<or> ur_balance r - e < tx_amount tx * br_count req \<or> ac_balance treasury < n
                  then ret False
                  else
                    bnd (reads bk_height) (\<lambda>height.
                    (let l = new_loan (br_type req) height n req (tx_amount tx) [] 0 in
                     bnd (trie_get cx (open_trie (ur_loans_root r) (ur_loans_block r)) tx_hash) (\<lambda>((old, _), t).
                       if old \<noteq> None then ret False
                       else
                         bnd (put_record cx t tx_hash (loan_to_expr l)) (\<lambda>t.
                         bnd (record_cells cx (loan_to_expr l)) (\<lambda>loan_exprs.
                         (let r' = with_loans t r in
                          bnd (put_user_record cx (tx_sender tx) r') (\<lambda>_.
                          bnd (sync_data_hash TREASURY_ADDRESS) (\<lambda>_.
                          bnd (add_balance TREASURY_ADDRESS (- n)) (\<lambda>_.
                          bnd (add_balance (tx_sender tx) n) (\<lambda>_.
                          bnd (record_cells cx (user_record_to_expr r')) (\<lambda>user_exprs.
                          bnd (add_pending (loan_exprs @ trie_exprs (cx_hash cx) t @ user_exprs)) (\<lambda>_.
                            ret True))))))))))))
              | _ \<Rightarrow> ret False))))))"


text \<open>The guarantees that a loan claims, with the state of each guarantor in the order of the first claim.\<close>

record guarantor_state =
  gs_record :: user_record
  gs_trie :: radix_tree
  gs_price :: int
  gs_added :: int

definition guarantee_ref :: "node_ctx \<Rightarrow> expr \<Rightarrow> exc + (bytes \<times> bytes) option" where
  "guarantee_ref cx e =
     bind_exc (list_items cx None e) (\<lambda>(items, missed).
       case (missed, items) of
         ([], [g, i]) \<Rightarrow>
           bind_exc (tags_are cx None [(g, ''bytes''), (i, ''bytes'')]) (\<lambda>ok.
             if \<not> ok then Inr None
             else bind_exc (as_bytes (value_of g)) (\<lambda>x. bind_exc (as_bytes (value_of i)) (\<lambda>y. Inr (Some (x, y)))))
       | _ \<Rightarrow> Inr None)"

fun guarantee_ref_list :: "node_ctx \<Rightarrow> expr list \<Rightarrow> exc + (bytes \<times> bytes) list option" where
  "guarantee_ref_list cx [] = Inr (Some [])"
| "guarantee_ref_list cx (e # es) =
     bind_exc (guarantee_ref cx e) (\<lambda>r.
       case r of None \<Rightarrow> Inr None
       | Some x \<Rightarrow> bind_exc (guarantee_ref_list cx es) (\<lambda>rs. Inr (map_option (Cons x) rs)))"

definition decode_guarantee_refs :: "node_ctx \<Rightarrow> expr \<Rightarrow> exc + (bytes \<times> bytes) list option" where
  "decode_guarantee_refs cx e =
     (if e = NIL then Inr (Some [])
      else bind_exc (list_items cx None e) (\<lambda>(items, missed).
             if missed \<noteq> [] then Inr None else guarantee_ref_list cx items))"

definition guarantor_of ::
  "node_ctx \<Rightarrow> (bytes \<times> guarantor_state) list \<Rightarrow> bytes \<Rightarrow> guarantor_state option act" where
  "guarantor_of cx states g =
     (case map_of states g of
        Some st \<Rightarrow> ret (Some st)
      | None \<Rightarrow>
          bnd (load_user_record cx g) (\<lambda>r.
            ret (map_option (\<lambda>r. \<lparr>gs_record = r, gs_trie = open_trie (ur_guarantees_root r) (ur_guarantees_block r),
                                   gs_price = 0, gs_added = 0\<rparr>) r)))"

fun claim_refs ::
  "node_ctx \<Rightarrow> bytes \<Rightarrow> int \<Rightarrow> int \<Rightarrow> (bytes \<times> bytes) list \<Rightarrow> (bytes \<times> guarantor_state) list \<Rightarrow> claimed list \<Rightarrow>
     ((bytes \<times> guarantor_state) list \<times> claimed list) option act" where
  "claim_refs cx tx_hash height duration [] states claims = ret (Some (states, claims))"
| "claim_refs cx tx_hash height duration ((g, i) # refs) states claims =
     (if g = TREASURY_ADDRESS then ret None
      else
        bnd (guarantor_of cx states g) (\<lambda>st.
          case st of
            None \<Rightarrow> ret None
          | Some st \<Rightarrow>
              bnd (claim_guarantee cx (gs_trie st) i tx_hash height) (\<lambda>(c, t).
                case c of
                  None \<Rightarrow> ret None
                | Some c \<Rightarrow>
                    if gu_duration c \<noteq> duration then ret None
                    else
                      claim_refs cx tx_hash height duration refs
                        (AList.update g (st\<lparr>gs_trie := t, gs_price := gs_price st + gu_price c,
                                           gs_added := gs_added st + gu_amount c\<rparr>) states)
                        (claims @ [(g, i, gu_amount c)]))))"

definition insurance_for :: "block \<Rightarrow> user_record \<Rightarrow> int \<Rightarrow> int option" where
  "insurance_for s r discounted =
     (if bk_loan_count s \<le> 0 then Some 0
      else
        (let d = ur_loaned r * bk_loan_count s + bk_loaned s in
         if d \<le> 0 then None
         else Some (discounted * (ur_defaulted r * bk_loan_count s + bk_defaulted s) div d)))"

fun pay_guarantors :: "node_ctx \<Rightarrow> (bytes \<times> guarantor_state) list \<Rightarrow> expr list act" where
  "pay_guarantors cx [] = ret []"
| "pay_guarantors cx ((g, st) # rest) =
     bnd (load_account cx g) (\<lambda>found.
     bnd (if found then bnd (add_balance g (gs_price st)) (\<lambda>_. touch_account g)
          else store_account g (new_account\<lparr>ac_balance := gs_price st\<rparr>)) (\<lambda>_.
     (let r = (gs_record st)\<lparr>ur_guarantees_root := or_zero32 (root_hash (gs_trie st)),
                             ur_guarantees_block := root_block (gs_trie st),
                             ur_guaranteed := ur_guaranteed (gs_record st) + gs_added st\<rparr> in
      bnd (put_user_record cx g r) (\<lambda>_.
      bnd (record_cells cx (user_record_to_expr r)) (\<lambda>es.
      bnd (pay_guarantors cx rest) (\<lambda>more_exprs. ret (es @ trie_exprs (cx_hash cx) (gs_trie st) @ more_exprs)))))))"

definition handle_unsecured_borrow ::
  "node_ctx \<Rightarrow> transaction \<Rightarrow> bytes \<Rightarrow> borrow_request \<Rightarrow> (bytes \<times> bytes) list \<Rightarrow> bool act" where
  "handle_unsecured_borrow cx tx tx_hash req refs =
     (if refs = [] \<or> \<not> distinct refs then ret False
      else
        bnd (reads (\<lambda>s. discounted_for s tx req)) (\<lambda>d. bnd (lift d) (\<lambda>d.
        case d of
          Some (Some n) \<Rightarrow>
            if n \<le> 0 then ret False
            else
              bnd (reads bk_height) (\<lambda>height.
              bnd (load_user_record cx (tx_sender tx)) (\<lambda>r.
              (let r = (case r of None \<Rightarrow> new_user_record | Some r \<Rightarrow> r) in
               bnd (claim_refs cx tx_hash height (br_interval req * br_count req) refs [] []) (\<lambda>c.
               case c of
                 None \<Rightarrow> ret False
               | Some (states, claims) \<Rightarrow>
                   if sum_list (map (\<lambda>(_, _, k). k) claims) < n then ret False
                   else if \<exists>(_, st)\<in>set states. ur_guaranteed (gs_record st) + gs_added st > ur_interest (gs_record st)
                   then ret False
                   else
                     bnd (reads (\<lambda>s. insurance_for s r n)) (\<lambda>ins.
                     case ins of
                       None \<Rightarrow> ret False
                     | Some insurance \<Rightarrow>
                         (let net = n - insurance - sum_list (map (\<lambda>(_, st). gs_price st) states) in
                          if net \<le> 0 then ret False
                          else
                            bnd (account_of TREASURY_ADDRESS) (\<lambda>treasury.
                            if ac_balance treasury < n - insurance then ret False
                            else
                              (let l = new_loan UNSECURED height n req (tx_amount tx) claims insurance in
                               bnd (trie_get cx (open_trie (ur_loans_root r) (ur_loans_block r)) tx_hash) (\<lambda>((old, _), t).
                               if old \<noteq> None then ret False
                               else
                                 bnd (put_record cx t tx_hash (loan_to_expr l)) (\<lambda>t.
                                 bnd (record_cells cx (loan_to_expr l)) (\<lambda>loan_exprs.
                                 bnd (pay_guarantors cx states) (\<lambda>guarantor_exprs.
                                 (let r' = (with_loans t r)\<lparr>ur_loaned := ur_loaned r + n\<rparr> in
                                  bnd (put_user_record cx (tx_sender tx) r') (\<lambda>_.
                                  bnd (sync_data_hash TREASURY_ADDRESS) (\<lambda>_.
                                  bnd (record_cells cx (user_record_to_expr r')) (\<lambda>user_exprs.
                                  bnd (add_balance TREASURY_ADDRESS (- (n - insurance))) (\<lambda>_.
                                  bnd (add_balance (tx_sender tx) net) (\<lambda>_.
                                  bnd (update (\<lambda>s. s\<lparr>bk_loaned := bk_loaned s + n, bk_loan_count := bk_loan_count s + 1\<rparr>)) (\<lambda>_.
                                  bnd (add_pending (loan_exprs @ trie_exprs (cx_hash cx) t @ guarantor_exprs @ user_exprs)) (\<lambda>_.
                                    ret True))))))))))))))))))))
        | _ \<Rightarrow> ret False)))"

definition handle_treasury_borrow :: "node_ctx \<Rightarrow> transaction \<Rightarrow> bytes \<Rightarrow> bool act" where
  "handle_treasury_borrow cx tx tx_hash =
     (let tag = get_expr_builtin_tag (cx_hash cx) in
      if tx_recipient tx \<noteq> TREASURY_ADDRESS \<or> tx_sender tx = TREASURY_ADDRESS \<or> tx_amount tx \<le> 0 then ret False
      else
        bnd (reads (\<lambda>s. cached s TREASURY_ADDRESS)) (\<lambda>treasury. if treasury = None then ret False else
        (case data_nodes (cx_hash cx) (tx_data tx) of
           [type_node, interval_node, count_node, refs_node] \<Rightarrow>
             if tag type_node \<noteq> u ''int'' \<or> tag interval_node \<noteq> u ''int'' \<or> tag count_node \<noteq> u ''int'' then ret False
             else
               bnd (lift (case value_of type_node of Some (PInt k) \<Rightarrow> loan_type_of k
                          | _ \<Rightarrow> Inl (ValueError ''not a valid LoanType''))) (\<lambda>type.
               bnd (lift (if type = SECURED then Inr (Some []) else decode_guarantee_refs cx refs_node)) (\<lambda>refs.
                 case refs of
                   None \<Rightarrow> ret False
                 | Some refs \<Rightarrow>
                     if type = UNSECURED \<and> (refs = [] \<or> \<not> distinct refs) then ret False
                     else
                       bnd (lift (as_int (value_of interval_node))) (\<lambda>interval.
                       bnd (lift (as_int (value_of count_node))) (\<lambda>cnt.
                       (let req = \<lparr>br_type = type, br_interval = interval, br_count = cnt\<rparr> in
                        case type of
                          SECURED \<Rightarrow> handle_secured_borrow cx tx tx_hash req
                        | UNSECURED \<Rightarrow> handle_unsecured_borrow cx tx tx_hash req refs)))))
         | _ \<Rightarrow> ret False)))"


section \<open>Repaying and closing\<close>

fun returned_shares :: "loan \<Rightarrow> int \<Rightarrow> claimed list \<Rightarrow> (bytes \<times> int) list \<Rightarrow> (bytes \<times> int) list" where
  "returned_shares l paid [] acc = acc"
| "returned_shares l paid ((g, _, n) # rest) acc =
     returned_shares l paid rest
       (AList.update g ((case map_of acc g of None \<Rightarrow> 0 | Some k \<Rightarrow> k) + n * paid div lo_count l) acc)"

fun release_shares :: "node_ctx \<Rightarrow> (bytes \<times> int) list \<Rightarrow> expr list act" where
  "release_shares cx [] = ret []"
| "release_shares cx ((g, n) # rest) =
     (if n \<le> 0 then release_shares cx rest
      else
        bnd (load_user_record cx g) (\<lambda>r.
          case r of
            None \<Rightarrow> release_shares cx rest
          | Some r \<Rightarrow>
              (let r' = r\<lparr>ur_guaranteed := max 0 (ur_guaranteed r - n)\<rparr> in
               bnd (put_user_record cx g r') (\<lambda>_.
               bnd (record_cells cx (user_record_to_expr r')) (\<lambda>es.
               bnd (release_shares cx rest) (\<lambda>more_exprs. ret (es @ more_exprs)))))))"

definition release_guarantees :: "node_ctx \<Rightarrow> loan \<Rightarrow> expr list act" where
  "release_guarantees cx l =
     (if lo_claimed l = [] \<or> lo_count l \<le> 0 then ret []
      else
        bnd (release_shares cx (returned_shares l (max 0 (lo_count l - lo_missed l)) (lo_claimed l) [])) (\<lambda>es.
          if es = [] then ret [] else bnd (sync_data_hash TREASURY_ADDRESS) (\<lambda>_. ret es)))"

text \<open>Paying an amount to the owner of a loan, or back to the sender; \<open>False\<close> where the account is missing.\<close>

definition credit :: "node_ctx \<Rightarrow> bytes \<Rightarrow> int \<Rightarrow> bool act" where
  "credit cx a n =
     bnd (load_account cx a) (\<lambda>found.
       if \<not> found then ret False else bnd (add_balance a n) (\<lambda>_. bnd (touch_account a) (\<lambda>_. ret True)))"

definition credit_owner :: "node_ctx \<Rightarrow> loan \<Rightarrow> int \<Rightarrow> bool act" where
  "credit_owner cx l n =
     (if lo_owner l = TREASURY_ADDRESS then bnd (add_balance TREASURY_ADDRESS n) (\<lambda>_. ret True)
      else credit cx (lo_owner l) n)"

definition loan_id_in :: "node_ctx \<Rightarrow> transaction \<Rightarrow> bytes option" where
  "loan_id_in cx tx =
     (if get_expr_builtin_tag (cx_hash cx) (tx_data tx) \<noteq> u ''link'' then None
      else
        (case head_of (tx_data tx) of
           Some (Bytes b) \<Rightarrow> if length b = 32 then Some b else None
         | _ \<Rightarrow> None))"

text \<open>
  How the handlers of the treasury begin: the treasury, the user's record, the trie of its loans and the
  loan that the transaction names, if it is open.
\<close>

definition open_loan ::
  "node_ctx \<Rightarrow> bytes \<Rightarrow> bytes \<Rightarrow> (user_record \<times> radix_tree \<times> loan) option act" where
  "open_loan cx borrower loan_id =
     bnd (load_account cx TREASURY_ADDRESS) (\<lambda>found. if \<not> found then ret None else
     bnd (load_user_record cx borrower) (\<lambda>r.
       case r of
         None \<Rightarrow> ret None
       | Some r \<Rightarrow>
           if ur_loans_root r = ZERO32 then ret None
           else
             bnd (load_loan cx (new_radix_tree (Some (ur_loans_root r)) (ur_loans_block r)) loan_id) (\<lambda>(l, t).
               case l of
                 None \<Rightarrow> ret None
               | Some l \<Rightarrow> ret (if lo_next l = 0 then None else Some (r, t, l)))))"

text \<open>
  How they end: the loan and the record are written, \<open>pay\<close> moves the money, and the cells are kept. The
  write-off counts for the block, and a loan that ended releases its guarantees.
\<close>

definition finish_loan ::
  "node_ctx \<Rightarrow> bytes \<Rightarrow> bytes \<Rightarrow> radix_tree \<Rightarrow> loan \<Rightarrow> (radix_tree \<Rightarrow> user_record) \<Rightarrow> bool act \<Rightarrow> int \<Rightarrow> bool \<Rightarrow> bool act" where
  "finish_loan cx borrower loan_id t l user pay write_off release =
     bnd (put_record cx t loan_id (loan_to_expr l)) (\<lambda>t'.
     bnd (record_cells cx (loan_to_expr l)) (\<lambda>loan_exprs.
     bnd (put_user_record cx borrower (user t')) (\<lambda>_.
     bnd (sync_data_hash TREASURY_ADDRESS) (\<lambda>_.
     bnd pay (\<lambda>paid. if \<not> paid then ret False else
     bnd (record_cells cx (user_record_to_expr (user t'))) (\<lambda>user_exprs.
     bnd (update (\<lambda>s. if write_off = 0 then s else s\<lparr>bk_defaulted := bk_defaulted s + write_off\<rparr>)) (\<lambda>_.
     bnd (if release then release_guarantees cx l else ret []) (\<lambda>released.
     bnd (add_pending (loan_exprs @ trie_exprs (cx_hash cx) t' @ user_exprs @ released)) (\<lambda>_.
     bnd (touch_account TREASURY_ADDRESS) (\<lambda>_. ret True))))))))))"

text \<open>The rules of a repayment: the next payment, the installments missed, the interest, and whether the
  amount is a payment or goes back.\<close>

definition repay_rule :: "int \<Rightarrow> int \<Rightarrow> loan \<Rightarrow> exc + (int \<times> int \<times> int \<times> bool) option" where
  "repay_rule height amount l =
     (if lo_payment l \<le> 0 \<or> amount mod lo_payment l \<noteq> 0 then Inr None
      else
        (case paid_payment_count l of
           None \<Rightarrow> Inr None
         | Some before \<Rightarrow>
             if lo_count l \<le> 0 \<or> before < 0 \<or> before \<ge> lo_count l then Inr None
             else
               (case (if lo_type l = UNSECURED
                      then overdue (nat (height - lo_next l) + 1) (final_block l) (lo_interval l) height (lo_next l) 0
                      else Some (0, lo_next l)) of
                  None \<Rightarrow> Inl OutOfFuel
                | Some (missed, pointer) \<Rightarrow>
                    bind_exc (paid_at l pointer) (\<lambda>before'.
                      if pointer = 0 then
                        Inr (map_option (\<lambda>i. (0, missed, i, False))
                               (interest_paid_delta l before' before' (lo_count l)))
                      else
                        (case advance (final_block l) (lo_interval l) pointer (nat (amount div lo_payment l)) of
                           None \<Rightarrow> Inr None
                         | Some nxt \<Rightarrow>
                             bind_exc (paid_at l nxt) (\<lambda>after.
                               if after > lo_count l then Inr None
                               else
                                 Inr (map_option (\<lambda>i. (nxt, missed, i, True))
                                        (interest_paid_delta l before' after (lo_count l)))))))))"

definition handle_treasury_repay :: "node_ctx \<Rightarrow> transaction \<Rightarrow> bool act" where
  "handle_treasury_repay cx tx =
     (if tx_recipient tx \<noteq> TREASURY_ADDRESS \<or> tx_sender tx = TREASURY_ADDRESS \<or> tx_amount tx \<le> 0 then ret False
      else
        (case loan_id_in cx tx of
           None \<Rightarrow> ret False
         | Some loan_id \<Rightarrow>
             bnd (open_loan cx (tx_sender tx) loan_id) (\<lambda>opened.
               case opened of
                 None \<Rightarrow> ret False
               | Some (r, t, l) \<Rightarrow>
                   bnd (reads (\<lambda>s. repay_rule (bk_height s) (tx_amount tx) l)) (\<lambda>rule.
                   bnd (lift rule) (\<lambda>rule.
                     case rule of
                       None \<Rightarrow> ret False
                     | Some (nxt, missed, interest, pays) \<Rightarrow>
                         bnd (if pays then ret True else credit cx (tx_sender tx) (tx_amount tx)) (\<lambda>ok.
                         if \<not> ok then ret False
                         else
                           finish_loan cx (tx_sender tx) loan_id t
                             (l\<lparr>lo_next := nxt, lo_missed := lo_missed l + missed\<rparr>)
                             (\<lambda>t'. (with_loans t' r)\<lparr>ur_interest := ur_interest r + interest,
                                                     ur_defaulted := ur_defaulted r + missed * lo_payment l\<rparr>)
                             (if pays then credit_owner cx l (tx_amount tx) else ret True)
                             (missed * lo_payment l) (nxt = 0)))))))"

text \<open>The installments of a secured loan that are due at a height: their sum, and the next one.\<close>

fun catch_up :: "nat \<Rightarrow> int \<Rightarrow> int \<Rightarrow> int \<Rightarrow> int \<Rightarrow> int \<Rightarrow> int \<Rightarrow> (int \<times> int) option" where
  "catch_up fuel final interval payment height nxt acc =
     (if \<not> (nxt > 0 \<and> nxt \<le> height) then Some (acc, nxt)
      else
        (case fuel of
           0 \<Rightarrow> None
         | Suc n \<Rightarrow>
             if nxt + interval > final then Some (acc + payment, 0)
             else catch_up n final interval payment height (nxt + interval) (acc + payment)))"

declare catch_up.simps [simp del]

text \<open>The rules of a close: its cost, the installments missed, and whether anything is left to pay.\<close>

definition close_cost :: "int \<Rightarrow> loan \<Rightarrow> exc + (int \<times> int \<times> bool) option" where
  "close_cost height l =
     (if lo_count l \<le> 0 then Inr None
      else if lo_type l = UNSECURED then
        (case overdue (nat (height - lo_next l) + 1) (final_block l) (lo_interval l) height (lo_next l) 0 of
           None \<Rightarrow> Inl OutOfFuel
         | Some (missed, nxt) \<Rightarrow>
             if nxt \<noteq> 0 \<and> lo_interval l \<le> 0 then Inr None
             else
               bind_exc (paid_at l nxt) (\<lambda>paid.
                 (let left = lo_count l - paid in
                  if left \<le> 0 then Inr (Some (0, missed, False))
                  else Inr (Some (lo_discounted l * left div lo_count l, missed, True)))))
      else
        (case catch_up (nat (height - lo_next l) + 1) (final_block l) (lo_interval l) (lo_payment l) height (lo_next l) 0 of
           None \<Rightarrow> Inl OutOfFuel
         | Some (due, nxt) \<Rightarrow>
             if nxt > 0 then
               (if lo_interval l \<le> 0 then Inr None
                else
                  bind_exc (paid_at l nxt) (\<lambda>paid.
                    (let left = lo_count l - paid in
                     if left \<le> 0 then Inr None
                     else Inr (Some (due + lo_discounted l * left div lo_count l, 0, True)))))
             else Inr (Some (due, 0, True))))"

definition handle_treasury_close :: "node_ctx \<Rightarrow> transaction \<Rightarrow> bool act" where
  "handle_treasury_close cx tx =
     (if tx_recipient tx \<noteq> TREASURY_ADDRESS \<or> tx_sender tx = TREASURY_ADDRESS \<or> tx_amount tx \<le> 0 then ret False
      else
        (case loan_id_in cx tx of
           None \<Rightarrow> ret False
         | Some loan_id \<Rightarrow>
             bnd (open_loan cx (tx_sender tx) loan_id) (\<lambda>opened.
               case opened of
                 None \<Rightarrow> ret False
               | Some (r, t, l) \<Rightarrow>
                   bnd (reads (\<lambda>s. close_cost (bk_height s) l)) (\<lambda>rule.
                   bnd (lift rule) (\<lambda>rule.
                     case rule of
                       None \<Rightarrow> ret False
                     | Some (cost, missed, charged) \<Rightarrow>
                         if charged \<and> (cost \<le> 0 \<or> tx_amount tx < cost) then ret False
                         else
                           bnd (if charged then ret True else credit cx (tx_sender tx) (tx_amount tx)) (\<lambda>ok.
                           if \<not> ok then ret False
                           else
                             finish_loan cx (tx_sender tx) loan_id t
                               (l\<lparr>lo_next := 0, lo_missed := lo_missed l + missed\<rparr>)
                               (\<lambda>t'. if lo_type l = UNSECURED
                                     then (with_loans t' r)\<lparr>ur_defaulted := ur_defaulted r + missed * lo_payment l\<rparr>
                                     else (with_loans t' r)\<lparr>ur_balance := ur_balance r + (tx_amount tx - cost)\<rparr>)
                               (if \<not> charged then ret True
                                else if lo_type l = UNSECURED then
                                  bnd (credit_owner cx l cost) (\<lambda>ok.
                                    if \<not> ok then ret False
                                    else if tx_amount tx - cost = 0 then ret True
                                    else bnd (credit cx (tx_sender tx) (tx_amount tx - cost)) (\<lambda>_. ret True))
                                else credit_owner cx l (tx_amount tx))
                               (missed * lo_payment l) True))))))"

section \<open>Buying and claiming\<close>

fun largest_power :: "nat \<Rightarrow> int \<Rightarrow> int \<Rightarrow> int" where
  "largest_power 0 p limit = p"
| "largest_power (Suc n) p limit = (if p * 2 \<le> limit then largest_power n (p * 2) limit else p)"

definition buy_price :: "block \<Rightarrow> loan \<Rightarrow> exc + int option" where
  "buy_price s l =
     (case remaining_payment_count l of
        None \<Rightarrow> Inr None
      | Some n \<Rightarrow>
          if n \<le> 0 then Inr None
          else
            (let d = lo_interval l * n in
             bind_exc (windowed_rate_fraction (prev_head s) (largest_power (nat d) 1 d)) (\<lambda>rate.
               Inr (Option.bind rate (\<lambda>(num, den). calculate_discounted_amount (lo_payment l) (lo_interval l) n num den)))))"

definition handle_treasury_buy :: "node_ctx \<Rightarrow> transaction \<Rightarrow> bool act" where
  "handle_treasury_buy cx tx =
     (if tx_recipient tx \<noteq> TREASURY_ADDRESS \<or> tx_sender tx = TREASURY_ADDRESS \<or> tx_amount tx \<le> 0 then ret False
      else
        (case loan_id_in cx tx of
           None \<Rightarrow> ret False
         | Some loan_id \<Rightarrow>
             bnd (lift (get_transaction_from_storage cx None loan_id)) (\<lambda>borrower_tx.
             bnd (open_loan cx (tx_sender borrower_tx) loan_id) (\<lambda>opened.
               case opened of
                 None \<Rightarrow> ret False
               | Some (r, t, l) \<Rightarrow>
                   if lo_owner l = tx_sender tx then ret False
                   else
                     bnd (reads (\<lambda>s. buy_price s l)) (\<lambda>p. bnd (lift p) (\<lambda>p.
                       case p of
                         None \<Rightarrow> ret False
                       | Some price \<Rightarrow>
                           if price \<le> 0 \<or> tx_amount tx < price then ret False
                           else
                             bnd (if lo_owner l = TREASURY_ADDRESS then ret True else load_account cx (lo_owner l)) (\<lambda>found.
                             if \<not> found then ret False
                             else
                               bnd (account_of (lo_owner l)) (\<lambda>owner.
                               if ac_balance owner < price then ret False
                               else
                                 bnd (add_balance (lo_owner l) (- price)) (\<lambda>_.
                                 bnd (if lo_owner l = TREASURY_ADDRESS then ret () else touch_account (lo_owner l)) (\<lambda>_.
                                 bnd (if tx_amount tx - price > 0 then credit cx (tx_sender tx) (tx_amount tx - price)
                                      else ret True) (\<lambda>ok.
                                 if \<not> ok then ret False
                                 else
                                   finish_loan cx (tx_sender borrower_tx) loan_id t (l\<lparr>lo_owner := tx_sender tx\<rparr>)
                                     (\<lambda>t'. with_loans t' r) (ret True) 0 False)))))))))))"

definition claim_rule :: "int \<Rightarrow> loan \<Rightarrow> exc + (int \<times> int option) option" where
  "claim_rule height l =
     (let early = height < lo_next l in
      if \<not> early \<and> lo_interval l = 0 then Inl ZeroDivisionError
      else
        (let missed = (if early then 0 else (height - lo_next l) div lo_interval l + 1) in
         case paid_payment_count l of
           None \<Rightarrow> Inr None
         | Some paid \<Rightarrow>
             (let left = lo_count l - paid in
              if left < 0 then Inr None
              else
                (let n = min missed left in
                 if n = 0 then Inr None
                 else Inr (Some (n, advance (final_block l) (lo_interval l) (lo_next l) (nat n)))))))"

definition handle_treasury_claim :: "node_ctx \<Rightarrow> transaction \<Rightarrow> bool act" where
  "handle_treasury_claim cx tx =
     (if tx_recipient tx \<noteq> TREASURY_ADDRESS \<or> tx_sender tx = TREASURY_ADDRESS \<or> tx_amount tx \<noteq> 0 then ret False
      else
        (case loan_id_in cx tx of
           None \<Rightarrow> ret False
         | Some loan_id \<Rightarrow>
             bnd (lift (get_transaction_from_storage cx None loan_id)) (\<lambda>borrower_tx.
             bnd (open_loan cx (tx_sender borrower_tx) loan_id) (\<lambda>opened.
               case opened of
                 None \<Rightarrow> ret False
               | Some (r, t, l) \<Rightarrow>
                   if lo_owner l = TREASURY_ADDRESS \<or> lo_owner l \<noteq> tx_sender tx then ret False
                   else
                     bnd (reads (\<lambda>s. claim_rule (bk_height s) l)) (\<lambda>rule. bnd (lift rule) (\<lambda>rule.
                       case rule of
                         None \<Rightarrow> ret False
                       | Some (n, nxt) \<Rightarrow>
                           bnd (account_of TREASURY_ADDRESS) (\<lambda>treasury.
                           if ac_balance treasury < n * lo_payment l then ret False
                           else
                             bnd (add_balance TREASURY_ADDRESS (- (n * lo_payment l))) (\<lambda>_.
                             bnd (credit cx (lo_owner l) (n * lo_payment l)) (\<lambda>ok.
                             if \<not> ok then ret False
                             else
                               (case nxt of
                                  None \<Rightarrow> ret False
                                | Some k \<Rightarrow>
                                    (let write_off = (if lo_type l = UNSECURED then n * lo_payment l else 0) in
                                     finish_loan cx (tx_sender borrower_tx) loan_id t (l\<lparr>lo_next := k\<rparr>)
                                       (\<lambda>t'. (with_loans t' r)\<lparr>ur_defaulted := ur_defaulted r + write_off\<rparr>)
                                       (ret True) write_off False)))))))))))"

end
