(* ===== verification/Treasury_Laws.thy ===== *)
theory Treasury_Laws
  imports Treasury
begin

text \<open>
  What the handlers of the treasury do to the balances: they move funds between accounts, and a handler
  that succeeds leaves the sum of all balances as the charge of the amount, which the settlement takes
  from the sender afterwards, requires. The purchase of a loan is the exception.
\<close>

section \<open>Triples\<close>

lemma sums_trie [sums_rules]:
  "hoare (sums_to cx R c) (trie_get cx t k) (\<lambda>_. sums_to cx R c)"
  "hoare (sums_to cx R c) (trie_put cx t k v) (\<lambda>_. sums_to cx R c)"
  "hoare (sums_to cx R c) (put_record cx t k e) (\<lambda>_. sums_to cx R c)"
  unfolding trie_get_def trie_put_def put_record_def by (rule hoare_prod sums_rules)+

lemma sums_records [sums_rules]:
  "hoare (sums_to cx R c) (load_user_record cx k) (\<lambda>_. sums_to cx R c)"
  "hoare (sums_to cx R c) (put_user_record cx k r) (\<lambda>_. sums_to cx R c)"
  "hoare (sums_to cx R c) (record_cells cx e) (\<lambda>_. sums_to cx R c)"
  "hoare (sums_to cx R c) (load_loan cx t k) (\<lambda>_. sums_to cx R c)"
  unfolding load_user_record_def put_user_record_def record_cells_def load_loan_def case_prod_beta
  by (rule hoare_bnd sums_rules hoare_prod hoare_ret | simp)+

text \<open>A step after one that can fail, and a failure.\<close>

lemma hoare_ok:
  "hoare P m (\<lambda>ok s. ok \<longrightarrow> Q s) \<Longrightarrow>
     hoare (\<lambda>s. ok \<longrightarrow> P s) (if \<not> ok then ret False else m) (\<lambda>ok s. ok \<longrightarrow> Q s)"
  by (cases ok) (simp_all add: hoare_def)

lemma hoare_fails: "hoare P (ret False) (\<lambda>ok s. ok \<longrightarrow> Q s)"
  by (simp add: hoare_def)

lemma sums_load_same:
  "hoare (sums_to cx R c) (load_account cx a) (\<lambda>_. sums_to cx R c)"
  by (rule hoare_weaken, rule sums_load) auto

lemma sums_account_same:
  "hoare (sums_to cx R c) (account_of a) (\<lambda>_. sums_to cx R c)"
  by (rule hoare_weaken, rule sums_account_of) auto

lemmas sums_plain = hoare_bnd sums_load_same sums_account_same hoare_if hoare_option hoare_fails

lemma sums_open_loan [sums_rules]:
  "hoare (sums_to cx R c) (open_loan cx a k) (\<lambda>_. sums_to cx R c)"
  unfolding open_loan_def
  by (rule hoare_bnd sums_load_same sums_rules hoare_prod hoare_if hoare_option hoare_ret | simp)+

lemma sums_release_shares [sums_rules]:
  "hoare (sums_to cx R c) (release_shares cx xs) (\<lambda>_. sums_to cx R c)"
proof (induction xs)
  case Nil
  show ?case unfolding release_shares.simps by (rule hoare_ret)
next
  case (Cons x xs)
  show ?case unfolding release_shares.simps Let_def
    by (cases x; simp only: release_shares.simps Let_def split_paired_all)
      (rule hoare_bnd sums_rules Cons.IH hoare_prod hoare_if hoare_option hoare_ret | simp)+
qed

lemma sums_release [sums_rules]:
  "hoare (sums_to cx R c) (release_guarantees cx l) (\<lambda>_. sums_to cx R c)"
  unfolding release_guarantees_def
  by (rule hoare_bnd sums_rules hoare_if hoare_ret | simp)+

lemma sums_credit:
  "hoare (sums_to cx R c) (credit cx a n) (\<lambda>ok s. ok \<longrightarrow> sums_to cx R (c + n) s)"
  unfolding credit_def
  by (rule hoare_bnd sums_load_same sums_rules hoare_if hoare_ret | simp)+

lemma sums_credit_owner:
  "hoare (sums_to cx R c) (credit_owner cx l n) (\<lambda>ok s. ok \<longrightarrow> sums_to cx R (c + n) s)"
  unfolding credit_owner_def
  by (rule hoare_bnd sums_credit sums_rules hoare_if hoare_ret | simp)+

text \<open>The same for a sum that is only known to be one of a set.\<close>

lemma hoare_among:
  "(\<And>d. hoare (sums_to cx R d) m (\<lambda>_. sums_to cx R d)) \<Longrightarrow>
     hoare (\<lambda>s. \<exists>d\<in>D. sums_to cx R d s) m (\<lambda>_ s. \<exists>d\<in>D. sums_to cx R d s)"
  unfolding hoare_def by blast

lemma sums_finish_among:
  assumes "hoare (sums_to cx R c) pay (\<lambda>ok s. ok \<longrightarrow> (\<exists>d\<in>D. sums_to cx R d s))"
  shows "hoare (sums_to cx R c) (finish_loan cx b k t l user pay w rel) (\<lambda>ok s. ok \<longrightarrow> (\<exists>d\<in>D. sums_to cx R d s))"
proof -
  let ?D = "\<lambda>s. \<exists>d\<in>D. sums_to cx R d s"
  have upd: "hoare (sums_to cx R d) (update (\<lambda>s. if w = 0 then s else s\<lparr>bk_defaulted := bk_defaulted s + w\<rparr>)) (\<lambda>_. sums_to cx R d)" for d
    by (rule sums_update) simp
  have released: "hoare ?D (if rel then release_guarantees cx l else ret []) (\<lambda>_. ?D)"
    by (rule hoare_among) (rule hoare_if sums_rules hoare_ret | assumption)+
  show ?thesis
    unfolding finish_loan_def
    apply (rule hoare_bnd sums_rules)+
     apply (rule assms)
    apply (rule hoare_ok)
    apply (rule hoare_bnd, rule hoare_among, rule sums_rules)
    apply (rule hoare_bnd, rule hoare_among, rule upd)
    apply (rule hoare_bnd, rule released)
    apply (rule hoare_bnd, rule hoare_among, rule sums_rules)
    apply (rule hoare_bnd, rule hoare_among, rule sums_rules)
    apply (rule hoare_ret, simp)
    done
qed

lemma sums_finish:
  "hoare (sums_to cx R c) pay (\<lambda>ok s. ok \<longrightarrow> sums_to cx R d s) \<Longrightarrow>
     hoare (sums_to cx R c) (finish_loan cx b k t l user pay w rel) (\<lambda>ok s. ok \<longrightarrow> sums_to cx R d s)"
  using sums_finish_among [where D = "{d}"] by simp


section \<open>The handlers\<close>

lemma sums_secured:
  "hoare (sums_to cx R c) (handle_secured_borrow cx tx h req) (\<lambda>ok s. ok \<longrightarrow> sums_to cx R c s)"
  unfolding handle_secured_borrow_def Let_def case_prod_beta
  by (rule sums_plain sums_rules | rule hoare_ret, simp)+

lemma sums_claim_guarantee [sums_rules]:
  "hoare (sums_to cx R c) (claim_guarantee cx t g a h) (\<lambda>_. sums_to cx R c)"
  unfolding claim_guarantee_def Let_def case_prod_beta
  by (rule sums_plain sums_rules | rule hoare_ret, simp)+

lemma sums_guarantor_of [sums_rules]:
  "hoare (sums_to cx R c) (guarantor_of cx st g) (\<lambda>_. sums_to cx R c)"
  unfolding guarantor_of_def
  by (rule sums_plain sums_rules | rule hoare_ret, simp)+

lemma sums_claim_refs [sums_rules]:
  "hoare (sums_to cx R c) (claim_refs cx h height d refs st cl) (\<lambda>_. sums_to cx R c)"
proof (induction refs arbitrary: st cl)
  case Nil
  show ?case unfolding claim_refs.simps by (rule hoare_ret)
next
  case (Cons x refs)
  show ?case
    by (cases x; simp only: claim_refs.simps)
      (rule hoare_bnd sums_rules hoare_if hoare_option hoare_prod Cons.IH | rule hoare_ret, assumption)+
qed

lemma sums_pay_guarantors:
  "hoare (sums_to cx R c) (pay_guarantors cx states)
     (\<lambda>_. sums_to cx R (c + sum_list (map (\<lambda>(_, st). gs_price st) states)))"
proof (induction states arbitrary: c)
  case Nil
  show ?case unfolding pay_guarantors.simps by (rule hoare_ret) simp
next
  case (Cons x states)
  obtain g st where x: "x = (g, st)" by (cases x)
  have pay: "hoare (\<lambda>s. sums_to cx R c s \<and> (\<not> found \<longrightarrow> worth cx R s g = 0))
      (if found then bnd (add_balance g (gs_price st)) (\<lambda>_. touch_account g)
       else store_account g (new_account\<lparr>ac_balance := gs_price st\<rparr>))
      (\<lambda>_. sums_to cx R (c + gs_price st))" for found
  proof (cases found)
    case True
    have "hoare (sums_to cx R c) (bnd (add_balance g (gs_price st)) (\<lambda>_. touch_account g)) (\<lambda>_. sums_to cx R (c + gs_price st))"
      by (rule hoare_bnd sums_rules)+
    then show ?thesis using True by (auto elim: hoare_weaken)
  next
    case False
    then show ?thesis
      using sums_store_new [of cx R c g "new_account\<lparr>ac_balance := gs_price st\<rparr>"] by simp
  qed
  show ?case
    unfolding x pay_guarantors.simps Let_def
    apply (rule hoare_bnd, rule sums_load, rule hoare_bnd, rule pay)
    apply (rule hoare_bnd sums_rules)+
     apply (rule Cons.IH)
    apply (rule hoare_ret)
    apply (simp add: add.assoc)
    done
qed

lemma sums_unsecured:
  "hoare (sums_to cx R c) (handle_unsecured_borrow cx tx h req refs) (\<lambda>ok s. ok \<longrightarrow> sums_to cx R c s)"
proof -
  have upd: "hoare (sums_to cx R d) (update (\<lambda>s. s\<lparr>bk_loaned := bk_loaned s + n, bk_loan_count := bk_loan_count s + 1\<rparr>))
      (\<lambda>_. sums_to cx R d)" for d n
    by (rule sums_update) simp
  show ?thesis
    unfolding handle_unsecured_borrow_def Let_def case_prod_beta
    by (rule sums_plain sums_rules hoare_prod sums_pay_guarantors [unfolded case_prod_beta] upd | rule hoare_ret, simp)+
qed

text \<open>The data of a transaction is a list of four nodes or of three, and the handler fails otherwise.\<close>

lemma hoare_four:
  assumes "\<And>a b c d. hoare P (f a b c d) (\<lambda>ok s. ok \<longrightarrow> Q s)"
  shows "hoare P (case xs of [] \<Rightarrow> ret False | [a] \<Rightarrow> ret False | [a, b] \<Rightarrow> ret False | [a, b, c] \<Rightarrow> ret False
                  | [a, b, c, d] \<Rightarrow> f a b c d | a # b # c # d # e # ys \<Rightarrow> ret False) (\<lambda>ok s. ok \<longrightarrow> Q s)"
  using assms by (auto simp: hoare_fails split: list.splits)

lemma sums_borrow:
  "hoare (sums_to cx R c) (handle_treasury_borrow cx tx h) (\<lambda>ok s. ok \<longrightarrow> sums_to cx R c s)"
proof -
  have type: "hoare (sums_to cx R c)
      (case type of SECURED \<Rightarrow> handle_secured_borrow cx tx h req | UNSECURED \<Rightarrow> handle_unsecured_borrow cx tx h req refs)
      (\<lambda>ok s. ok \<longrightarrow> sums_to cx R c s)" for type req refs
    by (cases type) (simp_all add: sums_secured sums_unsecured)
  show ?thesis
    unfolding handle_treasury_borrow_def Let_def
    by (rule sums_plain sums_rules hoare_four type | rule hoare_ret, simp)+
qed

lemma sums_guarantee:
  "hoare (sums_to cx R c) (handle_treasury_guarantee cx tx h) (\<lambda>ok s. ok \<longrightarrow> sums_to cx R c s)"
  unfolding handle_treasury_guarantee_def Let_def case_prod_beta
  by (rule sums_plain sums_rules hoare_four | rule hoare_ret, simp)+

text \<open>A payment is returned or handed on in full.\<close>

lemma bnd_ret [simp]: "bnd (ret x) f = f x"
  by (simp add: fun_eq_iff bnd_def)

lemma hoare_True: "hoare P m (\<lambda>_. Q) \<Longrightarrow> hoare P m (\<lambda>ok s. ok \<longrightarrow> Q s)"
  by (simp add: hoare_def)

lemma sums_repay:
  "hoare (sums_to cx R c) (handle_treasury_repay cx tx) (\<lambda>ok s. ok \<longrightarrow> sums_to cx R (c + tx_amount tx) s)"
proof -
  have pay: "hoare (sums_to cx R c)
      (bnd (if pays then ret True else credit cx a n) (\<lambda>ok. if \<not> ok then ret False
         else finish_loan cx b k t l u (if pays then credit_owner cx l' n else ret True) w rel))
      (\<lambda>ok s. ok \<longrightarrow> sums_to cx R (c + n) s)" for pays a n b k t l u l' w rel
  proof (cases pays)
    case True
    then show ?thesis using sums_finish [OF sums_credit_owner] by simp
  next
    case False
    have "hoare (sums_to cx R d) (ret True) (\<lambda>ok s. ok \<longrightarrow> sums_to cx R d s)" for d
      by (rule hoare_ret) simp
    from sums_finish [OF this] False show ?thesis
      by (simp only: if_False) (rule hoare_bnd, rule sums_credit, rule hoare_ok)
  qed
  show ?thesis
    unfolding handle_treasury_repay_def case_prod_beta
    by (rule pay | rule sums_plain sums_rules | rule hoare_ret, simp)+
qed

text \<open>What a close returns to the sender is dropped when the sender has no account, so the sum may be less.\<close>

lemma sums_close_pay:
  assumes "cost \<le> n"
  shows "hoare (sums_to cx R c)
      (if kind then
         bnd (credit_owner cx l cost) (\<lambda>ok. if \<not> ok then ret False
           else if n - cost = 0 then ret True else bnd (credit cx a (n - cost)) (\<lambda>_. ret True))
       else credit_owner cx l n)
      (\<lambda>ok s. ok \<longrightarrow> (\<exists>d\<in>{..c + n}. sums_to cx R d s))"
proof -
  let ?D = "\<lambda>s. \<exists>d\<in>{..c + n}. sums_to cx R d s"
  have whole: "hoare (sums_to cx R c) (credit_owner cx l n) (\<lambda>ok s. ok \<longrightarrow> ?D s)"
    by (rule hoare_weaken [OF sums_credit_owner]) auto
  have rest: "hoare (sums_to cx R (c + cost)) (credit cx a (n - cost)) (\<lambda>_. ?D)"
  proof -
    have "hoare (sums_to cx R (c + cost)) (add_balance a (n - cost)) (\<lambda>_. sums_to cx R (c + n))"
      using sums_add_balance [of cx R "c + cost" a "n - cost"] by simp
    then have "hoare (sums_to cx R (c + cost)) (bnd (add_balance a (n - cost)) (\<lambda>_. bnd (touch_account a) (\<lambda>_. ret True))) (\<lambda>_. ?D)"
      by (rule hoare_bnd) (rule hoare_bnd, rule sums_rules, rule hoare_ret, auto)
    then show ?thesis
      unfolding credit_def using assms
      by (intro hoare_bnd [OF sums_load_same] hoare_if hoare_ret) auto
  qed
  have exact: "hoare (sums_to cx R (c + cost)) (ret True) (\<lambda>_. ?D)"
    using assms by (intro hoare_ret) auto
  have split: "hoare (sums_to cx R c)
      (bnd (credit_owner cx l cost) (\<lambda>ok. if \<not> ok then ret False
         else if n - cost = 0 then ret True else bnd (credit cx a (n - cost)) (\<lambda>_. ret True)))
      (\<lambda>ok s. ok \<longrightarrow> ?D s)"
    by (rule hoare_bnd [OF sums_credit_owner], rule hoare_ok, rule hoare_True, rule hoare_if, rule exact)
      (rule hoare_bnd, rule rest, rule hoare_ret)
  show ?thesis
    using whole split by simp
qed

lemma sums_close:
  "hoare (sums_to cx R c) (handle_treasury_close cx tx)
     (\<lambda>ok s. ok \<longrightarrow> (\<exists>d\<in>{..c + tx_amount tx}. sums_to cx R d s))"
proof -
  let ?Q = "\<lambda>ok s. ok \<longrightarrow> (\<exists>d\<in>{..c + tx_amount tx}. sums_to cx R d s)"
  have pay: "hoare (sums_to cx R c)
      (if charged \<and> (cost \<le> 0 \<or> tx_amount tx < cost) then ret False
       else bnd (if charged then ret True else credit cx a (tx_amount tx)) (\<lambda>ok. if \<not> ok then ret False
         else finish_loan cx b k t l u
           (if \<not> charged then ret True
            else if kind then
              bnd (credit_owner cx l' cost) (\<lambda>ok. if \<not> ok then ret False
                else if tx_amount tx - cost = 0 then ret True
                else bnd (credit cx a' (tx_amount tx - cost)) (\<lambda>_. ret True))
            else credit_owner cx l' (tx_amount tx)) w rel)) ?Q"
    for charged cost a b k t l u kind l' a' w rel
  proof (cases charged)
    case True
    show ?thesis
    proof (rule hoare_if)
      assume "\<not> (charged \<and> (cost \<le> 0 \<or> tx_amount tx < cost))"
      with True have "cost \<le> tx_amount tx" by simp
      from sums_finish_among [OF sums_close_pay [OF this]] True
      show "hoare (sums_to cx R c) (bnd (if charged then ret True else credit cx a (tx_amount tx)) (\<lambda>ok. if \<not> ok then ret False
         else finish_loan cx b k t l u
           (if \<not> charged then ret True
            else if kind then
              bnd (credit_owner cx l' cost) (\<lambda>ok. if \<not> ok then ret False
                else if tx_amount tx - cost = 0 then ret True
                else bnd (credit cx a' (tx_amount tx - cost)) (\<lambda>_. ret True))
            else credit_owner cx l' (tx_amount tx)) w rel)) ?Q"
        by (simp only: simp_thms if_True if_False bnd_ret)
    qed (rule hoare_fails)
  next
    case False
    have "hoare (sums_to cx R d) (ret True) (\<lambda>ok s. ok \<longrightarrow> sums_to cx R d s)" for d
      by (rule hoare_ret) simp
    from sums_finish [OF this] have rest: "hoare (sums_to cx R (c + tx_amount tx))
        (finish_loan cx b k t l u (ret True) w rel) ?Q"
      by (rule hoare_weaken) auto
    from False show ?thesis
      by (simp only: simp_thms if_False if_True) (rule hoare_bnd, rule sums_credit, rule hoare_ok, rule rest)
  qed
  show ?thesis
    unfolding handle_treasury_close_def case_prod_beta
    by (rule pay | rule sums_plain sums_rules | rule hoare_ret, simp)+
qed

lemma sums_treasury_claim:
  "hoare (sums_to cx R c) (handle_treasury_claim cx tx) (\<lambda>ok s. ok \<longrightarrow> sums_to cx R c s)"
proof -
  have pay: "hoare (sums_to cx R c)
      (bnd (add_balance a (- n)) (\<lambda>_. bnd (credit cx b n) (\<lambda>ok. if \<not> ok then ret False
         else (case nxt of None \<Rightarrow> ret False | Some k \<Rightarrow> finish_loan cx d i t (l k) u (ret True) w False))))
      (\<lambda>ok s. ok \<longrightarrow> sums_to cx R c s)" for a n b nxt d i t l u w
  proof -
    have "hoare (sums_to cx R c) (ret True) (\<lambda>ok s. ok \<longrightarrow> sums_to cx R c s)"
      by (rule hoare_ret) simp
    note finished = sums_finish [OF this]
    have paid: "hoare (sums_to cx R (c + - n)) (credit cx b n) (\<lambda>ok s. ok \<longrightarrow> sums_to cx R c s)"
      using sums_credit [of cx R "c + - n" b n] by simp
    show ?thesis
      by (rule hoare_bnd, rule sums_rules, rule hoare_bnd, rule paid, rule hoare_ok)
        (rule hoare_option hoare_fails finished)+
  qed
  show ?thesis
    unfolding handle_treasury_claim_def case_prod_beta Let_def
    by (rule pay | rule sums_plain sums_rules | rule hoare_ret, simp)+
qed

text \<open>
  A purchase takes the price from the seller and pays the amount less the price to the buyer, although
  the amount of this transaction is taken from nobody.
\<close>

lemma sums_buy:
  "hoare (sums_to cx R c) (handle_treasury_buy cx tx)
     (\<lambda>ok s. ok \<longrightarrow> (\<exists>d\<in>{c + tx_amount tx - 2 * p |p. 0 < p \<and> p \<le> tx_amount tx}. sums_to cx R d s))"
proof -
  let ?D = "{c + tx_amount tx - 2 * p |p. 0 < p \<and> p \<le> tx_amount tx}"
  let ?Q = "\<lambda>ok s. ok \<longrightarrow> (\<exists>d\<in>?D. sums_to cx R d s)"
  have pay: "hoare (sums_to cx R c)
      (if price \<le> 0 \<or> tx_amount tx < price then ret False
       else bnd load (\<lambda>found. if \<not> found then ret False else bnd (account_of a) (\<lambda>owner.
         if ac_balance owner < price then ret False
         else bnd (add_balance a (- price)) (\<lambda>_. bnd (if q then ret () else touch_account a) (\<lambda>_.
           bnd (if tx_amount tx - price > 0 then credit cx b (tx_amount tx - price) else ret True) (\<lambda>ok.
             if \<not> ok then ret False else finish_loan cx k i t l u (ret True) 0 False))))))
      ?Q"
    if load: "hoare (sums_to cx R c) load (\<lambda>_. sums_to cx R c)" for price load a q b k i t l u
  proof (rule hoare_if)
    assume "\<not> (price \<le> 0 \<or> tx_amount tx < price)"
    then have price: "0 < price" "price \<le> tx_amount tx" by simp_all
    let ?e = "c + tx_amount tx - 2 * price"
    have "hoare (sums_to cx R ?e) (ret True) (\<lambda>ok s. ok \<longrightarrow> sums_to cx R ?e s)"
      by (rule hoare_ret) simp
    from sums_finish [OF this] have fin: "hoare (sums_to cx R ?e) (finish_loan cx k i t l u (ret True) 0 False) ?Q"
      by (rule hoare_weaken) (use price in auto)
    have given: "hoare (sums_to cx R (c + - price))
        (if tx_amount tx - price > 0 then credit cx b (tx_amount tx - price) else ret True)
        (\<lambda>ok s. ok \<longrightarrow> sums_to cx R ?e s)"
    proof (rule hoare_if)
      show "hoare (sums_to cx R (c + - price)) (credit cx b (tx_amount tx - price)) (\<lambda>ok s. ok \<longrightarrow> sums_to cx R ?e s)"
        using sums_credit [of cx R "c + - price" b "tx_amount tx - price"] by (simp add: algebra_simps)
    qed (rule hoare_ret, use price in simp)
    show "hoare (sums_to cx R c) (bnd load (\<lambda>found. if \<not> found then ret False else bnd (account_of a) (\<lambda>owner.
         if ac_balance owner < price then ret False
         else bnd (add_balance a (- price)) (\<lambda>_. bnd (if q then ret () else touch_account a) (\<lambda>_.
           bnd (if tx_amount tx - price > 0 then credit cx b (tx_amount tx - price) else ret True) (\<lambda>ok.
             if \<not> ok then ret False else finish_loan cx k i t l u (ret True) 0 False)))))) ?Q"
      apply (rule hoare_bnd, rule load, rule hoare_if, rule hoare_fails)
      apply (rule hoare_bnd, rule sums_account_same, rule hoare_if, rule hoare_fails)
      apply (rule hoare_bnd, rule sums_add_balance)
      apply (rule hoare_bnd, rule hoare_if, rule hoare_ret, assumption, rule sums_touch)
      apply (rule hoare_bnd, rule given, rule hoare_ok, rule fin)
      done
  qed (rule hoare_fails)
  have load: "hoare (sums_to cx R c) (if a = TREASURY_ADDRESS then ret True else load_account cx a) (\<lambda>_. sums_to cx R c)" for a
    by (rule hoare_if, rule hoare_ret, assumption, rule sums_load_same)
  show ?thesis
    unfolding handle_treasury_buy_def case_prod_beta
    by (rule pay [OF load] | rule sums_plain sums_rules | rule hoare_ret, simp)+
qed

end
