(* ===== verification/Validators.thy ===== *)
theory Validators
  imports Block_Codec Treasury_Laws "HOL-Library.List_Lexorder" "HOL-Library.Product_Lexorder"
begin

text \<open>
  The choice of the validator of a block: \<open>consensus/validation/validator.py\<close>, and the payments that
  a returned stake makes on loans (\<open>consensus/transaction/treasury/loans.py\<close>).

  A draw is a weighted choice among the stakes in the treasury, with Python's generator seeded by the
  hash of the parent, and halves the stake of who was drawn. \<open>current_validator\<close> works on accounts; here
  it works on a block that holds them, whose pending cells are those of the accounts.
\<close>

section \<open>Time\<close>

definition SLOT_DURATION_SECONDS :: int where "SLOT_DURATION_SECONDS = 2"
definition BUILD_MARGIN_SECONDS :: int where "BUILD_MARGIN_SECONDS = 1"

text \<open>Times in seconds are floats; a time in milliseconds is far below the first int that a float cannot hold.\<close>

definition estimate_build_seconds :: "int \<Rightarrow> int \<Rightarrow> rat" where
  "estimate_build_seconds last_ms previous_ms =
     (let growth = (if previous_ms > 0 then max 0 (last_ms - previous_ms) else 0)
      in f64 (f64 (of_int (last_ms + growth) / 1000) + of_int BUILD_MARGIN_SECONDS))"

definition next_block_time :: "int \<Rightarrow> rat \<Rightarrow> rat \<Rightarrow> int \<Rightarrow> int" where
  "next_block_time parent_timestamp now estimate_seconds slot =
     (let slots = max 1 \<lceil>f64 (f64 (f64 (now + estimate_seconds) - of_int parent_timestamp) / of_int slot)\<rceil>
      in parent_timestamp + slots * slot)"

definition slots_to_process :: "int \<Rightarrow> int \<Rightarrow> int" where
  "slots_to_process target_timestamp block_timestamp =
     max 1 ((target_timestamp - block_timestamp + SLOT_DURATION_SECONDS - 1) div SLOT_DURATION_SECONDS)"

section \<open>The draw\<close>

text \<open>\<open>random.Random(seed)\<close> and \<open>randrange(n)\<close>, which gives a number below \<open>n\<close>.\<close>

record 'g rng =
  rng_seed :: "int \<Rightarrow> 'g"
  rng_range :: "'g \<Rightarrow> int \<Rightarrow> int \<times> 'g"

definition rng_ok :: "'g rng \<Rightarrow> bool" where
  "rng_ok r \<longleftrightarrow> (\<forall>g n. 0 < n \<longrightarrow> 0 \<le> fst (rng_range r g n) \<and> fst (rng_range r g n) < n)"

type_synonym stakes = "(bytes \<times> user_record) list"

definition positive_weights :: "stakes \<Rightarrow> (bytes \<times> int) list" where
  "positive_weights es = filter (\<lambda>(k, w). w > 0) (map (\<lambda>(k, r). (k, ur_balance r)) es)"

definition total_weight :: "(bytes \<times> int) list \<Rightarrow> int" where
  "total_weight ws = sum_list (map snd ws)"

fun find_choice :: "(bytes \<times> int) list \<Rightarrow> int \<Rightarrow> int \<Rightarrow> bytes option" where
  "find_choice [] choice cumulative = None"
| "find_choice ((k, w) # ws) choice cumulative =
     (if choice < cumulative + w then Some k else find_choice ws choice (cumulative + w))"

definition chosen :: "(bytes \<times> int) list \<Rightarrow> int \<Rightarrow> bytes" where
  "chosen ws choice = (case find_choice (sort_key fst ws) choice 0 of Some k \<Rightarrow> k | None \<Rightarrow> fst (last ws))"

definition pick_validator :: "'g rng \<Rightarrow> stakes \<Rightarrow> 'g \<Rightarrow> exc + bytes \<times> 'g" where
  "pick_validator rng es g =
     (let ws = positive_weights es in
      if ws = [] then Inl (ValueError ''no validators with positive stake'')
      else (case rng_range rng g (total_weight ws) of (choice, g') \<Rightarrow> Inr (chosen ws choice, g')))"

section \<open>Loans of a validator\<close>

text \<open>
  The secured loans that are open, by their next payment. A loan whose payment the returned stake covers
  is paid by a call that lacks a required argument, so the code raises \<open>TypeError\<close> there.
\<close>

fun active_loans :: "node_ctx \<Rightarrow> (bytes \<times> value_entry) list \<Rightarrow> exc + (int \<times> bytes \<times> loan) list" where
  "active_loans cx [] = Inr []"
| "active_loans cx ((k, (e, b)) # rest) =
     bind_exc (loan_from_storage cx b e) (\<lambda>l.
     bind_exc (active_loans cx rest) (\<lambda>ls.
       Inr (case l of
              None \<Rightarrow> ls
            | Some x \<Rightarrow> if lo_type x \<noteq> SECURED \<or> lo_next x = 0 then ls else (lo_next x, k, x) # ls)))"

fun loan_pass :: "int \<Rightarrow> int \<Rightarrow> loan list \<Rightarrow> exc + bool" where
  "loan_pass balance available [] = Inr True"
| "loan_pass balance available (l # ls) =
     (if lo_payment l \<le> 0 \<or> available < lo_payment l then loan_pass balance available ls
      else if balance - lo_payment l < 0 then Inr False
      else Inl TypeError)"

definition apply_treasury_loan_payments_from_stake_return :: "node_ctx \<Rightarrow> bytes \<Rightarrow> int \<Rightarrow> bool act" where
  "apply_treasury_loan_payments_from_stake_return cx borrower amount =
     (if amount \<le> 0 then ret False
      else
        bnd (load_account cx TREASURY_ADDRESS) (\<lambda>found.
        if \<not> found then ret False
        else
          bnd (load_user_record cx borrower) (\<lambda>r.
          case r of
            None \<Rightarrow> ret False
          | Some x \<Rightarrow>
              if ur_balance x < amount then ret False
              else if ur_loans_root x = ZERO32 then ret True
              else
                bnd (lift (all_entries cx (new_radix_tree (Some (ur_loans_root x)) (ur_loans_block x)))) (\<lambda>es.
                bnd (lift (active_loans cx es)) (\<lambda>ls.
                  lift (loan_pass (ur_balance x) amount
                          (map (\<lambda>(_, _, l). l) (sort_key (\<lambda>(n, k, _). (n, k)) ls))))))))"

section \<open>Halving a stake\<close>

definition pay_stake_back :: "node_ctx \<Rightarrow> bytes \<Rightarrow> user_record \<Rightarrow> int \<Rightarrow> unit act" where
  "pay_stake_back cx k r returned =
     bnd (put_user_record cx k r) (\<lambda>_.
     bnd (record_cells cx (user_record_to_expr r)) (\<lambda>es.
     bnd (add_pending es) (\<lambda>_.
     bnd (sync_data_hash TREASURY_ADDRESS) (\<lambda>_.
     bnd (add_balance TREASURY_ADDRESS (- returned)) (\<lambda>_.
     bnd (load_account cx k) (\<lambda>found.
       if found then bnd (add_balance k returned) (\<lambda>_. touch_account k)
       else store_account k (new_account\<lparr>ac_balance := returned\<rparr>)))))))"

definition halve_stake :: "node_ctx \<Rightarrow> stakes \<Rightarrow> bytes \<Rightarrow> stakes act" where
  "halve_stake cx es k =
     (case map_of es k of
        None \<Rightarrow> raise (ValueError ''validator stake must be positive'')
      | Some r \<Rightarrow>
          (let current_amount = ur_balance r; new_amount = max 1 (current_amount div 2);
               returned = current_amount - new_amount in
           if current_amount \<le> 0 then raise (ValueError ''validator stake must be positive'')
           else if returned \<le> 0 then ret es
           else
             bnd (if ur_loans_root r = ZERO32
                  then bnd (pay_stake_back cx k (r\<lparr>ur_balance := new_amount\<rparr>) returned)
                         (\<lambda>_. ret (r\<lparr>ur_balance := new_amount\<rparr>))
                  else
                    bnd (apply_treasury_loan_payments_from_stake_return cx k returned) (\<lambda>ok.
                    if \<not> ok then raise (ValueError ''failed applying treasury loan payment from stake return'')
                    else
                      bnd (load_user_record cx k) (\<lambda>x.
                      case x of
                        None \<Rightarrow> raise (ValueError ''validator treasury record missing after loan payment'')
                      | Some y \<Rightarrow> ret y))) (\<lambda>r'.
             bnd (touch_account TREASURY_ADDRESS) (\<lambda>_. ret (AList.update k r' es)))))"

fun draw_slots :: "node_ctx \<Rightarrow> 'g rng \<Rightarrow> nat \<Rightarrow> stakes \<Rightarrow> 'g \<Rightarrow> bytes \<Rightarrow> bytes act" where
  "draw_slots cx rng 0 es g selected = ret selected"
| "draw_slots cx rng (Suc n) es g selected =
     bnd (lift (pick_validator rng es g)) (\<lambda>(k, g').
     bnd (halve_stake cx es k) (\<lambda>es'. draw_slots cx rng n es' g' k))"

section \<open>The scheduled validator\<close>

fun stake_records :: "node_ctx \<Rightarrow> (bytes \<times> value_entry) list \<Rightarrow> exc + stakes" where
  "stake_records cx [] = Inr []"
| "stake_records cx ((k, (e, b)) # rest) =
     bind_exc (case e of
                 None \<Rightarrow> Inr None
               | Some x \<Rightarrow>
                   if k = [] then Inr None
                   else
                     (let h = expr_hash (cx_hash cx) x in
                      if h = ZERO32 then Inr None else user_record_from_storage cx b (fetch_in cx b h))) (\<lambda>r.
     bind_exc (stake_records cx rest) (\<lambda>rs. Inr (case r of None \<Rightarrow> rs | Some x \<Rightarrow> (k, x) # rs)))"

definition carrier :: "accounts \<Rightarrow> block" where
  "carrier t =
     \<lparr>bk_chain_id = 0, bk_height = 0, bk_timestamp = None, bk_validation_difficulty = None, bk_expr_id = None, bk_previous_hash = ZERO32, bk_previous = None,
      bk_accounts = t, bk_pending = [], bk_bloom = \<lparr>bt_root = None, bt_touched = []\<rparr>, bk_bloom_keys = [],
      bk_involved = [], bk_transactions = [], bk_receipts = [], bk_receipts_trie = new_radix_tree None None,
      bk_loaned = 0, bk_defaulted = 0, bk_loan_count = 0, bk_votes = 0, bk_claims = 0, bk_tx_keys = [],
      bk_tx_inserts = []\<rparr>"

definition seed_of :: "bytes \<Rightarrow> int" where
  "seed_of block_hash = be_uint block_hash"

definition draw_validator :: "node_ctx \<Rightarrow> 'g rng \<Rightarrow> bytes \<Rightarrow> nat \<Rightarrow> bytes act" where
  "draw_validator cx rng block_hash n =
     bnd (load_account cx TREASURY_ADDRESS) (\<lambda>found.
     if \<not> found then raise (ValueError ''treasury account missing from accounts trie'')
     else
       bnd (account_of TREASURY_ADDRESS) (\<lambda>x.
       bnd (lift (all_entries cx (ac_data x))) (\<lambda>entries.
       bnd (lift (stake_records cx entries)) (\<lambda>es.
       if es = [] then raise (ValueError ''no validator stakes found in treasury trie'')
       else draw_slots cx rng n es (rng_seed rng (seed_of block_hash)) []))))"

text \<open>The reader of a block also reads the root of its bloom tree.\<close>

definition get_block_with_bloom :: "node_ctx \<Rightarrow> bloom_reader \<Rightarrow> bytes \<Rightarrow> exc + stored_block \<times> bloom_tree" where
  "get_block_with_bloom cx F block_hash =
     bind_exc (get_block_from_storage cx block_hash) (\<lambda>b.
     bind_exc (new_bloom_tree F (Some (sb_bloom_hash b)) (Some block_hash)) (\<lambda>t. Inr (b, t)))"

definition current_validator ::
  "node_ctx \<Rightarrow> bloom_reader \<Rightarrow> 'g rng \<Rightarrow> bytes \<Rightarrow> int \<Rightarrow> exc + bytes \<times> block" where
  "current_validator cx F rng block_hash target_time =
     bind_exc (get_block_with_bloom cx F block_hash) (\<lambda>(b, _).
       (let target = (if target_time \<le> sb_timestamp b then sb_timestamp b + 1 else target_time);
            n = nat (slots_to_process target (sb_timestamp b)) in
        case draw_validator cx rng block_hash n
               (carrier (new_accounts (Some (sb_accounts_hash b)) (Some block_hash))) of
          (Inl e, _) \<Rightarrow> Inl e
        | (Inr k, s) \<Rightarrow> Inr (k, s)))"


section \<open>The draw is fair\<close>

lemma total_weight_nonneg: "\<forall>(k, w)\<in>set ws. 0 < w \<Longrightarrow> 0 \<le> total_weight ws"
  unfolding total_weight_def by (rule sum_list_nonneg) force

text \<open>A stake counts when it is positive; the stakes of the keys before a key, in their order.\<close>

definition stake_of :: "stakes \<Rightarrow> bytes \<Rightarrow> int" where
  "stake_of es k = (case map_of es k of None \<Rightarrow> 0 | Some r \<Rightarrow> max 0 (ur_balance r))"

definition stakes_before :: "stakes \<Rightarrow> bytes \<Rightarrow> int" where
  "stakes_before es k = sum_list (map (\<lambda>(j, r). if j < k then max 0 (ur_balance r) else 0) es)"

definition all_stakes :: "stakes \<Rightarrow> int" where
  "all_stakes es = sum_list (map (\<lambda>(j, r). max 0 (ur_balance r)) es)"

definition weight_before :: "(bytes \<times> int) list \<Rightarrow> bytes \<Rightarrow> int" where
  "weight_before ws k = sum_list (map (\<lambda>(j, w). if j < k then w else 0) ws)"

lemma weight_before_none: "\<forall>j\<in>fst ` set ws. \<not> j < k \<Longrightarrow> weight_before ws k = 0"
  unfolding weight_before_def by (induction ws) auto

lemma find_choice_some: "c < a + total_weight ws \<Longrightarrow> ws \<noteq> [] \<Longrightarrow> \<exists>k. find_choice ws c a = Some k"
proof (induction ws arbitrary: a)
  case (Cons p ws)
  obtain k w where p: "p = (k, w)" by (cases p)
  show ?case
  proof (cases "c < a + w")
    case False
    then have "ws \<noteq> []" using Cons.prems(1) p by (auto simp: total_weight_def)
    with Cons.IH [of "a + w"] Cons.prems(1) p False show ?thesis by (simp add: total_weight_def)
  qed (simp add: p)
qed simp

lemma total_weight_sort [simp]: "total_weight (sort_key f ws) = total_weight ws"
proof -
  have "mset (map snd (sort_key f ws)) = mset (map snd ws)" by simp
  then show ?thesis unfolding total_weight_def by (metis sum_mset_sum_list)
qed

text \<open>In a list by keys, the choice of a key is the interval after the weights of the keys before it.\<close>

lemma find_choice_sorted:
  assumes "sorted_wrt (<) (map fst ws)" "\<forall>(k, w)\<in>set ws. 0 < w" "a \<le> c"
  shows "find_choice ws c a = Some k \<longleftrightarrow>
     (\<exists>w. (k, w) \<in> set ws \<and> a + weight_before ws k \<le> c \<and> c < a + weight_before ws k + w)"
  using assms
proof (induction ws arbitrary: a)
  case (Cons p ws)
  obtain j v where p: "p = (j, v)" by (cases p)
  from Cons.prems p have later: "\<forall>i\<in>fst ` set ws. j < i" and v: "0 < v" by auto
  show ?case
  proof (cases "c < a + v")
    case True
    have "a + v \<le> a + weight_before (p # ws) i" if "i \<in> fst ` set ws" for i
    proof -
      have "0 \<le> weight_before ws i"
        unfolding weight_before_def by (rule sum_list_nonneg) (use Cons.prems(2) in \<open>fastforce split: if_splits\<close>)
      moreover have "j < i" using later that by blast
      ultimately show ?thesis by (simp add: weight_before_def p)
    qed
    moreover have "weight_before (p # ws) j = 0"
      by (rule weight_before_none) (use later p in auto)
    ultimately show ?thesis using True Cons.prems(3) p later by (force simp: image_iff)
  next
    case False
    have IH: "find_choice ws c (a + v) = Some k \<longleftrightarrow>
       (\<exists>w. (k, w) \<in> set ws \<and> a + v + weight_before ws k \<le> c \<and> c < a + v + weight_before ws k + w)"
      by (rule Cons.IH) (use Cons.prems False in auto)
    have "weight_before (p # ws) j = 0"
      by (rule weight_before_none) (use later p in auto)
    moreover have "weight_before (p # ws) i = v + weight_before ws i" if "(i, w) \<in> set ws" for i w
      using later that by (force simp: weight_before_def p)
    ultimately show ?thesis using False IH p by (auto simp: add.assoc)
  qed
qed simp

lemma sum_list_pos: "\<forall>x\<in>set xs. (0 :: int) < x \<Longrightarrow> xs \<noteq> [] \<Longrightarrow> 0 < sum_list xs"
proof (induction xs)
  case (Cons x xs)
  then show ?case by (cases xs) simp_all
qed simp

lemma sum_positive:
  "sum_list (map (\<lambda>(j, w). if P j then w else 0) (positive_weights es))
     = sum_list (map (\<lambda>(j, r). if P j then max 0 (ur_balance r) else 0) es)"
  by (induction es) (auto simp: positive_weights_def max_def)

lemma weight_before_sort: "weight_before (sort_key f ws) k = weight_before ws k"
proof -
  have "mset (map g (sort_key f ws)) = mset (map g ws)" for g :: "bytes \<times> int \<Rightarrow> int" by simp
  then show ?thesis unfolding weight_before_def by (metis sum_mset_sum_list)
qed

lemma weights_of_stakes:
  "total_weight (positive_weights es) = all_stakes es"
  "weight_before (sort_key fst (positive_weights es)) k = stakes_before es k"
proof -
  have snd: "(\<lambda>(j, w). w) = (snd :: bytes \<times> int \<Rightarrow> int)" by auto
  show "total_weight (positive_weights es) = all_stakes es"
    using sum_positive [of "\<lambda>_. True" es] by (simp add: total_weight_def all_stakes_def snd)
  show "weight_before (sort_key fst (positive_weights es)) k = stakes_before es k"
    unfolding weight_before_sort by (simp add: weight_before_def stakes_before_def sum_positive)
qed

lemma no_stakes: "positive_weights es = [] \<longleftrightarrow> all_stakes es = 0"
proof
  assume "all_stakes es = 0"
  then have zero: "total_weight (positive_weights es) = 0" by (simp add: weights_of_stakes)
  have "\<forall>x\<in>set (map snd (positive_weights es)). 0 < x" by (auto simp: positive_weights_def)
  with zero show "positive_weights es = []"
    unfolding total_weight_def by (metis less_irrefl list.map_disc_iff sum_list_pos)
qed (simp add: weights_of_stakes [symmetric] total_weight_def)

lemma weight_in_draw:
  assumes "distinct (map fst es)"
  shows "(k, w) \<in> set (sort_key fst (positive_weights es)) \<longleftrightarrow> stake_of es k = w \<and> 0 < w"
proof -
  have "(k, w) \<in> set (sort_key fst (positive_weights es)) \<longleftrightarrow> (\<exists>r. (k, r) \<in> set es \<and> ur_balance r = w \<and> 0 < w)"
    by (force simp: positive_weights_def)
  also have "\<dots> \<longleftrightarrow> (\<exists>r. map_of es k = Some r \<and> ur_balance r = w \<and> 0 < w)"
    by (simp only: map_of_eq_Some_iff [OF assms])
  also have "\<dots> \<longleftrightarrow> stake_of es k = w \<and> 0 < w" by (auto simp: stake_of_def split: option.split)
  finally show ?thesis .
qed

text \<open>
  C9: the draw of a validator is fair. It asks the generator for a number below the sum of the positive
  stakes, and a key is drawn exactly when the number lies in its interval, which is as long as its stake
  and begins where the stakes of the lesser keys end; so among all numbers that the generator may give,
  a key is drawn by as many as its stake has units, and a key without a stake by none. Without a
  positive stake the draw raises.
\<close>

theorem draw_is_fair:
  assumes "distinct (map fst es)" and "rng_ok rng"
  shows "if all_stakes es = 0 then pick_validator rng es g = Inl (ValueError ''no validators with positive stake'')
     else pick_validator rng es g = Inr (k, g') \<longleftrightarrow>
       (\<exists>c. rng_range rng g (all_stakes es) = (c, g')
          \<and> stakes_before es k \<le> c \<and> c < stakes_before es k + stake_of es k)"
proof -
  let ?ws = "positive_weights es" and ?ss = "sort_key fst (positive_weights es)"
  have pos: "\<forall>(k, w)\<in>set ?ss. 0 < w" by (auto simp: positive_weights_def)
  have keys: "distinct (map fst ?ws)"
    using assms(1) distinct_map_filter [of fst "map (\<lambda>(k, r). (k, ur_balance r)) es"]
    by (simp add: positive_weights_def case_prod_beta comp_def)
  have "mset (map fst ?ss) = mset (map fst ?ws)" by simp
  with keys have "distinct (map fst ?ss)" by (metis mset_eq_imp_distinct_iff)
  then have sorted: "sorted_wrt (<) (map fst ?ss)" by (simp add: strict_sorted_iff)
  note none = no_stakes [of es] and weight = weight_in_draw [OF assms(1), of k]
  show ?thesis
  proof (cases "?ws = []")
    case False
    obtain c h where c: "rng_range rng g (all_stakes es) = (c, h)" by fastforce
    have "0 < all_stakes es" using False none total_weight_nonneg [of ?ws] pos by (simp add: weights_of_stakes)
    with assms(2) c have range: "0 \<le> c" "c < 0 + total_weight ?ss"
      unfolding rng_ok_def by (metis fst_conv, metis add_0 fst_conv total_weight_sort weights_of_stakes(1))
    have "?ss \<noteq> []" using False by (metis length_0_conv length_sort)
    from find_choice_some [OF range(2) this] obtain j where "find_choice ?ss c 0 = Some j" by blast
    then have "chosen ?ws c = k \<longleftrightarrow> find_choice ?ss c 0 = Some k" by (simp add: chosen_def)
    also have "\<dots> \<longleftrightarrow> (\<exists>w. stake_of es k = w \<and> 0 < w \<and> stakes_before es k \<le> c \<and> c < stakes_before es k + w)"
      unfolding find_choice_sorted [OF sorted pos range(1), of k] weight weights_of_stakes(2) by simp
    also have "\<dots> \<longleftrightarrow> stakes_before es k \<le> c \<and> c < stakes_before es k + stake_of es k" by auto
    finally have "chosen ?ws c = k \<longleftrightarrow> stakes_before es k \<le> c \<and> c < stakes_before es k + stake_of es k" .
    moreover have "pick_validator rng es g = Inr (chosen ?ws c, h)"
      using False by (simp add: pick_validator_def Let_def weights_of_stakes(1) c)
    moreover have "all_stakes es \<noteq> 0" using False none by simp
    ultimately show ?thesis by (auto simp: c)
  qed (use none in \<open>simp add: pick_validator_def\<close>)
qed

text \<open>A generator that gives the numbers in turn.\<close>

definition first_rng :: "int rng" where
  "first_rng = \<lparr>rng_seed = (\<lambda>n. n), rng_range = (\<lambda>g n. (g mod n, g + 1))\<rparr>"

definition demo_stakes :: stakes where
  "demo_stakes = [([3], new_user_record\<lparr>ur_balance := 2\<rparr>), ([1], new_user_record\<lparr>ur_balance := 3\<rparr>), ([2], new_user_record)]"

lemma draw_is_fair_witness: "pick_validator first_rng demo_stakes 4 = Inr ([3], 5)"
proof -
  have sums: "all_stakes demo_stakes = 5" "stakes_before demo_stakes [3] = 3" "stake_of demo_stakes [3] = 2"
    "distinct (map fst demo_stakes)" by code_simp+
  have "rng_ok first_rng" by (simp add: rng_ok_def first_rng_def)
  from draw_is_fair [OF sums(4) this, of 4 "[3]" 5] show ?thesis unfolding sums by (simp add: first_rng_def)
qed

section \<open>A draw creates nothing\<close>

lemma sums_pay_stake:
  "hoare (sums_to cx R c) (pay_stake_back cx k r n) (\<lambda>_. sums_to cx R c)"
proof -
  have last: "hoare (sums_to cx R d) (bnd (load_account cx k) (\<lambda>found.
       if found then bnd (add_balance k n) (\<lambda>_. touch_account k)
       else store_account k (new_account\<lparr>ac_balance := n\<rparr>))) (\<lambda>_. sums_to cx R (d + n))" for d
  proof (rule hoare_bnd, rule sums_load)
    fix found
    show "hoare (\<lambda>s. sums_to cx R d s \<and> (\<not> found \<longrightarrow> worth cx R s k = 0))
       (if found then bnd (add_balance k n) (\<lambda>_. touch_account k)
        else store_account k (new_account\<lparr>ac_balance := n\<rparr>)) (\<lambda>_. sums_to cx R (d + n))"
    proof (rule hoare_if)
      assume found
      show "hoare (\<lambda>s. sums_to cx R d s \<and> (\<not> found \<longrightarrow> worth cx R s k = 0))
          (bnd (add_balance k n) (\<lambda>_. touch_account k)) (\<lambda>_. sums_to cx R (d + n))"
        by (rule hoare_bnd, rule hoare_weaken [OF sums_add_balance], erule conjunct1, assumption, rule sums_touch)
    next
      assume "\<not> found"
      then show "hoare (\<lambda>s. sums_to cx R d s \<and> (\<not> found \<longrightarrow> worth cx R s k = 0))
          (store_account k (new_account\<lparr>ac_balance := n\<rparr>)) (\<lambda>_. sums_to cx R (d + n))"
        using sums_store_new [of cx R d k "new_account\<lparr>ac_balance := n\<rparr>"] by (simp add: hoare_def)
    qed
  qed
  have undone: "d + - n + n = d" for d :: int by simp
  show ?thesis
    unfolding pay_stake_back_def put_user_record_def record_cells_def
    apply (rule hoare_bnd, rule sums_rules)
    apply (rule hoare_bnd, rule hoare_bnd, rule sums_lift, rule hoare_prod, rule hoare_ret, assumption)
    apply (rule hoare_bnd, rule sums_rules)
    apply (rule hoare_bnd, rule sums_rules)
    apply (rule hoare_bnd, rule sums_rules)
    using last [of "c + - n", unfolded undone] by simp
qed

lemma sums_user_record: "hoare (sums_to cx R c) (load_user_record cx k) (\<lambda>_. sums_to cx R c)"
  unfolding load_user_record_def
  by (rule hoare_bnd sums_rules hoare_prod | simp)+

lemma sums_stake_return:
  "hoare (sums_to cx R c) (apply_treasury_loan_payments_from_stake_return cx k n) (\<lambda>_. sums_to cx R c)"
  unfolding apply_treasury_loan_payments_from_stake_return_def
  by (rule hoare_bnd sums_load_same sums_user_record hoare_if hoare_option sums_lift hoare_ret | assumption)+

lemma sums_halve: "hoare (sums_to cx R c) (halve_stake cx es k) (\<lambda>_. sums_to cx R c)"
proof (cases "map_of es k")
  case None
  then show ?thesis by (simp add: halve_stake_def hoare_raise)
next
  case (Some r)
  let ?new = "max 1 (ur_balance r div 2)"
  let ?returned = "ur_balance r - ?new"
  have reload: "hoare (sums_to cx R c) (bnd (load_user_record cx k) (\<lambda>x.
      case x of
        None \<Rightarrow> raise (ValueError ''validator treasury record missing after loan payment'')
      | Some y \<Rightarrow> ret y)) (\<lambda>_. sums_to cx R c)"
    by (rule hoare_bnd, rule sums_user_record, rule hoare_option, rule hoare_raise, rule hoare_ret)
  have paid: "hoare (sums_to cx R c)
      (bnd (pay_stake_back cx k (r\<lparr>ur_balance := ?new\<rparr>) ?returned) (\<lambda>_. ret (r\<lparr>ur_balance := ?new\<rparr>)))
      (\<lambda>_. sums_to cx R c)"
    by (rule hoare_bnd, rule sums_pay_stake, rule hoare_ret)
  have loans: "hoare (sums_to cx R c) (bnd (apply_treasury_loan_payments_from_stake_return cx k ?returned) (\<lambda>ok.
      if \<not> ok then raise (ValueError ''failed applying treasury loan payment from stake return'')
      else bnd (load_user_record cx k) (\<lambda>x.
        case x of
          None \<Rightarrow> raise (ValueError ''validator treasury record missing after loan payment'')
        | Some y \<Rightarrow> ret y))) (\<lambda>_. sums_to cx R c)"
    by (rule hoare_bnd, rule sums_stake_return, rule hoare_if, rule hoare_raise, rule reload)
  show ?thesis
    unfolding halve_stake_def Let_def Some option.case
    apply (rule hoare_if, rule hoare_raise, rule hoare_if, rule hoare_ret, assumption)
    apply (rule hoare_bnd, rule hoare_if, rule paid, rule loans)
    apply (rule hoare_bnd, rule sums_touch, rule hoare_ret, assumption)
    done
qed

lemma sums_draw_slots: "hoare (sums_to cx R c) (draw_slots cx rng n es g k) (\<lambda>_. sums_to cx R c)"
proof (induction n arbitrary: es g k)
  case 0
  show ?case unfolding draw_slots.simps by (rule hoare_ret)
next
  case (Suc n)
  show ?case
    unfolding draw_slots.simps
    by (rule hoare_bnd, rule sums_lift, rule hoare_prod, rule hoare_bnd, rule sums_halve, rule Suc.IH)
qed

lemma sums_draw_validator: "hoare (sums_to cx R c) (draw_validator cx rng h n) (\<lambda>_. sums_to cx R c)"
  unfolding draw_validator_def
  by (rule hoare_bnd sums_load_same sums_account_same sums_lift hoare_if hoare_raise sums_draw_slots)+

text \<open>
  C10: drawing the validator of a block, with the halving of every stake that was drawn on the way, only
  moves funds from the treasury to the validators: the sum of all balances stays, whatever the stakes,
  the loans and the numbers drawn are.
\<close>

theorem draw_conserves:
  assumes "ready cx R s" and "draw_validator cx rng h n s = (Inr k, s')"
  shows "coins cx R s' = coins cx R s \<and> ready cx R s'"
  using assms sums_draw_validator [of cx R "coins cx R s" rng h n] unfolding hoare_def sums_to_def by blast

text \<open>A treasury with one user, whose record is at hand.\<close>

definition stake_record :: user_record where
  "stake_record = new_user_record\<lparr>ur_balance := 10\<rparr>"

definition stake_cx :: node_ctx where
  "stake_cx = \<lparr>cx_hash = toy_hash,
     cx_get = (\<lambda>h b. if h = expr_hash toy_hash (user_record_to_expr stake_record)
                     then Some (user_record_to_expr stake_record) else None),
     cx_list = (\<lambda>h b. None), cx_fuel = 12\<rparr>"

definition stake_block :: block where
  "stake_block = carrier \<lparr>as_trie = new_radix_tree None None, as_cache =
     [(TREASURY_ADDRESS, (demo_account 10)\<lparr>ac_data :=
         snd (tree_put stake_cx (new_radix_tree None None) [7] (VExpr (user_record_to_expr stake_record)))\<rparr>)],
     as_involved = []\<rparr>"

lemma stake_drawn:
  "case draw_validator stake_cx first_rng [1] 1 stake_block of (r, s) \<Rightarrow>
     r = Inr ([7]) \<and> map (ac_balance \<circ> snd) (as_cache (bk_accounts s)) = [5, 5]"
  by code_simp

lemma draw_conserves_witness:
  "\<exists>s'. draw_validator stake_cx first_rng [1] 1 stake_block = (Inr [7], s')
     \<and> map (ac_balance \<circ> snd) (as_cache (bk_accounts s')) = [5, 5]
     \<and> coins stake_cx None s' = coins stake_cx None stake_block"
proof -
  obtain s' where s': "draw_validator stake_cx first_rng [1] 1 stake_block = (Inr [7], s')"
    "map (ac_balance \<circ> snd) (as_cache (bk_accounts s')) = [5, 5]"
    using stake_drawn by (auto split: prod.splits)
  have "ready stake_cx None stake_block"
    by (simp add: ready_def tree_ready_def holds_def root_depth_def stake_block_def carrier_def new_radix_tree_def)
  from conjunct1 [OF draw_conserves [OF this s'(1)]] s' show ?thesis by (intro exI [of _ s'] conjI)
qed

end
