(* ===== verification/Apply.thy ===== *)
theory Apply
  imports Treasury Transaction_Store "HOL-Library.List_Lexorder"
begin

text \<open>
  The application of a transaction to a block: \<open>consensus/transaction/apply.py\<close>, with the handlers of
  expression accounts (\<open>accounts/create/expression.py\<close>, \<open>accounts/expression/call.py\<close>) and the pending
  bloom inserts (\<open>bloom/pending.py\<close>).

  A transaction is applied at the top level, for a block, or nested, by a contract that makes one. At the
  top level the sender pays the fees, a failed transaction is rolled back, and a receipt is recorded.
  \<open>ap_run\<close> runs a program for a transaction: \<open>False\<close> is a run that the meter or a \<open>RuntimeError\<close> stopped,
  and another exception leaves the handler. It returns what the meter counted and the logs.

  The code holds accounts as objects. One that is in the cache is \<open>At\<close> its address; \<open>Loose\<close> is an object
  that the cache does not have: a new account, or one that a restored snapshot replaced.
\<close>

section \<open>Parameters and references\<close>

type_synonym contract_run = "transaction \<Rightarrow> expr \<Rightarrow> (bool \<times> int \<times> expr list) act"

record apply_ctx =
  ap_cx :: node_ctx
  ap_bloom :: bloom_reader
  ap_verify :: "bytes \<Rightarrow> bytes \<Rightarrow> bytes \<Rightarrow> bool"
  ap_run :: contract_run

datatype account_ref = NoAccount | At bytes | Loose account

definition add_at :: "account_ref \<Rightarrow> int \<Rightarrow> account_ref act" where
  "add_at r n =
     (case r of
        NoAccount \<Rightarrow> raise AttributeError
      | At a \<Rightarrow> bnd (add_balance a n) (\<lambda>_. ret (At a))
      | Loose x \<Rightarrow> ret (Loose (x\<lparr>ac_balance := ac_balance x + n\<rparr>)))"

text \<open>\<open>accounts.set_account(address, account)\<close>, skipped for \<open>None\<close>.\<close>

definition set_at :: "bytes \<Rightarrow> account_ref \<Rightarrow> unit act" where
  "set_at address r =
     (case r of
        NoAccount \<Rightarrow> ret ()
      | At a \<Rightarrow> bnd (account_of a) (store_account address)
      | Loose x \<Rightarrow> store_account address x)"

definition found_at :: "node_ctx \<Rightarrow> bytes \<Rightarrow> account_ref act" where
  "found_at cx a = bnd (load_account cx a) (\<lambda>found. ret (if found then At a else NoAccount))"

definition get_or_create_recipient :: "node_ctx \<Rightarrow> transaction \<Rightarrow> account_ref act" where
  "get_or_create_recipient cx tx =
     (if tx_recipient tx = tx_sender tx then ret (At (tx_sender tx))
      else if tx_recipient tx = STORAGE_ADDRESS then
        reads (\<lambda>s. if cached s STORAGE_ADDRESS = None then NoAccount else At STORAGE_ADDRESS)
      else
        bnd (load_account cx (tx_recipient tx)) (\<lambda>found.
          ret (if found then At (tx_recipient tx) else Loose new_account)))"

section \<open>Expression accounts\<close>

text \<open>\<open>get_expr_full\<close>\<close>

fun full_expr :: "(bytes \<Rightarrow> bytes) \<Rightarrow> (bytes \<Rightarrow> expr option) \<Rightarrow> nat \<Rightarrow> bytes \<Rightarrow> exc + expr option" where
  "full_expr H fetch 0 h = Inl OutOfFuel"
| "full_expr H fetch (Suc n) h =
     (case fetch h of
        None \<Rightarrow> Inr None
      | Some e \<Rightarrow>
          if get_expr_builtin_tag H e \<noteq> u ''link'' then Inr (Some e)
          else
            (case e of
               Link v a b ah bh \<Rightarrow>
                 (let part = (\<lambda>c r. case (c, r) of
                                 (None, Some x) \<Rightarrow>
                                   bind_exc (full_expr H fetch n x) (\<lambda>y. Inr (map_option (\<lambda>y. (Some y, None)) y))
                               | _ \<Rightarrow> Inr (Some (c, r))) in
                  bind_exc (part a ah) (\<lambda>p.
                    case p of
                      None \<Rightarrow> Inr None
                    | Some (a', ah') \<Rightarrow>
                        bind_exc (part b bh) (\<lambda>q.
                          Inr (map_option (\<lambda>(b', bh'). Link v a' b' ah' bh') q))))
             | _ \<Rightarrow> Inr (Some e)))"

text \<open>The program that the data of a create names.\<close>

definition program_hash_in :: "(bytes \<Rightarrow> bytes) \<Rightarrow> expr \<Rightarrow> bytes option" where
  "program_hash_in H data =
     (if get_expr_builtin_tag H data \<noteq> u ''link'' then None
      else
        (case head_of data of
           None \<Rightarrow> None
         | Some data_head \<Rightarrow>
             if get_expr_builtin_tag H data_head \<noteq> u ''link'' then None
             else
               (case head_hash_of data_head of
                  Some h \<Rightarrow> Some h
                | None \<Rightarrow> map_option (expr_hash H) (head_of data_head))))"

definition handle_expression_account_create :: "node_ctx \<Rightarrow> transaction \<Rightarrow> bytes \<Rightarrow> bool act" where
  "handle_expression_account_create cx tx tx_hash =
     (case program_hash_in (cx_hash cx) (tx_data tx) of
        None \<Rightarrow> ret False
      | Some program_hash \<Rightarrow>
          if tx_recipient tx \<noteq> [] \<or> length tx_hash \<noteq> 32 \<or> length program_hash \<noteq> 32 then ret False
          else
            bnd (load_account cx tx_hash) (\<lambda>found.
              if found then ret False
              else
                bnd (store_account tx_hash (create_account (tx_amount tx) ZERO32 ZERO32 program_hash 0 None None None))
                  (\<lambda>_. ret True)))"

text \<open>
  The status, what the meter counted, the logs, and for a run that was stopped the object of the sender,
  which the restored snapshot has replaced.
\<close>

definition handle_expression_account_call ::
  "apply_ctx \<Rightarrow> transaction \<Rightarrow> (bool \<times> int \<times> expr list \<times> account_ref) act" where
  "handle_expression_account_call W tx =
     (let cx = ap_cx W; failed = (False, 0, [], At (tx_sender tx)) in
      bnd (load_account cx (tx_recipient tx)) (\<lambda>found.
      if \<not> found then ret failed
      else
        bnd (account_of (tx_recipient tx)) (\<lambda>x.
        if ac_code_hash x = ZERO32 then ret failed
        else
          bnd (lift (full_expr (cx_hash cx) (fetch_in cx (ac_code_block x)) (cx_fuel cx) (ac_code_hash x))) (\<lambda>program.
          case program of
            None \<Rightarrow> ret failed
          | Some e \<Rightarrow>
              bnd (reads snapshot) (\<lambda>snap.
              bnd (add_balance (tx_recipient tx) (tx_amount tx)) (\<lambda>_.
              bnd (touch_account (tx_recipient tx)) (\<lambda>_.
              bnd (ap_run W tx (cons (tx_data tx) e)) (\<lambda>(finished, used, logs).
                if finished then ret (True, used, logs, At (tx_sender tx))
                else
                  bnd (account_of (tx_sender tx)) (\<lambda>sender.
                  bnd (update (restore snap)) (\<lambda>_. ret (False, used, logs, Loose sender)))))))))))"

section \<open>Before the handler\<close>

text \<open>The fees that are due before any handler ran.\<close>

definition base_fee :: "bool \<Rightarrow> int" where
  "base_fee nested = (if nested then 0 else 1)"

text \<open>Whether the transaction may run, the amount to transfer, and whether its counter is the sender's.\<close>

definition opening_rule :: "bool \<Rightarrow> transaction \<Rightarrow> account \<Rightarrow> exc + bool \<times> int \<times> bool" where
  "opening_rule nested tx sender =
     (let balance = ac_balance sender; funded = (tx_code tx = STORAGE_PAYMENT) in
      if \<not> nested \<and> balance < base_fee nested \<and> \<not> funded
      then Inl (ValueError ''insufficient balance for transaction fee'')
      else
        (let amount0 = (if tx_code tx \<in> {CHANNEL_WITHDRAW, TREASURY_BORROW, TREASURY_GUARANTEE, TREASURY_BUY}
                        then 0 else tx_amount tx);
             matched = (nested \<or> tx_counter tx = ac_counter sender);
             (ok1, amount1) = (if matched then (True, amount0) else (False, 0));
             (ok2, amount2) =
               (if tx_recipient tx = STORAGE_ADDRESS \<and> tx_code tx = STORAGE_CREATE \<and> amount1 > 0
                then (False, 0) else (ok1, amount1));
             most = (if tx_code tx = CODE_ACCOUNT_CALL then max 0 (tx_cost_limit tx) else 0);
             short = (if nested then balance < amount2
                      else \<not> funded \<and> balance < base_fee nested + amount2 + most);
             (ok3, amount3) = (if short then (False, 0) else (ok2, amount2))
         in Inr (ok3, amount3, matched)))"

section \<open>The handlers by code\<close>

record effects =
  ef_ok :: bool
  ef_transfer :: int
  ef_minted :: int
  ef_recipient :: account_ref
  ef_sender :: account_ref
  ef_used :: int
  ef_logs :: "expr list"

definition effect :: "transaction \<Rightarrow> bool \<Rightarrow> int \<Rightarrow> account_ref \<Rightarrow> effects" where
  "effect tx ok amount r =
     \<lparr>ef_ok = ok, ef_transfer = amount, ef_minted = 0, ef_recipient = r, ef_sender = At (tx_sender tx),
      ef_used = 0, ef_logs = []\<rparr>"

definition update_effects :: "node_ctx \<Rightarrow> transaction \<Rightarrow> bool \<Rightarrow> int \<Rightarrow> effects act" where
  "update_effects cx tx ok amount =
     (let tag = get_expr_builtin_tag (cx_hash cx); r = At (tx_sender tx) in
      if tx_recipient tx \<noteq> tx_sender tx then ret (effect tx False 0 NoAccount)
      else if \<not> ok then ret (effect tx ok amount r)
      else
        (let ns = data_nodes (cx_hash cx) (tx_data tx) in
         if length ns < 1 \<or> length ns > 2 \<or> tag (last ns) \<noteq> u ''bytes'' then raise UnboundLocalError
         else
           bnd (lift (as_bytes (value_of (last ns)))) (\<lambda>counterparty.
           (let window = (if length ns = 2 \<and> tag (hd ns) = u ''int''
                          then (case value_of (hd ns) of Some (PInt n) \<Rightarrow> Some n | _ \<Rightarrow> None) else None) in
            bnd (handle_channel_update cx (tx_sender tx) counterparty window (tx_amount tx)) (\<lambda>done.
              ret (effect tx done (if done then amount else 0) r))))))"

definition close_effects :: "node_ctx \<Rightarrow> transaction \<Rightarrow> bool \<Rightarrow> effects act" where
  "close_effects cx tx ok =
     (if tx_recipient tx \<noteq> tx_sender tx then ret (effect tx False 0 NoAccount)
      else if \<not> ok then ret (effect tx ok 0 NoAccount)
      else
        (case data_nodes (cx_hash cx) (tx_data tx) of
           [n] \<Rightarrow>
             if get_expr_builtin_tag (cx_hash cx) n \<noteq> u ''bytes'' then ret (effect tx False 0 NoAccount)
             else
               bnd (lift (as_bytes (value_of n))) (\<lambda>counterparty.
               bnd (handle_channel_close cx (tx_sender tx) counterparty) (\<lambda>done.
                 ret (effect tx done 0 NoAccount)))
         | _ \<Rightarrow> ret (effect tx False 0 NoAccount)))"

definition deposit_effects :: "node_ctx \<Rightarrow> transaction \<Rightarrow> bool \<Rightarrow> int \<Rightarrow> effects act" where
  "deposit_effects cx tx ok amount =
     bnd (get_or_create_recipient cx tx) (\<lambda>r.
       if tx_recipient tx \<noteq> TREASURY_ADDRESS then ret (effect tx ok 0 r)
       else if \<not> ok then ret (effect tx ok amount r)
       else
         (case r of
            NoAccount \<Rightarrow> raise AttributeError
          | Loose x \<Rightarrow> ret (effect tx False 0 r)
          | At a \<Rightarrow>
              bnd (load_user_record cx (tx_sender tx)) (\<lambda>found.
              bnd (case found of
                     None \<Rightarrow> ret (False, 0)
                   | Some x \<Rightarrow>
                       bnd (put_user_record cx (tx_sender tx) (x\<lparr>ur_balance := ur_balance x + amount\<rparr>)) (\<lambda>_.
                         ret (True, amount))) (\<lambda>(ok, amount).
              bnd (sync_data_hash a) (\<lambda>_.
              bnd (add_balance a amount) (\<lambda>_. ret (effect tx ok amount r)))))))"

text \<open>The handlers of the treasury that take the status of the account and return theirs.\<close>

definition treasury_effects :: "node_ctx \<Rightarrow> transaction \<Rightarrow> bool \<Rightarrow> int \<Rightarrow> bool act \<Rightarrow> effects act" where
  "treasury_effects cx tx ok amount handler =
     bnd (found_at cx TREASURY_ADDRESS) (\<lambda>r.
       if \<not> ok then ret (effect tx ok amount r)
       else bnd handler (\<lambda>done. ret (effect tx done amount r)))"

definition storage_create_effects :: "bool \<Rightarrow> node_ctx \<Rightarrow> transaction \<Rightarrow> bool \<Rightarrow> int \<Rightarrow> effects act" where
  "storage_create_effects nested cx tx ok amount =
     bnd (get_or_create_recipient cx tx) (\<lambda>r.
       if tx_recipient tx \<noteq> STORAGE_ADDRESS then ret (effect tx ok 0 r)
       else
         (let (ok, amount) = (if amount > 0 then (False, 0) else (ok, amount)) in
          if \<not> ok then ret (effect tx ok amount r)
          else
            (case data_nodes (cx_hash cx) (tx_data tx) of
               [n] \<Rightarrow>
                 if get_expr_builtin_tag (cx_hash cx) n \<noteq> u ''link'' \<or> head_hash_of n = None \<and> head_of n = None
                 then ret (effect tx False amount r)
                 else
                   bnd (handle_storage_initial_contract cx tx (tx_sender tx) STORAGE_ADDRESS (base_fee nested + amount))
                     (\<lambda>fee. ret (effect tx (fee \<noteq> None) amount r))
             | _ \<Rightarrow> ret (effect tx False amount r))))"

definition storage_payment_effects :: "node_ctx \<Rightarrow> transaction \<Rightarrow> bool \<Rightarrow> int \<Rightarrow> effects act" where
  "storage_payment_effects cx tx ok amount =
     bnd (get_or_create_recipient cx tx) (\<lambda>r.
       if tx_recipient tx \<noteq> STORAGE_ADDRESS then ret (effect tx ok 0 r)
       else
         bnd (if ok then handle_storage_payment_contract cx (tx_sender tx) (tx_data tx) else ret 0) (\<lambda>minted.
         bnd (if amount > 0 then add_at r amount else ret r) (\<lambda>r.
           ret ((effect tx (ok \<and> minted \<noteq> 0) amount r)\<lparr>ef_minted := minted\<rparr>))))"

definition call_effects :: "apply_ctx \<Rightarrow> transaction \<Rightarrow> bool \<Rightarrow> int \<Rightarrow> effects act" where
  "call_effects W tx ok amount =
     (if \<not> ok then ret (effect tx ok 0 NoAccount)
      else
        bnd (handle_expression_account_call W tx) (\<lambda>(ok, used, logs, sender).
          (let e = (\<lambda>amount r. (effect tx ok amount r)\<lparr>ef_sender := sender, ef_used := used, ef_logs := logs\<rparr>) in
           if \<not> ok then ret (e 0 NoAccount)
           else
             bnd (load_account (ap_cx W) (tx_sender tx)) (\<lambda>_.
             bnd (load_account (ap_cx W) STORAGE_ADDRESS) (\<lambda>_.
             bnd (found_at (ap_cx W) (tx_recipient tx)) (\<lambda>r. ret (e amount r)))))))"

definition code_effects :: "apply_ctx \<Rightarrow> bool \<Rightarrow> transaction \<Rightarrow> bytes \<Rightarrow> bool \<Rightarrow> int \<Rightarrow> effects act" where
  "code_effects W nested tx tx_hash ok amount =
     (let cx = ap_cx W in
      case tx_code tx of
        TRANSFER \<Rightarrow>
          bnd (get_or_create_recipient cx tx) (\<lambda>r. bnd (add_at r amount) (\<lambda>r. ret (effect tx ok amount r)))
      | CHANNEL_UPDATE \<Rightarrow> update_effects cx tx ok amount
      | CHANNEL_WITHDRAW \<Rightarrow>
          bnd (found_at cx (tx_recipient tx)) (\<lambda>r.
            if \<not> ok then ret (effect tx ok 0 r)
            else if r = NoAccount then ret (effect tx False 0 r)
            else bnd (handle_channel_withdraw cx (ap_verify W) tx) (\<lambda>done. ret (effect tx done 0 r)))
      | CHANNEL_CLOSE \<Rightarrow> close_effects cx tx ok
      | TREASURY_DEPOSIT \<Rightarrow> deposit_effects cx tx ok amount
      | TREASURY_BORROW \<Rightarrow> treasury_effects cx tx ok 0 (handle_treasury_borrow cx tx tx_hash)
      | TREASURY_CLOSE \<Rightarrow>
          bnd (treasury_effects cx tx ok amount (handle_treasury_close cx tx)) (\<lambda>e.
            ret (if ef_ok e then e else e\<lparr>ef_transfer := 0\<rparr>))
      | TREASURY_REPAY \<Rightarrow>
          bnd (treasury_effects cx tx ok amount (handle_treasury_repay cx tx)) (\<lambda>e.
            ret ((if ef_ok e then e else e\<lparr>ef_transfer := 0\<rparr>)
                   \<lparr>ef_recipient := (if tx_recipient tx = TREASURY_ADDRESS then ef_recipient e else NoAccount)\<rparr>))
      | TREASURY_GUARANTEE \<Rightarrow> treasury_effects cx tx ok 0 (handle_treasury_guarantee cx tx tx_hash)
      | TREASURY_BUY \<Rightarrow> treasury_effects cx tx ok 0 (handle_treasury_buy cx tx)
      | TREASURY_CLAIM \<Rightarrow> treasury_effects cx tx ok 0 (handle_treasury_claim cx tx)
      | STORAGE_CREATE \<Rightarrow> storage_create_effects nested cx tx ok amount
      | STORAGE_PAYMENT \<Rightarrow> storage_payment_effects cx tx ok amount
      | STORAGE_REMOVE \<Rightarrow> bnd (get_or_create_recipient cx tx) (\<lambda>r. ret (effect tx ok 0 r))
      | CODE_ACCOUNT_CREATE \<Rightarrow>
          if \<not> ok then ret (effect tx ok 0 NoAccount)
          else
            bnd (handle_expression_account_create cx tx tx_hash) (\<lambda>done.
              ret (effect tx done (if done then amount else 0) NoAccount))
      | CODE_ACCOUNT_CALL \<Rightarrow> call_effects W tx ok amount)"


section \<open>Fees\<close>

text \<open>A check of the sender's balance against what is owed so far; a fee by size, which fails without one.\<close>

definition can_pay :: "bytes \<Rightarrow> int \<Rightarrow> bool \<Rightarrow> bool act" where
  "can_pay sender owed ok = bnd (account_of sender) (\<lambda>x. ret (ok \<and> \<not> ac_balance x < owed))"

definition walk_charge :: "node_ctx \<Rightarrow> expr \<Rightarrow> bool \<times> int \<Rightarrow> (bool \<times> int) act" where
  "walk_charge cx e p =
     bnd (reads (\<lambda>s. storage_walk_fee cx s e [])) (\<lambda>r. bnd (lift r) (\<lambda>k.
       ret (case k of None \<Rightarrow> (False, snd p) | Some k \<Rightarrow> (fst p, snd p + k))))"

definition size_charge :: "nat \<Rightarrow> int act" where
  "size_charge n = bnd (reads (\<lambda>s. storage_fee_of s (int n))) lift"

definition bloom_add :: "apply_ctx \<Rightarrow> bool \<Rightarrow> bytes list \<Rightarrow> unit act" where
  "bloom_add W with_node elements =
     bnd (reads (\<lambda>s. tree_insert (cx_hash (ap_cx W)) (if with_node then ap_bloom W else None)
                       (bk_bloom s) (bk_height s mod 1024) elements)) (\<lambda>r.
     bnd (lift r) (\<lambda>t. update (\<lambda>s. s\<lparr>bk_bloom := t\<rparr>)))"

fun involved_batches :: "bytes \<Rightarrow> bytes list \<Rightarrow> ((bytes \<times> bytes list) list \<times> int) act" where
  "involved_batches tx_hash [] = ret ([], 0)"
| "involved_batches tx_hash (a # as) =
     bnd (reads (\<lambda>s. let es = make_involved_variants tx_hash a in if a \<in> set (bk_involved s) then tl es else es)) (\<lambda>es.
     bnd (size_charge (2 * length es)) (\<lambda>k.
     bnd (involved_batches tx_hash as) (\<lambda>(rest, n). ret ((a, es) # rest, k + n))))"

definition involved_addresses :: "transaction \<Rightarrow> block \<Rightarrow> bytes list" where
  "involved_addresses tx s =
     sort (filter (\<lambda>a. a \<notin> {tx_sender tx, tx_recipient tx, STORAGE_ADDRESS, TREASURY_ADDRESS})
             (as_involved (bk_accounts s)))"

definition pending_bloom_fee :: "bool \<Rightarrow> int act" where
  "pending_bloom_fee ok =
     bnd (reads bk_tx_keys) (\<lambda>ks. if \<not> ok \<or> ks = [] then ret 0 else size_charge (8 * length ks))"

definition clear_pending_bloom :: "unit act" where
  "clear_pending_bloom = update (\<lambda>s. s\<lparr>bk_tx_keys := [], bk_tx_inserts := []\<rparr>)"

definition finalize_pending_bloom_inserts :: "apply_ctx \<Rightarrow> bool \<Rightarrow> unit act" where
  "finalize_pending_bloom_inserts W ok =
     bnd (reads (\<lambda>s. (bk_tx_keys s, bk_tx_inserts s))) (\<lambda>(ks, es).
       if \<not> ok \<or> ks = [] then clear_pending_bloom
       else
         bnd (bloom_add W True es) (\<lambda>_.
         bnd (update (\<lambda>s. s\<lparr>bk_bloom_keys := List.union ks (bk_bloom_keys s)\<rparr>)) (\<lambda>_.
         bnd (size_charge (8 * length ks)) (\<lambda>_. clear_pending_bloom))))"

definition search_charge ::
  "apply_ctx \<Rightarrow> transaction \<Rightarrow> bytes \<Rightarrow> int \<Rightarrow> bool \<Rightarrow> (bool \<times> int \<times> (bytes \<times> bytes list) list) act" where
  "search_charge W tx tx_hash due ok =
     (let variants = make_search_variants tx_hash (tx_sender tx) (tx_recipient tx) [] in
      bnd (bloom_add W False variants) (\<lambda>_.
      bnd (size_charge (2 * length variants)) (\<lambda>fee.
      bnd (if ok then bnd (reads (involved_addresses tx)) (involved_batches tx_hash) else ret ([], 0)) (\<lambda>(batches, k).
      bnd (can_pay (tx_sender tx) (due + (fee + k)) ok) (\<lambda>ok.
      bnd (pending_bloom_fee ok) (\<lambda>own.
      bnd (can_pay (tx_sender tx) (due + (fee + k + own)) ok) (\<lambda>ok. ret (ok, fee + k + own, batches))))))))"

definition logs_list :: "expr list \<Rightarrow> expr" where
  "logs_list logs = (if logs = [] then NIL else exprs_to_linked_expr logs)"

definition logs_charge :: "node_ctx \<Rightarrow> bool \<Rightarrow> transaction \<Rightarrow> int \<Rightarrow> expr list \<Rightarrow> bool \<times> int \<Rightarrow> (bool \<times> int) act" where
  "logs_charge cx nested tx due logs p =
     (if logs = [] then ret p
      else
        bnd (walk_charge cx (logs_list logs) p) (\<lambda>(ok, fee).
          if nested then ret (ok, fee)
          else bnd (can_pay (tx_sender tx) (due + fee) ok) (\<lambda>ok. ret (ok, fee))))"

text \<open>The cell of a new recipient.\<close>

definition recipient_charge :: "node_ctx \<Rightarrow> account_ref \<Rightarrow> bool \<times> int \<Rightarrow> (bool \<times> int) act" where
  "recipient_charge cx r p = (case r of Loose x \<Rightarrow> walk_charge cx (account_to_expr x) p | _ \<Rightarrow> ret p)"

definition make_receipt :: "bytes \<Rightarrow> int \<Rightarrow> int \<Rightarrow> int \<Rightarrow> int \<Rightarrow> bytes \<Rightarrow> bool \<Rightarrow> int \<Rightarrow> receipt" where
  "make_receipt h tx_fee size_fee own_fee used logs ok minted =
     \<lparr>transaction_hash = h, transaction_fee = tx_fee, storage_fee = size_fee, data_fee = own_fee,
      execution_fee = used, status = (if ok then STATUS_SUCCESS else STATUS_FAILED), logs_hash = logs,
      mint = (if ok then minted else 0)\<rparr>"

section \<open>The whole\<close>

text \<open>
  The effects of the handler, and for a top-level transaction the snapshot from before it. A handler that
  failed is rolled back at once, and its reads are made again.
\<close>

definition roll_back :: "node_ctx \<Rightarrow> transaction \<Rightarrow> block_snapshot \<Rightarrow> unit act" where
  "roll_back cx tx snap =
     bnd (update (restore snap)) (\<lambda>_.
     bnd (load_account cx (tx_sender tx)) (\<lambda>_.
     bnd (load_account cx STORAGE_ADDRESS) (\<lambda>_. ret ())))"

definition rolled :: "transaction \<Rightarrow> effects \<Rightarrow> effects" where
  "rolled tx e = e\<lparr>ef_ok := False, ef_transfer := 0, ef_recipient := NoAccount, ef_sender := At (tx_sender tx)\<rparr>"

definition run_handler ::
  "apply_ctx \<Rightarrow> bool \<Rightarrow> transaction \<Rightarrow> bytes \<Rightarrow> (effects \<times> bool \<times> block_snapshot) act" where
  "run_handler W nested tx tx_hash =
     (let cx = ap_cx W in
      bnd (reads bk_chain_id) (\<lambda>chain_id.
      if tx_chain_id tx \<noteq> chain_id then raise (ValueError ''transaction chain_id does not match block chain_id'')
      else
        bnd (update (\<lambda>s. if nested then s else s\<lparr>bk_accounts := (bk_accounts s)\<lparr>as_involved := []\<rparr>\<rparr>)) (\<lambda>_.
        bnd (load_account cx (tx_sender tx)) (\<lambda>found.
        if \<not> found then raise (ValueError ''sender account not found'')
        else
          bnd (load_account cx STORAGE_ADDRESS) (\<lambda>_.
          bnd (account_of (tx_sender tx)) (\<lambda>sender.
          bnd (lift (opening_rule nested tx sender)) (\<lambda>(ok, amount, matched).
          bnd (reads snapshot) (\<lambda>snap.
          bnd (code_effects W nested tx tx_hash ok amount) (\<lambda>e.
            if nested \<or> ef_ok e then ret (e, matched, snap)
            else bnd (roll_back cx tx snap) (\<lambda>_. ret (rolled tx e, matched, snap)))))))))))"

text \<open>A nested transaction: the fee that its caller is charged comes back, with its status and logs.\<close>

definition apply_nested :: "apply_ctx \<Rightarrow> transaction \<Rightarrow> bytes \<Rightarrow> (bool \<times> int \<times> int \<times> expr list) act" where
  "apply_nested W tx tx_hash =
     (let cx = ap_cx W in
      bnd (run_handler W True tx tx_hash) (\<lambda>(e, _, _).
      bnd clear_pending_bloom (\<lambda>_.
      bnd (logs_charge cx True tx 0 (ef_logs e) (ef_ok e, 0)) (\<lambda>p.
      bnd (recipient_charge cx (ef_recipient e) p) (\<lambda>(ok, fee).
      bnd (add_at (ef_sender e) (- ef_transfer e)) (\<lambda>sender.
      bnd (set_at (tx_recipient tx) (ef_recipient e)) (\<lambda>_.
      bnd (set_at (tx_sender tx) sender) (\<lambda>_. ret (ok, ef_used e, fee, ef_logs e)))))))))"

text \<open>
  The end of a top-level transaction. \<open>late_checks\<close> charges for the elements, the transaction, its logs, a
  new account and the receipt; the status it returns is the one before the final checks.
\<close>

definition late_checks ::
  "apply_ctx \<Rightarrow> transaction \<Rightarrow> bytes \<Rightarrow> effects \<Rightarrow> (bool \<times> receipt \<times> (bytes \<times> bytes list) list) act" where
  "late_checks W tx tx_hash e =
     (let cx = ap_cx W; tx_fee = 1 + ef_used e; due = tx_fee + ef_transfer e;
          lh = expr_hash (cx_hash cx) (logs_list (ef_logs e)) in
      bnd (search_charge W tx tx_hash due (ef_ok e)) (\<lambda>(ok, fee, batches).
      bnd (walk_charge cx (transaction_to_expr tx) (ok, fee)) (\<lambda>(ok, fee).
      bnd (can_pay (tx_sender tx) (due + fee) ok) (\<lambda>ok.
      bnd (logs_charge cx False tx due (ef_logs e) (ok, fee)) (\<lambda>p.
      bnd (recipient_charge cx (ef_recipient e) p) (\<lambda>(ok, fee).
      bnd (reads (\<lambda>s. receipt_at_fixed_point cx s
             (\<lambda>k. make_receipt tx_hash tx_fee k 0 (ef_used e) lh ok (ef_minted e)) fee [tx_hash, lh])) (\<lambda>r.
      bnd (lift r) (\<lambda>r.
      (let (ok, receipt) =
             (case r of
                None \<Rightarrow> (False, make_receipt tx_hash tx_fee fee 0 (ef_used e) lh False (ef_minted e))
              | Some receipt \<Rightarrow> (ok, receipt)) in
       bnd (account_of (tx_sender tx)) (\<lambda>x.
         ret (ok \<and> \<not> ac_balance x < due + storage_fee receipt, receipt, batches)))))))))))"

text \<open>The fees that are taken, and the receipt that says so; a late failure is rolled back here.\<close>

definition settle ::
  "apply_ctx \<Rightarrow> transaction \<Rightarrow> block_snapshot \<Rightarrow> effects \<Rightarrow> bool \<Rightarrow> receipt \<Rightarrow> (effects \<times> settlement \<times> receipt) act" where
  "settle W tx snap e ok receipt =
     (let fees = (\<lambda>e. bnd (account_of (tx_sender tx)) (\<lambda>x.
                    ret (e, settle_fees (ac_balance x) (transaction_fee receipt) 0 (storage_fee receipt) (ef_transfer e))));
          undo = bnd (roll_back (ap_cx W) tx snap) (\<lambda>_. fees (rolled tx e)) in
      bnd (if ok \<or> \<not> ef_ok e then fees e else undo) (\<lambda>(e', r).
      bnd (if \<not> affordable r \<and> ok then undo
           else ret ((if affordable r then e' else e'\<lparr>ef_ok := False, ef_transfer := 0\<rparr>), r)) (\<lambda>(e', r).
      (let final = (if status receipt \<noteq> (if ef_ok e' then STATUS_SUCCESS else STATUS_FAILED)
                       \<or> set_transaction_fee r \<noteq> transaction_fee receipt \<or> set_data_fee r \<noteq> 0
                       \<or> set_storage_fee r \<noteq> storage_fee receipt
                    then make_receipt (transaction_hash receipt) (set_transaction_fee r) (set_storage_fee r)
                           (set_data_fee r) (min (execution_fee receipt) (set_transaction_fee r)) (logs_hash receipt)
                           (ef_ok e') (ef_minted e)
                    else receipt) in
       ret (e', r, final)))))"

fun insert_batches :: "apply_ctx \<Rightarrow> (bytes \<times> bytes list) list \<Rightarrow> unit act" where
  "insert_batches W [] = ret ()"
| "insert_batches W ((a, es) # rest) =
     bnd (bloom_add W False es) (\<lambda>_.
     bnd (update (\<lambda>s. s\<lparr>bk_involved := List.insert a (bk_involved s)\<rparr>)) (\<lambda>_. insert_batches W rest))"

definition put_receipt :: "node_ctx \<Rightarrow> bytes \<Rightarrow> receipt \<Rightarrow> unit act" where
  "put_receipt cx tx_hash r s =
     (case tree_put cx (bk_receipts_trie s) tx_hash (VExpr (receipt_to_expr r)) of
        (x, t) \<Rightarrow> (x, s\<lparr>bk_receipts_trie := t\<rparr>))"

definition apply_tx_effects :: "apply_ctx \<Rightarrow> transaction \<Rightarrow> bytes \<Rightarrow> (bool \<times> int \<times> expr list) act" where
  "apply_tx_effects W tx tx_hash =
     (let cx = ap_cx W in
      bnd (run_handler W False tx tx_hash) (\<lambda>(e, matched, snap).
      bnd (late_checks W tx tx_hash e) (\<lambda>(ok, receipt, batches).
      bnd (settle W tx snap e ok receipt) (\<lambda>(e', r, receipt).
      bnd (finalize_pending_bloom_inserts W (ef_ok e')) (\<lambda>_.
      bnd (if ef_logs e = [] then ret () else add_pending [logs_list (ef_logs e)]) (\<lambda>_.
      bnd (if ef_ok e' then insert_batches W batches else ret ()) (\<lambda>_.
      bnd (add_balance (tx_sender tx) (- settlement_total r)) (\<lambda>_.
      bnd (add_balance STORAGE_ADDRESS (set_storage_fee r)) (\<lambda>_.
      bnd (if matched then change_account (tx_sender tx) (\<lambda>x. x\<lparr>ac_counter := ac_counter x + 1\<rparr>) else ret ()) (\<lambda>_.
      bnd (set_at (tx_recipient tx) (ef_recipient e')) (\<lambda>_.
      bnd (touch_account (tx_sender tx)) (\<lambda>_.
      bnd (touch_account STORAGE_ADDRESS) (\<lambda>_.
      bnd (update (\<lambda>s. s\<lparr>bk_transactions := bk_transactions s @ [tx]\<rparr>)) (\<lambda>_.
      bnd (put_receipt cx tx_hash receipt) (\<lambda>_.
      bnd (update (\<lambda>s. s\<lparr>bk_receipts := bk_receipts s @ [receipt]\<rparr>)) (\<lambda>_.
        ret (ef_ok e', execution_fee receipt, ef_logs e)))))))))))))))))"

definition apply_transaction :: "apply_ctx \<Rightarrow> bytes \<Rightarrow> unit act" where
  "apply_transaction W tx_hash =
     bnd (reads block_scope) (\<lambda>b.
     bnd (lift (get_transaction_from_storage (ap_cx W) b tx_hash)) (\<lambda>tx.
     bnd (apply_tx_effects W tx tx_hash) (\<lambda>_. ret ())))"

definition apply_transaction_obj :: "apply_ctx \<Rightarrow> transaction \<Rightarrow> unit act" where
  "apply_transaction_obj W tx =
     bnd (apply_tx_effects W tx (expr_hash (cx_hash (ap_cx W)) (transaction_to_expr tx))) (\<lambda>_. ret ())"

end
