(* ===== verification/Act_Laws.thy ===== *)
theory Act_Laws
  imports Ledger_Laws Apply
begin

text \<open>
  What every handler keeps. The locale \<open>act_law\<close> takes a relation between the block before an action and
  the block after it, whether the action returns or raises, and the laws that make it hold for reading
  an account, for changing one without its counter, for a new account, and for the counts that the
  handlers keep. The relation then holds for every handler of a transaction, a program run by a contract
  being lawful by assumption.
\<close>

section \<open>The law\<close>

definition lawful :: "(block \<Rightarrow> block \<Rightarrow> bool) \<Rightarrow> 'a act \<Rightarrow> bool" where
  "lawful L m \<longleftrightarrow> (\<forall>s. L s (snd (m s)))"

definition counts_only :: "block \<Rightarrow> block \<Rightarrow> bool" where
  "counts_only s s' \<longleftrightarrow>
     s' = s\<lparr>bk_pending := bk_pending s', bk_loaned := bk_loaned s', bk_defaulted := bk_defaulted s',
            bk_loan_count := bk_loan_count s', bk_votes := bk_votes s', bk_claims := bk_claims s'\<rparr>"

lemma counts_only_simps [simp]:
  "counts_only s (s\<lparr>bk_pending := p\<rparr>)" "counts_only s (s\<lparr>bk_defaulted := d\<rparr>)"
  "counts_only s (s\<lparr>bk_loaned := l, bk_loan_count := n\<rparr>)" "counts_only s (s\<lparr>bk_votes := v\<rparr>)"
  "counts_only s (s\<lparr>bk_claims := c\<rparr>)" "counts_only s s"
  by (cases s; simp add: counts_only_def)+

lemma bnd_bnd: "bnd (bnd m f) g = bnd m (\<lambda>x. bnd (f x) g)"
  by (simp add: fun_eq_iff bnd_def split: prod.split sum.split)

locale act_law =
  fixes cx :: node_ctx and L :: "block \<Rightarrow> block \<Rightarrow> bool"
  assumes keep: "L s s"
    and go_on: "L s s' \<Longrightarrow> L s' s'' \<Longrightarrow> L s s''"
    and load: "L s (snd (load_account cx a s))"
    and change: "cached s a = Some x \<Longrightarrow> ac_counter y = ac_counter x \<Longrightarrow> L s (put_cached a y s)"
    and touch: "cached s a = Some x \<Longrightarrow> L s (s\<lparr>bk_accounts := set_account a x (bk_accounts s)\<rparr>)"
    and fresh: "load_account cx a s = (Inr False, s') \<Longrightarrow> ac_counter x = 0
       \<Longrightarrow> L s (s'\<lparr>bk_accounts := set_account a x (bk_accounts s')\<rparr>)"
    and counts: "counts_only s s' \<Longrightarrow> L s s'"
    and undo: "L s s' \<Longrightarrow> L s (restore (snapshot s) s')"
begin

named_theorems lawful_rules

lemma lawful_basic [lawful_rules]:
  "lawful L (ret x)" "lawful L (raise e)" "lawful L (lift r)" "lawful L (reads f)" "lawful L (account_of a)"
  by (auto simp: lawful_def keep account_of_eq split: option.splits)

lemma lawful_bnd [lawful_rules]: "lawful L m \<Longrightarrow> (\<And>x. lawful L (f x)) \<Longrightarrow> lawful L (bnd m f)"
  unfolding lawful_def bnd_def by (auto split: prod.split sum.split) (metis go_on snd_conv)+

lemma lawful_if [lawful_rules]: "lawful L m \<Longrightarrow> lawful L m' \<Longrightarrow> lawful L (if b then m else m')"
  by simp

lemma lawful_option [lawful_rules]:
  "lawful L m \<Longrightarrow> (\<And>y. lawful L (f y)) \<Longrightarrow> lawful L (case x of None \<Rightarrow> m | Some y \<Rightarrow> f y)"
  by (cases x) simp_all

lemma lawful_prod [lawful_rules]: "(\<And>a b. lawful L (f a b)) \<Longrightarrow> lawful L (case p of (a, b) \<Rightarrow> f a b)"
  by (cases p) simp

lemma lawful_catch [lawful_rules]: "lawful L m \<Longrightarrow> lawful L (catch m x)"
  unfolding lawful_def catch_def by (auto split: prod.split sum.split) (metis snd_conv)+

lemma lawful_load [lawful_rules]: "lawful L (load_account cx a)"
  by (simp add: lawful_def load)

lemma lawful_change: "(\<And>x. ac_counter (f x) = ac_counter x) \<Longrightarrow> lawful L (change_account a f)"
  by (auto simp: lawful_def change_account_def bnd_def account_of_eq write_account_eq keep change split: option.splits)

lemma lawful_account [lawful_rules]:
  "lawful L (add_balance a n)" "lawful L (sync_data_hash a)" "lawful L (sync_channels_hash a)"
  unfolding add_balance_def sync_data_hash_def sync_channels_hash_def by (rule lawful_change; simp)+

lemma lawful_touch [lawful_rules]: "lawful L (touch_account a)"
  by (auto simp: lawful_def touch_account_def bnd_def account_of_eq store_account_def keep touch split: option.splits)

lemma lawful_tree [lawful_rules]:
  "lawful L (data_get cx a k)" "lawful L (data_put cx a k v)" "lawful L (channel_get cx a k)" "lawful L (channel_put cx a k v)"
  by (auto simp: lawful_def data_get_def data_put_def channel_get_def channel_put_def bnd_def account_of_eq
      write_account_eq keep change split: option.splits prod.splits)

lemma lawful_counts: "(\<And>s. counts_only s (f s)) \<Longrightarrow> lawful L (update f)"
  by (simp add: lawful_def counts)

lemma lawful_add_pending [lawful_rules]: "lawful L (add_pending es)"
  unfolding add_pending_def by (rule lawful_counts) simp

lemma lawful_fresh_if:
  assumes "lawful L m" "\<And>x. lawful L (n x)" "ac_counter x = 0"
  shows "lawful L (bnd (load_account cx a) (\<lambda>found. if found then m else bnd (store_account a x) n))"
  unfolding lawful_def
proof
  fix s
  obtain r s1 where r: "load_account cx a s = (r, s1)" by fastforce
  have "L s s1" using load [of s a] r by simp
  show "L s (snd (bnd (load_account cx a) (\<lambda>found. if found then m else bnd (store_account a x) n) s))"
  proof (cases r)
    case (Inr found)
    show ?thesis
    proof (cases found)
      case True
      have "L s1 (snd (m s1))" using assms(1) by (simp add: lawful_def)
      with True Inr r go_on [OF \<open>L s s1\<close>] show ?thesis by (simp add: bnd_def)
    next
      case False
      let ?t = "s1\<lparr>bk_accounts := set_account a x (bk_accounts s1)\<rparr>"
      have "L s ?t" using fresh r Inr False assms(3) by simp
      moreover have "L ?t (snd (n () ?t))" using assms(2) by (simp add: lawful_def)
      ultimately show ?thesis using False Inr r go_on by (auto simp: bnd_def store_account_def)
    qed
  qed (use r \<open>L s s1\<close> in \<open>simp add: bnd_def\<close>)
qed

lemma lawful_fresh:
  assumes "lawful L m" "\<And>x. lawful L (n x)" "ac_counter x = 0"
  shows "lawful L (bnd (load_account cx a) (\<lambda>found. bnd (if found then m else store_account a x) n))"
  using lawful_fresh_if [OF lawful_bnd [OF assms(1,2)] assms(2,3), of a]
  by (simp add: if_distrib [of "\<lambda>m. bnd m n"])

section \<open>Channels and storage\<close>

lemma lawful_read_channel [lawful_rules]: "lawful L (read_channel cx a k)"
  unfolding read_channel_def by (rule lawful_rules)+

lemma lawful_write_channel: "lawful L pay \<Longrightarrow> lawful L (write_channel cx a k c pay)"
  unfolding write_channel_def Let_def by (rule lawful_rules | assumption)+

lemma lawful_channels [lawful_rules]:
  "lawful L (handle_channel_update cx a k w n)" "lawful L (handle_channel_close cx a k)"
  unfolding handle_channel_update_def handle_channel_close_def by (rule lawful_rules lawful_write_channel)+

lemma lawful_voucher:
  "(\<And>counter sig. lawful L (f counter sig)) \<Longrightarrow>
     lawful L (case (x, y) of (Inr counter, Some (PBytes sig)) \<Rightarrow> f counter sig | _ \<Rightarrow> ret False)"
  by (auto simp: lawful_rules split: sum.splits option.splits payload.splits)

lemma lawful_lists:
  "lawful L m \<Longrightarrow> (\<And>a. lawful L (f a)) \<Longrightarrow> lawful L (case xs of [] \<Rightarrow> m | [a] \<Rightarrow> f a | a # b # ys \<Rightarrow> m)"
  "lawful L m \<Longrightarrow> (\<And>a b c. lawful L (g a b c)) \<Longrightarrow>
     lawful L (case xs of [] \<Rightarrow> m | [a] \<Rightarrow> m | [a, b] \<Rightarrow> m | [a, b, c] \<Rightarrow> g a b c | a # b # c # d # ys \<Rightarrow> m)"
  "lawful L m \<Longrightarrow> (\<And>a b c d. lawful L (h a b c d)) \<Longrightarrow>
     lawful L (case xs of [] \<Rightarrow> m | [a] \<Rightarrow> m | [a, b] \<Rightarrow> m | [a, b, c] \<Rightarrow> m | [a, b, c, d] \<Rightarrow> h a b c d
               | a # b # c # d # e # ys \<Rightarrow> m)"
  by (auto split: list.splits)

lemma lawful_withdraw [lawful_rules]: "lawful L (handle_channel_withdraw cx verify tx)"
  unfolding handle_channel_withdraw_def Let_def
  by (rule lawful_rules lawful_write_channel lawful_voucher lawful_lists)+

lemma lawful_initial [lawful_rules]: "lawful L (handle_storage_initial_contract cx tx a b n)"
  unfolding handle_storage_initial_contract_def by (rule lawful_rules)+

lemma lawful_pay_claim [lawful_rules]: "lawful L (pay_claim cx sender c)"
  unfolding pay_claim_def check_claim_def Let_def by (rule lawful_rules lawful_counts | simp)+

lemma lawful_pay_claims [lawful_rules]: "lawful L (pay_claims cx sender cs n)"
proof (induction cs arbitrary: n)
  case Nil
  show ?case unfolding pay_claims.simps by (rule lawful_rules)
next
  case (Cons c cs)
  show ?case unfolding pay_claims.simps by (rule lawful_rules Cons.IH)+
qed

lemma lawful_payment [lawful_rules]: "lawful L (handle_storage_payment_contract cx sender payload)"
  unfolding handle_storage_payment_contract_def by (rule lawful_rules)+

section \<open>The treasury\<close>

lemma lawful_tries [lawful_rules]:
  "lawful L (trie_get cx t k)" "lawful L (trie_put cx t k v)" "lawful L (put_record cx t k e)"
  "lawful L (load_user_record cx k)" "lawful L (put_user_record cx k r)" "lawful L (record_cells cx e)"
  "lawful L (load_loan cx t k)"
  unfolding trie_get_def trie_put_def put_record_def load_user_record_def put_user_record_def record_cells_def
    load_loan_def case_prod_beta
  by (rule lawful_rules)+

lemma lawful_guarantee [lawful_rules]:
  "lawful L (claim_guarantee cx t g a n)" "lawful L (handle_treasury_guarantee cx tx h)"
  unfolding claim_guarantee_def handle_treasury_guarantee_def Let_def case_prod_beta
  by (rule lawful_rules lawful_lists)+

lemma lawful_secured [lawful_rules]: "lawful L (handle_secured_borrow cx tx h req)"
  unfolding handle_secured_borrow_def Let_def case_prod_beta by (rule lawful_rules)+

lemma lawful_guarantor [lawful_rules]: "lawful L (guarantor_of cx st g)"
  unfolding guarantor_of_def by (rule lawful_rules)+

lemma lawful_claim_refs [lawful_rules]: "lawful L (claim_refs cx h height d refs st cl)"
proof (induction refs arbitrary: st cl)
  case Nil
  show ?case unfolding claim_refs.simps by (rule lawful_rules)
next
  case (Cons x refs)
  show ?case by (cases x; simp only: claim_refs.simps) (rule lawful_rules Cons.IH)+
qed

lemma lawful_pay_guarantors [lawful_rules]: "lawful L (pay_guarantors cx states)"
proof (induction states)
  case Nil
  show ?case unfolding pay_guarantors.simps by (rule lawful_rules)
next
  case (Cons x states)
  obtain g st where x: "x = (g, st)" by (cases x)
  show ?case
    unfolding x pay_guarantors.simps Let_def
    by (rule lawful_fresh lawful_rules Cons.IH | simp add: new_account_def create_account_def)+
qed

lemma lawful_borrow [lawful_rules]:
  "lawful L (handle_unsecured_borrow cx tx h req refs)" "lawful L (handle_treasury_borrow cx tx h)"
proof -
  show unsecured: "lawful L (handle_unsecured_borrow cx tx h req refs)" for req refs
    unfolding handle_unsecured_borrow_def Let_def case_prod_beta by (rule lawful_rules lawful_counts | simp)+
  have type: "lawful L (case type of SECURED \<Rightarrow> handle_secured_borrow cx tx h req
      | UNSECURED \<Rightarrow> handle_unsecured_borrow cx tx h req refs)" for type req refs
    by (cases type) (simp_all add: lawful_secured unsecured)
  show "lawful L (handle_treasury_borrow cx tx h)"
    unfolding handle_treasury_borrow_def Let_def by (rule type lawful_rules lawful_lists)+
qed

lemma lawful_release [lawful_rules]: "lawful L (release_shares cx xs)" "lawful L (release_guarantees cx l)"
proof -
  show shares: "lawful L (release_shares cx xs)" for xs
  proof (induction xs)
    case Nil
    show ?case unfolding release_shares.simps by (rule lawful_rules)
  next
    case (Cons x xs)
    show ?case by (cases x; simp only: release_shares.simps Let_def) (rule lawful_rules Cons.IH)+
  qed
  show "lawful L (release_guarantees cx l)"
    unfolding release_guarantees_def by (rule lawful_rules shares)+
qed

lemma lawful_credit [lawful_rules]:
  "lawful L (credit cx a n)" "lawful L (credit_owner cx l n)" "lawful L (open_loan cx a k)"
  unfolding credit_def credit_owner_def open_loan_def by (rule lawful_rules)+

lemma lawful_finish:
  "lawful L pay \<Longrightarrow> lawful L (finish_loan cx b k t l user pay w rel)"
  unfolding finish_loan_def by (rule lawful_rules lawful_counts | simp | assumption)+

lemma lawful_loans [lawful_rules]:
  "lawful L (handle_treasury_repay cx tx)" "lawful L (handle_treasury_close cx tx)"
  "lawful L (handle_treasury_buy cx tx)" "lawful L (handle_treasury_claim cx tx)"
  unfolding handle_treasury_repay_def handle_treasury_close_def handle_treasury_buy_def handle_treasury_claim_def
    case_prod_beta Let_def
  by (rule lawful_finish lawful_rules)+

section \<open>The handlers by code\<close>

lemma lawful_recipient [lawful_rules]:
  "lawful L (found_at cx a)" "lawful L (get_or_create_recipient cx tx)" "lawful L (add_at r n)"
  unfolding found_at_def get_or_create_recipient_def add_at_def
  by (rule lawful_rules | simp add: lawful_rules split: account_ref.split)+

lemma lawful_create [lawful_rules]: "lawful L (handle_expression_account_create cx tx h)"
  unfolding handle_expression_account_create_def
  by (rule lawful_fresh_if lawful_rules | simp add: create_account_def)+

lemma lawful_undo:
  assumes m: "lawful L m"
  shows "lawful L (bnd (reads snapshot) (\<lambda>snap. bnd m (\<lambda>(fin, used, logs).
           if fin then ret (g used logs)
           else bnd (account_of a) (\<lambda>x. bnd (update (restore snap)) (\<lambda>_. ret (h used logs x))))))"
  unfolding lawful_def
proof
  fix s
  obtain r s1 where r: "m s = (r, s1)" by fastforce
  have "L s s1" using m r unfolding lawful_def by (metis snd_conv)
  then show "L s (snd (bnd (reads snapshot) (\<lambda>snap. bnd m (\<lambda>(fin, used, logs).
      if fin then ret (g used logs)
      else bnd (account_of a) (\<lambda>x. bnd (update (restore snap)) (\<lambda>_. ret (h used logs x))))) s))"
    using r undo [of s s1]
    by (auto simp: bnd_def account_of_eq split: sum.split prod.split option.split)
qed

lemma lawful_call:
  assumes "ap_cx W = cx" "\<And>e. lawful L (ap_run W tx e)"
  shows "lawful L (handle_expression_account_call W tx)"
proof -
  have run: "lawful L (bnd (reads snapshot) (\<lambda>snap. bnd (add_balance a n) (\<lambda>_. bnd (touch_account a) (\<lambda>_.
      bnd (ap_run W tx e) (\<lambda>(fin, used, logs).
        if fin then ret (True, used, logs, r)
        else bnd (account_of b) (\<lambda>x. bnd (update (restore snap)) (\<lambda>_. ret (False, used, logs, Loose x))))))))"
    for a n e r b
    using lawful_undo [where m = "bnd (add_balance a n) (\<lambda>_. bnd (touch_account a) (\<lambda>_. ap_run W tx e))"
        and g = "\<lambda>used logs. (True, used, logs, r)" and a = b and h = "\<lambda>used logs x. (False, used, logs, Loose x)"]
    by (simp add: bnd_bnd lawful_rules assms(2))
  show ?thesis
    unfolding handle_expression_account_call_def assms(1) Let_def
    by (rule run lawful_rules)+
qed

lemma lawful_effects [lawful_rules]:
  "lawful L (update_effects cx tx ok n)" "lawful L (close_effects cx tx ok)"
  "lawful L (storage_create_effects nested cx tx ok n)" "lawful L (storage_payment_effects cx tx ok n)"
  "lawful L m \<Longrightarrow> lawful L (treasury_effects cx tx ok n m)"
  unfolding update_effects_def close_effects_def storage_create_effects_def storage_payment_effects_def
    treasury_effects_def Let_def
  by (rule lawful_rules lawful_lists | assumption)+

lemma lawful_deposit [lawful_rules]: "lawful L (deposit_effects cx tx ok n)"
proof -
  have deposit: "lawful L (case r of NoAccount \<Rightarrow> raise e | At a \<Rightarrow> f a | Loose x \<Rightarrow> ret (g x))"
    if "\<And>a. lawful L (f a)" for r e f g
    using that by (cases r) (simp_all add: lawful_rules)
  show ?thesis
    unfolding deposit_effects_def by (rule deposit lawful_rules)+
qed

lemma lawful_code:
  assumes "ap_cx W = cx" "tx_code tx = CODE_ACCOUNT_CALL \<longrightarrow> (\<forall>e. lawful L (ap_run W tx e))"
  shows "lawful L (code_effects W nested tx h ok n)"
proof -
  have call: "lawful L (call_effects W tx ok n)" if "\<And>e. lawful L (ap_run W tx e)"
    unfolding call_effects_def assms(1) Let_def
    by (rule lawful_call [OF assms(1) that] lawful_rules)+
  show ?thesis
    unfolding code_effects_def assms(1) Let_def
    using assms(2) by (cases "tx_code tx") (simp_all only: transaction_code.case simp_thms, (rule lawful_rules call | simp)+)
qed

end

section \<open>The trie of accounts stays readable\<close>

lemma load_account_at:
  assumes "ready cx R s"
  obtains t where "load_account cx a s = (map_sum id (\<lambda>x. x \<noteq> None) (account_at cx R (bk_accounts s) a), s\<lparr>bk_accounts := t\<rparr>)"
    "tree_ready cx R (as_trie t)" "\<And>x. account_at cx R t x = account_at cx R (bk_accounts s) x"
proof -
  obtain t where t: "get_account cx a (bk_accounts s) = (account_at cx R (bk_accounts s) a, t)" "tree_ready cx R (as_trie t)"
    "\<And>x. account_at cx R t x = account_at cx R (bk_accounts s) x"
    using get_account_ready assms unfolding ready_def by blast
  have "load_account cx a s = (map_sum id (\<lambda>x. x \<noteq> None) (account_at cx R (bk_accounts s) a), s\<lparr>bk_accounts := t\<rparr>)"
    by (simp add: load_account_def t(1) split: sum.split)
  then show ?thesis using that t(2,3) by blast
qed

definition ready_on :: "node_ctx \<Rightarrow> rtree option \<Rightarrow> block \<Rightarrow> block \<Rightarrow> bool" where
  "ready_on cx R s s' \<longleftrightarrow> (ready cx R s \<longrightarrow> ready cx R s')"

lemma ready_load: "ready_on cx R s (snd (load_account cx a s))"
proof (cases "ready cx R s")
  case True
  from load_account_at [OF this, of a] obtain t where
    "load_account cx a s = (map_sum id (\<lambda>x. x \<noteq> None) (account_at cx R (bk_accounts s) a), s\<lparr>bk_accounts := t\<rparr>)"
    "tree_ready cx R (as_trie t)" by metis
  then show ?thesis by (simp add: ready_on_def ready_def)
qed (simp add: ready_on_def)

lemma counts_only_accounts: "counts_only s s' \<Longrightarrow> bk_accounts s' = bk_accounts s"
  unfolding counts_only_def by (drule arg_cong [where f = bk_accounts]) simp

interpretation ready_law: act_law cx "ready_on cx R" for cx R
proof
  show "ready_on cx R s s" for s by (simp add: ready_on_def)
  show "ready_on cx R s s' \<Longrightarrow> ready_on cx R s' s'' \<Longrightarrow> ready_on cx R s s''" for s s' s''
    by (simp add: ready_on_def)
  show "ready_on cx R s (snd (load_account cx a s))" for a s by (rule ready_load)
  then show "load_account cx a s = (Inr False, s') \<Longrightarrow>
      ready_on cx R s (s'\<lparr>bk_accounts := set_account a x (bk_accounts s')\<rparr>)" for a s s' x
    by (metis ready_on_def ready_store snd_conv)
  show "counts_only s s' \<Longrightarrow> ready_on cx R s s'" for s s'
    by (simp add: ready_on_def ready_def counts_only_accounts)
  show "ready_on cx R s s' \<Longrightarrow> ready_on cx R s (restore (snapshot s) s')" for s s'
    by (simp add: ready_on_def ready_def restore_def snapshot_def)
qed (simp_all add: ready_on_def ready_store)

section \<open>What is recorded stays\<close>

text \<open>No handler touches the place of the block in the chain, its transactions and receipts, or its bloom tree.\<close>

definition recorded ::
  "block \<Rightarrow> int \<times> int \<times> int option \<times> bytes option \<times> bytes \<times> prev_block option \<times> bloom_tree \<times> bytes list \<times> bytes list
     \<times> transaction list \<times> receipt list \<times> radix_tree" where
  "recorded s = (bk_chain_id s, bk_height s, bk_timestamp s, bk_expr_id s, bk_previous_hash s, bk_previous s, bk_bloom s, bk_bloom_keys s,
     bk_involved s, bk_transactions s, bk_receipts s, bk_receipts_trie s)"

definition same_record :: "block \<Rightarrow> block \<Rightarrow> bool" where
  "same_record s s' \<longleftrightarrow> recorded s' = recorded s"

lemma recorded_accounts [simp]: "recorded (s\<lparr>bk_accounts := t\<rparr>) = recorded s"
  by (simp add: recorded_def)

lemma recorded_load: "recorded (snd (load_account cx a s)) = recorded s"
  by (simp add: load_account_def split: prod.split sum.split)

lemma counts_only_recorded: "counts_only s s' \<Longrightarrow> recorded s' = recorded s"
  unfolding counts_only_def by (drule arg_cong [where f = recorded]) (simp add: recorded_def)

interpretation record_law: act_law cx same_record for cx
proof
  show "load_account cx a s = (Inr False, s') \<Longrightarrow>
      same_record s (s'\<lparr>bk_accounts := set_account a x (bk_accounts s')\<rparr>)" for a s s' x
    using recorded_load [of cx a s] by (simp add: same_record_def)
  show "same_record s s' \<Longrightarrow> same_record s (restore (snapshot s) s')" for s s'
    by (simp add: same_record_def restore_def snapshot_def recorded_def)
qed (simp_all add: same_record_def recorded_load put_cached_def counts_only_recorded)

section \<open>Counters\<close>

text \<open>The counter of an address, 0 where it has no account that can be read. No handler lowers one.\<close>

definition nonce :: "node_ctx \<Rightarrow> rtree option \<Rightarrow> block \<Rightarrow> bytes \<Rightarrow> int" where
  "nonce cx R s a = (case account_at cx R (bk_accounts s) a of Inr (Some x) \<Rightarrow> ac_counter x | _ \<Rightarrow> 0)"

definition nonces_rise :: "node_ctx \<Rightarrow> rtree option \<Rightarrow> block \<Rightarrow> block \<Rightarrow> bool" where
  "nonces_rise cx R s s' \<longleftrightarrow> (ready cx R s \<longrightarrow> ready cx R s' \<and> (\<forall>a. nonce cx R s a \<le> nonce cx R s' a))"

lemma nonce_same: "bk_accounts s' = bk_accounts s \<Longrightarrow> nonce cx R s' = nonce cx R s"
  by (simp add: nonce_def fun_eq_iff)

lemma nonce_put [simp]: "nonce cx R (put_cached a x s) b = (if b = a then ac_counter x else nonce cx R s b)"
  by (simp add: nonce_def account_at_def put_cached_def update_conv')

lemma nonce_cached: "cached s a = Some x \<Longrightarrow> nonce cx R s a = ac_counter x"
  by (simp add: nonce_def account_at_def cached_def)

lemma nonce_store:
  "nonce cx R (s\<lparr>bk_accounts := set_account a x (bk_accounts s)\<rparr>) b = (if b = a then ac_counter x else nonce cx R s b)"
  by (simp add: nonce_def account_at_def set_account_def update_conv')

lemma nonce_load:
  assumes "ready cx R s"
  shows "ready cx R (snd (load_account cx a s))" "nonce cx R (snd (load_account cx a s)) b = nonce cx R s b"
    "fst (load_account cx a s) = Inr False \<Longrightarrow> nonce cx R s a = 0"
proof -
  from load_account_at [OF assms, of a] obtain t where t:
    "load_account cx a s = (map_sum id (\<lambda>x. x \<noteq> None) (account_at cx R (bk_accounts s) a), s\<lparr>bk_accounts := t\<rparr>)"
    "tree_ready cx R (as_trie t)" "\<And>x. account_at cx R t x = account_at cx R (bk_accounts s) x" by blast
  then show "ready cx R (snd (load_account cx a s))" "nonce cx R (snd (load_account cx a s)) b = nonce cx R s b"
    by (simp_all add: ready_def nonce_def)
  show "fst (load_account cx a s) = Inr False \<Longrightarrow> nonce cx R s a = 0"
    using t(1) by (cases "account_at cx R (bk_accounts s) a") (auto simp: nonce_def)
qed

lemma clone_counter [simp]: "ac_counter (clone_account x) = ac_counter x"
  by (simp add: clone_account_def)

lemma nonce_restore: "nonce cx R (restore (snapshot s0) s) a = nonce cx R s0 a"
  by (cases "map_of (as_cache (bk_accounts s0)) a")
    (simp_all add: nonce_def account_at_def restore_def snapshot_def map_of_clone)

interpretation nonce_law: act_law cx "nonces_rise cx R" for cx R
proof
  show "nonces_rise cx R s s' \<Longrightarrow> nonces_rise cx R s' s'' \<Longrightarrow> nonces_rise cx R s s''" for s s' s''
    unfolding nonces_rise_def by (meson order_trans)
  show "nonces_rise cx R s (snd (load_account cx a s))" for a s
    by (simp add: nonces_rise_def nonce_load)
  show "nonces_rise cx R s (s'\<lparr>bk_accounts := set_account a x (bk_accounts s')\<rparr>)"
    if "load_account cx a s = (Inr False, s')" "ac_counter x = 0" for a s s' x
    using that nonce_load [of cx R s a] by (auto simp: nonces_rise_def nonce_store ready_store)
  show "nonces_rise cx R s (put_cached a y s)" if "cached s a = Some x" "ac_counter y = ac_counter x" for s a x y
    using that by (auto simp: nonces_rise_def nonce_cached)
  show "nonces_rise cx R s (s\<lparr>bk_accounts := set_account a x (bk_accounts s)\<rparr>)" if "cached s a = Some x" for s a x
    using that by (auto simp: nonces_rise_def nonce_cached nonce_store ready_store)
  show "nonces_rise cx R s s'" if "counts_only s s'" for s s'
  proof -
    have "nonce cx R s' = nonce cx R s" by (rule nonce_same, rule counts_only_accounts, rule that)
    moreover have "ready cx R s' = ready cx R s" using counts_only_accounts [OF that] by (simp only: ready_def)
    ultimately show ?thesis by (simp add: nonces_rise_def)
  qed
  show "nonces_rise cx R s (restore (snapshot s) s')" if "nonces_rise cx R s s'" for s s'
    using that by (auto simp: nonces_rise_def nonce_restore) (simp add: ready_def restore_def snapshot_def)
qed (simp add: nonces_rise_def)

end
