(* ===== verification/Apply_Laws.thy ===== *)
theory Apply_Laws
  imports Treasury_Laws Act_Laws
begin

text \<open>
  What the application of a transaction does to the sum of all balances.

  The parts that only charge and record leave the accounts alone; the handlers move funds as their
  theories say. A new recipient is not in the cache until the end, so its balance counts separately.
\<close>

section \<open>Actions that leave the accounts alone\<close>

definition told :: "block \<Rightarrow> accounts \<times> transaction list \<times> receipt list \<times> int \<times> int \<times> int option \<times> bytes" where
  "told s = (bk_accounts s, bk_transactions s, bk_receipts s, bk_chain_id s, bk_height s, bk_timestamp s,
     bk_previous_hash s)"

definition kept :: "'a act \<Rightarrow> bool" where
  "kept m \<longleftrightarrow> (\<forall>s. told (snd (m s)) = told s)"

named_theorems kept_rules \<open>actions that leave the accounts, the transactions, the receipts and the place of the block alone\<close>

lemma kept_basic [kept_rules]:
  "kept (ret x)" "kept (raise e)" "kept (lift r)" "kept (reads f)" "kept (account_of a)"
  by (auto simp: kept_def account_of_eq split: option.splits)

lemma told_simps [simp]:
  "told (s\<lparr>bk_pending := es\<rparr>) = told s" "told (s\<lparr>bk_bloom := b\<rparr>) = told s" "told (s\<lparr>bk_bloom_keys := ks\<rparr>) = told s"
  "told (s\<lparr>bk_involved := as\<rparr>) = told s" "told (s\<lparr>bk_tx_keys := ks, bk_tx_inserts := fs\<rparr>) = told s"
  "told (s\<lparr>bk_receipts_trie := t\<rparr>) = told s"
  by (simp_all add: told_def)

lemma kept_update [kept_rules]: "(\<And>s. told (f s) = told s) \<Longrightarrow> kept (update f)"
  by (simp add: kept_def)

lemma kept_bnd [kept_rules]: "kept m \<Longrightarrow> (\<And>x. kept (f x)) \<Longrightarrow> kept (bnd m f)"
  by (simp add: kept_def bnd_def split: prod.split sum.split) (metis snd_conv)

lemma kept_if [kept_rules]: "kept m \<Longrightarrow> kept m' \<Longrightarrow> kept (if b then m else m')"
  by simp

lemma kept_prod [kept_rules]: "(\<And>a b. kept (f a b)) \<Longrightarrow> kept (case p of (a, b) \<Rightarrow> f a b)"
  by (cases p) simp

lemma kept_told: "kept m \<Longrightarrow> m s = (r, s') \<Longrightarrow> told s' = told s"
  unfolding kept_def by (metis snd_conv)

lemma kept_run: "kept m \<Longrightarrow> m s = (r, s') \<Longrightarrow> bk_accounts s' = bk_accounts s"
  using kept_told [of m s r s'] by (simp add: told_def)

lemma kept_lists:
  assumes "kept m" "m s = (r, s')"
  shows "bk_transactions s' = bk_transactions s" "bk_receipts s' = bk_receipts s" "bk_chain_id s' = bk_chain_id s"
    "bk_height s' = bk_height s" "bk_timestamp s' = bk_timestamp s" "bk_previous_hash s' = bk_previous_hash s"
  using kept_told [OF assms] by (simp_all add: told_def)

lemma kept_add_pending [kept_rules]: "kept (add_pending es)"
  unfolding add_pending_def by (rule kept_rules) simp

lemma kept_can_pay [kept_rules]: "kept (can_pay a n ok)"
  unfolding can_pay_def by (rule kept_rules)+

lemma kept_walk_charge [kept_rules]: "kept (walk_charge cx e p)"
  unfolding walk_charge_def by (rule kept_rules)+

lemma kept_size_charge [kept_rules]: "kept (size_charge n)"
  unfolding size_charge_def by (rule kept_rules)+

lemma kept_bloom_add [kept_rules]: "kept (bloom_add W b es)"
  unfolding bloom_add_def by (rule kept_rules | simp)+

lemma kept_involved_batches [kept_rules]: "kept (involved_batches h as)"
proof (induction as)
  case Nil
  show ?case unfolding involved_batches.simps by (rule kept_rules)
next
  case (Cons a as)
  show ?case unfolding involved_batches.simps by (rule kept_rules Cons.IH)+
qed

lemma kept_pending_bloom [kept_rules]:
  "kept (pending_bloom_fee ok)" "kept clear_pending_bloom" "kept (finalize_pending_bloom_inserts W ok)"
  unfolding pending_bloom_fee_def clear_pending_bloom_def finalize_pending_bloom_inserts_def
  by (rule kept_rules | simp)+

lemma kept_charges [kept_rules]:
  "kept (search_charge W tx h due ok)" "kept (logs_charge cx nested tx due logs p)" "kept (recipient_charge cx r p)"
  unfolding search_charge_def logs_charge_def Let_def
    apply (rule kept_rules)+
  unfolding recipient_charge_def by (cases r) (simp_all add: kept_rules)

lemma kept_late_checks [kept_rules]: "kept (late_checks W tx h e)"
  unfolding late_checks_def Let_def by (rule kept_rules)+

lemma kept_insert_batches [kept_rules]: "kept (insert_batches W bs)"
proof (induction bs)
  case Nil
  show ?case unfolding insert_batches.simps by (rule kept_rules)
next
  case (Cons b bs)
  show ?case
    by (cases b; simp only: insert_batches.simps) (rule kept_rules Cons.IH | simp)+
qed

lemma kept_put_receipt [kept_rules]: "kept (put_receipt cx h r)"
  by (simp add: kept_def put_receipt_def split: prod.split)

lemma hoare_both: "hoare P m Q \<Longrightarrow> hoare P m Q' \<Longrightarrow> hoare P m (\<lambda>x s. Q x s \<and> Q' x s)"
  unfolding hoare_def by blast

section \<open>The receipt that is charged for\<close>

lemma fixed_point_built:
  "fixed_point_rounds cx s build base named n fee = Inr (Some r) \<Longrightarrow> \<exists>k. r = build k"
  by (induction n arbitrary: fee) (auto simp: bind_exc_eq_Inr split: option.splits if_splits)

definition receipt_for :: "bytes \<Rightarrow> effects \<Rightarrow> receipt \<Rightarrow> bool" where
  "receipt_for h e r \<longleftrightarrow> (\<exists>k lh ok. r = make_receipt h (1 + ef_used e) k 0 (ef_used e) lh ok (ef_minted e))"

lemma hoare_step: "(\<And>x. hoare (\<lambda>_. True) (f x) Q) \<Longrightarrow> hoare (\<lambda>_. True) (bnd m f) Q"
  by (fastforce simp: hoare_def bnd_Inr)

lemma hoare_reads_lift:
  "(\<And>s x. f s = Inr x \<Longrightarrow> hoare (\<lambda>_. True) (g x) Q) \<Longrightarrow> hoare (\<lambda>_. True) (bnd (reads f) (\<lambda>r. bnd (lift r) g)) Q"
  by (fastforce simp: hoare_def bnd_Inr)

lemma late_checks_receipt:
  "hoare (\<lambda>_. True) (late_checks W tx h e) (\<lambda>(ok, r, bs) _. receipt_for h e r)"
proof -
  let ?Q = "\<lambda>(ok, r, bs) _. receipt_for h e r"
  have last: "hoare (\<lambda>_. True)
      (bnd (reads (\<lambda>s. receipt_at_fixed_point cx s
             (\<lambda>k. make_receipt h (1 + ef_used e) k 0 (ef_used e) lh ok (ef_minted e)) fee ns)) (\<lambda>r.
       bnd (lift r) (\<lambda>r.
         let (ok, receipt) =
               (case r of
                  None \<Rightarrow> (False, make_receipt h (1 + ef_used e) fee 0 (ef_used e) lh False (ef_minted e))
                | Some receipt \<Rightarrow> (ok, receipt)) in
         bnd (account_of a) (\<lambda>x. ret (ok \<and> \<not> ac_balance x < due + storage_fee receipt, receipt, bs))))) ?Q"
    for cx lh ok fee ns a due bs
  proof (rule hoare_reads_lift)
    fix s r
    assume "receipt_at_fixed_point cx s
             (\<lambda>k. make_receipt h (1 + ef_used e) k 0 (ef_used e) lh ok (ef_minted e)) fee ns = Inr r"
    then have "receipt_for h e x" if "r = Some x" for x
      using that fixed_point_built unfolding receipt_at_fixed_point_def receipt_for_def by fast
    moreover have "receipt_for h e (make_receipt h (1 + ef_used e) fee 0 (ef_used e) lh False (ef_minted e))"
      unfolding receipt_for_def by blast
    ultimately show "hoare (\<lambda>_. True) (let (ok, receipt) =
               (case r of
                  None \<Rightarrow> (False, make_receipt h (1 + ef_used e) fee 0 (ef_used e) lh False (ef_minted e))
                | Some receipt \<Rightarrow> (ok, receipt)) in
         bnd (account_of a) (\<lambda>x. ret (ok \<and> \<not> ac_balance x < due + storage_fee receipt, receipt, bs))) ?Q"
      by (cases r) (auto simp: Let_def intro!: hoare_step hoare_ret)
  qed
  show ?thesis
    unfolding late_checks_def Let_def
    apply (rule last [unfolded Let_def] hoare_step hoare_prod)+
    done
qed

section \<open>What a handler leaves\<close>

text \<open>
  The balance of a recipient that is not in the cache yet. \<open>beside\<close> is what the sum of the balances may
  change by besides the fees and the mint of the receipt: what goes into a channel or comes out of it,
  what the purchase of a loan and a storage transaction of a negative amount create, and what the closing
  of a loan loses where the sender has no account.
\<close>

definition outside :: "account_ref \<Rightarrow> int" where
  "outside r = (case r of Loose x \<Rightarrow> ac_balance x | _ \<Rightarrow> 0)"

definition beside :: "transaction \<Rightarrow> int set" where
  "beside tx =
     (case tx_code tx of
        CHANNEL_UPDATE \<Rightarrow> {- tx_amount tx}
      | CHANNEL_WITHDRAW \<Rightarrow> {0..}
      | CHANNEL_CLOSE \<Rightarrow> UNIV
      | TREASURY_BUY \<Rightarrow> {tx_amount tx - 2 * p |p. 0 < p \<and> p \<le> tx_amount tx}
      | TREASURY_CLOSE \<Rightarrow> {..0}
      | STORAGE_CREATE \<Rightarrow> {if tx_recipient tx = STORAGE_ADDRESS then max 0 (- tx_amount tx) else 0}
      | STORAGE_PAYMENT \<Rightarrow> {if tx_recipient tx = STORAGE_ADDRESS then max 0 (- tx_amount tx) else 0}
      | _ \<Rightarrow> {0})"

definition recipient_fits :: "node_ctx \<Rightarrow> rtree option \<Rightarrow> transaction \<Rightarrow> account_ref \<Rightarrow> block \<Rightarrow> bool" where
  "recipient_fits cx R tx r s =
     (case r of
        NoAccount \<Rightarrow> True
      | At a \<Rightarrow> a = tx_recipient tx
      | Loose x \<Rightarrow> tx_recipient tx \<notin> {tx_sender tx, STORAGE_ADDRESS} \<and> ac_counter x = 0
          \<and> worth cx R s (tx_recipient tx) = 0 \<and> nonce cx R s (tx_recipient tx) = 0)"

definition all_told :: "node_ctx \<Rightarrow> rtree option \<Rightarrow> transaction \<Rightarrow> int \<Rightarrow> account_ref \<Rightarrow> block \<Rightarrow> bool" where
  "all_told cx R tx c r s \<longleftrightarrow>
     ready cx R s \<and> coins cx R s + outside r = c \<and> recipient_fits cx R tx r s"

definition left_by :: "node_ctx \<Rightarrow> rtree option \<Rightarrow> transaction \<Rightarrow> int \<Rightarrow> effects \<Rightarrow> block \<Rightarrow> bool" where
  "left_by cx R tx c e s \<longleftrightarrow>
     ef_ok e \<longrightarrow> (\<exists>d\<in>beside tx. all_told cx R tx (c + ef_transfer e + ef_minted e + d) (ef_recipient e) s)"

lemma all_told_inside:
  "sums_to cx R c s \<Longrightarrow> r = NoAccount \<or> r = At (tx_recipient tx) \<Longrightarrow> all_told cx R tx c r s"
  by (auto simp: all_told_def sums_to_def outside_def recipient_fits_def)

lemma all_told_new:
  "sums_to cx R c s \<Longrightarrow> tx_recipient tx \<noteq> tx_sender tx \<Longrightarrow> tx_recipient tx \<noteq> STORAGE_ADDRESS
     \<Longrightarrow> worth cx R s (tx_recipient tx) = 0 \<Longrightarrow> nonce cx R s (tx_recipient tx) = 0 \<Longrightarrow> all_told cx R tx c (Loose new_account) s"
  by (simp add: all_told_def sums_to_def outside_def recipient_fits_def new_account_def create_account_def)

lemma hoare_reads: "(\<And>s. P s \<Longrightarrow> Q (f s) s) \<Longrightarrow> hoare P (reads f) Q"
  by (simp add: hoare_def)

lemma sums_load_absent:
  "hoare (sums_to cx R c) (load_account cx a)
     (\<lambda>found s. sums_to cx R c s \<and> (\<not> found \<longrightarrow> worth cx R s a = 0 \<and> nonce cx R s a = 0))"
proof -
  have "hoare (sums_to cx R c) (load_account cx a) (\<lambda>found s. \<not> found \<longrightarrow> nonce cx R s a = 0)"
    unfolding hoare_def
  proof (intro allI impI)
    fix s found s'
    assume "sums_to cx R c s" "load_account cx a s = (Inr found, s')" "\<not> found"
    with nonce_load [of cx R s a] show "nonce cx R s' a = 0" by (simp add: sums_to_def)
  qed
  from hoare_both [OF sums_load this] show ?thesis by (rule hoare_weaken) auto
qed

lemma sums_recipient:
  "hoare (sums_to cx R c) (get_or_create_recipient cx tx) (\<lambda>r. all_told cx R tx c r)"
proof -
  have load: "hoare (sums_to cx R c) (bnd (load_account cx (tx_recipient tx)) (\<lambda>found.
      ret (if found then At (tx_recipient tx) else Loose new_account))) (\<lambda>r. all_told cx R tx c r)"
    if "tx_recipient tx \<noteq> tx_sender tx" "tx_recipient tx \<noteq> STORAGE_ADDRESS"
  proof (rule hoare_bnd, rule sums_load_absent, rule hoare_ret)
    fix found s
    assume s: "sums_to cx R c s \<and> (\<not> found \<longrightarrow> worth cx R s (tx_recipient tx) = 0 \<and> nonce cx R s (tx_recipient tx) = 0)"
    show "all_told cx R tx c (if found then At (tx_recipient tx) else Loose new_account) s"
    proof (cases found)
      case True
      from all_told_inside [OF conjunct1 [OF s]] True show ?thesis by simp
    next
      case False
      from all_told_new [OF conjunct1 [OF s] that] s False show ?thesis by simp
    qed
  qed
  have storage: "hoare (sums_to cx R c) (reads (\<lambda>s. if cached s STORAGE_ADDRESS = None then NoAccount else At STORAGE_ADDRESS))
      (\<lambda>r. all_told cx R tx c r)" if "tx_recipient tx = STORAGE_ADDRESS"
    by (rule hoare_reads, rule all_told_inside, assumption) (use that in simp)
  show ?thesis
    unfolding get_or_create_recipient_def
  proof (intro hoare_if)
    show "hoare (sums_to cx R c) (ret (At (tx_sender tx))) (\<lambda>r. all_told cx R tx c r)"
      if "tx_recipient tx = tx_sender tx"
      by (rule hoare_ret, rule all_told_inside, assumption) (use that in simp)
  qed (rule load storage; assumption)+
qed

lemma told_add_at:
  "hoare (all_told cx R tx c r) (add_at r n) (\<lambda>r. all_told cx R tx (c + n) r)"
proof (cases r)
  case NoAccount
  then show ?thesis by (simp add: add_at_def hoare_def)
next
  case (At a)
  have "hoare (sums_to cx R c) (bnd (add_balance a n) (\<lambda>_. ret (At a))) (\<lambda>r s. sums_to cx R (c + n) s \<and> r = At a)"
    by (rule hoare_bnd, rule sums_rules, rule hoare_ret) simp
  moreover have "all_told cx R tx d (At a) s \<longleftrightarrow> sums_to cx R d s \<and> a = tx_recipient tx" for d s
    by (auto simp: all_told_def sums_to_def outside_def recipient_fits_def)
  ultimately show ?thesis
    unfolding At add_at_def account_ref.case hoare_def by blast
next
  case (Loose x)
  show ?thesis
    unfolding Loose add_at_def account_ref.case
    by (rule hoare_ret) (simp add: all_told_def outside_def recipient_fits_def)
qed

lemma sums_found_at:
  "hoare (sums_to cx R c) (found_at cx a) (\<lambda>r s. sums_to cx R c s \<and> (r = NoAccount \<or> r = At a))"
  unfolding found_at_def by (rule hoare_bnd, rule sums_load, rule hoare_ret) auto

lemma effect_simps [simp]:
  "ef_ok (effect tx ok n r) = ok" "ef_transfer (effect tx ok n r) = n" "ef_minted (effect tx ok n r) = 0"
  "ef_recipient (effect tx ok n r) = r"
  by (simp_all add: effect_def)

lemma left_by_failed [simp]: "\<not> ef_ok e \<Longrightarrow> left_by cx R tx c e s"
  by (simp add: left_by_def)

lemma left_by_effect:
  "0 \<in> beside tx \<Longrightarrow> all_told cx R tx (c + n) r s \<Longrightarrow> left_by cx R tx c (effect tx ok n r) s"
  by (force simp: left_by_def)

section \<open>The handlers\<close>

lemma treasury_needs_recipient:
  assumes "tx_recipient tx \<noteq> TREASURY_ADDRESS"
  shows "handle_treasury_borrow cx tx h = ret False" "handle_treasury_close cx tx = ret False"
    "handle_treasury_repay cx tx = ret False" "handle_treasury_guarantee cx tx h = ret False"
    "handle_treasury_buy cx tx = ret False" "handle_treasury_claim cx tx = ret False"
  using assms
  by (simp_all add: handle_treasury_borrow_def handle_treasury_close_def handle_treasury_repay_def
      handle_treasury_guarantee_def handle_treasury_buy_def handle_treasury_claim_def)

lemma left_by_treasury:
  assumes handler: "ok \<Longrightarrow> hoare (sums_to cx R c) handler (\<lambda>ok s. ok \<longrightarrow> (\<exists>d\<in>beside tx. sums_to cx R (c + n + d) s))"
    and refuses: "tx_recipient tx \<noteq> TREASURY_ADDRESS \<Longrightarrow> handler = ret False"
  shows "hoare (sums_to cx R c) (treasury_effects cx tx ok n handler)
           (\<lambda>e s. left_by cx R tx c e s \<and> (ef_ok e \<longrightarrow> tx_recipient tx = TREASURY_ADDRESS))"
proof -
  let ?Q = "\<lambda>e s. left_by cx R tx c e s \<and> (ef_ok e \<longrightarrow> tx_recipient tx = TREASURY_ADDRESS)"
  have run: "hoare (sums_to cx R c) (bnd handler (\<lambda>done. ret (effect tx done n r))) ?Q"
    if r: "r = NoAccount \<or> r = At TREASURY_ADDRESS" and "ok" for r
  proof (cases "tx_recipient tx = TREASURY_ADDRESS")
    case True
    show ?thesis
      by (rule hoare_bnd, rule handler [OF \<open>ok\<close>], rule hoare_ret)
        (use True r in \<open>auto simp: left_by_def intro!: all_told_inside\<close>)
  next
    case False
    then show ?thesis unfolding refuses [OF False] bnd_ret by (intro hoare_ret) simp
  qed
  show ?thesis
    unfolding treasury_effects_def
  proof (rule hoare_bnd, rule sums_found_at, rule hoare_if)
    fix r
    show "hoare (\<lambda>s. sums_to cx R c s \<and> (r = NoAccount \<or> r = At TREASURY_ADDRESS)) (ret (effect tx ok n r)) ?Q"
      if "\<not> ok" using that by (intro hoare_ret) simp
    show "hoare (\<lambda>s. sums_to cx R c s \<and> (r = NoAccount \<or> r = At TREASURY_ADDRESS))
        (bnd handler (\<lambda>done. ret (effect tx done n r))) ?Q" if "\<not> \<not> ok"
    proof (cases "r = NoAccount \<or> r = At TREASURY_ADDRESS")
      case True
      from run [OF this] that show ?thesis by (auto elim: hoare_weaken)
    qed (simp add: hoare_def)
  qed
qed


text \<open>Channels.\<close>

lemma sums_channel_update:
  "hoare (sums_to cx R c) (handle_channel_update cx a k w n) (\<lambda>ok s. ok \<longrightarrow> sums_to cx R c s)"
proof -
  have put: "hoare (sums_to cx R c) (write_channel cx a k ch (ret ())) (\<lambda>ok s. ok \<longrightarrow> sums_to cx R c s)" for ch
    using sums_write_channel [where pay = "ret ()" and n = 0] by (simp add: hoare_ret)
  show ?thesis
    unfolding handle_channel_update_def
    by (rule put sums_plain sums_rules)+
qed

lemma sums_channel_close:
  "hoare (sums_to cx R c) (handle_channel_close cx a k) (\<lambda>ok s. ok \<longrightarrow> (\<exists>d. sums_to cx R d s))"
proof -
  have put: "hoare (sums_to cx R c) (write_channel cx a k ch (ret ())) (\<lambda>ok s. ok \<longrightarrow> (\<exists>d. sums_to cx R d s))" for c ch
    by (rule hoare_weaken, rule sums_write_channel [where pay = "ret ()" and n = 0])
      (auto intro: hoare_ret)
  show ?thesis
    unfolding handle_channel_close_def
    by (rule put sums_plain sums_rules)+
qed

lemma hoare_three:
  assumes "\<And>a b c. hoare P (f a b c) (\<lambda>ok s. ok \<longrightarrow> Q s)"
  shows "hoare P (case xs of [] \<Rightarrow> ret False | [a] \<Rightarrow> ret False | [a, b] \<Rightarrow> ret False
                  | [a, b, c] \<Rightarrow> f a b c | a # b # c # d # ys \<Rightarrow> ret False) (\<lambda>ok s. ok \<longrightarrow> Q s)"
  using assms by (auto simp: hoare_fails split: list.splits)

lemma hoare_voucher:
  assumes "\<And>counter sig. hoare P (f counter sig) (\<lambda>ok s. ok \<longrightarrow> Q s)"
  shows "hoare P (case (x, y) of (Inr counter, Some (PBytes sig)) \<Rightarrow> f counter sig | _ \<Rightarrow> ret False) (\<lambda>ok s. ok \<longrightarrow> Q s)"
  using assms by (auto simp: hoare_fails split: sum.splits option.splits payload.splits)

lemma sums_channel_withdraw:
  "hoare (sums_to cx R c) (handle_channel_withdraw cx verify tx) (\<lambda>ok s. ok \<longrightarrow> (\<exists>d\<ge>0. sums_to cx R (c + d) s))"
proof -
  let ?Q = "\<lambda>ok s. ok \<longrightarrow> (\<exists>d\<ge>0. sums_to cx R (c + d) s)"
  have put: "hoare (sums_to cx R c)
      (bnd (write_channel cx a k ch (add_balance b n)) (\<lambda>done. if \<not> done then ret False
         else bnd (touch_account a) (\<lambda>_. ret True))) ?Q" if "\<not> n < 0" for a k ch b n
  proof (rule hoare_bnd, rule sums_write_channel, rule sums_rules, rule hoare_ok)
    show "hoare (sums_to cx R (c + n)) (bnd (touch_account a) (\<lambda>_. ret True)) ?Q"
      by (rule hoare_bnd, rule sums_rules, rule hoare_ret) (use that in \<open>auto intro!: exI [of _ n]\<close>)
  qed
  show ?thesis
    unfolding handle_channel_withdraw_def Let_def
    by (rule hoare_three hoare_voucher | rule put, assumption | rule sums_plain sums_rules hoare_raise)+
qed


section \<open>The effects by code\<close>

lemma left_by_fails: "hoare P (ret (effect tx False n r)) (left_by cx R tx c)"
  by (rule hoare_ret) simp

lemma left_by_update:
  assumes "tx_code tx = CHANNEL_UPDATE" "ok \<longrightarrow> amount = tx_amount tx"
  shows "hoare (sums_to cx R c) (update_effects cx tx ok amount) (left_by cx R tx c)"
proof -
  have run: "hoare (sums_to cx R c) (bnd (handle_channel_update cx a k w n)
      (\<lambda>done. ret (effect tx done (if done then amount else 0) (At (tx_sender tx))))) (left_by cx R tx c)"
    if "tx_recipient tx = tx_sender tx" "ok" for a k w n
    by (rule hoare_bnd, rule sums_channel_update, rule hoare_ret)
      (use assms that in \<open>auto simp: left_by_def beside_def intro!: all_told_inside\<close>)
  show ?thesis
    unfolding update_effects_def Let_def
    by (rule hoare_if left_by_fails | rule hoare_ret, simp | rule hoare_raise
        | rule hoare_bnd, rule sums_rules | rule run; simp)+
qed

lemma left_by_close:
  assumes "tx_code tx = CHANNEL_CLOSE"
  shows "hoare (sums_to cx R c) (close_effects cx tx ok) (left_by cx R tx c)"
proof -
  have run: "hoare (sums_to cx R c) (bnd (handle_channel_close cx a k)
      (\<lambda>done. ret (effect tx done 0 NoAccount))) (left_by cx R tx c)" for a k
  proof (rule hoare_bnd, rule sums_channel_close, rule hoare_ret)
    fix ok s
    assume "ok \<longrightarrow> (\<exists>d. sums_to cx R d s)"
    then show "left_by cx R tx c (effect tx ok 0 NoAccount) s"
      using assms by (auto simp: left_by_def beside_def sums_to_def all_told_def outside_def recipient_fits_def)
        (metis add.commute diff_add_cancel)
  qed
  show ?thesis
    unfolding close_effects_def
    by (auto intro!: hoare_if left_by_fails hoare_bnd [OF sums_lift] run hoare_ret split: list.splits)
qed

lemma hoare_pre: "hoare P m Q \<Longrightarrow> (\<And>s. P' s \<Longrightarrow> P s) \<Longrightarrow> hoare P' m Q"
  unfolding hoare_def by blast

lemma all_told_At: "all_told cx R tx c (At a) s \<longleftrightarrow> sums_to cx R c s \<and> a = tx_recipient tx"
  by (auto simp: all_told_def sums_to_def outside_def recipient_fits_def)

lemma left_by_deposit:
  assumes "tx_code tx = TREASURY_DEPOSIT"
  shows "hoare (sums_to cx R c) (deposit_effects cx tx ok amount) (left_by cx R tx c)"
proof -
  have zero: "0 \<in> beside tx" using assms by (simp add: beside_def)
  have credited: "hoare (sums_to cx R c)
      (bnd (sync_data_hash a) (\<lambda>_. bnd (add_balance a n) (\<lambda>_. ret (effect tx ok n (At a))))) (left_by cx R tx c)"
    if "a = tx_recipient tx" for a n ok
    by (rule hoare_bnd, rule sums_rules, rule hoare_bnd, rule sums_rules, rule hoare_ret, rule left_by_effect [OF zero])
      (simp add: all_told_At that)
  have found: "hoare (sums_to cx R c)
      (bnd (case found of None \<Rightarrow> ret (False, 0)
            | Some x \<Rightarrow> bnd (put_user_record cx k (f x)) (\<lambda>_. ret (True, amount)))
        (\<lambda>(ok, amount). bnd (sync_data_hash a) (\<lambda>_. bnd (add_balance a amount) (\<lambda>_. ret (effect tx ok amount (At a))))))
      (left_by cx R tx c)" if "a = tx_recipient tx" for a found k f
  proof (cases found)
    case None
    then show ?thesis using credited [OF that] by simp
  next
    case (Some x)
    show ?thesis
      unfolding Some option.case bnd_bnd bnd_ret prod.case
      by (rule hoare_bnd, rule sums_rules, rule credited [OF that])
  qed
  show ?thesis
    unfolding deposit_effects_def
  proof (rule hoare_bnd, rule sums_recipient, intro hoare_if)
    fix r
    show "hoare (all_told cx R tx c r) (ret (effect tx ok 0 r)) (left_by cx R tx c)"
      by (rule hoare_ret, rule left_by_effect [OF zero]) simp
    show "hoare (all_told cx R tx c r) (ret (effect tx ok amount r)) (left_by cx R tx c)" if "\<not> ok"
      using that by (intro hoare_ret) simp
    show "hoare (all_told cx R tx c r)
      (case r of NoAccount \<Rightarrow> raise AttributeError
       | At a \<Rightarrow> bnd (load_user_record cx (tx_sender tx)) (\<lambda>found.
           bnd (case found of None \<Rightarrow> ret (False, 0)
                | Some x \<Rightarrow> bnd (put_user_record cx (tx_sender tx) (x\<lparr>ur_balance := ur_balance x + amount\<rparr>)) (\<lambda>_. ret (True, amount)))
             (\<lambda>(ok, amount). bnd (sync_data_hash a) (\<lambda>_. bnd (add_balance a amount) (\<lambda>_. ret (effect tx ok amount r)))))
       | Loose x \<Rightarrow> ret (effect tx False 0 r)) (left_by cx R tx c)"
    proof (cases r)
      case (At a)
      show ?thesis
        unfolding At account_ref.case all_told_At
        by (cases "a = tx_recipient tx")
          (simp_all add: hoare_def [where P = "\<lambda>_. False"] hoare_bnd [OF _ found] sums_rules)
    qed (simp_all add: hoare_raise left_by_fails)
  qed
qed

lemma sums_initial:
  "hoare (sums_to cx R c) (handle_storage_initial_contract cx tx a b fees) (\<lambda>fee s. fee \<noteq> None \<longrightarrow> sums_to cx R c s)"
proof -
  let ?Q = "\<lambda>fee s. fee \<noteq> None \<longrightarrow> sums_to cx R c s"
  have pay: "hoare (sums_to cx R c) (bnd (add_balance b n) (\<lambda>_. bnd (add_balance a (- n)) (\<lambda>_. ret (Some n)))) ?Q" for n
    by (rule hoare_bnd, rule sums_rules, rule hoare_bnd, rule sums_rules, rule hoare_ret) simp
  have none: "hoare P (ret None) ?Q" for P
    by (simp add: hoare_def)
  show ?thesis
    unfolding handle_storage_initial_contract_def
    by (rule sums_catch, (rule pay none | rule hoare_bnd hoare_if hoare_option sums_account_same sums_rules)+, simp)
qed

lemma all_told_storage:
  "tx_recipient tx = STORAGE_ADDRESS \<Longrightarrow> all_told cx R tx c r s \<Longrightarrow> sums_to cx R c s \<and> (r = NoAccount \<or> r = At (tx_recipient tx))"
  by (cases r) (auto simp: all_told_def sums_to_def outside_def recipient_fits_def)

lemma hoare_one:
  assumes "\<And>a. hoare P (f a) Q" "hoare P m Q"
  shows "hoare P (case xs of [] \<Rightarrow> m | [a] \<Rightarrow> f a | a # b # ys \<Rightarrow> m) Q"
  using assms by (auto split: list.splits)

lemma left_by_create:
  assumes "tx_code tx = STORAGE_CREATE" "ok \<longrightarrow> amount = tx_amount tx"
  shows "hoare (sums_to cx R c) (storage_create_effects nested cx tx ok amount) (left_by cx R tx c)"
proof -
  have charge: "hoare (all_told cx R tx c r)
      (bnd (handle_storage_initial_contract cx tx a b fees) (\<lambda>fee. ret (effect tx (fee \<noteq> None) (tx_amount tx) r)))
      (left_by cx R tx c)"
    if "tx_recipient tx = STORAGE_ADDRESS" "\<not> tx_amount tx > 0" for r a b fees
  proof (cases "r = NoAccount \<or> r = At (tx_recipient tx)")
    case True
    have "hoare (sums_to cx R c) (bnd (handle_storage_initial_contract cx tx a b fees)
        (\<lambda>fee. ret (effect tx (fee \<noteq> None) (tx_amount tx) r))) (left_by cx R tx c)"
      by (rule hoare_bnd, rule sums_initial, rule hoare_ret)
        (use assms that True in \<open>auto simp: left_by_def beside_def intro!: all_told_inside\<close>)
    then show ?thesis by (rule hoare_pre) (use that all_told_storage in blast)
  next
    case False
    then show ?thesis using all_told_storage [OF that(1)] unfolding hoare_def by blast
  qed
  show ?thesis
    unfolding storage_create_effects_def
  proof (rule hoare_bnd, rule sums_recipient, rule hoare_if)
    fix r
    show "hoare (all_told cx R tx c r) (ret (effect tx ok 0 r)) (left_by cx R tx c)"
      if "tx_recipient tx \<noteq> STORAGE_ADDRESS"
      by (rule hoare_ret, rule left_by_effect) (use assms(1) that in \<open>simp_all add: beside_def\<close>)
    show "hoare (all_told cx R tx c r)
      (let (ok, amount) = (if amount > 0 then (False, 0) else (ok, amount)) in
       if \<not> ok then ret (effect tx ok amount r)
       else (case data_nodes (cx_hash cx) (tx_data tx) of
               [n] \<Rightarrow>
                 if get_expr_builtin_tag (cx_hash cx) n \<noteq> u ''link'' \<or> head_hash_of n = None \<and> head_of n = None
                 then ret (effect tx False amount r)
                 else
                   bnd (handle_storage_initial_contract cx tx (tx_sender tx) STORAGE_ADDRESS (base_fee nested + amount))
                     (\<lambda>fee. ret (effect tx (fee \<noteq> None) amount r))
             | _ \<Rightarrow> ret (effect tx False amount r))) (left_by cx R tx c)"
      if "\<not> tx_recipient tx \<noteq> STORAGE_ADDRESS"
    proof (cases "amount > 0 \<or> \<not> ok")
      case True
      then show ?thesis by (auto simp: Let_def left_by_fails)
    next
      case False
      then have amount: "\<not> tx_amount tx > 0" "amount = tx_amount tx" "ok" using assms(2) by auto
      have "tx_recipient tx = STORAGE_ADDRESS" using that by simp
      note paid = charge [OF this amount(1)]
      show ?thesis
        unfolding Let_def amount(2) if_not_P [OF amount(1)] prod.case
        by (rule hoare_one hoare_if left_by_fails paid | use amount(3) in simp)+
    qed
  qed
qed

lemma left_by_payment:
  assumes "tx_code tx = STORAGE_PAYMENT" "ok \<longrightarrow> amount = tx_amount tx"
  shows "hoare (sums_to cx R c) (storage_payment_effects cx tx ok amount) (left_by cx R tx c)"
proof -
  have last: "hoare (\<lambda>s. n \<noteq> 0 \<longrightarrow> sums_to cx R (c + n) s)
      (bnd (if amount > 0 then add_at r amount else ret r)
        (\<lambda>r. ret ((effect tx (ok \<and> n \<noteq> 0) amount r)\<lparr>ef_minted := n\<rparr>))) (left_by cx R tx c)"
    if "tx_recipient tx = STORAGE_ADDRESS" "r = NoAccount \<or> r = At (tx_recipient tx)" for r n
  proof (cases "ok \<and> n \<noteq> 0")
    case True
    have told: "hoare (sums_to cx R (c + n)) (if amount > 0 then add_at r amount else ret r)
        (\<lambda>r. all_told cx R tx (c + n + max 0 amount) r)"
    proof (rule hoare_if)
      assume "amount > 0"
      then show "hoare (sums_to cx R (c + n)) (add_at r amount) (\<lambda>r. all_told cx R tx (c + n + max 0 amount) r)"
        by (simp add: max_def, intro hoare_pre [OF told_add_at] all_told_inside) (use that in auto)
    next
      assume "\<not> amount > 0"
      then show "hoare (sums_to cx R (c + n)) (ret r) (\<lambda>r. all_told cx R tx (c + n + max 0 amount) r)"
        by (intro hoare_ret) (use that in \<open>auto simp: max_def intro!: all_told_inside\<close>)
    qed
    have "hoare (sums_to cx R (c + n)) (bnd (if amount > 0 then add_at r amount else ret r)
        (\<lambda>r. ret ((effect tx (ok \<and> n \<noteq> 0) amount r)\<lparr>ef_minted := n\<rparr>))) (left_by cx R tx c)"
    proof (rule hoare_bnd, rule told, rule hoare_ret)
      fix r s
      assume "all_told cx R tx (c + n + max 0 amount) r s"
      moreover have "c + n + max 0 amount = c + amount + n + max 0 (- amount)" by (simp add: max_def)
      ultimately have "all_told cx R tx (c + amount + n + max 0 (- amount)) r s" by (simp only:)
      then show "left_by cx R tx c ((effect tx (ok \<and> n \<noteq> 0) amount r)\<lparr>ef_minted := n\<rparr>) s"
        using assms that True by (simp add: left_by_def beside_def effect_def)
    qed
    with True show ?thesis by (simp only: simp_thms)
  next
    case False
    then show ?thesis by (auto simp: hoare_def bnd_Inr left_by_def effect_def)
  qed
  show ?thesis
    unfolding storage_payment_effects_def
  proof (rule hoare_bnd, rule sums_recipient, rule hoare_if)
    fix r
    show "hoare (all_told cx R tx c r) (ret (effect tx ok 0 r)) (left_by cx R tx c)"
      if "tx_recipient tx \<noteq> STORAGE_ADDRESS"
      by (rule hoare_ret, rule left_by_effect) (use assms(1) that in \<open>simp_all add: beside_def\<close>)
    show "hoare (all_told cx R tx c r)
      (bnd (if ok then handle_storage_payment_contract cx (tx_sender tx) (tx_data tx) else ret 0) (\<lambda>minted.
         bnd (if amount > 0 then add_at r amount else ret r) (\<lambda>r.
           ret ((effect tx (ok \<and> minted \<noteq> 0) amount r)\<lparr>ef_minted := minted\<rparr>)))) (left_by cx R tx c)"
      if "\<not> tx_recipient tx \<noteq> STORAGE_ADDRESS"
    proof (cases "r = NoAccount \<or> r = At (tx_recipient tx)")
      case True
      have "hoare (sums_to cx R c) (if ok then handle_storage_payment_contract cx (tx_sender tx) (tx_data tx) else ret 0)
          (\<lambda>n s. n \<noteq> 0 \<longrightarrow> sums_to cx R (c + n) s)"
        by (rule hoare_if, rule sums_payment, rule hoare_ret) simp
      from hoare_bnd [OF this last [OF _ True]] that
      have "hoare (sums_to cx R c)
        (bnd (if ok then handle_storage_payment_contract cx (tx_sender tx) (tx_data tx) else ret 0) (\<lambda>minted.
           bnd (if amount > 0 then add_at r amount else ret r) (\<lambda>r.
             ret ((effect tx (ok \<and> minted \<noteq> 0) amount r)\<lparr>ef_minted := minted\<rparr>)))) (left_by cx R tx c)"
        by blast
      then show ?thesis by (rule hoare_pre) (use all_told_storage that in blast)
    next
      case False
      then show ?thesis using all_told_storage that unfolding hoare_def by blast
    qed
  qed
qed


definition transferred :: "transaction \<Rightarrow> int" where
  "transferred tx =
     (if tx_code tx \<in> {CHANNEL_WITHDRAW, TREASURY_BORROW, TREASURY_GUARANTEE, TREASURY_BUY} then 0 else tx_amount tx)"

definition run_keeps :: "apply_ctx \<Rightarrow> rtree option \<Rightarrow> transaction \<Rightarrow> bool" where
  "run_keeps W R tx \<longleftrightarrow>
     (\<forall>e c. hoare (sums_to (ap_cx W) R c) (ap_run W tx e) (\<lambda>_. sums_to (ap_cx W) R c))"

lemma sums_call:
  assumes "run_keeps W R tx"
  shows "hoare (sums_to (ap_cx W) R c) (handle_expression_account_call W tx)
           (\<lambda>p s. fst p \<longrightarrow> sums_to (ap_cx W) R (c + tx_amount tx) s)"
proof -
  let ?Q = "\<lambda>p s. fst p \<longrightarrow> sums_to (ap_cx W) R (c + tx_amount tx) s"
  have failed: "hoare P (ret (False, 0, [], r)) ?Q" for P r
    by (simp add: hoare_def)
  have ends: "hoare (sums_to (ap_cx W) R (c + tx_amount tx))
      (if fin then ret (True, used, logs, r)
       else bnd (account_of a) (\<lambda>x. bnd (update (restore snap)) (\<lambda>_. ret (False, used, logs, Loose x)))) ?Q"
    for fin used logs r a snap
    by (cases fin) (auto simp: hoare_def bnd_Inr)
  have run: "hoare (sums_to (ap_cx W) R d) (ap_run W tx e) (\<lambda>_. sums_to (ap_cx W) R d)" for d e
    using assms by (simp add: run_keeps_def)
  show ?thesis
    unfolding handle_expression_account_call_def Let_def
    by (rule failed ends | rule hoare_bnd sums_load_same sums_account_same sums_rules run hoare_if hoare_option hoare_prod)+
qed

lemma left_by_call:
  assumes "tx_code tx = CODE_ACCOUNT_CALL" "ok \<longrightarrow> amount = tx_amount tx" "run_keeps W R tx"
  shows "hoare (sums_to (ap_cx W) R c) (call_effects W tx ok amount) (left_by (ap_cx W) R tx c)"
proof -
  let ?cx = "ap_cx W"
  let ?e = "\<lambda>fin used logs sender n r. (effect tx fin n r)\<lparr>ef_sender := sender, ef_used := used, ef_logs := logs\<rparr>"
  have more: "hoare (\<lambda>s. fin \<longrightarrow> sums_to ?cx R (c + tx_amount tx) s)
      (if \<not> fin then ret (?e fin used logs sender 0 NoAccount)
       else bnd (load_account ?cx (tx_sender tx)) (\<lambda>_. bnd (load_account ?cx STORAGE_ADDRESS) (\<lambda>_.
         bnd (found_at ?cx (tx_recipient tx)) (\<lambda>r. ret (?e fin used logs sender amount r))))) (left_by ?cx R tx c)"
    if "ok" for fin used logs sender
  proof (cases fin)
    case True
    have "hoare (sums_to ?cx R (c + tx_amount tx))
       (bnd (load_account ?cx (tx_sender tx)) (\<lambda>_. bnd (load_account ?cx STORAGE_ADDRESS) (\<lambda>_.
         bnd (found_at ?cx (tx_recipient tx)) (\<lambda>r. ret (?e fin used logs sender amount r))))) (left_by ?cx R tx c)"
      by (rule hoare_bnd, rule sums_load_same, rule hoare_bnd, rule sums_load_same, rule hoare_bnd, rule sums_found_at,
          rule hoare_ret)
        (use assms that in \<open>auto simp: left_by_def beside_def effect_def intro!: all_told_inside\<close>)
    with True show ?thesis by simp
  next
    case False
    then show ?thesis by (simp add: hoare_def left_by_def effect_def)
  qed
  have "hoare (\<lambda>s. fst p \<longrightarrow> sums_to ?cx R (c + tx_amount tx) s)
      (case p of (fin, used, logs, sender) \<Rightarrow>
        if \<not> fin then ret (?e fin used logs sender 0 NoAccount)
        else bnd (load_account ?cx (tx_sender tx)) (\<lambda>_. bnd (load_account ?cx STORAGE_ADDRESS) (\<lambda>_.
          bnd (found_at ?cx (tx_recipient tx)) (\<lambda>r. ret (?e fin used logs sender amount r))))) (left_by ?cx R tx c)"
    if "ok" for p
    using more [OF that] by (cases p) simp
  then show ?thesis
    unfolding call_effects_def Let_def
    by (intro hoare_if left_by_fails hoare_bnd [OF sums_call [OF assms(3)]]) (auto simp: left_by_fails)
qed

lemma left_by_simple:
  assumes "0 \<in> beside tx"
  shows "hoare (sums_to cx R c) (bnd (get_or_create_recipient cx tx) (\<lambda>r. ret (effect tx ok 0 r))) (left_by cx R tx c)"
    and "hoare (sums_to cx R c) (bnd (get_or_create_recipient cx tx) (\<lambda>r. bnd (add_at r n) (\<lambda>r. ret (effect tx ok n r))))
           (left_by cx R tx c)"
  by (rule hoare_bnd, rule sums_recipient, rule hoare_ret, rule left_by_effect [OF assms], simp)
    (rule hoare_bnd, rule sums_recipient, rule hoare_bnd, rule told_add_at, rule hoare_ret, rule left_by_effect [OF assms], simp)

lemma left_by_account:
  assumes "tx_code tx = CODE_ACCOUNT_CREATE" "ok \<longrightarrow> amount = tx_amount tx"
  shows "hoare (sums_to cx R c)
           (if \<not> ok then ret (effect tx ok 0 NoAccount)
            else bnd (handle_expression_account_create cx tx h) (\<lambda>done. ret (effect tx done (if done then amount else 0) NoAccount)))
           (left_by cx R tx c)"
proof -
  have new: "hoare (\<lambda>s. sums_to cx R c s \<and> worth cx R s h = 0)
      (store_account h (create_account (tx_amount tx) a b p n x y z)) (\<lambda>_. sums_to cx R (c + tx_amount tx))"
    for a b p n x y z
    using sums_store_new [of cx R c h "create_account (tx_amount tx) a b p n x y z"] by (simp add: create_account_def)
  have load: "hoare (sums_to cx R c)
      (bnd (load_account cx h) (\<lambda>found. if found then ret False
         else bnd (store_account h (create_account (tx_amount tx) a b p n x y z)) (\<lambda>_. ret True)))
      (\<lambda>ok s. ok \<longrightarrow> sums_to cx R (c + tx_amount tx) s)" for a b p n x y z
    by (rule hoare_bnd, rule sums_load, rule hoare_if, rule hoare_fails, rule hoare_bnd, rule hoare_pre, rule new)
      (auto intro: hoare_ret)
  have create: "hoare (sums_to cx R c) (handle_expression_account_create cx tx h)
      (\<lambda>ok s. ok \<longrightarrow> sums_to cx R (c + tx_amount tx) s)"
    unfolding handle_expression_account_create_def
    by (rule hoare_option hoare_if hoare_fails load)+
  have "hoare (sums_to cx R c) (bnd (handle_expression_account_create cx tx h)
      (\<lambda>done. ret (effect tx done (if done then amount else 0) NoAccount))) (left_by cx R tx c)" if "ok"
    by (rule hoare_bnd, rule create, rule hoare_ret)
      (use assms that in \<open>auto simp: left_by_def beside_def intro!: all_told_inside\<close>)
  then show ?thesis by (auto simp: left_by_fails)
qed

lemma left_by_withdraw:
  assumes "tx_code tx = CHANNEL_WITHDRAW"
  shows "hoare (sums_to cx R c)
           (bnd (found_at cx (tx_recipient tx)) (\<lambda>r.
              if \<not> ok then ret (effect tx ok 0 r)
              else if r = NoAccount then ret (effect tx False 0 r)
              else bnd (handle_channel_withdraw cx verify tx) (\<lambda>done. ret (effect tx done 0 r))))
           (left_by cx R tx c)"
proof -
  have "hoare (sums_to cx R c) (bnd (handle_channel_withdraw cx verify tx) (\<lambda>done. ret (effect tx done 0 r)))
      (left_by cx R tx c)" if "r = NoAccount \<or> r = At (tx_recipient tx)" for r
    by (rule hoare_bnd, rule sums_channel_withdraw, rule hoare_ret)
      (use assms that in \<open>auto simp: left_by_def beside_def intro!: all_told_inside\<close>)
  then have run: "hoare (\<lambda>s. sums_to cx R c s \<and> (r = NoAccount \<or> r = At (tx_recipient tx)))
      (bnd (handle_channel_withdraw cx verify tx) (\<lambda>done. ret (effect tx done 0 r))) (left_by cx R tx c)" for r
    unfolding hoare_def by blast
  show ?thesis
    by (rule hoare_bnd, rule sums_found_at, (rule hoare_if left_by_fails run | rule hoare_ret, simp)+)
qed

text \<open>The six treasury handlers.\<close>

lemma treasury_handlers:
  defines "moves \<equiv> \<lambda>cx R c n tx ok s. ok \<longrightarrow> (\<exists>d\<in>beside tx. sums_to cx R (c + n + d) s)"
  shows "tx_code tx = TREASURY_BORROW \<Longrightarrow> hoare (sums_to cx R c) (handle_treasury_borrow cx tx h) (moves cx R c 0 tx)"
    and "tx_code tx = TREASURY_GUARANTEE \<Longrightarrow> hoare (sums_to cx R c) (handle_treasury_guarantee cx tx h) (moves cx R c 0 tx)"
    and "tx_code tx = TREASURY_CLAIM \<Longrightarrow> hoare (sums_to cx R c) (handle_treasury_claim cx tx) (moves cx R c 0 tx)"
    and "tx_code tx = TREASURY_REPAY \<Longrightarrow> hoare (sums_to cx R c) (handle_treasury_repay cx tx) (moves cx R c (tx_amount tx) tx)"
    and "tx_code tx = TREASURY_CLOSE \<Longrightarrow> hoare (sums_to cx R c) (handle_treasury_close cx tx) (moves cx R c (tx_amount tx) tx)"
    and "tx_code tx = TREASURY_BUY \<Longrightarrow> hoare (sums_to cx R c) (handle_treasury_buy cx tx) (moves cx R c 0 tx)"
  unfolding moves_def
proof -
  show "hoare (sums_to cx R c) (handle_treasury_close cx tx)
      (\<lambda>ok s. ok \<longrightarrow> (\<exists>d\<in>beside tx. sums_to cx R (c + tx_amount tx + d) s))" if "tx_code tx = TREASURY_CLOSE"
  proof (rule hoare_weaken, rule sums_close, assumption)
    fix ok s
    assume "ok \<longrightarrow> (\<exists>d\<in>{..c + tx_amount tx}. sums_to cx R d s)"
    then show "ok \<longrightarrow> (\<exists>d\<in>beside tx. sums_to cx R (c + tx_amount tx + d) s)"
      using that by (auto simp: beside_def intro!: bexI [of _ "d - (c + tx_amount tx)" for d])
  qed
  show "hoare (sums_to cx R c) (handle_treasury_buy cx tx)
      (\<lambda>ok s. ok \<longrightarrow> (\<exists>d\<in>beside tx. sums_to cx R (c + 0 + d) s))" if "tx_code tx = TREASURY_BUY"
  proof (rule hoare_weaken, rule sums_buy, assumption)
    fix ok s
    assume sold: "ok \<longrightarrow> (\<exists>d\<in>{c + tx_amount tx - 2 * p |p. 0 < p \<and> p \<le> tx_amount tx}. sums_to cx R d s)"
    show "ok \<longrightarrow> (\<exists>d\<in>beside tx. sums_to cx R (c + 0 + d) s)"
    proof
      assume ok
      with sold obtain p where p: "0 < p" "p \<le> tx_amount tx" "sums_to cx R (c + tx_amount tx - 2 * p) s" by auto
      then have "tx_amount tx - 2 * p \<in> beside tx" using that by (auto simp: beside_def)
      moreover have "c + tx_amount tx - 2 * p = c + 0 + (tx_amount tx - 2 * p)" by simp
      ultimately show "\<exists>d\<in>beside tx. sums_to cx R (c + 0 + d) s" using p(3) by metis
    qed
  qed
qed (rule hoare_weaken, rule sums_borrow sums_guarantee sums_treasury_claim sums_repay, assumption,
      force simp: beside_def)+

lemma hoare_map:
  "hoare P m (\<lambda>x s. Q (f x) s) \<Longrightarrow> hoare P (bnd m (\<lambda>x. ret (f x))) Q"
  by (rule hoare_bnd, assumption, rule hoare_ret)

lemma left_by_code:
  assumes amount: "ok \<longrightarrow> amount = transferred tx"
    and run: "tx_code tx = CODE_ACCOUNT_CALL \<longrightarrow> run_keeps W R tx"
  shows "hoare (sums_to (ap_cx W) R c) (code_effects W nested tx h ok amount) (left_by (ap_cx W) R tx c)"
proof -
  let ?cx = "ap_cx W"
  have treasury: "hoare (sums_to ?cx R c) (treasury_effects ?cx tx ok n handler) (left_by ?cx R tx c)"
    "hoare (sums_to ?cx R c) (bnd (treasury_effects ?cx tx ok n handler) (\<lambda>e. ret (if ef_ok e then e else e\<lparr>ef_transfer := 0\<rparr>)))
       (left_by ?cx R tx c)"
    "hoare (sums_to ?cx R c) (bnd (treasury_effects ?cx tx ok n handler) (\<lambda>e. ret ((if ef_ok e then e else e\<lparr>ef_transfer := 0\<rparr>)
        \<lparr>ef_recipient := (if tx_recipient tx = TREASURY_ADDRESS then ef_recipient e else NoAccount)\<rparr>)))
       (left_by ?cx R tx c)"
    if "ok \<Longrightarrow> hoare (sums_to ?cx R c) handler (\<lambda>ok s. ok \<longrightarrow> (\<exists>d\<in>beside tx. sums_to ?cx R (c + n + d) s))"
      "tx_recipient tx \<noteq> TREASURY_ADDRESS \<Longrightarrow> handler = ret False"
    for n handler
  proof -
    note base = left_by_treasury [OF that(1,2), of ok]
    show "hoare (sums_to ?cx R c) (treasury_effects ?cx tx ok n handler) (left_by ?cx R tx c)"
      by (rule hoare_weaken [OF base]) simp_all
    show "hoare (sums_to ?cx R c) (bnd (treasury_effects ?cx tx ok n handler) (\<lambda>e. ret (if ef_ok e then e else e\<lparr>ef_transfer := 0\<rparr>)))
       (left_by ?cx R tx c)"
      by (rule hoare_map, rule hoare_weaken [OF base]) simp_all
    show "hoare (sums_to ?cx R c) (bnd (treasury_effects ?cx tx ok n handler) (\<lambda>e. ret ((if ef_ok e then e else e\<lparr>ef_transfer := 0\<rparr>)
        \<lparr>ef_recipient := (if tx_recipient tx = TREASURY_ADDRESS then ef_recipient e else NoAccount)\<rparr>)))
       (left_by ?cx R tx c)"
    proof (rule hoare_map, rule hoare_weaken [OF base])
      fix e s
      assume "left_by ?cx R tx c e s \<and> (ef_ok e \<longrightarrow> tx_recipient tx = TREASURY_ADDRESS)"
      then show "left_by ?cx R tx c ((if ef_ok e then e else e\<lparr>ef_transfer := 0\<rparr>)
        \<lparr>ef_recipient := (if tx_recipient tx = TREASURY_ADDRESS then ef_recipient e else NoAccount)\<rparr>) s"
        by (cases "ef_ok e") (simp_all add: left_by_def)
    qed simp
  qed
  note handlers = treasury_handlers [where cx = ?cx and R = R and c = c and tx = tx]
  note refuses = treasury_needs_recipient [where cx = ?cx and tx = tx]
  note by_code = code_effects_def Let_def transaction_code.case
  show ?thesis
  proof (cases "tx_code tx")
    case TRANSFER
    show ?thesis unfolding by_code TRANSFER
      by (rule left_by_simple) (simp add: TRANSFER beside_def)
  next
    case CHANNEL_UPDATE
    show ?thesis unfolding by_code CHANNEL_UPDATE
      by (rule left_by_update [OF CHANNEL_UPDATE]) (use amount CHANNEL_UPDATE in \<open>simp add: transferred_def\<close>)
  next
    case CHANNEL_WITHDRAW
    show ?thesis unfolding by_code CHANNEL_WITHDRAW by (rule left_by_withdraw [OF CHANNEL_WITHDRAW])
  next
    case CHANNEL_CLOSE
    show ?thesis unfolding by_code CHANNEL_CLOSE by (rule left_by_close [OF CHANNEL_CLOSE])
  next
    case TREASURY_DEPOSIT
    show ?thesis unfolding by_code TREASURY_DEPOSIT by (rule left_by_deposit [OF TREASURY_DEPOSIT])
  next
    case TREASURY_BORROW
    show ?thesis unfolding by_code TREASURY_BORROW by (rule treasury handlers(1) refuses TREASURY_BORROW | assumption)+
  next
    case TREASURY_REPAY
    show ?thesis unfolding by_code TREASURY_REPAY
      by (rule treasury(3)) (use amount handlers(4) refuses TREASURY_REPAY in \<open>simp_all add: transferred_def\<close>)
  next
    case TREASURY_CLOSE
    show ?thesis unfolding by_code TREASURY_CLOSE
      by (rule treasury(2)) (use amount handlers(5) refuses TREASURY_CLOSE in \<open>simp_all add: transferred_def\<close>)
  next
    case TREASURY_GUARANTEE
    show ?thesis unfolding by_code TREASURY_GUARANTEE by (rule treasury handlers(2) refuses TREASURY_GUARANTEE | assumption)+
  next
    case TREASURY_BUY
    show ?thesis unfolding by_code TREASURY_BUY by (rule treasury handlers(6) refuses TREASURY_BUY | assumption)+
  next
    case TREASURY_CLAIM
    show ?thesis unfolding by_code TREASURY_CLAIM by (rule treasury handlers(3) refuses TREASURY_CLAIM | assumption)+
  next
    case STORAGE_CREATE
    show ?thesis unfolding by_code STORAGE_CREATE
      by (rule left_by_create [OF STORAGE_CREATE]) (use amount STORAGE_CREATE in \<open>simp add: transferred_def\<close>)
  next
    case STORAGE_PAYMENT
    show ?thesis unfolding by_code STORAGE_PAYMENT
      by (rule left_by_payment [OF STORAGE_PAYMENT]) (use amount STORAGE_PAYMENT in \<open>simp add: transferred_def\<close>)
  next
    case STORAGE_REMOVE
    show ?thesis unfolding by_code STORAGE_REMOVE
      by (rule left_by_simple) (simp add: STORAGE_REMOVE beside_def)
  next
    case CODE_ACCOUNT_CREATE
    show ?thesis unfolding by_code CODE_ACCOUNT_CREATE
      by (rule left_by_account [OF CODE_ACCOUNT_CREATE]) (use amount CODE_ACCOUNT_CREATE in \<open>simp add: transferred_def\<close>)
  next
    case CODE_ACCOUNT_CALL
    show ?thesis unfolding by_code CODE_ACCOUNT_CALL
      by (rule left_by_call [OF CODE_ACCOUNT_CALL])
        (use amount run CODE_ACCOUNT_CALL in \<open>simp_all add: transferred_def\<close>)
  qed
qed


section \<open>The handler and what is rolled back\<close>

lemma opening_amount:
  "opening_rule nested tx x = Inr (ok, amount, matched) \<Longrightarrow> ok \<Longrightarrow> amount = transferred tx"
  by (auto simp: opening_rule_def transferred_def Let_def split: if_splits)

lemma hoare_lift_bnd: "(\<And>x. r = Inr x \<Longrightarrow> hoare P (f x) Q) \<Longrightarrow> hoare P (bnd (lift r) f) Q"
  by (auto simp: hoare_def bnd_Inr)

lemma hoare_reads_bnd: "(\<And>s. P s \<Longrightarrow> hoare P (g (f s)) Q) \<Longrightarrow> hoare P (bnd (reads f) g) Q"
  by (auto simp: hoare_def bnd_Inr)

definition run_lawful :: "apply_ctx \<Rightarrow> (block \<Rightarrow> block \<Rightarrow> bool) \<Rightarrow> transaction \<Rightarrow> bool" where
  "run_lawful W L tx \<longleftrightarrow> (tx_code tx = CODE_ACCOUNT_CALL \<longrightarrow> (\<forall>e. lawful L (ap_run W tx e)))"

lemma hoare_lawful: "lawful (ready_on cx R) m \<Longrightarrow> hoare (ready cx R) m (\<lambda>_. ready cx R)"
  unfolding lawful_def hoare_def ready_on_def by (metis snd_conv)

lemma sums_involved:
  "hoare (sums_to cx R c) (update (\<lambda>s. if b then s else s\<lparr>bk_accounts := (bk_accounts s)\<lparr>as_involved := []\<rparr>\<rparr>))
     (\<lambda>_. sums_to cx R c)"
  by (auto simp: hoare_def sums_to_def ready_def coins_def support_def worth_def account_at_def)

lemma sums_roll_back:
  assumes "sums_to cx R c s0"
  shows "hoare (ready cx R) (roll_back cx tx (snapshot s0)) (\<lambda>_. sums_to cx R c)"
  unfolding roll_back_def
proof (rule hoare_bnd)
  show "hoare (ready cx R) (update (restore (snapshot s0))) (\<lambda>_. sums_to cx R c)"
    using restore_sums [OF assms] by (simp add: hoare_def)
  show "hoare (sums_to cx R c) (bnd (load_account cx (tx_sender tx)) (\<lambda>_. bnd (load_account cx STORAGE_ADDRESS)
      (\<lambda>_. ret ()))) (\<lambda>_. sums_to cx R c)" for x
    by (rule hoare_bnd, rule sums_load_same, rule hoare_bnd, rule sums_load_same, rule hoare_ret)
qed

text \<open>What is left when a transaction has failed and is rolled back, and the two cases together.\<close>

definition rolled_as :: "node_ctx \<Rightarrow> rtree option \<Rightarrow> int \<Rightarrow> effects \<Rightarrow> block \<Rightarrow> bool" where
  "rolled_as cx R c e s \<longleftrightarrow> sums_to cx R c s \<and> ef_transfer e = 0 \<and> ef_recipient e = NoAccount"

definition handled :: "node_ctx \<Rightarrow> rtree option \<Rightarrow> transaction \<Rightarrow> int \<Rightarrow> effects \<Rightarrow> block \<Rightarrow> bool" where
  "handled cx R tx c e s \<longleftrightarrow> left_by cx R tx c e s \<and> ready cx R s \<and> (\<not> ef_ok e \<longrightarrow> rolled_as cx R c e s)"

definition saved :: "node_ctx \<Rightarrow> rtree option \<Rightarrow> int \<Rightarrow> block_snapshot \<Rightarrow> bool" where
  "saved cx R c snap \<longleftrightarrow> (\<exists>s0. snap = snapshot s0 \<and> sums_to cx R c s0)"

lemma rolled_simps [simp]:
  "ef_ok (rolled tx e) = False" "ef_transfer (rolled tx e) = 0" "ef_recipient (rolled tx e) = NoAccount"
  by (simp_all add: rolled_def)

lemma handled_rolled: "sums_to cx R c s \<Longrightarrow> handled cx R tx c (rolled tx e) s"
  by (simp add: handled_def rolled_as_def sums_to_def)

lemma handled_run:
  assumes keeps: "tx_code tx = CODE_ACCOUNT_CALL \<longrightarrow> run_keeps W R tx"
    and law: "run_lawful W (ready_on (ap_cx W) R) tx"
  shows "hoare (sums_to (ap_cx W) R c) (run_handler W False tx h)
           (\<lambda>(e, matched, snap) s. handled (ap_cx W) R tx c e s \<and> saved (ap_cx W) R c snap)"
proof -
  let ?cx = "ap_cx W"
  let ?Q = "\<lambda>(e, matched, snap) s. handled ?cx R tx c e s \<and> saved ?cx R c snap"
  have code: "hoare (sums_to ?cx R c)
      (bnd (reads snapshot) (\<lambda>snap. bnd (code_effects W False tx h ok amount) (\<lambda>e.
         if False \<or> ef_ok e then ret (e, matched, snap)
         else bnd (roll_back ?cx tx snap) (\<lambda>_. ret (rolled tx e, matched, snap))))) ?Q"
    if "ok \<longrightarrow> amount = transferred tx" for ok amount matched
  proof (rule hoare_reads_bnd)
    fix s0
    assume s0: "sums_to ?cx R c s0"
    then have snap: "saved ?cx R c (snapshot s0)" unfolding saved_def by blast
    have "lawful (ready_on ?cx R) (code_effects W False tx h ok amount)"
      by (rule ready_law.lawful_code) (use law in \<open>simp_all add: run_lawful_def\<close>)
    from hoare_lawful [OF this]
    have readied: "hoare (sums_to ?cx R c) (code_effects W False tx h ok amount) (\<lambda>_. ready ?cx R)"
      by (rule hoare_pre) (simp add: sums_to_def)
    have "hoare (\<lambda>s. left_by ?cx R tx c e s \<and> ready ?cx R s)
        (if False \<or> ef_ok e then ret (e, matched, snapshot s0)
         else bnd (roll_back ?cx tx (snapshot s0)) (\<lambda>_. ret (rolled tx e, matched, snapshot s0))) ?Q" for e
    proof (rule hoare_if)
      show "hoare (\<lambda>s. left_by ?cx R tx c e s \<and> ready ?cx R s) (ret (e, matched, snapshot s0)) ?Q" if "False \<or> ef_ok e"
        by (rule hoare_ret) (use that snap in \<open>simp add: handled_def\<close>)
      show "hoare (\<lambda>s. left_by ?cx R tx c e s \<and> ready ?cx R s)
          (bnd (roll_back ?cx tx (snapshot s0)) (\<lambda>_. ret (rolled tx e, matched, snapshot s0))) ?Q"
        by (rule hoare_bnd, rule hoare_pre, rule sums_roll_back [OF s0], simp, rule hoare_ret)
          (simp add: handled_rolled snap)
    qed
    then show "hoare (sums_to ?cx R c) (bnd (code_effects W False tx h ok amount) (\<lambda>e.
         if False \<or> ef_ok e then ret (e, matched, snapshot s0)
         else bnd (roll_back ?cx tx (snapshot s0)) (\<lambda>_. ret (rolled tx e, matched, snapshot s0)))) ?Q"
      by (rule hoare_bnd [OF hoare_both [OF left_by_code [OF that keeps] readied]])
  qed
  have opened: "hoare (sums_to ?cx R c) (bnd (lift (opening_rule False tx x)) (\<lambda>(ok, amount, matched).
      bnd (reads snapshot) (\<lambda>snap. bnd (code_effects W False tx h ok amount) (\<lambda>e.
         if False \<or> ef_ok e then ret (e, matched, snap)
         else bnd (roll_back ?cx tx snap) (\<lambda>_. ret (rolled tx e, matched, snap)))))) ?Q" for x
  proof (rule hoare_lift_bnd)
    fix y
    assume "opening_rule False tx x = Inr y"
    then show "hoare (sums_to ?cx R c) (case y of (ok, amount, matched) \<Rightarrow>
      bnd (reads snapshot) (\<lambda>snap. bnd (code_effects W False tx h ok amount) (\<lambda>e.
         if False \<or> ef_ok e then ret (e, matched, snap)
         else bnd (roll_back ?cx tx snap) (\<lambda>_. ret (rolled tx e, matched, snap))))) ?Q"
      by (cases y) (simp only: prod.case, rule code, blast dest: opening_amount)
  qed
  show ?thesis
    unfolding run_handler_def Let_def
    by (rule opened | rule hoare_bnd sums_rules sums_load_same sums_account_same sums_involved hoare_if hoare_raise)+
qed


section \<open>The settlement\<close>

definition fits_settlement :: "effects \<Rightarrow> settlement \<Rightarrow> bool" where
  "fits_settlement e r \<longleftrightarrow> set_transfer_amount r = (if affordable r then ef_transfer e else 0)"

lemma settle_fees_fits: "fits_settlement e (settle_fees b tf df sf (ef_transfer e))"
  by (simp add: fits_settlement_def settle_fees_def Let_def)

definition closing :: "node_ctx \<Rightarrow> rtree option \<Rightarrow> transaction \<Rightarrow> int \<Rightarrow> effects \<Rightarrow> effects \<times> settlement \<times> receipt \<Rightarrow> block \<Rightarrow> bool" where
  "closing cx R tx c e p s \<longleftrightarrow>
     (case p of (e', r, receipt) \<Rightarrow>
        handled cx R tx c e' s \<and> ef_minted e' = ef_minted e
        \<and> settlement_total r = set_transaction_fee r + set_data_fee r + set_storage_fee r + ef_transfer e'
        \<and> transaction_fee receipt = set_transaction_fee r \<and> data_fee receipt = set_data_fee r
        \<and> storage_fee receipt = set_storage_fee r
        \<and> status receipt = (if ef_ok e' then STATUS_SUCCESS else STATUS_FAILED)
        \<and> mint receipt = (if ef_ok e' then ef_minted e' else 0))"

lemma closing_settle:
  assumes saved: "saved (ap_cx W) R c snap" and receipt: "receipt_for h e receipt"
  shows "hoare (handled (ap_cx W) R tx c e) (settle W tx snap e ok receipt) (closing (ap_cx W) R tx c e)"
proof -
  let ?cx = "ap_cx W"
  let ?fees = "\<lambda>e. bnd (account_of (tx_sender tx)) (\<lambda>x.
     ret (e, settle_fees (ac_balance x) (transaction_fee receipt) 0 (storage_fee receipt) (ef_transfer e)))"
  let ?undo = "bnd (roll_back ?cx tx snap) (\<lambda>_. ?fees (rolled tx e))"
  let ?one = "\<lambda>(e', r) s. handled ?cx R tx c e' s \<and> fits_settlement e' r \<and> ef_minted e' = ef_minted e
     \<and> (\<not> ok \<longrightarrow> \<not> ef_ok e')"
  let ?two = "\<lambda>(e', r) s. handled ?cx R tx c e' s \<and> set_transfer_amount r = ef_transfer e' \<and> ef_minted e' = ef_minted e"
  obtain s0 where s0: "snap = snapshot s0" "sums_to ?cx R c s0" using saved unfolding saved_def by blast
  have kept_account: "hoare P (account_of a) (\<lambda>_. P)" for P a
    by (auto simp: hoare_def account_of_eq split: option.splits)
  have fees: "hoare (handled ?cx R tx c e') (?fees e') ?one"
    if "\<not> ok \<longrightarrow> \<not> ef_ok e'" "ef_minted e' = ef_minted e" for e'
    by (rule hoare_bnd, rule kept_account, rule hoare_ret) (use that settle_fees_fits in simp)
  have minted: "ef_minted (rolled tx e) = ef_minted e" by (simp add: rolled_def)
  have undo: "hoare (ready ?cx R) ?undo ?one"
    by (rule hoare_bnd, unfold s0(1), rule sums_roll_back [OF s0(2)], rule hoare_pre, rule fees)
      (simp_all add: minted handled_rolled)
  have one: "hoare (handled ?cx R tx c e) (if ok \<or> \<not> ef_ok e then ?fees e else ?undo) ?one"
  proof (rule hoare_if)
    assume "ok \<or> \<not> ef_ok e"
    then show "hoare (handled ?cx R tx c e) (?fees e) ?one" by (intro fees) auto
  next
    show "hoare (handled ?cx R tx c e) ?undo ?one"
      by (rule hoare_pre, rule undo) (simp add: handled_def)
  qed
  have two: "hoare (?one (e', r))
      (if \<not> affordable r \<and> ok then ?undo
       else ret ((if affordable r then e' else e'\<lparr>ef_ok := False, ef_transfer := 0\<rparr>), r)) ?two" for e' r
  proof (rule hoare_if)
    have "hoare (ready ?cx R) ?undo (\<lambda>p s. ?one p s \<and> fst p = rolled tx e)"
      by (rule hoare_both [OF undo]) (auto simp: hoare_def bnd_Inr)
    then show "hoare (?one (e', r)) ?undo ?two"
      by (rule hoare_weaken) (auto simp: handled_def fits_settlement_def split: if_splits)
    show "hoare (?one (e', r)) (ret ((if affordable r then e' else e'\<lparr>ef_ok := False, ef_transfer := 0\<rparr>), r)) ?two"
      if "\<not> (\<not> affordable r \<and> ok)"
      by (rule hoare_ret)
        (use that in \<open>auto simp: handled_def fits_settlement_def rolled_as_def left_by_def split: if_splits\<close>)
  qed
  let ?final = "\<lambda>e' r. if status receipt \<noteq> (if ef_ok e' then STATUS_SUCCESS else STATUS_FAILED)
       \<or> set_transaction_fee r \<noteq> transaction_fee receipt \<or> set_data_fee r \<noteq> 0 \<or> set_storage_fee r \<noteq> storage_fee receipt
     then make_receipt (transaction_hash receipt) (set_transaction_fee r) (set_storage_fee r) (set_data_fee r)
            (min (execution_fee receipt) (set_transaction_fee r)) (logs_hash receipt) (ef_ok e') (ef_minted e)
     else receipt"
  have three: "closing ?cx R tx c e (e', r, ?final e' r) s" if "?two (e', r) s" for e' r s
  proof -
    from receipt obtain k lh b where "receipt = make_receipt h (1 + ef_used e) k 0 (ef_used e) lh b (ef_minted e)"
      unfolding receipt_for_def by blast
    then have "data_fee receipt = 0" "mint receipt = (if status receipt = STATUS_SUCCESS then ef_minted e else 0)"
      by (simp_all add: make_receipt_def STATUS_SUCCESS_def STATUS_FAILED_def)
    then show ?thesis
      using that
      by (auto simp: closing_def settlement_total_def make_receipt_def STATUS_SUCCESS_def STATUS_FAILED_def)
  qed
  show ?thesis
    unfolding settle_def Let_def
    apply (rule hoare_bnd, rule one, rule hoare_prod)
    apply (rule hoare_bnd)
     apply (rule hoare_pre, rule two, simp)
    apply (rule hoare_prod)
    apply (rule hoare_ret)
    apply (rule three, simp)
    done
qed


section \<open>The end of a transaction\<close>

lemma all_told_same:
  assumes "bk_accounts s' = bk_accounts s"
  shows "all_told cx R tx c r s' = all_told cx R tx c r s"
proof -
  have w: "worth cx R s' = worth cx R s" by (rule worth_same [OF assms])
  moreover have n: "nonce cx R s' = nonce cx R s" by (rule nonce_same [OF assms])
  ultimately have "recipient_fits cx R tx r s' = recipient_fits cx R tx r s"
    by (cases r) (simp_all add: recipient_fits_def)
  moreover have "ready cx R s' = ready cx R s" unfolding ready_def assms ..
  ultimately show ?thesis unfolding all_told_def coins_same [OF w] by simp
qed

lemma told_kept: "kept m \<Longrightarrow> hoare (all_told cx R tx c r) m (\<lambda>_. all_told cx R tx c r)"
  unfolding hoare_def using kept_run all_told_same by metis

lemma sums_kept: "kept m \<Longrightarrow> hoare (sums_to cx R c) m (\<lambda>_. sums_to cx R c)"
proof -
  have "all_told cx R tx c NoAccount = sums_to cx R c" for tx
    by (rule ext) (simp add: all_told_def sums_to_def outside_def recipient_fits_def)
  from told_kept [where r = NoAccount and m = m and cx = cx and R = R and c = c, unfolded this]
  show "kept m \<Longrightarrow> ?thesis" .
qed

lemma told_change:
  assumes "\<And>x. ac_balance (f x) = ac_balance x + n" "a = tx_sender tx \<or> a = STORAGE_ADDRESS"
  shows "hoare (all_told cx R tx c r) (change_account a f) (\<lambda>_. all_told cx R tx (c + n) r)"
proof -
  have "all_told cx R tx (c + n) r (put_cached a (f x) s)" if "all_told cx R tx c r s" "cached s a = Some x" for s x
    using that assms
    by (cases r) (auto simp: all_told_def recipient_fits_def coins_put worth_cached outside_def)
  then show ?thesis by (auto simp: hoare_def change_account_Inr)
qed

lemma told_balance:
  "a = tx_sender tx \<or> a = STORAGE_ADDRESS \<Longrightarrow>
     hoare (all_told cx R tx c r) (add_balance a n) (\<lambda>_. all_told cx R tx (c + n) r)"
  unfolding add_balance_def by (rule told_change) simp_all

lemma told_set_at: "hoare (all_told cx R tx c r) (set_at (tx_recipient tx) r) (\<lambda>_. sums_to cx R c)"
proof (cases r)
  case NoAccount
  then show ?thesis
    unfolding set_at_def NoAccount account_ref.case
    by (intro hoare_ret) (simp add: all_told_def sums_to_def outside_def)
next
  case (At a)
  have "hoare (sums_to cx R c) (touch_account (tx_recipient tx)) (\<lambda>_. sums_to cx R c)" by (rule sums_rules)
  then show ?thesis
    unfolding set_at_def At account_ref.case touch_account_def
    by (cases "a = tx_recipient tx") (auto simp: hoare_def all_told_At)
next
  case (Loose x)
  show ?thesis
    unfolding set_at_def Loose account_ref.case
  proof (cases "tx_recipient tx \<in> {tx_sender tx, STORAGE_ADDRESS}")
    case False
    show "hoare (all_told cx R tx c (Loose x)) (store_account (tx_recipient tx) x) (\<lambda>_. sums_to cx R c)"
      by (rule hoare_weaken, rule sums_store_new [where c = "c - ac_balance x"])
        (auto simp: all_told_def sums_to_def outside_def recipient_fits_def)
  qed (simp add: hoare_def all_told_def recipient_fits_def)
qed

lemma handled_told:
  assumes "closing cx R tx c e (e', r, receipt) s"
  shows "\<exists>d\<in>(if ef_ok e' then beside tx else {0}).
           all_told cx R tx (c + ef_transfer e' + mint receipt + d) (ef_recipient e') s"
proof (cases "ef_ok e'")
  case True
  from assms have "left_by cx R tx c e' s" "mint receipt = ef_minted e'"
    unfolding closing_def handled_def prod.case using True by simp_all
  with True show ?thesis unfolding left_by_def by simp
next
  case False
  from assms have "rolled_as cx R c e' s" "mint receipt = 0"
    unfolding closing_def handled_def prod.case using False by simp_all
  then show ?thesis unfolding rolled_as_def using False by (simp add: all_told_inside)
qed

definition finish_transaction ::
  "apply_ctx \<Rightarrow> transaction \<Rightarrow> bytes \<Rightarrow> effects \<Rightarrow> bool \<Rightarrow> (bytes \<times> bytes list) list \<Rightarrow> effects \<times> settlement \<times> receipt
     \<Rightarrow> (bool \<times> int \<times> expr list) act" where
  "finish_transaction W tx tx_hash e matched batches p =
     (case p of (e', r, receipt) \<Rightarrow>
      bnd (finalize_pending_bloom_inserts W (ef_ok e')) (\<lambda>_.
      bnd (if ef_logs e = [] then ret () else add_pending [logs_list (ef_logs e)]) (\<lambda>_.
      bnd (if ef_ok e' then insert_batches W batches else ret ()) (\<lambda>_.
      bnd (add_balance (tx_sender tx) (- settlement_total r)) (\<lambda>_.
      bnd (add_balance STORAGE_ADDRESS (set_storage_fee r)) (\<lambda>_.
      bnd (if matched then change_account (tx_sender tx) (\<lambda>x. x\<lparr>ac_counter := ac_counter x + 1\<rparr>) else ret ()) (\<lambda>_.
      bnd (set_at (tx_recipient tx) (ef_recipient e')) (\<lambda>_.
      bnd (touch_account (tx_sender tx)) (\<lambda>_.
      bnd (touch_account STORAGE_ADDRESS) (\<lambda>_.
      bnd (update (\<lambda>s. s\<lparr>bk_transactions := bk_transactions s @ [tx]\<rparr>)) (\<lambda>_.
      bnd (put_receipt (ap_cx W) tx_hash receipt) (\<lambda>_.
      bnd (update (\<lambda>s. s\<lparr>bk_receipts := bk_receipts s @ [receipt]\<rparr>)) (\<lambda>_.
        ret (ef_ok e', execution_fee receipt, ef_logs e))))))))))))))"

lemma apply_split:
  "apply_tx_effects W tx tx_hash =
     bnd (run_handler W False tx tx_hash) (\<lambda>(e, matched, snap).
     bnd (late_checks W tx tx_hash e) (\<lambda>(ok, receipt, batches).
     bnd (settle W tx snap e ok receipt) (finish_transaction W tx tx_hash e matched batches)))"
  unfolding apply_tx_effects_def finish_transaction_def Let_def ..

text \<open>What the receipt says of the sum of all balances.\<close>

definition accounted :: "node_ctx \<Rightarrow> rtree option \<Rightarrow> transaction \<Rightarrow> int \<Rightarrow> bool \<Rightarrow> block \<Rightarrow> bool" where
  "accounted cx R tx c ok s \<longleftrightarrow>
     (\<exists>r d. bk_receipts s \<noteq> [] \<and> last (bk_receipts s) = r \<and> status r = (if ok then STATUS_SUCCESS else STATUS_FAILED)
        \<and> d \<in> (if ok then beside tx else {0}) \<and> (ok \<or> mint r = 0)
        \<and> sums_to cx R (c - transaction_fee r - data_fee r + mint r + d) s)"

lemma hoare_finish:
  "hoare (closing (ap_cx W) R tx c e p) (finish_transaction W tx h e matched batches p)
     (\<lambda>(ok, _) s. accounted (ap_cx W) R tx c ok s)"
proof -
  let ?cx = "ap_cx W"
  obtain e' r receipt where p: "p = (e', r, receipt)" by (cases p)
  let ?all = "\<lambda>k. all_told ?cx R tx k (ef_recipient e')"
  let ?paid = "\<lambda>k s. sums_to ?cx R k s"
  have keep: "hoare (?all k) m (\<lambda>_. ?all k)" if "kept m" for k and m :: "'x act"
    by (rule told_kept [OF that])
  have logs: "kept (if ef_logs e = [] then ret () else add_pending [logs_list (ef_logs e)])"
    and ins: "kept (if ef_ok e' then insert_batches W batches else ret ())"
    by (rule kept_rules)+
  have counted: "hoare (?all k) (if matched then change_account (tx_sender tx) (\<lambda>x. x\<lparr>ac_counter := ac_counter x + 1\<rparr>)
      else ret ()) (\<lambda>_. ?all k)" for k
    using told_change [where n = 0 and f = "\<lambda>x. x\<lparr>ac_counter := ac_counter x + 1\<rparr>" and a = "tx_sender tx" and tx = tx]
    by (auto intro: hoare_ret)
  have ends: "hoare (?paid k) (update (\<lambda>s. s\<lparr>bk_receipts := bk_receipts s @ [receipt]\<rparr>))
      (\<lambda>_ s. ?paid k s \<and> bk_receipts s \<noteq> [] \<and> last (bk_receipts s) = receipt)" for k
    by (auto simp: hoare_def sums_to_def ready_def coins_def support_def worth_def account_at_def)
  have run: "hoare (?all k) (finish_transaction W tx h e matched batches p)
      (\<lambda>(ok, _) s. ok = ef_ok e' \<and> bk_receipts s \<noteq> [] \<and> last (bk_receipts s) = receipt
         \<and> ?paid (k - settlement_total r + set_storage_fee r) s)" for k
    unfolding finish_transaction_def p prod.case
    apply (rule hoare_bnd, rule keep, rule kept_rules)
    apply (rule hoare_bnd, rule keep, rule logs)
    apply (rule hoare_bnd, rule keep, rule ins)
    apply (rule hoare_bnd, rule told_balance, simp)
    apply (rule hoare_bnd, rule told_balance, simp)
    apply (rule hoare_bnd, rule counted)
    apply (rule hoare_bnd, rule told_set_at)
    apply (rule hoare_bnd, rule sums_touch)
    apply (rule hoare_bnd, rule sums_touch)
    apply (rule hoare_bnd, rule sums_update, simp)
    apply (rule hoare_bnd, rule sums_kept, rule kept_rules)
    apply (rule hoare_bnd, rule ends)
    apply (rule hoare_ret, simp)
    done
  show ?thesis
    unfolding hoare_def
  proof (intro allI impI)
    fix s x s'
    assume s: "closing ?cx R tx c e p s" and fin: "finish_transaction W tx h e matched batches p s = (Inr x, s')"
    obtain d where d: "d \<in> (if ef_ok e' then beside tx else {0})"
      and told: "?all (c + ef_transfer e' + mint receipt + d) s"
      using handled_told s unfolding p by blast
    obtain ok used logs where x: "x = (ok, used, logs)" by (cases x)
    from run [unfolded hoare_def, rule_format, OF told fin]
    have ok: "ok = ef_ok e'" and receipts: "bk_receipts s' \<noteq> []" "last (bk_receipts s') = receipt"
      and paid: "?paid (c + ef_transfer e' + mint receipt + d - settlement_total r + set_storage_fee r) s'"
      unfolding x by simp_all
    from s have total: "c + ef_transfer e' + mint receipt + d - settlement_total r + set_storage_fee r
          = c - transaction_fee receipt - data_fee receipt + mint receipt + d"
      and status: "status receipt = (if ef_ok e' then STATUS_SUCCESS else STATUS_FAILED)"
      and minted: "ok \<or> mint receipt = 0"
      unfolding closing_def p prod.case ok by simp_all
    show "(case x of (ok, _) \<Rightarrow> \<lambda>s. accounted ?cx R tx c ok s) s'"
      unfolding x prod.case accounted_def
      using receipts status minted d paid [unfolded total] unfolding ok by blast
  qed
qed

lemma apply_late:
  "hoare (\<lambda>s. handled cx R tx c e s \<and> saved cx R c snap) (late_checks W tx h e)
     (\<lambda>q s. (handled cx R tx c e s \<and> saved cx R c snap) \<and> receipt_for h e (fst (snd q)))"
proof -
  have same: "handled cx R tx c e s' = handled cx R tx c e s" if "bk_accounts s' = bk_accounts s" for s s'
  proof -
    have "left_by cx R tx c e s' = left_by cx R tx c e s" unfolding left_by_def all_told_same [OF that] ..
    moreover have "ready cx R s' = ready cx R s" unfolding ready_def that ..
    moreover have "rolled_as cx R c e s' = rolled_as cx R c e s"
      unfolding rolled_as_def sums_to_def coins_same [OF worth_same [OF that]] ready_def that ..
    ultimately show ?thesis unfolding handled_def by simp
  qed
  show ?thesis
    unfolding hoare_def
  proof (intro allI impI)
    fix s q s'
    assume s: "handled cx R tx c e s \<and> saved cx R c snap" and run: "late_checks W tx h e s = (Inr q, s')"
    have "receipt_for h e (fst (snd q))"
      using late_checks_receipt [of W tx h e] run unfolding hoare_def by (cases q) fastforce
    with s same [OF kept_run [OF kept_late_checks run]]
    show "(handled cx R tx c e s' \<and> saved cx R c snap) \<and> receipt_for h e (fst (snd q))" by blast
  qed
qed

lemma apply_rest:
  "hoare (\<lambda>s. (handled (ap_cx W) R tx c e s \<and> saved (ap_cx W) R c snap) \<and> receipt_for h e (fst (snd q)))
     (case q of (ok, receipt, batches) \<Rightarrow>
        bnd (settle W tx snap e ok receipt) (finish_transaction W tx h e matched batches))
     (\<lambda>(ok, _) s. accounted (ap_cx W) R tx c ok s)"
proof (cases q)
  case (fields ok receipt batches)
  have "hoare (handled (ap_cx W) R tx c e)
      (bnd (settle W tx snap e ok receipt) (finish_transaction W tx h e matched batches))
      (\<lambda>(ok, _) s. accounted (ap_cx W) R tx c ok s)"
    if "saved (ap_cx W) R c snap" "receipt_for h e receipt"
    by (rule hoare_bnd, rule closing_settle [OF that], rule hoare_finish)
  then show ?thesis unfolding fields prod.case hoare_def by auto
qed

lemma apply_accounted:
  assumes "ready (ap_cx W) R s"
    and "apply_tx_effects W tx h s = (Inr (ok, used, logs), s')"
    and "tx_code tx = CODE_ACCOUNT_CALL \<longrightarrow> run_keeps W R tx"
    and "run_lawful W (ready_on (ap_cx W) R) tx"
  shows "accounted (ap_cx W) R tx (coins (ap_cx W) R s) ok s'"
proof -
  let ?cx = "ap_cx W" and ?c = "coins (ap_cx W) R s"
  have "hoare (sums_to ?cx R ?c) (apply_tx_effects W tx h) (\<lambda>(ok, _) s. accounted ?cx R tx ?c ok s)"
    unfolding apply_split
  proof (rule hoare_bnd, rule handled_run [OF assms(3,4)])
    fix p :: "effects \<times> bool \<times> block_snapshot"
    obtain e matched snap where p: "p = (e, matched, snap)" by (cases p)
    let ?pre = "\<lambda>s. handled ?cx R tx ?c e s \<and> saved ?cx R ?c snap"
    have late: "hoare ?pre (late_checks W tx h e) (\<lambda>q s. ?pre s \<and> receipt_for h e (fst (snd q)))"
      by (rule apply_late)
    show "hoare ((case p of (e, matched, snap) \<Rightarrow> \<lambda>s. handled ?cx R tx ?c e s \<and> saved ?cx R ?c snap))
        (case p of (e, matched, snap) \<Rightarrow> bnd (late_checks W tx h e) (\<lambda>(ok, receipt, batches).
           bnd (settle W tx snap e ok receipt) (finish_transaction W tx h e matched batches)))
        (\<lambda>(ok, _) s. accounted ?cx R tx ?c ok s)"
      unfolding p prod.case
      by (rule hoare_bnd, rule late) (rule apply_rest)
  qed
  with assms(1,2) show "accounted ?cx R tx ?c ok s'" unfolding hoare_def sums_to_def by fastforce
qed

text \<open>
  C2: a transaction that is applied at the top level changes the sum of all balances as its receipt says:
  the transaction fee and the data fee leave, the mint enters, and the storage fee only moves to the
  storage account. What the sum changes by besides is in \<open>beside\<close>, which is nothing for a transfer, for
  the other storage and treasury transactions and for the expression accounts; a failed transaction
  mints nothing and changes the sum by its fees alone. This holds whatever fails on the way, from the
  handler to the last check, as long as a contract's run keeps the sum itself.
\<close>

theorem apply_supply:
  assumes "ready (ap_cx W) R s"
    and "apply_tx_effects W tx h s = (Inr (ok, used, logs), s')"
    and "tx_code tx = CODE_ACCOUNT_CALL \<longrightarrow> run_keeps W R tx"
    and "run_lawful W (ready_on (ap_cx W) R) tx"
  shows "\<exists>r d. bk_receipts s' \<noteq> [] \<and> last (bk_receipts s') = r
           \<and> status r = (if ok then STATUS_SUCCESS else STATUS_FAILED)
           \<and> d \<in> (if ok then beside tx else {0}) \<and> (ok \<or> mint r = 0)
           \<and> coins (ap_cx W) R s' = coins (ap_cx W) R s - transaction_fee r - data_fee r + mint r + d"
  using apply_accounted [OF assms] unfolding accounted_def sums_to_def by blast

text \<open>A transfer of 5, on a block of three accounts.\<close>

definition demo_apply :: apply_ctx where
  "demo_apply =
     \<lparr>ap_cx = demo_cx\<lparr>cx_hash := (\<lambda>x. [of_nat (length x)]), cx_fuel := 60\<rparr>, ap_bloom = None,
      ap_verify = (\<lambda>_ _ _. True), ap_run = (\<lambda>_ _. ret (True, 0, []))\<rparr>"

definition apply_block :: block where
  "apply_block = demo_block\<lparr>bk_accounts := (bk_accounts demo_block)\<lparr>as_cache :=
     [([1], demo_account 5000), ([2], demo_account 7), (STORAGE_ADDRESS, demo_account 0)]\<rparr>\<rparr>"

definition demo_transfer :: transaction where
  "demo_transfer =
     demo_withdraw\<lparr>tx_code := TRANSFER, tx_sender := [1], tx_recipient := [2], tx_amount := 5\<rparr>"

lemma demo_applies: "fst (apply_tx_effects demo_apply demo_transfer [9] apply_block) = Inr (True, 0, [])"
  by code_simp

lemma demo_ready: "ready (ap_cx demo_apply) None apply_block"
  by (simp add: ready_def tree_ready_def holds_def root_depth_def apply_block_def demo_block_def new_radix_tree_def)

lemma apply_supply_witness:
  "\<exists>s' r. apply_tx_effects demo_apply demo_transfer [9] apply_block = (Inr (True, 0, []), s')
     \<and> last (bk_receipts s') = r
     \<and> coins (ap_cx demo_apply) None s'
         = coins (ap_cx demo_apply) None apply_block - transaction_fee r - data_fee r + mint r"
proof -
  obtain s' where s': "apply_tx_effects demo_apply demo_transfer [9] apply_block = (Inr (True, 0, []), s')"
    using demo_applies by (metis prod.collapse)
  have code: "tx_code demo_transfer = TRANSFER" by (simp add: demo_transfer_def)
  then have "beside demo_transfer = {0}" by (simp add: beside_def)
  with apply_supply [OF demo_ready s'] code show ?thesis
    using s' by (simp add: run_lawful_def)
qed

end
