(* ===== verification/Apply_Once.thy ===== *)
theory Apply_Once
  imports Apply_Laws
begin

text \<open>
  The counters and the lists of a block while transactions are applied to it: no counter falls, a
  transaction that succeeds has the counter of its sender and raises it, so it succeeds once, and each
  application appends one transaction and one receipt.
\<close>

section \<open>A floor under the counters\<close>

definition at_least :: "node_ctx \<Rightarrow> rtree option \<Rightarrow> (bytes \<Rightarrow> int) \<Rightarrow> block \<Rightarrow> bool" where
  "at_least cx R n s \<longleftrightarrow> ready cx R s \<and> (\<forall>a. n a \<le> nonce cx R s a)"

named_theorems floor_rules \<open>triples that keep a floor under the counters\<close>

lemma lawful_at_least:
  "lawful (nonces_rise cx R) m \<Longrightarrow> hoare (at_least cx R n) m (\<lambda>_. at_least cx R n)"
  unfolding lawful_def hoare_def nonces_rise_def at_least_def by (metis order_trans snd_conv)

lemma at_least_same:
  assumes "bk_accounts s' = bk_accounts s"
  shows "at_least cx R n s' = at_least cx R n s"
  unfolding at_least_def ready_def nonce_same [OF assms] assms ..

lemma kept_at_least: "kept m \<Longrightarrow> hoare (at_least cx R n) m (\<lambda>_. at_least cx R n)"
  unfolding hoare_def using kept_run at_least_same by metis

lemma at_least_change:
  assumes "\<And>x. ac_counter (f x) = ac_counter x + k"
  shows "hoare (at_least cx R n) (change_account a f) (\<lambda>_. at_least cx R (n(a := n a + k)))"
proof -
  have "at_least cx R (n(a := n a + k)) (put_cached a (f x) s)" if "at_least cx R n s" "cached s a = Some x" for s x
    using that assms nonce_cached [of s a x cx R] by (auto simp: at_least_def) metis
  then show ?thesis by (auto simp: hoare_def change_account_Inr)
qed

lemma at_least_balance [floor_rules]: "hoare (at_least cx R n) (add_balance a k) (\<lambda>_. at_least cx R n)"
  by (rule lawful_at_least) (rule nonce_law.lawful_account)

lemma at_least_touch [floor_rules]: "hoare (at_least cx R n) (touch_account a) (\<lambda>_. at_least cx R n)"
  by (rule lawful_at_least) (rule nonce_law.lawful_touch)

lemma at_least_load [floor_rules]: "hoare (at_least cx R n) (load_account cx a) (\<lambda>_. at_least cx R n)"
  by (rule lawful_at_least) (rule nonce_law.lawful_load)

lemma at_least_mono: "at_least cx R n s \<Longrightarrow> (\<And>a. m a \<le> n a) \<Longrightarrow> at_least cx R m s"
  unfolding at_least_def by (meson order_trans)

lemma at_least_update:
  "(\<And>s. bk_accounts (f s) = bk_accounts s) \<Longrightarrow> hoare (at_least cx R n) (update f) (\<lambda>_. at_least cx R n)"
  unfolding hoare_def update_def using at_least_same by (metis prod.inject)

text \<open>What a recipient must be for its account to be stored without a counter falling.\<close>

definition stores_well :: "(bytes \<Rightarrow> int) \<Rightarrow> transaction \<Rightarrow> account_ref \<Rightarrow> bool" where
  "stores_well n tx r =
     (case r of NoAccount \<Rightarrow> True | At a \<Rightarrow> a = tx_recipient tx
      | Loose x \<Rightarrow> tx_recipient tx \<noteq> tx_sender tx \<and> n (tx_recipient tx) \<le> ac_counter x)"

lemma at_least_set:
  assumes "stores_well n tx r"
  shows "hoare (at_least cx R n) (set_at (tx_recipient tx) r) (\<lambda>_. at_least cx R n)"
proof (cases r)
  case NoAccount
  then show ?thesis by (simp add: set_at_def hoare_ret)
next
  case (At a)
  with assms have "set_at (tx_recipient tx) r = touch_account (tx_recipient tx)"
    by (simp add: set_at_def stores_well_def touch_account_def)
  then show ?thesis by (simp add: floor_rules)
next
  case (Loose x)
  with assms show ?thesis
    by (auto simp: set_at_def stores_well_def hoare_def store_account_def at_least_def nonce_store ready_store)
qed

section \<open>The handlers\<close>

lemma hoare_any: "(\<And>x. hoare (\<lambda>_. True) (f x) Q) \<Longrightarrow> hoare P (bnd m f) Q"
  by (fastforce simp: hoare_def bnd_Inr)

lemma code_effects_refuses:
  "hoare (\<lambda>_. True) (code_effects W nested tx h False amount) (\<lambda>e _. \<not> ef_ok e)"
proof -
  have treasury: "hoare (\<lambda>_. True) (treasury_effects cx tx False n m) (\<lambda>e _. \<not> ef_ok e)" for cx n m
    by (simp add: treasury_effects_def hoare_any hoare_ret)
  have mapped: "hoare (\<lambda>_. True) (bnd (treasury_effects cx tx False n m) (\<lambda>e. ret (f e))) (\<lambda>e _. \<not> ef_ok e)"
    if "\<And>e. ef_ok (f e) = ef_ok e" for cx n m f
    by (rule hoare_bnd, rule treasury, rule hoare_ret) (simp add: that)
  have payment: "hoare (\<lambda>_. True) (storage_payment_effects cx tx False amount) (\<lambda>e _. \<not> ef_ok e)" for cx
    by (auto simp: storage_payment_effects_def hoare_def bnd_Inr split: if_splits)
  show ?thesis
    by (cases "tx_code tx")
      (auto simp: code_effects_def Let_def mapped treasury payment update_effects_def close_effects_def
        deposit_effects_def storage_create_effects_def call_effects_def intro!: hoare_any hoare_ret mapped)
qed

lemma call_recipient:
  "hoare (\<lambda>_. True) (call_effects W tx ok amount) (\<lambda>e _. ef_ok e \<longrightarrow> stores_well n tx (ef_recipient e))"
  by (auto simp: call_effects_def Let_def found_at_def hoare_def bnd_Inr stores_well_def)

lemma effects_recipient:
  assumes amount: "ok \<longrightarrow> amount = transferred tx"
    and n: "\<forall>a. n a \<le> nonce (ap_cx W) R s' a" and ready: "ready (ap_cx W) R s"
    and run: "code_effects W False tx h ok amount s = (Inr e, s')" and ok: "ef_ok e"
  shows "stores_well n tx (ef_recipient e)"
proof (cases "tx_code tx = CODE_ACCOUNT_CALL")
  case True
  with run have "call_effects W tx ok amount s = (Inr e, s')" by (simp add: code_effects_def)
  with call_recipient ok show ?thesis unfolding hoare_def by blast
next
  case False
  then have keeps: "tx_code tx = CODE_ACCOUNT_CALL \<longrightarrow> run_keeps W R tx" by simp
  from ready have "sums_to (ap_cx W) R (coins (ap_cx W) R s) s" by (simp add: sums_to_def)
  with left_by_code [OF amount keeps, unfolded hoare_def] run
  have "left_by (ap_cx W) R tx (coins (ap_cx W) R s) e s'" by blast
  with ok obtain c where "all_told (ap_cx W) R tx c (ef_recipient e) s'" unfolding left_by_def by blast
  then have "recipient_fits (ap_cx W) R tx (ef_recipient e) s'" unfolding all_told_def by simp
  with n show ?thesis
    by (cases "ef_recipient e") (simp_all add: recipient_fits_def stores_well_def, metis)
qed


section \<open>One application\<close>

lemma hoare_reads_at:
  "(\<And>s0. P s0 \<Longrightarrow> hoare (\<lambda>s. s = s0) (g (f s0)) Q) \<Longrightarrow> hoare P (bnd (reads f) g) Q"
  by (auto simp: hoare_def bnd_Inr)

lemma at_least_roll_back:
  assumes "at_least cx R n s0"
  shows "hoare (ready cx R) (roll_back cx tx (snapshot s0)) (\<lambda>_. at_least cx R n)"
  unfolding roll_back_def
proof (rule hoare_bnd)
  show "hoare (ready cx R) (update (restore (snapshot s0))) (\<lambda>_. at_least cx R n)"
    using assms by (auto simp: hoare_def at_least_def nonce_restore) (simp add: ready_def restore_def snapshot_def)
qed (rule hoare_bnd floor_rules hoare_ret | assumption)+

definition saved_above :: "node_ctx \<Rightarrow> rtree option \<Rightarrow> (bytes \<Rightarrow> int) \<Rightarrow> block_snapshot \<Rightarrow> bool" where
  "saved_above cx R n snap \<longleftrightarrow> (\<exists>s0. snap = snapshot s0 \<and> at_least cx R n s0)"

definition ran ::
  "node_ctx \<Rightarrow> rtree option \<Rightarrow> (bytes \<Rightarrow> int) \<Rightarrow> transaction \<Rightarrow> effects \<times> bool \<times> block_snapshot \<Rightarrow> block \<Rightarrow> bool" where
  "ran cx R n tx p s =
     (case p of (e, matched, snap) \<Rightarrow>
        at_least cx R n s \<and> saved_above cx R n snap \<and> stores_well n tx (ef_recipient e)
        \<and> (matched \<longrightarrow> tx_counter tx = n (tx_sender tx)) \<and> (ef_ok e \<longrightarrow> matched))"

lemma opening_matched:
  "opening_rule False tx x = Inr (ok, amount, matched) \<Longrightarrow>
     (matched \<longleftrightarrow> tx_counter tx = ac_counter x) \<and> (ok \<longrightarrow> matched)"
  by (auto simp: opening_rule_def Let_def split: if_splits)

lemma ran_code:
  assumes law: "run_lawful W (nonces_rise (ap_cx W) R) tx"
    and amount: "ok \<longrightarrow> amount = transferred tx"
    and matched: "matched \<longrightarrow> tx_counter tx = n (tx_sender tx)" "ok \<longrightarrow> matched"
    and s0: "at_least (ap_cx W) R n s0"
  shows "hoare (\<lambda>s. s = s0) (bnd (code_effects W False tx h ok amount) (\<lambda>e.
           if False \<or> ef_ok e then ret (e, matched, snapshot s0)
           else bnd (roll_back (ap_cx W) tx (snapshot s0)) (\<lambda>_. ret (rolled tx e, matched, snapshot s0))))
         (ran (ap_cx W) R n tx)"
proof (rule hoare_bnd)
  let ?cx = "ap_cx W"
  let ?Q = "\<lambda>e s. at_least ?cx R n s \<and> (ef_ok e \<longrightarrow> ok \<and> stores_well n tx (ef_recipient e))"
  have "lawful (nonces_rise ?cx R) (code_effects W False tx h ok amount)"
    by (rule nonce_law.lawful_code) (use law in \<open>simp_all add: run_lawful_def\<close>)
  from lawful_at_least [OF this] have floor: "hoare (at_least ?cx R n) (code_effects W False tx h ok amount) (\<lambda>_. at_least ?cx R n)" .
  show "hoare (\<lambda>s. s = s0) (code_effects W False tx h ok amount) ?Q"
    unfolding hoare_def
  proof (intro allI impI)
    fix s e s'
    assume "s = s0" and run: "code_effects W False tx h ok amount s = (Inr e, s')"
    with s0 have s: "at_least ?cx R n s" "ready ?cx R s" by (simp_all add: at_least_def)
    with floor run have s': "at_least ?cx R n s'" unfolding hoare_def by blast
    moreover have "ok" if "ef_ok e"
      using code_effects_refuses [of W False tx h amount] run that unfolding hoare_def by (cases ok) auto
    moreover have "stores_well n tx (ef_recipient e)" if "ef_ok e"
      by (rule effects_recipient [OF amount _ s(2) run that]) (use s' in \<open>simp add: at_least_def\<close>)
    ultimately show "?Q e s'" by blast
  qed
  have saved: "saved_above ?cx R n (snapshot s0)" using s0 unfolding saved_above_def by blast
  show "hoare (?Q e) (if False \<or> ef_ok e then ret (e, matched, snapshot s0)
           else bnd (roll_back ?cx tx (snapshot s0)) (\<lambda>_. ret (rolled tx e, matched, snapshot s0))) (ran ?cx R n tx)" for e
  proof (rule hoare_if)
    show "hoare (?Q e) (ret (e, matched, snapshot s0)) (ran ?cx R n tx)" if "False \<or> ef_ok e"
      by (rule hoare_ret) (use that saved matched in \<open>simp add: ran_def\<close>)
    show "hoare (?Q e) (bnd (roll_back ?cx tx (snapshot s0)) (\<lambda>_. ret (rolled tx e, matched, snapshot s0))) (ran ?cx R n tx)"
      by (rule hoare_bnd, rule hoare_pre, rule at_least_roll_back [OF s0], simp add: at_least_def, rule hoare_ret)
        (use saved matched in \<open>simp add: ran_def stores_well_def\<close>)
  qed
qed

lemma ran_handler:
  assumes law: "run_lawful W (nonces_rise (ap_cx W) R) tx"
  shows "hoare (\<lambda>s. ready (ap_cx W) R s \<and> nonce (ap_cx W) R s = n) (run_handler W False tx h) (ran (ap_cx W) R n tx)"
proof -
  let ?cx = "ap_cx W"
  let ?P = "\<lambda>s. ready ?cx R s \<and> nonce ?cx R s = n"
  have load: "hoare ?P (load_account ?cx a) (\<lambda>_. ?P)" for a
    unfolding hoare_def
  proof (intro allI impI)
    fix s found s'
    assume "?P s" "load_account ?cx a s = (Inr found, s')"
    with nonce_load [of ?cx R s a] show "?P s'" by (simp add: fun_eq_iff)
  qed
  have clear: "hoare ?P (update (\<lambda>s. if b then s else s\<lparr>bk_accounts := (bk_accounts s)\<lparr>as_involved := []\<rparr>\<rparr>)) (\<lambda>_. ?P)" for b
    by (auto simp: hoare_def ready_def nonce_def account_at_def fun_eq_iff)
  have account: "hoare ?P (account_of (tx_sender tx)) (\<lambda>x s. ?P s \<and> ac_counter x = n (tx_sender tx))"
    by (auto simp: hoare_def account_of_eq nonce_cached split: option.splits)
  have opened: "hoare (\<lambda>s. ?P s \<and> ac_counter x = n (tx_sender tx)) (bnd (lift (opening_rule False tx x)) (\<lambda>(ok, amount, matched).
      bnd (reads snapshot) (\<lambda>snap. bnd (code_effects W False tx h ok amount) (\<lambda>e.
         if False \<or> ef_ok e then ret (e, matched, snap)
         else bnd (roll_back ?cx tx snap) (\<lambda>_. ret (rolled tx e, matched, snap)))))) (ran ?cx R n tx)" for x
  proof (rule hoare_lift_bnd)
    fix y
    assume y: "opening_rule False tx x = Inr y"
    obtain ok amount matched where p: "y = (ok, amount, matched)" by (cases y)
    show "hoare (\<lambda>s. ?P s \<and> ac_counter x = n (tx_sender tx)) (case y of (ok, amount, matched) \<Rightarrow>
      bnd (reads snapshot) (\<lambda>snap. bnd (code_effects W False tx h ok amount) (\<lambda>e.
         if False \<or> ef_ok e then ret (e, matched, snap)
         else bnd (roll_back ?cx tx snap) (\<lambda>_. ret (rolled tx e, matched, snap))))) (ran ?cx R n tx)"
      unfolding p prod.case
    proof (rule hoare_reads_at)
      fix s0
      assume s0: "?P s0 \<and> ac_counter x = n (tx_sender tx)"
      have "at_least ?cx R n s0" using s0 by (auto simp: at_least_def)
      moreover have "matched \<longrightarrow> tx_counter tx = n (tx_sender tx)" "ok \<longrightarrow> matched"
        using opening_matched [OF y [unfolded p]] s0 by auto
      moreover have "ok \<longrightarrow> amount = transferred tx" using opening_amount y unfolding p by blast
      ultimately show "hoare (\<lambda>s. s = s0) (bnd (code_effects W False tx h ok amount) (\<lambda>e.
         if False \<or> ef_ok e then ret (e, matched, snapshot s0)
         else bnd (roll_back ?cx tx (snapshot s0)) (\<lambda>_. ret (rolled tx e, matched, snapshot s0)))) (ran ?cx R n tx)"
        by (intro ran_code law)
    qed
  qed
  show ?thesis
    unfolding run_handler_def Let_def
    by (rule opened account load clear | rule hoare_reads_bnd hoare_bnd hoare_if hoare_raise)+
qed


section \<open>What an application leaves\<close>

text \<open>The effects that are settled are those of the handler or none.\<close>

lemma ran_settle:
  "hoare (ran (ap_cx W) R n tx (e, matched, snap)) (settle W tx snap e ok receipt)
     (\<lambda>(e', r, receipt) s. at_least (ap_cx W) R n s \<and> stores_well n tx (ef_recipient e')
        \<and> (matched \<longrightarrow> tx_counter tx = n (tx_sender tx)) \<and> (ef_ok e' \<longrightarrow> matched))"
proof -
  let ?cx = "ap_cx W"
  let ?Q = "\<lambda>e' s. at_least ?cx R n s \<and> stores_well n tx (ef_recipient e')
        \<and> (matched \<longrightarrow> tx_counter tx = n (tx_sender tx)) \<and> (ef_ok e' \<longrightarrow> matched) \<and> saved_above ?cx R n snap"
  let ?fees = "\<lambda>e. bnd (account_of (tx_sender tx)) (\<lambda>x.
     ret (e, settle_fees (ac_balance x) (transaction_fee receipt) 0 (storage_fee receipt) (ef_transfer e)))"
  let ?undo = "bnd (roll_back ?cx tx snap) (\<lambda>_. ?fees (rolled tx e))"
  have fees: "hoare (?Q e') (?fees e') (\<lambda>(e', r). ?Q e')" for e'
    by (auto simp: hoare_def bnd_Inr account_of_eq split: option.splits)
  have undo: "hoare (?Q e') ?undo (\<lambda>(e', r). ?Q e')" for e'
    unfolding hoare_def
  proof (intro allI impI)
    fix s p s'
    assume s: "?Q e' s" and run: "?undo s = (Inr p, s')"
    then obtain s0 where s0: "snap = snapshot s0" "at_least ?cx R n s0" unfolding saved_above_def by blast
    from run obtain s1 where s1: "roll_back ?cx tx snap s = (Inr (), s1)" and fin: "?fees (rolled tx e) s1 = (Inr p, s')"
      by (auto simp: bnd_Inr)
    from at_least_roll_back [OF s0(2), of tx, folded s0(1)] s1 s have "at_least ?cx R n s1"
      unfolding hoare_def at_least_def by blast
    with s have "?Q (rolled tx e) s1" by (simp add: stores_well_def)
    with fees fin show "(\<lambda>(e', r). ?Q e') p s'" unfolding hoare_def by blast
  qed
  have first: "hoare (ran ?cx R n tx (e, matched, snap)) (if ok \<or> \<not> ef_ok e then ?fees e else ?undo) (\<lambda>(e', r). ?Q e')"
  proof (rule hoare_if)
    show "hoare (ran ?cx R n tx (e, matched, snap)) (?fees e) (\<lambda>(e', r). ?Q e')"
      by (rule hoare_pre, rule fees [of e]) (simp add: ran_def)
    show "hoare (ran ?cx R n tx (e, matched, snap)) ?undo (\<lambda>(e', r). ?Q e')"
      by (rule hoare_pre, rule undo [of e]) (simp add: ran_def)
  qed
  have second: "hoare (?Q e') (if \<not> affordable r \<and> ok then ?undo
       else ret ((if affordable r then e' else e'\<lparr>ef_ok := False, ef_transfer := 0\<rparr>), r)) (\<lambda>(e', r). ?Q e')" for e' r
    by (rule hoare_if, rule undo, rule hoare_ret) simp
  show ?thesis
    unfolding settle_def Let_def
    apply (rule hoare_bnd, rule first, rule hoare_prod)
    apply (rule hoare_bnd, rule hoare_pre, rule second, simp)
    apply (rule hoare_prod, rule hoare_ret, simp)
    done
qed

lemma ran_finish:
  "hoare (\<lambda>s. at_least (ap_cx W) R n s \<and> stores_well n tx (ef_recipient e')
        \<and> (matched \<longrightarrow> tx_counter tx = n (tx_sender tx)) \<and> (ef_ok e' \<longrightarrow> matched))
     (finish_transaction W tx h e matched batches (e', r, receipt))
     (\<lambda>(ok, _) s. at_least (ap_cx W) R n s
        \<and> (ok \<longrightarrow> tx_counter tx = n (tx_sender tx) \<and> tx_counter tx < nonce (ap_cx W) R s (tx_sender tx)))"
    (is "hoare ?P ?m ?Q")
proof -
  let ?cx = "ap_cx W" and ?n = "n(tx_sender tx := n (tx_sender tx) + (if matched then 1 else 0))"
  have counted: "hoare (at_least ?cx R n)
      (if matched then change_account (tx_sender tx) (\<lambda>x. x\<lparr>ac_counter := ac_counter x + 1\<rparr>) else ret ())
      (\<lambda>_. at_least ?cx R ?n)"
    using at_least_change [where k = 1 and f = "\<lambda>x. x\<lparr>ac_counter := ac_counter x + 1\<rparr>" and a = "tx_sender tx"]
    by (auto intro: hoare_ret)
  have kept: "kept (if ef_logs e = [] then ret () else add_pending [logs_list (ef_logs e)])"
    "kept (if ef_ok e' then insert_batches W batches else ret ())"
    by (rule kept_rules)+
  have run: "hoare (at_least ?cx R n) ?m (\<lambda>(ok, _) s. at_least ?cx R ?n s \<and> ok = ef_ok e')"
    if "stores_well n tx (ef_recipient e')"
    unfolding finish_transaction_def prod.case
    apply (rule hoare_bnd, rule kept_at_least, rule kept_rules)
    apply (rule hoare_bnd, rule kept_at_least, rule kept)
    apply (rule hoare_bnd, rule kept_at_least, rule kept)
    apply (rule hoare_bnd, rule floor_rules)
    apply (rule hoare_bnd, rule floor_rules)
    apply (rule hoare_bnd, rule counted)
    apply (rule hoare_bnd, rule at_least_set)
    using that apply (auto simp: stores_well_def split: account_ref.splits) [1]
    apply (rule hoare_bnd, rule floor_rules)
    apply (rule hoare_bnd, rule floor_rules)
    apply (rule hoare_bnd, rule at_least_update, simp)
    apply (rule hoare_bnd, rule kept_at_least, rule kept_rules)
    apply (rule hoare_bnd, rule at_least_update, simp)
    apply (rule hoare_ret, simp)
    done
  show ?thesis
    unfolding hoare_def
  proof (intro allI impI)
    fix s x s'
    assume s: "?P s" and fin: "?m s = (Inr x, s')"
    then have "stores_well n tx (ef_recipient e')" "at_least ?cx R n s" by simp_all
    from run [OF this(1), unfolded hoare_def, rule_format, OF this(2) fin]
    obtain used logs where x: "x = (ef_ok e', used, logs)" and floor: "at_least ?cx R ?n s'" by (cases x) auto
    from floor have "\<And>a. ?n a \<le> nonce ?cx R s' a" by (simp add: at_least_def)
    from this [of "tx_sender tx"] have "n (tx_sender tx) + (if matched then 1 else 0) \<le> nonce ?cx R s' (tx_sender tx)" by simp
    moreover have "at_least ?cx R n s'"
      by (rule at_least_mono [OF floor]) simp
    ultimately show "?Q x s'" using s unfolding x by (auto split: if_splits)
  qed
qed

lemma apply_floor:
  assumes "ready (ap_cx W) R s" "run_lawful W (nonces_rise (ap_cx W) R) tx"
    "apply_tx_effects W tx h s = (Inr (ok, used, logs), s')"
  shows "nonces_rise (ap_cx W) R s s'"
    "ok \<Longrightarrow> tx_counter tx = nonce (ap_cx W) R s (tx_sender tx)"
    "ok \<Longrightarrow> tx_counter tx < nonce (ap_cx W) R s' (tx_sender tx)"
proof -
  let ?cx = "ap_cx W" and ?n = "nonce (ap_cx W) R s"
  have late: "hoare (ran ?cx R ?n tx p) (late_checks W tx h e) (\<lambda>_. ran ?cx R ?n tx p)" for e p
  proof -
    obtain e m snap where "p = (e, m, snap)" by (cases p)
    then show ?thesis
      using kept_at_least [OF kept_late_checks [of W tx h], of ?cx R ?n] unfolding hoare_def ran_def by simp blast
  qed
  have "hoare (\<lambda>s'. ready ?cx R s' \<and> nonce ?cx R s' = ?n) (apply_tx_effects W tx h)
     (\<lambda>(ok, _) s. at_least ?cx R ?n s
        \<and> (ok \<longrightarrow> tx_counter tx = ?n (tx_sender tx) \<and> tx_counter tx < nonce ?cx R s (tx_sender tx)))"
    unfolding apply_split
  proof (rule hoare_bnd, rule ran_handler [OF assms(2)])
    fix p :: "effects \<times> bool \<times> block_snapshot"
    obtain e matched snap where p: "p = (e, matched, snap)" by (cases p)
    show "hoare (ran ?cx R ?n tx p) (case p of (e, matched, snap) \<Rightarrow>
        bnd (late_checks W tx h e) (\<lambda>(ok, receipt, batches).
        bnd (settle W tx snap e ok receipt) (finish_transaction W tx h e matched batches)))
      (\<lambda>(ok, _) s. at_least ?cx R ?n s
        \<and> (ok \<longrightarrow> tx_counter tx = ?n (tx_sender tx) \<and> tx_counter tx < nonce ?cx R s (tx_sender tx)))"
      unfolding p prod.case
    proof (rule hoare_bnd, rule late)
      fix q :: "bool \<times> receipt \<times> (bytes \<times> bytes list) list"
      obtain ok receipt batches where q: "q = (ok, receipt, batches)" by (cases q)
      have "hoare ((\<lambda>(e', r, receipt) s. at_least ?cx R ?n s \<and> stores_well ?n tx (ef_recipient e')
            \<and> (matched \<longrightarrow> tx_counter tx = ?n (tx_sender tx)) \<and> (ef_ok e' \<longrightarrow> matched)) y)
          (finish_transaction W tx h e matched batches y) (\<lambda>(ok, _) s. at_least ?cx R ?n s
            \<and> (ok \<longrightarrow> tx_counter tx = ?n (tx_sender tx) \<and> tx_counter tx < nonce ?cx R s (tx_sender tx)))" for y
        by (cases y) (simp only: prod.case ran_finish)
      then show "hoare (ran ?cx R ?n tx (e, matched, snap)) (case q of (ok, receipt, batches) \<Rightarrow>
          bnd (settle W tx snap e ok receipt) (finish_transaction W tx h e matched batches))
        (\<lambda>(ok, _) s. at_least ?cx R ?n s
          \<and> (ok \<longrightarrow> tx_counter tx = ?n (tx_sender tx) \<and> tx_counter tx < nonce ?cx R s (tx_sender tx)))"
        unfolding q prod.case by (rule hoare_bnd [OF ran_settle])
    qed
  qed
  then show "nonces_rise ?cx R s s'" "ok \<Longrightarrow> tx_counter tx = ?n (tx_sender tx)"
    "ok \<Longrightarrow> tx_counter tx < nonce ?cx R s' (tx_sender tx)"
    using assms(1,3) unfolding hoare_def nonces_rise_def at_least_def by fastforce+
qed

section \<open>One transaction and one receipt\<close>

definition listed :: "transaction list \<times> receipt list \<Rightarrow> block \<Rightarrow> bool" where
  "listed p s \<longleftrightarrow> bk_transactions s = fst p \<and> bk_receipts s = snd p"

named_theorems listed_rules \<open>triples that keep the transactions and the receipts\<close>

lemma lawful_listed: "lawful same_record m \<Longrightarrow> hoare (listed p) m (\<lambda>_. listed p)"
  unfolding lawful_def hoare_def same_record_def recorded_def listed_def by (metis prod.inject snd_conv)

lemma kept_listed: "kept m \<Longrightarrow> hoare (listed p) m (\<lambda>_. listed p)"
  unfolding hoare_def listed_def using kept_lists(1,2) by metis

lemma listed_update:
  "(\<And>s. bk_transactions (f s) = bk_transactions s \<and> bk_receipts (f s) = bk_receipts s) \<Longrightarrow>
     hoare (listed p) (update f) (\<lambda>_. listed p)"
  by (simp add: hoare_def listed_def)

lemma listed_basic [listed_rules]:
  "hoare (listed p) (load_account cx a) (\<lambda>_. listed p)" "hoare (listed p) (touch_account a) (\<lambda>_. listed p)"
  "hoare (listed p) (add_balance a n) (\<lambda>_. listed p)" "hoare (listed p) (account_of a) (\<lambda>_. listed p)"
  "hoare (listed p) (lift r) (\<lambda>_. listed p)" "hoare (listed p) (reads f) (\<lambda>_. listed p)"
  by (rule lawful_listed, rule record_law.lawful_load record_law.lawful_touch record_law.lawful_account
      record_law.lawful_basic)+

lemma listed_change [listed_rules]: "hoare (listed p) (change_account a f) (\<lambda>_. listed p)"
  by (auto simp: hoare_def listed_def change_account_Inr put_cached_def)

lemma listed_set [listed_rules]: "hoare (listed p) (set_at a r) (\<lambda>_. listed p)"
  by (auto simp: hoare_def listed_def set_at_def store_account_def bnd_Inr account_of_eq split: account_ref.splits option.splits)

lemma listed_roll_back [listed_rules]: "hoare (listed p) (roll_back cx tx snap) (\<lambda>_. listed p)"
proof -
  have "hoare (listed p) (update (restore snap)) (\<lambda>_. listed p)"
    by (rule listed_update) (simp add: restore_def split: prod.split)
  then show ?thesis
    unfolding roll_back_def by (rule hoare_bnd, intro hoare_bnd [OF listed_basic(1)] hoare_ret)
qed

lemma listed_handler:
  assumes "run_lawful W same_record tx"
  shows "hoare (listed p) (run_handler W False tx h) (\<lambda>_. listed p)"
proof -
  have code: "hoare (listed p) (code_effects W False tx h ok amount) (\<lambda>_. listed p)" for ok amount
    by (rule lawful_listed, rule record_law.lawful_code) (use assms in \<open>simp_all add: run_lawful_def\<close>)
  have clear: "hoare (listed p) (update (\<lambda>s. if b then s else s\<lparr>bk_accounts := (bk_accounts s)\<lparr>as_involved := []\<rparr>\<rparr>)) (\<lambda>_. listed p)" for b
    by (rule listed_update) simp
  show ?thesis
    unfolding run_handler_def Let_def
    by (rule code clear listed_rules hoare_raise | rule hoare_bnd hoare_if hoare_prod | rule hoare_ret, assumption)+
qed

lemma listed_settle: "hoare (listed p) (settle W tx snap e ok r) (\<lambda>_. listed p)"
  unfolding settle_def Let_def
  by (rule listed_rules | rule hoare_bnd hoare_if hoare_prod | rule hoare_ret, assumption)+

lemma apply_appends:
  assumes "run_lawful W same_record tx" and "apply_tx_effects W tx h s = (Inr x, s')"
  shows "\<exists>r. bk_transactions s' = bk_transactions s @ [tx] \<and> bk_receipts s' = bk_receipts s @ [r]"
proof -
  let ?p = "(bk_transactions s, bk_receipts s)"
  let ?Q = "\<lambda>_ s'. \<exists>r. bk_transactions s' = bk_transactions s @ [tx] \<and> bk_receipts s' = bk_receipts s @ [r]"
  have logs: "kept (if ef_logs e = [] then ret () else add_pending [logs_list (ef_logs e)])"
    and ins: "kept (if ok then insert_batches W bs else ret ())" for e ok bs
    by (rule kept_rules)+
  have counted: "hoare (listed ?p) (if m then change_account (tx_sender tx) f else ret ()) (\<lambda>_. listed ?p)" for m f
    by (rule hoare_if, rule listed_rules, rule hoare_ret)
  have first: "hoare (listed ?p) (update (\<lambda>s. s\<lparr>bk_transactions := bk_transactions s @ [tx]\<rparr>))
      (\<lambda>_. listed (bk_transactions s @ [tx], bk_receipts s))"
    and second: "hoare (listed (bk_transactions s @ [tx], bk_receipts s)) (update (\<lambda>s. s\<lparr>bk_receipts := bk_receipts s @ [r]\<rparr>))
      (\<lambda>_. listed (bk_transactions s @ [tx], bk_receipts s @ [r]))" for r
    by (simp_all add: hoare_def listed_def)
  have finish: "hoare (listed ?p) (finish_transaction W tx h e matched batches y) ?Q" for e matched batches y
    unfolding finish_transaction_def
    apply (rule hoare_prod)+
    apply (rule hoare_bnd, rule kept_listed, rule kept_rules)
    apply (rule hoare_bnd, rule kept_listed, rule logs)
    apply (rule hoare_bnd, rule kept_listed, rule ins)
    apply (rule hoare_bnd, rule listed_rules)
    apply (rule hoare_bnd, rule listed_rules)
    apply (rule hoare_bnd, rule counted)
    apply (rule hoare_bnd, rule listed_rules)
    apply (rule hoare_bnd, rule listed_rules)
    apply (rule hoare_bnd, rule listed_rules)
    apply (rule hoare_bnd, rule first)
    apply (rule hoare_bnd, rule kept_listed, rule kept_rules)
    apply (rule hoare_bnd, rule second)
    apply (rule hoare_ret, simp add: listed_def)
    done
  have "hoare (listed ?p) (apply_tx_effects W tx h) ?Q"
    unfolding apply_split
    apply (rule hoare_bnd, rule listed_handler [OF assms(1)])
    apply (rule hoare_prod)+
    apply (rule hoare_bnd, rule kept_listed, rule kept_late_checks)
    apply (rule hoare_prod)+
    apply (rule hoare_bnd, rule listed_settle)
    apply (rule finish)
    done
  from this [unfolded hoare_def, rule_format, OF _ assms(2)] show ?thesis by (simp add: listed_def)
qed

text \<open>
  C3: a transaction succeeds at most once. Applied at the top level with status success, it had the counter
  of its sender's account; from then on that counter is larger, no counter ever falls while other
  transactions are applied, so the same transaction fails in every later state of the accounts, under
  whatever hash it is applied.
\<close>

theorem applied_once:
  assumes "ready (ap_cx W) R s" and "run_lawful W (nonces_rise (ap_cx W) R) tx"
    and "apply_tx_effects W tx h s = (Inr (True, used, logs), s')"
    and "nonces_rise (ap_cx W) R s' t"
    and "apply_tx_effects W tx h' t = (Inr (ok, used', logs'), t')"
  shows "\<not> ok \<and> nonces_rise (ap_cx W) R s t'"
proof
  note first = apply_floor [OF assms(1,2,3)]
  from first(1) assms(1) have "ready (ap_cx W) R s'" by (simp add: nonces_rise_def)
  with assms(4) have t: "ready (ap_cx W) R t" "nonce (ap_cx W) R s' (tx_sender tx) \<le> nonce (ap_cx W) R t (tx_sender tx)"
    by (simp_all add: nonces_rise_def)
  note second = apply_floor [OF t(1) assms(2,5)]
  show "\<not> ok" using first(3) second(2) t(2) by auto
  show "nonces_rise (ap_cx W) R s t'"
    using nonce_law.go_on nonce_law.go_on [OF first(1) assms(4)] second(1) by blast
qed

lemma demo_replayed:
  "fst (apply_tx_effects demo_apply demo_transfer [9]
     (snd (apply_tx_effects demo_apply demo_transfer [9] apply_block))) = Inr (False, 0, [])"
  by code_simp

lemma applied_once_witness:
  "\<exists>s' t'. apply_tx_effects demo_apply demo_transfer [9] apply_block = (Inr (True, 0, []), s')
     \<and> apply_tx_effects demo_apply demo_transfer [9] s' = (Inr (False, 0, []), t')
     \<and> nonces_rise (ap_cx demo_apply) None apply_block t'"
proof -
  obtain s' where s': "apply_tx_effects demo_apply demo_transfer [9] apply_block = (Inr (True, 0, []), s')"
    using demo_applies by (metis prod.collapse)
  obtain t' where t': "apply_tx_effects demo_apply demo_transfer [9] s' = (Inr (False, 0, []), t')"
    using demo_replayed unfolding s' by (metis prod.collapse snd_conv)
  have "run_lawful demo_apply (nonces_rise (ap_cx demo_apply) None) demo_transfer"
    by (simp add: run_lawful_def demo_transfer_def)
  from applied_once [OF demo_ready this s' nonce_law.keep t'] s' t' show ?thesis by blast
qed

end
