(* ===== verification/Block_Verify.thy ===== *)
theory Block_Verify
  imports Validators Apply_Once
begin

text \<open>
  The verification of blocks: \<open>consensus/block/verify/head.py\<close> checks a header against its parent,
  \<open>verify/transactions.py\<close> draws the validator, applies the transactions to a work block and compares
  what comes out with the header.

  \<open>verify key message signature\<close> is the check of the \<open>cryptography\<close> package, \<open>False\<close> where it raises. A
  block that was read has all fields that \<open>required_fields\<close> asks for. The batched fetches before the
  reads only fill the store.
\<close>

section \<open>Headers\<close>

definition ERA_SIZE :: int where "ERA_SIZE = 1024"

definition verify_block_head ::
  "int \<Rightarrow> (bytes \<Rightarrow> bytes \<Rightarrow> bytes \<Rightarrow> bool) \<Rightarrow> stored_block option \<Rightarrow> stored_block \<Rightarrow> bool" where
  "verify_block_head chain verify previous b =
     (let is_genesis = (or_zeros (sb_previous_hash b) = ZERO32) in
      if \<not> is_genesis \<and> previous = None then False
      else if sb_chain_id b \<noteq> chain then False
      else if is_genesis then sb_height b = 0
      else
        (case previous of
           None \<Rightarrow> False
         | Some p \<Rightarrow>
             sb_body_hash b \<noteq> [] \<and> sb_signature b \<noteq> [] \<and> sb_validator b \<noteq> []
             \<and> sb_height b = sb_height p + 1
             \<and> \<not> sb_timestamp b < sb_timestamp p + 1
             \<and> verify (sb_validator b) (sb_body_hash b) (sb_signature b)
             \<and> sb_validation_difficulty b
                 = calculate_block_difficulty (Some (sb_timestamp p)) (Some (sb_timestamp b))
                     (Some (sb_validation_difficulty p)) 2
             \<and> sb_expr_id b \<noteq> []
             \<and> \<not> int (count_leading_zero_bits (sb_expr_id b))
                 < max 1 (if sb_validation_difficulty p = 0 then 1 else sb_validation_difficulty p)))"

section \<open>The list of transactions\<close>

fun linked_hashes :: "(bytes \<Rightarrow> bytes) \<Rightarrow> expr \<Rightarrow> bytes list option" where
  "linked_hashes H (Link v h t hh th) =
     (if get_expr_builtin_tag H (Link v h t hh th) \<noteq> u ''link'' then Some []
      else
        (case hh of
           None \<Rightarrow> None
         | Some x \<Rightarrow> (case t of None \<Rightarrow> Some [x] | Some e \<Rightarrow> map_option (Cons x) (linked_hashes H e))))"
| "linked_hashes H NIL = (if get_expr_builtin_tag H NIL \<noteq> u ''link'' then Some [] else None)"
| "linked_hashes H e = Some []"

definition load_hash_list :: "node_ctx \<Rightarrow> bytes \<Rightarrow> bytes \<Rightarrow> exc + bytes list option" where
  "load_hash_list cx block_hash first =
     (if first = ZERO32 then Inr (Some [])
      else
        bind_exc (list_root cx (Some block_hash) first) (\<lambda>e.
          Inr (case e of None \<Rightarrow> None | Some x \<Rightarrow> linked_hashes (cx_hash cx) x)))"

section \<open>The first block\<close>

text \<open>The first check that fails names the reason.\<close>

fun first_failure :: "(bool \<times> string) list \<Rightarrow> string option" where
  "first_failure [] = None"
| "first_failure ((ok, reason) # rest) = (if ok then first_failure rest else Some reason)"

definition verify_genesis :: "node_ctx \<Rightarrow> stored_block \<Rightarrow> exc + string option" where
  "verify_genesis cx b =
     (case first_failure
             [(sb_transactions_hash b = ZERO32, ''genesis tx hash mismatch''),
              (sb_receipts_hash b = ZERO32, ''genesis receipts hash mismatch''),
              (sb_transaction_fee b = 0, ''genesis total transaction fee mismatch''),
              (sb_storage_fee b = 0, ''genesis total storage fee mismatch''),
              (sb_total_fee b = 0, ''genesis total fee mismatch''),
              (sb_loaned b = 0 \<and> sb_defaulted b = 0 \<and> sb_loan_count b = 0, ''genesis global credit totals mismatch'')] of
        Some reason \<Rightarrow> Inr (Some reason)
      | None \<Rightarrow>
          (case get_account cx TREASURY_ADDRESS (new_accounts (Some (sb_accounts_hash b)) (Some (sb_expr_id b))) of
             (Inl e, _) \<Rightarrow> Inl e
           | (Inr None, _) \<Rightarrow> Inr (Some ''genesis missing treasury account'')
           | (Inr (Some treasury), t) \<Rightarrow>
               (case get_account cx STORAGE_ADDRESS t of
                  (Inl e, _) \<Rightarrow> Inl e
                | (Inr None, _) \<Rightarrow> Inr (Some ''genesis missing storage account'')
                | (Inr (Some _), _) \<Rightarrow>
                    Inr (first_failure
                      [(sb_storage_difficulty b = 0, ''genesis storage difficulty mismatch''),
                       (sb_statistics b = [(1, ac_balance treasury, 0, 0, 0, 0)], ''genesis statistics mismatch'')]))))"

section \<open>The work block\<close>

definition work_block :: "stored_block \<Rightarrow> stored_block \<Rightarrow> accounts \<Rightarrow> bloom_tree \<Rightarrow> block" where
  "work_block b p t bloom =
     \<lparr>bk_chain_id = sb_chain_id b, bk_height = sb_height b, bk_timestamp = Some (sb_timestamp b),
      bk_validation_difficulty = Some (sb_validation_difficulty b), bk_expr_id = Some (or_zeros (sb_expr_id b)),
      bk_previous_hash = or_zeros (sb_previous_hash b),
      bk_previous = Some \<lparr>head_height = sb_height p, head_statistics = sb_statistics p,
                          pv_timestamp = Some (sb_timestamp p), pv_storage_difficulty = sb_storage_difficulty p\<rparr>,
      bk_accounts = t, bk_pending = [], bk_bloom = bloom, bk_bloom_keys = [], bk_involved = [],
      bk_transactions = [], bk_receipts = [], bk_receipts_trie = new_radix_tree None None,
      bk_loaned = sb_loaned p, bk_defaulted = sb_defaulted p, bk_loan_count = sb_loan_count p, bk_votes = 0,
      bk_claims = 0, bk_tx_keys = [], bk_tx_inserts = []\<rparr>"

text \<open>The tree of the era, in which the parent is named on its leaf.\<close>

definition era_tree :: "bloom_reader \<Rightarrow> stored_block \<Rightarrow> stored_block \<Rightarrow> exc + bloom_tree" where
  "era_tree F b p =
     (if sb_height b mod ERA_SIZE = 0 then Inr \<lparr>bt_root = None, bt_touched = []\<rparr>
      else
        bind_exc (new_bloom_tree F (Some (sb_bloom_hash p)) (Some (sb_expr_id p))) (\<lambda>t.
          set_leaf_start_hash F t (sb_height p mod ERA_SIZE) (sb_expr_id p)))"

text \<open>The record of the parent goes into the storage account, unless it is there.\<close>

definition commit_parent :: "node_ctx \<Rightarrow> stored_block \<Rightarrow> string option act" where
  "commit_parent cx p =
     bnd (load_account cx STORAGE_ADDRESS) (\<lambda>found.
     if \<not> found then ret None
     else
       bnd (account_of STORAGE_ADDRESS) (\<lambda>x.
       bnd (reads (\<lambda>s. generate_initial_storage_record cx s (ac_data x) (block_to_expr p) True)) (\<lambda>r.
       case r of
         Inl e \<Rightarrow>
           if e = UnresolvedRecordExpr then ret (Some ''failed building parent block record'') else raise e
       | Inr None \<Rightarrow> ret None
       | Inr (Some (record, _)) \<Rightarrow>
           bnd (data_put cx STORAGE_ADDRESS (sb_expr_id p) (VExpr (storage_record_to_expr record))) (\<lambda>_.
           bnd (sync_data_hash STORAGE_ADDRESS) (\<lambda>_. ret None)))))"

fun apply_list :: "apply_ctx \<Rightarrow> bytes \<Rightarrow> bytes list \<Rightarrow> string option act" where
  "apply_list W block_hash [] = ret None"
| "apply_list W block_hash (h # hs) =
     bnd (lift (get_transaction_from_storage (ap_cx W) (Some block_hash) h)) (\<lambda>tx.
     if \<not> verify_signature (cx_hash (ap_cx W)) (ap_verify W) tx then ret (Some ''invalid transaction signature'')
     else bnd (apply_transaction_obj W tx) (\<lambda>_. apply_list W block_hash hs))"

text \<open>The reward; a validator whose account cannot be read gets a new one.\<close>

definition reward_validator :: "node_ctx \<Rightarrow> bytes \<Rightarrow> unit act" where
  "reward_validator cx k =
     bnd (reads (\<lambda>s. validator_reward (bk_receipts s))) (\<lambda>n.
     if k = [] then ret ()
     else
       bnd (catch (load_account cx k) False) (\<lambda>found.
         if found then bnd (add_balance k n) (\<lambda>_. touch_account k)
         else store_account k (new_account\<lparr>ac_balance := n\<rparr>)))"

definition replay :: "apply_ctx \<Rightarrow> stored_block \<Rightarrow> stored_block \<Rightarrow> bytes list \<Rightarrow> string option act" where
  "replay W b p hs =
     bnd (commit_parent (ap_cx W) p) (\<lambda>reason.
     if reason \<noteq> None then ret reason
     else
       bnd (apply_list W (sb_expr_id b) hs) (\<lambda>reason.
       if reason \<noteq> None then ret reason
       else bnd (reward_validator (ap_cx W) (sb_validator b)) (\<lambda>_. ret None)))"

section \<open>What must come out\<close>

definition bloom_root :: "(bytes \<Rightarrow> bytes) \<Rightarrow> bloom_tree \<Rightarrow> bytes" where
  "bloom_root H t = (case bt_root (rewrite_root t) of None \<Rightarrow> ZERO32 | Some n \<Rightarrow> expr_hash H (node_expr H n))"

definition total_checks :: "(bytes \<Rightarrow> bytes) \<Rightarrow> stored_block \<Rightarrow> nat \<Rightarrow> block \<Rightarrow> (bool \<times> string) list" where
  "total_checks H b n s =
     [(sb_bloom_hash b = bloom_root H (bk_bloom s), ''bloom hash mismatch''),
      (sb_transaction_fee b = sum_list (map transaction_fee (bk_receipts s)), ''total transaction fee mismatch''),
      (sb_storage_fee b = sum_list (map storage_fee (bk_receipts s)), ''total storage fee mismatch''),
      (sb_total_fee b = sum_list (map receipt_total_fee (bk_receipts s)), ''total fee mismatch''),
      (sb_loaned b = bk_loaned s, ''global_loaned mismatch''),
      (sb_defaulted b = bk_defaulted s, ''global_defaulted mismatch''),
      (sb_loan_count b = bk_loan_count s, ''global_loan_count mismatch''),
      (length (bk_transactions s) = n, ''tx count mismatch''),
      (length (bk_receipts s) = length (bk_transactions s), ''receipt count mismatch''),
      (or_zero32 (root_hash (bk_receipts_trie s)) = or_zeros (sb_receipts_hash b), ''receipts head mismatch'')]"

definition receipt_checks :: "receipt \<Rightarrow> receipt \<Rightarrow> (bool \<times> string) list" where
  "receipt_checks expected stored =
     [(transaction_hash stored = transaction_hash expected, ''receipt tx mismatch''),
      (status stored = status expected, ''receipt status mismatch''),
      (transaction_fee stored = transaction_fee expected, ''receipt transaction fee mismatch''),
      (storage_fee stored = storage_fee expected, ''receipt storage fee mismatch''),
      (receipt_total_fee stored = receipt_total_fee expected, ''receipt total fee mismatch''),
      (logs_hash stored = logs_hash expected, ''receipt logs hash mismatch''),
      (mint stored = mint expected, ''receipt mint mismatch'')]"

fun stored_receipts :: "node_ctx \<Rightarrow> bytes \<Rightarrow> radix_tree \<Rightarrow> receipt list \<Rightarrow> exc + string option" where
  "stored_receipts cx block_hash t [] = Inr None"
| "stored_receipts cx block_hash t (r # rs) =
     (case tree_get cx t (transaction_hash r) of
        (Inl e, _) \<Rightarrow> Inl e
      | (Inr (None, _), _) \<Rightarrow> Inr (Some ''receipt not found in trie'')
      | (Inr (Some e, _), t') \<Rightarrow>
          (case receipt_from_storage cx (Some block_hash) (expr_hash (cx_hash cx) e) of
             Inl _ \<Rightarrow> Inr (Some ''failed loading receipt'')
           | Inr stored \<Rightarrow>
               (case first_failure (receipt_checks r stored) of
                  Some reason \<Rightarrow> Inr (Some reason)
                | None \<Rightarrow> stored_receipts cx block_hash t' rs)))"

text \<open>The trie of accounts, which is written now, the statistics and the storage difficulty.\<close>

definition account_checks :: "node_ctx \<Rightarrow> stored_block \<Rightarrow> stored_block \<Rightarrow> block \<Rightarrow> exc + string option" where
  "account_checks cx b p s =
     (case update_trie cx (bk_accounts s) of
        (Inl _, _) \<Rightarrow> Inr (Some ''failed updating accounts trie'')
      | (Inr new_root, t) \<Rightarrow>
          if new_root \<noteq> Some (sb_accounts_hash b) then Inr (Some ''accounts hash mismatch'')
          else
            (case get_account cx TREASURY_ADDRESS t of
               (Inl e, _) \<Rightarrow> Inl e
             | (Inr None, _) \<Rightarrow> Inr (Some ''missing treasury account'')
             | (Inr (Some treasury), _) \<Rightarrow>
                 Inr (first_failure
                   [(sb_statistics b
                       = update_statistics (sb_height b) (Some (sb_statistics p))
                           (fee_income (bk_receipts s), ac_balance treasury, bk_claims s), ''statistics mismatch''),
                    (sb_storage_difficulty b = next_storage_difficulty (sb_storage_difficulty p) (bk_votes s),
                     ''storage difficulty mismatch'')])))"

definition outcome_checks :: "node_ctx \<Rightarrow> stored_block \<Rightarrow> stored_block \<Rightarrow> nat \<Rightarrow> block \<Rightarrow> exc + string option" where
  "outcome_checks cx b p n s =
     (case first_failure (total_checks (cx_hash cx) b n s) of
        Some reason \<Rightarrow> Inr (Some reason)
      | None \<Rightarrow>
          bind_exc (stored_receipts cx (sb_expr_id b)
                      (new_radix_tree (Some (sb_receipts_hash b)) (Some (sb_expr_id b))) (bk_receipts s)) (\<lambda>reason.
            if reason \<noteq> None then Inr reason else account_checks cx b p s))"

section \<open>The verification\<close>

text \<open>\<open>Inr None\<close> accepts the block, \<open>Inr (Some reason)\<close> refuses it, and \<open>Inl\<close> is an error that leaves the code.\<close>

definition verify_block_transactions ::
  "apply_ctx \<Rightarrow> 'g rng \<Rightarrow> stored_block option \<Rightarrow> stored_block \<Rightarrow> exc + string option" where
  "verify_block_transactions W rng previous b =
     (let cx = ap_cx W; H = cx_hash cx; prev_hash = or_zeros (sb_previous_hash b) in
      if prev_hash = ZERO32 then verify_genesis cx b
      else
        (case previous of
           None \<Rightarrow> Inr (Some ''failed loading parent block'')
         | Some p \<Rightarrow>
             if sb_accounts_hash p = [] then Inr (Some ''missing parent accounts hash'')
             else
               bind_exc (load_hash_list cx (sb_expr_id b) (sb_transactions_hash b)) (\<lambda>hs.
               case hs of
                 None \<Rightarrow> Inr (Some ''failed loading tx list'')
               | Some tx_hashes \<Rightarrow>
                   if expr_hash H (link_list_to_expr tx_hashes) \<noteq> or_zeros (sb_transactions_hash b)
                   then Inr (Some ''tx head mismatch'')
                   else
                     (case current_validator cx (ap_bloom W) rng prev_hash (sb_timestamp b) of
                        Inl _ \<Rightarrow> Inr (Some ''failed deriving scheduled validator'')
                      | Inr (scheduled, drawn) \<Rightarrow>
                          if scheduled \<noteq> sb_validator b then Inr (Some ''unscheduled validator'')
                          else
                            bind_exc (era_tree (ap_bloom W) b p) (\<lambda>bloom.
                              (case replay W b p tx_hashes (work_block b p (bk_accounts drawn) bloom) of
                                 (Inl e, _) \<Rightarrow> Inl e
                               | (Inr (Some reason), _) \<Rightarrow> Inr (Some reason)
                               | (Inr None, s) \<Rightarrow> outcome_checks cx b p (length tx_hashes) s))))))"


section \<open>Chains of headers\<close>

text \<open>Blocks from the newest to the first, each verified with the one below it as its parent.\<close>

fun verified_chain :: "int \<Rightarrow> (bytes \<Rightarrow> bytes \<Rightarrow> bytes \<Rightarrow> bool) \<Rightarrow> stored_block list \<Rightarrow> bool" where
  "verified_chain chain verify [] = False"
| "verified_chain chain verify [g] \<longleftrightarrow>
     or_zeros (sb_previous_hash g) = ZERO32 \<and> verify_block_head chain verify None g"
| "verified_chain chain verify (b # p # bs) \<longleftrightarrow>
     or_zeros (sb_previous_hash b) = sb_expr_id p \<and> sb_expr_id p \<noteq> ZERO32
     \<and> verify_block_head chain verify (Some p) b \<and> verified_chain chain verify (p # bs)"

lemma head_step:
  assumes "or_zeros (sb_previous_hash b) \<noteq> ZERO32" "verify_block_head chain verify (Some p) b"
  shows "sb_chain_id b = chain" "sb_height b = sb_height p + 1" "sb_timestamp p < sb_timestamp b"
    "verify (sb_validator b) (sb_body_hash b) (sb_signature b)"
    "max 1 (sb_validation_difficulty p) \<le> int (count_leading_zero_bits (sb_expr_id b))"
    "\<bar>sb_validation_difficulty b - max 1 (sb_validation_difficulty p)\<bar> \<le> 1" "1 \<le> sb_validation_difficulty b"
  using assms
  by (auto simp: verify_block_head_def Let_def calculate_block_difficulty_def split: if_splits)

lemma chain_height:
  "verified_chain chain verify bs \<Longrightarrow> sb_height (hd bs) = int (length bs) - 1 \<and> sb_chain_id (hd bs) = chain"
proof (induction chain verify bs rule: verified_chain.induct)
  case (2 chain verify g)
  then show ?case by (auto simp: verify_block_head_def Let_def split: if_splits)
next
  case (3 chain verify b p bs)
  then show ?case using head_step [of b chain verify p] by auto
qed simp

lemma chain_tail: "verified_chain chain verify bs \<Longrightarrow> i < length bs \<Longrightarrow> verified_chain chain verify (drop i bs)"
proof (induction chain verify bs arbitrary: i rule: verified_chain.induct)
  case (3 chain verify b p bs)
  then show ?case by (cases i) auto
qed auto

lemma chain_times:
  assumes "verified_chain chain verify bs" "i < j" "j < length bs"
  shows "sb_timestamp (bs ! j) + int (j - i) \<le> sb_timestamp (bs ! i)"
  using assms
proof (induction chain verify bs arbitrary: i j rule: verified_chain.induct)
  case (3 chain verify b p bs)
  have step: "sb_timestamp p < sb_timestamp b" using head_step(3) "3.prems"(1) by auto
  obtain m where m: "j = Suc m" using "3.prems"(2) by (cases j) auto
  show ?case
  proof (cases i)
    case 0
    show ?thesis
    proof (cases m)
      case 0
      with \<open>i = 0\<close> m step show ?thesis by simp
    next
      case (Suc m')
      with "3.IH" [of 0 m] "3.prems" m \<open>i = 0\<close> step show ?thesis by simp
    qed
  next
    case (Suc k)
    with "3.IH" [of k m] "3.prems" m show ?thesis by simp
  qed
qed auto

text \<open>
  C5: in a chain of verified headers the height counts the blocks, the time rises by at least a second
  with each block, all blocks are of one chain, and every block after the first carries a signature of
  its body by its validator and a hash with as many leading zeros as its parent's difficulty asks for,
  which moves by at most one from block to block and stays positive.
\<close>

theorem verified_heads:
  assumes "verified_chain chain verify bs" and "i < length bs"
  shows "sb_height (bs ! i) = int (length bs - 1 - i) \<and> sb_chain_id (bs ! i) = chain
     \<and> (\<forall>j. i < j \<longrightarrow> j < length bs \<longrightarrow> sb_timestamp (bs ! j) + int (j - i) \<le> sb_timestamp (bs ! i))
     \<and> (Suc i < length bs \<longrightarrow>
          (let b = bs ! i; p = bs ! Suc i in
             or_zeros (sb_previous_hash b) = sb_expr_id p
             \<and> verify (sb_validator b) (sb_body_hash b) (sb_signature b)
             \<and> max 1 (sb_validation_difficulty p) \<le> int (count_leading_zero_bits (sb_expr_id b))
             \<and> \<bar>sb_validation_difficulty b - max 1 (sb_validation_difficulty p)\<bar> \<le> 1
             \<and> 1 \<le> sb_validation_difficulty b))"
proof -
  from chain_tail [OF assms] have rest: "verified_chain chain verify (drop i bs)" .
  have hd: "hd (drop i bs) = bs ! i" using assms(2) by (rule hd_drop_conv_nth)
  from chain_height [OF rest] hd have height: "sb_height (bs ! i) = int (length bs - i) - 1" "sb_chain_id (bs ! i) = chain"
    by simp_all
  have parent: "let b = bs ! i; p = bs ! Suc i in
             or_zeros (sb_previous_hash b) = sb_expr_id p
             \<and> verify (sb_validator b) (sb_body_hash b) (sb_signature b)
             \<and> max 1 (sb_validation_difficulty p) \<le> int (count_leading_zero_bits (sb_expr_id b))
             \<and> \<bar>sb_validation_difficulty b - max 1 (sb_validation_difficulty p)\<bar> \<le> 1
             \<and> 1 \<le> sb_validation_difficulty b" if "Suc i < length bs"
  proof -
    have "drop i bs = bs ! i # bs ! Suc i # drop (Suc (Suc i)) bs"
      using that by (simp add: Cons_nth_drop_Suc)
    with rest have "or_zeros (sb_previous_hash (bs ! i)) = sb_expr_id (bs ! Suc i)" "sb_expr_id (bs ! Suc i) \<noteq> ZERO32"
      "verify_block_head chain verify (Some (bs ! Suc i)) (bs ! i)" by simp_all
    with head_step [of "bs ! i" chain verify "bs ! Suc i"] show ?thesis by (simp add: Let_def)
  qed
  show ?thesis using height assms(2) chain_times [OF assms(1)] parent by (auto simp: of_nat_diff)
qed

text \<open>A first block and one on top of it, two seconds later.\<close>

definition first_head :: stored_block where
  "first_head = demo_stored\<lparr>sb_height := 0, sb_previous_hash := ZERO32, sb_expr_id := [1], sb_timestamp := 10\<rparr>"

definition second_head :: stored_block where
  "second_head =
     demo_stored\<lparr>sb_height := 1, sb_previous_hash := [1], sb_expr_id := [1], sb_timestamp := 12,
       sb_body_hash := [3], sb_validation_difficulty := 2\<rparr>"

lemma verified_heads_witness:
  "verified_chain 1 (\<lambda>_ _ _. True) [second_head, first_head]
   \<and> sb_height ([second_head, first_head] ! 0) = int (length [second_head, first_head] - 1 - 0)"
proof -
  have chain: "verified_chain 1 (\<lambda>_ _ _. True) [second_head, first_head]" by code_simp
  from verified_heads [OF this, of 0] chain show ?thesis by simp
qed

end
