(* ===== verification/Forks.thy ===== *)
theory Forks
  imports Block_Verify
begin

text \<open>
  Forks: \<open>consensus/fork/\<close> keeps a mark of how far down each announced head is verified, and
  \<open>consensus/verification/worker.py\<close> scans the heads of the peers, verifies, merges forks and selects the
  head of the node.

  The forks are a dict, here its entries in order. The locks make each function one step; no other
  thread changes the forks while one runs. The logger is left out.
\<close>

section \<open>A fork\<close>

record fork =
  fk_head :: bytes
  fk_root :: bytes
  fk_header :: "bytes option"
  fk_txs :: "bytes option"
  fk_malicious :: "bytes option"
  fk_peers :: "bytes list"

type_synonym forks = "(bytes \<times> fork) list"

definition new_fork :: "bytes \<Rightarrow> fork" where
  "new_fork h = \<lparr>fk_head = h, fk_root = ZERO32, fk_header = None, fk_txs = None, fk_malicious = None, fk_peers = []\<rparr>"

definition add_peer :: "bytes \<Rightarrow> fork \<Rightarrow> fork" where
  "add_peer p f = f\<lparr>fk_peers := List.insert p (fk_peers f)\<rparr>"

definition remove_peer :: "bytes \<Rightarrow> fork \<Rightarrow> fork" where
  "remove_peer p f = f\<lparr>fk_peers := filter (\<lambda>q. q \<noteq> p) (fk_peers f)\<rparr>"

definition mark_bytes :: "bytes option \<Rightarrow> bytes" where
  "mark_bytes m = (case m of None \<Rightarrow> 0 # ZERO32 | Some h \<Rightarrow> 1 # h)"

definition fork_to_bytes :: "fork \<Rightarrow> bytes" where
  "fork_to_bytes f = fk_head f @ fk_root f @ mark_bytes (fk_header f) @ mark_bytes (fk_txs f) @ mark_bytes (fk_malicious f)"

definition FORK_SIZE :: nat where "FORK_SIZE = 163"

definition mark_at :: "bytes \<Rightarrow> nat \<Rightarrow> bytes option" where
  "mark_at payload i = (if payload ! i \<noteq> 0 then Some (take 32 (drop (i + 1) payload)) else None)"

definition fork_from_bytes :: "bytes \<Rightarrow> exc + fork" where
  "fork_from_bytes payload =
     (if length payload \<noteq> FORK_SIZE then Inl (ValueError ''fork bytes length mismatch'')
      else Inr \<lparr>fk_head = take 32 payload, fk_root = take 32 (drop 32 payload), fk_header = mark_at payload 64,
                fk_txs = mark_at payload 97, fk_malicious = mark_at payload 130, fk_peers = []\<rparr>)"

section \<open>The forks of a node\<close>

definition update_fork :: "forks \<Rightarrow> bytes \<Rightarrow> (fork \<Rightarrow> fork) \<Rightarrow> exc + forks" where
  "update_fork fs head change =
     (case map_of fs head of None \<Rightarrow> Inl KeyError | Some f \<Rightarrow> Inr (AList.update head (change f) fs))"

fun import_each :: "nat \<Rightarrow> bytes \<Rightarrow> forks \<Rightarrow> exc + forks" where
  "import_each 0 payload fs = Inr fs"
| "import_each (Suc n) payload fs =
     bind_exc (fork_from_bytes (take FORK_SIZE payload)) (\<lambda>f.
       import_each n (drop FORK_SIZE payload) (AList.update (fk_head f) f fs))"

definition import_forks :: "bytes \<Rightarrow> forks \<Rightarrow> exc + forks" where
  "import_forks payload fs =
     (if length payload mod FORK_SIZE \<noteq> 0 then Inl (ValueError ''fork payload length mismatch'')
      else import_each (length payload div FORK_SIZE) payload fs)"

definition export_forks :: "forks \<Rightarrow> bytes" where
  "export_forks fs = concat (map (\<lambda>(h, f). fork_to_bytes f) fs)"

section \<open>Verification\<close>

text \<open>
  What the verification of a fork reads: blocks, the two checks of a block given its parent, and the key of
  the node, whose own blocks are not replayed.
\<close>

record checks =
  ck_load :: "bytes \<Rightarrow> exc + stored_block"
  ck_head :: "stored_block option \<Rightarrow> stored_block \<Rightarrow> bool"
  ck_txs :: "stored_block option \<Rightarrow> stored_block \<Rightarrow> exc + string option"
  ck_own :: bytes

definition node_checks ::
  "apply_ctx \<Rightarrow> 'g rng \<Rightarrow> int \<Rightarrow> (bytes \<Rightarrow> bytes \<Rightarrow> bytes \<Rightarrow> bool) \<Rightarrow> bytes \<Rightarrow> checks" where
  "node_checks W rng chain verify own =
     \<lparr>ck_load = (\<lambda>h. map_sum id fst (get_block_with_bloom (ap_cx W) (ap_bloom W) h)),
      ck_head = verify_block_head chain verify, ck_txs = verify_block_transactions W rng, ck_own = own\<rparr>"

definition block_and_parent :: "checks \<Rightarrow> bytes \<Rightarrow> exc + stored_block \<times> stored_block option" where
  "block_and_parent ck h =
     bind_exc (ck_load ck h) (\<lambda>b.
       if sb_previous_hash b = ZERO32 then Inr (b, None)
       else bind_exc (ck_load ck (sb_previous_hash b)) (\<lambda>p. Inr (b, Some p)))"

text \<open>
  The headers, from the head down to the head of another fork, the root or the first block. The result is
  the new root, \<open>None\<close> where a header is refused. Blocks are fetched one by one, so the loop takes fuel.
\<close>

fun header_loop :: "checks \<Rightarrow> bytes \<Rightarrow> nat \<Rightarrow> bytes \<Rightarrow> bytes \<Rightarrow> forks \<Rightarrow> (exc + bytes option) \<times> forks" where
  "header_loop ck head 0 cur r fs = (Inl OutOfFuel, fs)"
| "header_loop ck head (Suc n) cur r fs =
     (let upd = (\<lambda>change x. case update_fork fs head change of Inl e \<Rightarrow> (Inl e, fs) | Inr fs' \<Rightarrow> (Inr x, fs')) in
      case block_and_parent ck cur of
        Inl e \<Rightarrow> (Inl e, fs)
      | Inr (b, p) \<Rightarrow>
          if \<not> ck_head ck p b then upd (fk_malicious_update (\<lambda>_. Some cur)) None
          else if cur \<noteq> head \<and> cur \<in> fst ` set fs
          then upd (\<lambda>f. f\<lparr>fk_header := Some cur, fk_root := cur\<rparr>) (Some cur)
          else if cur = r then upd (\<lambda>f. f\<lparr>fk_header := Some r\<rparr>) (Some r)
          else if sb_previous_hash b = ZERO32
          then upd (\<lambda>f. f\<lparr>fk_header := Some ZERO32, fk_root := ZERO32\<rparr>) (Some ZERO32)
          else header_loop ck head n (sb_previous_hash b) r fs)"

definition txs_good :: "checks \<Rightarrow> stored_block option \<Rightarrow> stored_block \<Rightarrow> exc + bool" where
  "txs_good ck p b =
     (if ck_own ck \<noteq> [] \<and> sb_validator b = ck_own ck then Inr True
      else map_sum id (\<lambda>reason. reason = None) (ck_txs ck p b))"

fun txs_loop :: "checks \<Rightarrow> bytes \<Rightarrow> nat \<Rightarrow> bytes \<Rightarrow> bytes \<Rightarrow> forks \<Rightarrow> (exc + bool) \<times> forks" where
  "txs_loop ck head 0 cur r fs = (Inl OutOfFuel, fs)"
| "txs_loop ck head (Suc n) cur r fs =
     (case bind_exc (block_and_parent ck cur) (\<lambda>(b, p). bind_exc (txs_good ck p b) (\<lambda>ok. Inr (b, ok))) of
        Inl e \<Rightarrow> (Inl e, fs)
      | Inr (b, ok) \<Rightarrow>
          (case update_fork fs head (\<lambda>f. if ok then f\<lparr>fk_txs := Some cur\<rparr> else f\<lparr>fk_malicious := Some cur\<rparr>) of
             Inl e \<Rightarrow> (Inl e, fs)
           | Inr fs' \<Rightarrow>
               if \<not> ok then (Inr False, fs')
               else if cur = r \<or> sb_previous_hash b = ZERO32 then (Inr True, fs')
               else txs_loop ck head n (sb_previous_hash b) r fs'))"

definition verify_fork :: "checks \<Rightarrow> nat \<Rightarrow> forks \<Rightarrow> bytes \<Rightarrow> (exc + bool) \<times> forks" where
  "verify_fork ck n fs head =
     (case map_of fs head of
        None \<Rightarrow> (Inl KeyError, fs)
      | Some f \<Rightarrow>
          (case header_loop ck head n head (fk_root f) fs of
             (Inl e, fs') \<Rightarrow> (Inl e, fs')
           | (Inr None, fs') \<Rightarrow> (Inr False, fs')
           | (Inr (Some r), fs') \<Rightarrow> txs_loop ck head n head r fs'))"

section \<open>The worker\<close>

definition is_fully_verified :: "fork \<Rightarrow> bool" where
  "is_fully_verified f \<longleftrightarrow> fk_header f = Some (fk_root f) \<and> fk_txs f = Some (fk_root f)"

definition root_of :: "forks \<Rightarrow> bytes \<Rightarrow> bytes" where
  "root_of fs h = (case map_of fs h of None \<Rightarrow> [] | Some f \<Rightarrow> fk_root f)"

definition merge_heads :: "forks \<Rightarrow> bytes list" where
  "merge_heads fs =
     (let heads = map fst (filter (\<lambda>(h, f). map_of fs (fk_root f) \<noteq> None \<and> is_fully_verified f) fs);
          single = filter (\<lambda>h. length (filter (\<lambda>g. root_of fs g = root_of fs h) heads) = 1) heads
      in filter (\<lambda>h. case map_of fs (root_of fs h) of None \<Rightarrow> False | Some f \<Rightarrow> is_fully_verified f) single)"

definition unified :: "bytes \<Rightarrow> fork \<Rightarrow> fork \<Rightarrow> fork" where
  "unified h root_fork child =
     \<lparr>fk_head = h, fk_root = fk_root root_fork, fk_header = Some (fk_root root_fork),
      fk_txs = Some (fk_root root_fork), fk_malicious = None,
      fk_peers = List.union (fk_peers root_fork) (fk_peers child)\<rparr>"

text \<open>A fork that is its own root is deleted, and then missing where it is to be deleted once more.\<close>

fun merge_each :: "bytes list \<Rightarrow> forks \<Rightarrow> bool \<Rightarrow> (exc + bool) \<times> forks" where
  "merge_each [] fs merged = (Inr merged, fs)"
| "merge_each (h # hs) fs merged =
     (case map_of fs h of
        None \<Rightarrow> merge_each hs fs merged
      | Some child \<Rightarrow>
          (case map_of fs (fk_root child) of
             None \<Rightarrow> merge_each hs fs merged
           | Some root_fork \<Rightarrow>
               if fk_root child = h then (Inl KeyError, AList.delete (fk_root child) fs)
               else merge_each hs (AList.delete h (AList.delete (fk_root child) fs) @ [(h, unified h root_fork child)]) True))"

definition merge_forks :: "forks \<Rightarrow> (exc + bool) \<times> forks" where
  "merge_forks fs = merge_each (merge_heads fs) fs False"

text \<open>The heads that peers announce, each with its peers, in the order of the peers.\<close>

definition grouped_heads :: "(bytes \<times> bytes option) list \<Rightarrow> (bytes \<times> bytes list) list" where
  "grouped_heads peers =
     fold (\<lambda>(p, latest) g. case latest of
             None \<Rightarrow> g
           | Some h \<Rightarrow> AList.update h (List.insert p (case map_of g h of None \<Rightarrow> [] | Some ps \<Rightarrow> ps)) g)
       peers []"

definition scan_peer_heads :: "(bytes \<times> bytes option) list \<Rightarrow> forks \<Rightarrow> forks" where
  "scan_peer_heads peers fs =
     fold (\<lambda>(h, ps) fs. AList.update h ((case map_of fs h of None \<Rightarrow> new_fork h | Some f \<Rightarrow> f)\<lparr>fk_peers := ps\<rparr>) fs)
       (grouped_heads peers) (map (\<lambda>(h, f). (h, f\<lparr>fk_peers := []\<rparr>)) fs)"

record chain_view =
  cv_forks :: forks
  cv_latest :: "bytes option"
  cv_block :: "stored_block option"
  cv_spacing :: int

definition current_head_height :: "checks \<Rightarrow> chain_view \<Rightarrow> int option" where
  "current_head_height ck v =
     (case cv_latest v of
        None \<Rightarrow> None
      | Some h \<Rightarrow>
          (case cv_block v of
             Some b \<Rightarrow>
               if sb_expr_id b = h then Some (sb_height b)
               else (case ck_load ck h of Inl _ \<Rightarrow> None | Inr b \<Rightarrow> Some (sb_height b))
           | None \<Rightarrow> (case ck_load ck h of Inl _ \<Rightarrow> None | Inr b \<Rightarrow> Some (sb_height b))))"

text \<open>The block of a fork that may become the head.\<close>

definition candidate :: "checks \<Rightarrow> int \<Rightarrow> int \<Rightarrow> int \<Rightarrow> int option \<Rightarrow> bytes \<times> fork \<Rightarrow> stored_block option" where
  "candidate ck now max_stale max_future current_height = (\<lambda>(h, f).
     if fk_malicious f \<noteq> None \<or> \<not> is_fully_verified f \<or> fk_peers f = [] then None
     else
       (case ck_load ck h of
          Inl _ \<Rightarrow> None
        | Inr b \<Rightarrow>
            if max_stale \<ge> 0 \<and> now - sb_timestamp b > max_stale then None
            else if max_future \<ge> 0 \<and> sb_timestamp b - now > max_future then None
            else if (case current_height of None \<Rightarrow> False | Some k \<Rightarrow> sb_height b < k) then None
            else Some b))"

definition better :: "bytes option \<Rightarrow> bytes \<Rightarrow> stored_block \<Rightarrow> (bytes \<times> stored_block) option \<Rightarrow> (bytes \<times> stored_block) option" where
  "better current h b best =
     (case best of
        None \<Rightarrow> if sb_height b > -1 then Some (h, b) else if sb_height b = -1 \<and> current = Some h then Some (h, b) else None
      | Some (best_head, best_block) \<Rightarrow>
          if sb_height b > sb_height best_block then Some (h, b)
          else if sb_height b = sb_height best_block then
            (if current = Some h then Some (h, b)
             else if current \<noteq> Some best_head \<and> h < best_head then Some (h, b)
             else best)
          else best)"

fun best_of ::
  "(bytes \<times> fork \<Rightarrow> stored_block option) \<Rightarrow> bytes option \<Rightarrow> forks \<Rightarrow> (bytes \<times> stored_block) option
     \<Rightarrow> (bytes \<times> stored_block) option" where
  "best_of cand current [] best = best"
| "best_of cand current (x # xs) best =
     best_of cand current xs (case cand x of None \<Rightarrow> best | Some b \<Rightarrow> better current (fst x) b best)"

text \<open>
  The head is set under its lock, only where it is still the one that the selection started from: another
  thread that has moved it wins.
\<close>

definition set_head :: "bytes option \<Rightarrow> (bytes \<times> stored_block) option \<Rightarrow> chain_view \<Rightarrow> chain_view" where
  "set_head current best v =
     (case best of
        None \<Rightarrow> v
      | Some (h, b) \<Rightarrow>
          if cv_latest v \<noteq> current then v
          else if cv_latest v = Some h then v
          else v\<lparr>cv_latest := Some h, cv_block := Some b, cv_spacing := 2\<rparr>)"

text \<open>
  The head and its height as they were read at the start, the forks as they were copied, and the view in
  which the head is set. \<open>select_latest_block\<close> is the selection that no other thread interrupts.
\<close>

definition select_from ::
  "checks \<Rightarrow> int \<Rightarrow> int \<Rightarrow> int \<Rightarrow> bytes option \<Rightarrow> int option \<Rightarrow> forks \<Rightarrow> chain_view \<Rightarrow> chain_view" where
  "select_from ck now max_stale max_future current current_height fs v =
     set_head current (best_of (candidate ck now max_stale max_future current_height) current fs None) v"

definition select_latest_block :: "checks \<Rightarrow> int \<Rightarrow> int \<Rightarrow> int \<Rightarrow> chain_view \<Rightarrow> chain_view" where
  "select_latest_block ck now max_stale max_future v =
     select_from ck now max_stale max_future (cv_latest v) (current_head_height ck v) (cv_forks v) v"

section \<open>What the marks say\<close>

text \<open>
  \<open>down ck good h c\<close>: every block from \<open>h\<close> down to \<open>c\<close>, without \<open>c\<close>, is good. \<open>verified_down\<close> includes \<open>c\<close>.
\<close>

definition good_block :: "checks \<Rightarrow> (stored_block option \<Rightarrow> stored_block \<Rightarrow> bool) \<Rightarrow> bytes \<Rightarrow> stored_block \<Rightarrow> bool" where
  "good_block ck good h b \<longleftrightarrow> (\<exists>p. block_and_parent ck h = Inr (b, p) \<and> good p b)"

inductive down :: "checks \<Rightarrow> (stored_block option \<Rightarrow> stored_block \<Rightarrow> bool) \<Rightarrow> bytes \<Rightarrow> bytes \<Rightarrow> bool"
  for ck good h where
  down_start: "down ck good h h"
| down_step: "down ck good h c \<Longrightarrow> good_block ck good c b \<Longrightarrow> sb_previous_hash b \<noteq> ZERO32
    \<Longrightarrow> down ck good h (sb_previous_hash b)"

definition verified_down :: "checks \<Rightarrow> (stored_block option \<Rightarrow> stored_block \<Rightarrow> bool) \<Rightarrow> bytes \<Rightarrow> bytes \<Rightarrow> bool" where
  "verified_down ck good h m \<longleftrightarrow> down ck good h m \<and> (\<exists>b. good_block ck good m b)"

abbreviation headers_down :: "checks \<Rightarrow> bytes \<Rightarrow> bytes \<Rightarrow> bool" where
  "headers_down ck \<equiv> verified_down ck (ck_head ck)"

abbreviation txs_down :: "checks \<Rightarrow> bytes \<Rightarrow> bytes \<Rightarrow> bool" where
  "txs_down ck \<equiv> verified_down ck (\<lambda>p b. txs_good ck p b = Inr True)"

text \<open>A mark of \<open>ZERO32\<close> on the headers stands for the first block.\<close>

definition headers_to :: "checks \<Rightarrow> bytes \<Rightarrow> bytes \<Rightarrow> bool" where
  "headers_to ck h m \<longleftrightarrow> headers_down ck h m \<or>
     m = ZERO32 \<and> (\<exists>g b. down ck (ck_head ck) h g \<and> good_block ck (ck_head ck) g b \<and> sb_previous_hash b = ZERO32)"

definition fork_sound :: "checks \<Rightarrow> bytes \<Rightarrow> fork \<Rightarrow> bool" where
  "fork_sound ck h f \<longleftrightarrow>
     fk_head f = h \<and> (\<forall>m. fk_header f = Some m \<longrightarrow> headers_to ck h m) \<and> (\<forall>m. fk_txs f = Some m \<longrightarrow> txs_down ck h m)"

definition forks_sound :: "checks \<Rightarrow> forks \<Rightarrow> bool" where
  "forks_sound ck fs \<longleftrightarrow> distinct (map fst fs) \<and> (\<forall>h f. map_of fs h = Some f \<longrightarrow> fork_sound ck h f)"

lemma down_trans: "down ck good m c \<Longrightarrow> down ck good h m \<Longrightarrow> down ck good h c"
  by (induction rule: down.induct) (auto intro: down_step)

lemma verified_down_trans:
  "verified_down ck good h m \<Longrightarrow> verified_down ck good m c \<Longrightarrow> verified_down ck good h c"
  unfolding verified_down_def using down_trans by blast

lemma zero_not_verified: "ck_load ck ZERO32 = Inl e \<Longrightarrow> \<not> verified_down ck good h ZERO32"
  by (simp add: verified_down_def good_block_def block_and_parent_def)

lemma zero_start: "ck_load ck ZERO32 = Inl e \<Longrightarrow> \<not> verified_down ck good ZERO32 m"
proof
  assume e: "ck_load ck ZERO32 = Inl e" and v: "verified_down ck good ZERO32 m"
  have "c = ZERO32" if "down ck good ZERO32 c" for c
    using that by induction (simp_all add: good_block_def block_and_parent_def e)
  with v have "m = ZERO32" by (simp add: verified_down_def)
  with v zero_not_verified [OF e] show False by simp
qed

lemma sound_update:
  assumes "forks_sound ck fs" "update_fork fs h change = Inr fs'" "\<And>f. fork_sound ck h f \<Longrightarrow> fork_sound ck h (change f)"
  shows "forks_sound ck fs'"
  using assms unfolding forks_sound_def update_fork_def
  by (auto simp: update_conv distinct_update split: option.splits if_splits)

lemma header_loop_sound:
  assumes "forks_sound ck fs" "down ck (ck_head ck) h cur" "header_loop ck h n cur r fs = (res, fs')"
  shows "forks_sound ck fs'"
  using assms
proof (induction ck h n cur r fs rule: header_loop.induct)
  case (2 ck h n cur r fs)
  show ?case
  proof (cases "block_and_parent ck cur")
    case (Inr bp)
    obtain b p where bp: "bp = (b, p)" by (cases bp)
    have good: "good_block ck (ck_head ck) cur b" if "ck_head ck p b"
      using that Inr bp by (auto simp: good_block_def)
    have down: "headers_down ck h cur" if "ck_head ck p b"
      using "2.prems"(2) good [OF that] by (auto simp: verified_down_def)
    have next_block: "down ck (ck_head ck) h (sb_previous_hash b)" if "ck_head ck p b" "sb_previous_hash b \<noteq> ZERO32"
      using down_step "2.prems"(2) good that by metis
    have first: "headers_to ck h ZERO32" if "ck_head ck p b" "sb_previous_hash b = ZERO32"
      unfolding headers_to_def using "2.prems"(2) good [OF that(1)] that(2) by blast
    have upd: "forks_sound ck fs'" if "(case update_fork fs h change of Inl e \<Rightarrow> (Inl e, fs) | Inr x \<Rightarrow> (Inr y, x)) = (res, fs')"
      "\<And>f. fork_sound ck h f \<Longrightarrow> fork_sound ck h (change f)" for change y
      using that "2.prems"(1) sound_update [OF "2.prems"(1) _ that(2)] by (auto split: sum.splits)
    show ?thesis
    proof (cases "ck_head ck p b")
      case False
      with "2.prems"(3) Inr bp show ?thesis
        by (auto simp: Let_def intro!: upd simp: fork_sound_def)
    next
      case ok: True
      consider "cur \<noteq> h \<and> cur \<in> fst ` set fs" | "\<not> (cur \<noteq> h \<and> cur \<in> fst ` set fs)" "cur = r"
        | "\<not> (cur \<noteq> h \<and> cur \<in> fst ` set fs)" "cur \<noteq> r" "sb_previous_hash b = ZERO32"
        | "\<not> (cur \<noteq> h \<and> cur \<in> fst ` set fs)" "cur \<noteq> r" "sb_previous_hash b \<noteq> ZERO32" by blast
      then show ?thesis
      proof cases
        case 1
        show ?thesis
          by (rule upd [where change = "\<lambda>f. f\<lparr>fk_header := Some cur, fk_root := cur\<rparr>" and y = "Some cur"])
            (use "2.prems"(3) Inr bp ok 1 down in \<open>simp_all add: Let_def fork_sound_def headers_to_def\<close>)
      next
        case 2
        show ?thesis
          by (rule upd [where change = "\<lambda>f. f\<lparr>fk_header := Some r\<rparr>" and y = "Some r"])
            (use "2.prems"(3) Inr bp ok 2 down in \<open>auto simp add: Let_def fork_sound_def headers_to_def\<close>)
      next
        case 3
        show ?thesis
          by (rule upd [where change = "\<lambda>f. f\<lparr>fk_header := Some ZERO32, fk_root := ZERO32\<rparr>" and y = "Some ZERO32"])
            (use "2.prems"(3) Inr bp ok 3 first in \<open>auto simp add: Let_def fork_sound_def\<close>)
      next
        case 4
        show ?thesis
          by (rule "2.IH" [OF refl Inr bp [symmetric] _ 4 "2.prems"(1) next_block])
            (use 4 ok "2.prems"(3) Inr bp in \<open>auto simp: Let_def\<close>)
      qed
    qed
  qed (use "2.prems" in \<open>auto simp: Let_def\<close>)
qed simp

lemma txs_loop_sound:
  assumes "forks_sound ck fs" "down ck (\<lambda>p b. txs_good ck p b = Inr True) h cur" "txs_loop ck h n cur r fs = (res, fs')"
  shows "forks_sound ck fs'"
  using assms
proof (induction ck h n cur r fs rule: txs_loop.induct)
  case (2 ck h n cur r fs)
  let ?r = "bind_exc (block_and_parent ck cur) (\<lambda>(b, p). bind_exc (txs_good ck p b) (\<lambda>ok. Inr (b, ok)))"
  show ?case
  proof (cases ?r)
    case (Inr q)
    obtain b ok where q: "q = (b, ok)" by (cases q)
    let ?change = "\<lambda>f. if ok then f\<lparr>fk_txs := Some cur\<rparr> else f\<lparr>fk_malicious := Some cur\<rparr>"
    from Inr q have good: "good_block ck (\<lambda>p b. txs_good ck p b = Inr True) cur b" if ok
      using that by (auto simp: bind_exc_eq_Inr good_block_def)
    have change: "fork_sound ck h (?change f)" if "fork_sound ck h f" for f
      using that good "2.prems"(2) by (auto simp: fork_sound_def verified_down_def)
    show ?thesis
    proof (cases "update_fork fs h ?change")
      case (Inr fs1)
      have sound: "forks_sound ck fs1" by (rule sound_update [OF "2.prems"(1) Inr change])
      have prev: "down ck (\<lambda>p b. txs_good ck p b = Inr True) h (sb_previous_hash b)" if ok "sb_previous_hash b \<noteq> ZERO32"
        using down_step [OF "2.prems"(2) good] that by blast
      show ?thesis
      proof (cases "ok \<and> cur \<noteq> r \<and> sb_previous_hash b \<noteq> ZERO32")
        case True
        show ?thesis
          by (rule "2.IH" [OF \<open>?r = Inr q\<close> q [symmetric] Inr _ _ sound])
            (use True prev "2.prems"(3) Inr \<open>?r = Inr q\<close> q in auto)
      next
        case False
        with "2.prems"(3) Inr \<open>?r = Inr q\<close> q sound show ?thesis by (auto split: if_splits)
      qed
    qed (use "2.prems" Inr q in auto)
  qed (use "2.prems" in auto)
qed simp

lemma verify_fork_sound:
  assumes "forks_sound ck fs" "verify_fork ck n fs h = (res, fs')"
  shows "forks_sound ck fs'"
proof (cases "map_of fs h")
  case (Some f)
  obtain x fs1 where x: "header_loop ck h n h (fk_root f) fs = (x, fs1)" by fastforce
  have "forks_sound ck fs1" by (rule header_loop_sound [OF assms(1) down_start x])
  with assms(2) Some x txs_loop_sound [OF _ down_start] show ?thesis
    by (auto simp: verify_fork_def split: sum.splits option.splits)
qed (use assms in \<open>simp add: verify_fork_def\<close>)

lemma scan_sound:
  assumes "forks_sound ck fs"
  shows "forks_sound ck (scan_peer_heads peers fs)"
proof -
  have "forks_sound ck (fold (\<lambda>(h, ps) fs. AList.update h
            ((case map_of fs h of None \<Rightarrow> new_fork h | Some f \<Rightarrow> f)\<lparr>fk_peers := ps\<rparr>) fs) gs fs')"
    if "forks_sound ck fs'" for gs fs'
    using that
  proof (induction gs arbitrary: fs')
    case (Cons g gs)
    obtain h ps where g: "g = (h, ps)" by (cases g)
    have "fork_sound ck h ((case map_of fs' h of None \<Rightarrow> new_fork h | Some f \<Rightarrow> f)\<lparr>fk_peers := ps\<rparr>)"
      using Cons.prems by (auto simp: forks_sound_def fork_sound_def new_fork_def split: option.split)
    then have "forks_sound ck (AList.update h ((case map_of fs' h of None \<Rightarrow> new_fork h | Some f \<Rightarrow> f)\<lparr>fk_peers := ps\<rparr>) fs')"
      using Cons.prems unfolding forks_sound_def by (auto simp: update_conv distinct_update split: if_splits)
    from Cons.IH [OF this] g show ?case by simp
  qed simp
  moreover have "forks_sound ck (map (\<lambda>(h, f). (h, f\<lparr>fk_peers := []\<rparr>)) fs)"
  proof -
    have "map_of (map (\<lambda>(h, f). (h, f\<lparr>fk_peers := []\<rparr>)) fs) h = map_option (fk_peers_update (\<lambda>_. [])) (map_of fs h)" for h
      by (induction fs) auto
    moreover have "map fst (map (\<lambda>(h, f). (h, f\<lparr>fk_peers := []\<rparr>)) fs) = map fst fs"
      by (induction fs) auto
    ultimately show ?thesis
      using assms unfolding forks_sound_def by (simp only:) (auto simp: fork_sound_def)
  qed
  ultimately show ?thesis by (simp add: scan_peer_heads_def)
qed

text \<open>A fork that counts as fully verified is verified down to its root, which is no first block.\<close>

lemma fully_verified:
  assumes "fork_sound ck h f" "is_fully_verified f" "ck_load ck ZERO32 = Inl e"
  shows "headers_down ck h (fk_root f)" "txs_down ck h (fk_root f)" "fk_root f \<noteq> ZERO32"
proof -
  show txs: "txs_down ck h (fk_root f)" using assms by (simp add: fork_sound_def is_fully_verified_def)
  then show "fk_root f \<noteq> ZERO32" using zero_not_verified [OF assms(3)] by metis
  then show "headers_down ck h (fk_root f)"
    using assms by (auto simp: fork_sound_def is_fully_verified_def headers_to_def)
qed

lemma unified_sound:
  assumes "forks_sound ck fs" "map_of fs h = Some child" "map_of fs (fk_root child) = Some root_fork"
    and "is_fully_verified child" "is_fully_verified root_fork" "ck_load ck ZERO32 = Inl e"
  shows "fork_sound ck h (unified h root_fork child)"
proof -
  have child: "fork_sound ck h child" and r: "fork_sound ck (fk_root child) root_fork"
    using assms(1-3) by (auto simp: forks_sound_def)
  note c = fully_verified [OF child assms(4,6)] and r = fully_verified [OF r assms(5,6)]
  show ?thesis
    using verified_down_trans [OF c(1) r(1)] verified_down_trans [OF c(2) r(2)]
    by (simp add: fork_sound_def unified_def headers_to_def)
qed

text \<open>The heads that are merged stay fully verified, with fully verified roots, until their turn.\<close>

lemma merge_each_sound:
  assumes "forks_sound ck fs" "ck_load ck ZERO32 = Inl e" "merge_each hs fs m = (res, fs')" "distinct hs"
    and "\<forall>h\<in>set hs. \<forall>f. map_of fs h = Some f \<longrightarrow> is_fully_verified f
            \<and> (\<forall>g. map_of fs (fk_root f) = Some g \<longrightarrow> is_fully_verified g)"
  shows "forks_sound ck fs'"
  using assms
proof (induction hs arbitrary: fs m)
  case (Cons h hs)
  show ?case
  proof (cases "map_of fs h")
    case None
    with Cons show ?thesis by simp
  next
    case (Some child)
    note child = this
    show ?thesis
    proof (cases "map_of fs (fk_root child)")
      case None
      with Cons child show ?thesis by simp
    next
      case (Some r)
      let ?u = "unified h r child" and ?fs = "AList.delete h (AList.delete (fk_root child) fs)"
      have full: "is_fully_verified child" "is_fully_verified r" using Cons.prems(5) child Some by auto
      note u = unified_sound [OF Cons.prems(1) child Some full Cons.prems(2)]
      have at: "map_of (?fs @ [(h, ?u)]) x = (if x = h then Some ?u else if x = fk_root child then None else map_of fs x)" for x
        by (simp add: map_of_append delete_conv map_add_def split: option.split)
      have keys: "distinct (map fst (?fs @ [(h, ?u)]))"
        using Cons.prems(1) by (simp add: forks_sound_def delete_keys distinct_removeAll)
      have sound: "forks_sound ck (?fs @ [(h, ?u)])"
        unfolding forks_sound_def at using keys u Cons.prems(1) by (auto simp: forks_sound_def split: if_splits)
      have ufull: "is_fully_verified ?u" by (simp add: is_fully_verified_def unified_def)
      show ?thesis
      proof (cases "fk_root child = h")
        case True
        with Cons.prems(1,3) child Some show ?thesis
          by (auto simp: forks_sound_def delete_keys distinct_removeAll delete_conv split: if_splits)
      next
        case differ: False
        show ?thesis
        proof (rule Cons.IH [OF sound Cons.prems(2)])
        show "merge_each hs (?fs @ [(h, ?u)]) True = (res, fs')" using Cons.prems(3) child Some differ by simp
        show "distinct hs" using Cons.prems(4) by simp
        show "\<forall>x\<in>set hs. \<forall>f. map_of (?fs @ [(h, ?u)]) x = Some f \<longrightarrow> is_fully_verified f
            \<and> (\<forall>g. map_of (?fs @ [(h, ?u)]) (fk_root f) = Some g \<longrightarrow> is_fully_verified g)"
          using Cons.prems(4,5) ufull unfolding at by (auto split: if_splits)
        qed
      qed
    qed
  qed
qed simp

lemma merge_sound:
  assumes "forks_sound ck fs" "ck_load ck ZERO32 = Inl e" "merge_forks fs = (res, fs')"
  shows "forks_sound ck fs'"
proof (rule merge_each_sound [OF assms(1,2) assms(3) [unfolded merge_forks_def]])
  have d: "distinct (map fst fs)" using assms(1) by (simp add: forks_sound_def)
  then show "distinct (merge_heads fs)"
    by (simp add: merge_heads_def Let_def distinct_map_filter)
  show "\<forall>h\<in>set (merge_heads fs). \<forall>f. map_of fs h = Some f \<longrightarrow> is_fully_verified f
      \<and> (\<forall>g. map_of fs (fk_root f) = Some g \<longrightarrow> is_fully_verified g)"
  proof (intro ballI allI impI)
    fix h f
    assume h: "h \<in> set (merge_heads fs)" and f: "map_of fs h = Some f"
    from h obtain f' where "(h, f') \<in> set fs" "is_fully_verified f'"
      and r: "case map_of fs (root_of fs h) of None \<Rightarrow> False | Some g \<Rightarrow> is_fully_verified g"
      unfolding merge_heads_def Let_def by auto
    with f d have "is_fully_verified f" by (metis map_of_is_SomeI option.inject)
    with r f show "is_fully_verified f \<and> (\<forall>g. map_of fs (fk_root f) = Some g \<longrightarrow> is_fully_verified g)"
      by (auto simp: root_of_def)
  qed
qed

section \<open>The worker, step by step\<close>

text \<open>
  A round of the worker is made of these steps, with the peers, the head and the time as they are then. A
  verification that raised or was refused keeps the marks it set, and a merge that raised the forks it left.
  A selection may set the head from what it read before other steps.
\<close>

inductive worker_step :: "checks \<Rightarrow> chain_view \<Rightarrow> chain_view \<Rightarrow> bool" for ck where
  scan: "worker_step ck v (v\<lparr>cv_forks := scan_peer_heads peers (cv_forks v)\<rparr>)"
| verify: "verify_fork ck n (cv_forks v) h = (res, fs) \<Longrightarrow> worker_step ck v (v\<lparr>cv_forks := fs\<rparr>)"
| merge: "merge_forks (cv_forks v) = (res, fs) \<Longrightarrow> worker_step ck v (v\<lparr>cv_forks := fs\<rparr>)"
| select: "worker_step ck v (select_from ck now max_stale max_future current current_height read v)"

lemma select_forks [simp]: "cv_forks (select_from ck now s f c k fs v) = cv_forks v"
  by (simp add: select_from_def set_head_def split: option.split)

text \<open>A head that another thread has moved in the meantime stays.\<close>

lemma moved_head_stays: "cv_latest v \<noteq> c \<Longrightarrow> select_from ck now s f c k fs v = v"
  by (simp add: select_from_def set_head_def split: option.split)

lemma select_step: "worker_step ck v (select_latest_block ck now s f v)"
  unfolding select_latest_block_def by (rule select)

lemma worker_sound:
  assumes "(worker_step ck)\<^sup>*\<^sup>* v v'" "forks_sound ck (cv_forks v)" "ck_load ck ZERO32 = Inl e"
  shows "forks_sound ck (cv_forks v')"
  using assms(1)
proof induction
  case (step x y)
  from step(2) show ?case
  proof cases
    case (scan peers)
    with step.IH show ?thesis by (simp add: scan_sound)
  next
    case (verify n h res fs)
    from verify_fork_sound [OF step.IH verify(2)] verify(1) show ?thesis by simp
  next
    case (merge res fs)
    from merge_sound [OF step.IH assms(3) merge(2)] merge(1) show ?thesis by simp
  next
    case (select now max_stale max_future current current_height read)
    with step.IH show ?thesis by simp
  qed
qed (rule assms(2))

lemma best_of_candidate:
  "best_of cand c fs best = Some (h, b) \<Longrightarrow> best \<noteq> Some (h, b) \<Longrightarrow> \<exists>f. (h, f) \<in> set fs \<and> cand (h, f) = Some b"
proof (induction fs arbitrary: best)
  case (Cons x fs)
  let ?best = "case cand x of None \<Rightarrow> best | Some y \<Rightarrow> better c (fst x) y best"
  show ?case
  proof (cases "?best = Some (h, b)")
    case True
    with Cons.prems(2) have "cand x = Some b \<and> fst x = h"
      by (auto simp: better_def split: option.splits if_splits)
    then show ?thesis by (cases x) auto
  next
    case False
    with Cons.IH [of ?best] Cons.prems(1) show ?thesis by auto
  qed
qed simp

text \<open>
  C7: the head that the worker selects is sound. After any run of the worker from sound marks, when a
  selection moves the head, the new head is announced by a peer, is not known to be malicious, is no lower
  than the head before, and every block from it down to and including the root of its fork passes the check
  of its header and the replay of its transactions, or is the node's own. The root is never
  \<open>ZERO32\<close>, so a fork that was verified down to the first block is not selected.
\<close>

theorem selected_head_verified:
  assumes "(worker_step ck)\<^sup>*\<^sup>* v0 v" and "forks_sound ck (cv_forks v0)" and "ck_load ck ZERO32 = Inl e"
    and "select_latest_block ck now max_stale max_future v = v'" and "cv_latest v' \<noteq> cv_latest v"
  shows "\<exists>h f b. cv_latest v' = Some h \<and> cv_block v' = Some b \<and> ck_load ck h = Inr b
     \<and> map_of (cv_forks v) h = Some f \<and> fk_peers f \<noteq> [] \<and> fk_malicious f = None \<and> fk_root f \<noteq> ZERO32
     \<and> headers_down ck h (fk_root f) \<and> txs_down ck h (fk_root f)
     \<and> (\<forall>k. current_head_height ck v = Some k \<longrightarrow> k \<le> sb_height b)"
proof -
  let ?cand = "candidate ck now max_stale max_future (current_head_height ck v)"
  have sound: "forks_sound ck (cv_forks v)" by (rule worker_sound [OF assms(1-3)])
  from assms(4,5) obtain h b where best: "best_of ?cand (cv_latest v) (cv_forks v) None = Some (h, b)"
    and v': "cv_latest v' = Some h" "cv_block v' = Some b"
    by (auto simp: select_latest_block_def select_from_def set_head_def split: option.splits if_splits)
  from best_of_candidate [OF best] obtain f where f: "(h, f) \<in> set (cv_forks v)" "?cand (h, f) = Some b" by auto
  then have at: "map_of (cv_forks v) h = Some f" using sound by (simp add: forks_sound_def)
  then have "fork_sound ck h f" using sound by (simp add: forks_sound_def)
  moreover from f(2) have "fk_malicious f = None" "is_fully_verified f" "fk_peers f \<noteq> []" "ck_load ck h = Inr b"
    "\<forall>k. current_head_height ck v = Some k \<longrightarrow> k \<le> sb_height b"
    by (auto simp: candidate_def split: if_splits sum.splits option.splits)
  ultimately show ?thesis using fully_verified [of ck h f] assms(3) v' at by blast
qed

section \<open>Which head is selected\<close>

definition candidates :: "(bytes \<times> fork \<Rightarrow> stored_block option) \<Rightarrow> forks \<Rightarrow> (bytes \<times> stored_block) set" where
  "candidates cand fs = {(h, b). \<exists>f. (h, f) \<in> set fs \<and> cand (h, f) = Some b}"

text \<open>The highest candidate, of equally high ones the head that the node has, else the one with the least hash.\<close>

definition best_in :: "bytes option \<Rightarrow> (bytes \<times> stored_block) set \<Rightarrow> bytes \<Rightarrow> stored_block \<Rightarrow> bool" where
  "best_in c S h b \<longleftrightarrow>
     (h, b) \<in> S \<and> (\<forall>(h', b')\<in>S. sb_height b' \<le> sb_height b)
     \<and> (c = Some h \<or> (\<forall>(h', b')\<in>S. sb_height b' = sb_height b \<longrightarrow> c \<noteq> Some h' \<and> h \<le> h'))"

lemma better_first: "0 \<le> sb_height b \<Longrightarrow> better c h b None = Some (h, b)"
  by (simp add: better_def)

lemma better_best:
  assumes "best_in c S h b"
  shows "\<exists>h2 b2. better c h' b' (Some (h, b)) = Some (h2, b2) \<and> best_in c (insert (h', b') S) h2 b2"
proof -
  have top: "(h, b) \<in> S" "\<And>x y. (x, y) \<in> S \<Longrightarrow> sb_height y \<le> sb_height b" using assms by (auto simp: best_in_def)
  have tie: "c = Some h \<or> (\<forall>x y. (x, y) \<in> S \<longrightarrow> sb_height y = sb_height b \<longrightarrow> c \<noteq> Some x \<and> h \<le> x)"
    using assms by (auto simp: best_in_def)
  consider "sb_height b' > sb_height b" | "sb_height b' < sb_height b"
    | "sb_height b' = sb_height b" "c = Some h'"
    | "sb_height b' = sb_height b" "c \<noteq> Some h'" "c \<noteq> Some h" "h' < h"
    | "sb_height b' = sb_height b" "c \<noteq> Some h'" "c = Some h \<or> h \<le> h'" by fastforce
  then show ?thesis
  proof cases
    case 4
    with top tie have "best_in c (insert (h', b') S) h' b'" unfolding best_in_def by fastforce
    with 4 show ?thesis by (simp add: better_def)
  next
    case 5
    with top tie have "best_in c (insert (h', b') S) h b" unfolding best_in_def by fastforce
    with 5 show ?thesis by (auto simp: better_def)
  qed (use top tie in \<open>fastforce simp: better_def best_in_def\<close>)+
qed

lemma best_of_best:
  assumes "\<forall>(h, b)\<in>candidates cand fs. 0 \<le> sb_height b"
    and "case best of None \<Rightarrow> S = {} | Some (h, b) \<Rightarrow> best_in c S h b"
  shows "case best_of cand c fs best of
     None \<Rightarrow> S \<union> candidates cand fs = {} | Some (h, b) \<Rightarrow> best_in c (S \<union> candidates cand fs) h b"
  using assms
proof (induction fs arbitrary: best S)
  case Nil
  have "candidates cand [] = {}" by (simp add: candidates_def)
  with Nil show ?case by (cases best) auto
next
  case (Cons x fs)
  obtain h f where x: "x = (h, f)" by (cases x)
  have sub: "\<forall>(h, b)\<in>candidates cand fs. 0 \<le> sb_height b"
    using Cons.prems(1) by (auto simp: candidates_def)
  show ?case
  proof (cases "cand x")
    case None
    then have "candidates cand (x # fs) = candidates cand fs" by (auto simp: candidates_def x)
    with Cons.IH [OF sub Cons.prems(2)] show ?thesis by (simp only: best_of.simps None option.case)
  next
    case (Some b)
    then have new: "S \<union> candidates cand (x # fs) = insert (h, b) S \<union> candidates cand fs"
      by (auto simp: candidates_def x)
    have "0 \<le> sb_height b" using Cons.prems(1) Some x by (auto simp: candidates_def)
    then have "case better c h b best of None \<Rightarrow> insert (h, b) S = {} | Some (h', b') \<Rightarrow> best_in c (insert (h, b) S) h' b'"
    proof (cases best)
      case None
      with Cons.prems(2) better_first [OF \<open>0 \<le> sb_height b\<close>] show ?thesis by (simp add: best_in_def)
    next
      case (Some q)
      obtain h1 b1 where q: "q = (h1, b1)" by (cases q)
      with Some Cons.prems(2) better_best [of c S h1 b1 h b] show ?thesis by auto
    qed
    from Cons.IH [OF sub this] Some x show ?thesis unfolding new by (simp only: best_of.simps option.case fst_conv)
  qed
qed

text \<open>
  C8: which fork is selected does not depend on the order of the forks: where there are candidates, the
  head becomes the highest one, of equally high ones the head that the node has, else the one
  with the least hash.
\<close>

theorem selection_is_canonical:
  assumes "\<forall>(h, b)\<in>candidates (candidate ck now max_stale max_future (current_head_height ck v)) (cv_forks v).
        0 \<le> sb_height b"
    and "candidates (candidate ck now max_stale max_future (current_head_height ck v)) (cv_forks v) \<noteq> {}"
  shows "\<exists>h b. best_in (cv_latest v)
       (candidates (candidate ck now max_stale max_future (current_head_height ck v)) (cv_forks v)) h b
     \<and> cv_latest (select_latest_block ck now max_stale max_future v) = Some h"
proof -
  let ?cand = "candidate ck now max_stale max_future (current_head_height ck v)"
  from best_of_best [where cand = ?cand and fs = "cv_forks v" and best = None and S = "{}" and c = "cv_latest v", OF assms(1)] assms(2) obtain h b where
    "best_of ?cand (cv_latest v) (cv_forks v) None = Some (h, b)" "best_in (cv_latest v) (candidates ?cand (cv_forks v)) h b"
    by (auto split: option.splits)
  then show ?thesis by (auto simp: select_latest_block_def select_from_def set_head_def)
qed

section \<open>Forks in a file\<close>

definition fork_ok :: "bytes \<times> fork \<Rightarrow> bool" where
  "fork_ok = (\<lambda>(h, f). fk_head f = h \<and> length h = 32 \<and> length (fk_root f) = 32 \<and> fk_peers f = []
     \<and> pred_option (\<lambda>m. length m = 32) (fk_header f) \<and> pred_option (\<lambda>m. length m = 32) (fk_txs f)
     \<and> pred_option (\<lambda>m. length m = 32) (fk_malicious f))"

lemma length_mark: "pred_option (\<lambda>m. length m = 32) m \<Longrightarrow> length (mark_bytes m) = 33"
  by (cases m) (simp_all add: mark_bytes_def)

lemma mark_at_append:
  assumes "pred_option (\<lambda>m. length m = 32) m" "length xs = n"
  shows "mark_at (xs @ mark_bytes m @ ys) n = m"
  using assms by (cases m) (auto simp: mark_at_def mark_bytes_def nth_append)

lemma fork_bytes:
  assumes "fork_ok (h, f)"
  shows "length (fork_to_bytes f) = FORK_SIZE" "fork_from_bytes (fork_to_bytes f) = Inr f"
proof -
  let ?h = "mark_bytes (fk_header f)" and ?t = "mark_bytes (fk_txs f)" and ?m = "mark_bytes (fk_malicious f)"
  have f: "length (fk_head f) = 32" "length (fk_root f) = 32" "fk_peers f = []"
    "pred_option (\<lambda>m. length m = 32) (fk_header f)" "pred_option (\<lambda>m. length m = 32) (fk_txs f)"
    "pred_option (\<lambda>m. length m = 32) (fk_malicious f)"
    using assms by (auto simp: fork_ok_def)
  have l: "length ?h = 33" "length ?t = 33" "length ?m = 33" using f by (simp_all add: length_mark)
  show size: "length (fork_to_bytes f) = FORK_SIZE" using f l by (simp add: fork_to_bytes_def FORK_SIZE_def)
  have "mark_at (fork_to_bytes f) 64 = fk_header f"
    using mark_at_append [OF f(4), of "fk_head f @ fk_root f" 64 "?t @ ?m"] f by (simp add: fork_to_bytes_def)
  moreover have "mark_at (fork_to_bytes f) 97 = fk_txs f"
    using mark_at_append [OF f(5), of "fk_head f @ fk_root f @ ?h" 97 ?m] f l by (simp add: fork_to_bytes_def)
  moreover have "mark_at (fork_to_bytes f) 130 = fk_malicious f"
    using mark_at_append [OF f(6), of "fk_head f @ fk_root f @ ?h @ ?t" 130 "[]"] f l by (simp add: fork_to_bytes_def)
  moreover have "take 32 (fork_to_bytes f) = fk_head f" "take 32 (drop 32 (fork_to_bytes f)) = fk_root f"
    using f by (simp_all add: fork_to_bytes_def)
  ultimately show "fork_from_bytes (fork_to_bytes f) = Inr f"
    using size f(3) by (cases f) (simp add: fork_from_bytes_def)
qed

text \<open>
  C16: the forks of a node come back from a file as they were written, in their order and with their marks,
  without their peers.
\<close>

theorem forks_export_import:
  assumes "distinct (map fst fs)" and "\<forall>x\<in>set fs. fork_ok x"
  shows "import_forks (export_forks fs) [] = Inr fs"
proof -
  have size: "length (export_forks fs) = FORK_SIZE * length fs"
    using assms(2) by (induction fs) (auto simp: export_forks_def fork_bytes)
  have "import_each (length fs) (export_forks fs) done = Inr (done @ fs)"
    if "distinct (map fst (done @ fs))" "\<forall>x\<in>set fs. fork_ok x" for "done"
    using that
  proof (induction fs arbitrary: "done")
    case (Cons x fs)
    obtain h f where x: "x = (h, f)" by (cases x)
    then have ok: "fork_ok (h, f)" "fk_head f = h" using Cons.prems(2) by (auto simp: fork_ok_def)
    have new: "AList.update h f done = done @ [(h, f)]"
      using Cons.prems(1) x by (induction "done") auto
    show ?case
      using Cons.IH [of "done @ [(h, f)]"] Cons.prems fork_bytes [OF ok(1)] ok(2) new x
      by (simp add: export_forks_def)
  qed (simp add: export_forks_def)
  from this [of "[]"] assms size show ?thesis
    by (simp add: import_forks_def FORK_SIZE_def)
qed

section \<open>Witnesses\<close>

text \<open>
  Four blocks in a row under one-byte hashes, each header good. The transactions of block 2 are bad. Peers
  announce blocks 3 and 4.
\<close>

definition row_block :: "nat \<Rightarrow> stored_block" where
  "row_block k = demo_stored\<lparr>sb_height := int k, sb_expr_id := [of_nat k],
     sb_previous_hash := (if k = 1 then ZERO32 else [of_nat (k - 1)]), sb_timestamp := 100\<rparr>"

definition row_checks :: checks where
  "row_checks =
     \<lparr>ck_load = (\<lambda>h. if h \<in> {[1], [2], [3], [4]} then Inr (row_block (unat (hd h))) else Inl KeyError),
      ck_head = (\<lambda>p b. True),
      ck_txs = (\<lambda>p b. Inr (if sb_height b = 2 then Some ''accounts hash mismatch'' else None)), ck_own = []\<rparr>"

definition row_view :: chain_view where
  "row_view = \<lparr>cv_forks = [], cv_latest = None, cv_block = None, cv_spacing = 0\<rparr>"

definition row_forks :: forks where
  "row_forks =
     snd (verify_fork row_checks 9 (snd (verify_fork row_checks 9
       (scan_peer_heads [([7], Some [3]), ([8], Some [4])] []) [3])) [4])"

lemma row_run: "(worker_step row_checks)\<^sup>*\<^sup>* row_view (row_view\<lparr>cv_forks := row_forks\<rparr>)"
proof -
  let ?scan = "scan_peer_heads [([7], Some [3]), ([8], Some [4])] []"
  let ?one = "snd (verify_fork row_checks 9 ?scan [3])"
  have "worker_step row_checks row_view (row_view\<lparr>cv_forks := ?scan\<rparr>)"
    using scan [of row_checks row_view "[([7], Some [3]), ([8], Some [4])]"] by (simp add: row_view_def)
  moreover have go: "worker_step row_checks (row_view\<lparr>cv_forks := fs\<rparr>) (row_view\<lparr>cv_forks := snd (verify_fork row_checks 9 fs h)\<rparr>)"
    for fs h
    using verify [of row_checks 9 "row_view\<lparr>cv_forks := fs\<rparr>" h "fst (verify_fork row_checks 9 fs h)"] by simp
  ultimately have "(worker_step row_checks)\<^sup>*\<^sup>* row_view (row_view\<lparr>cv_forks := ?one\<rparr>)"
    by (rule rtranclp.rtrancl_into_rtrancl [OF r_into_rtranclp])
  from rtranclp.rtrancl_into_rtrancl [OF this go] show ?thesis unfolding row_forks_def .
qed

lemma row_forks_eq:
  "row_forks = [([3], \<lparr>fk_head = [3], fk_root = ZERO32, fk_header = Some ZERO32, fk_txs = Some [3],
       fk_malicious = Some [2], fk_peers = [[7]]\<rparr>),
     ([4], \<lparr>fk_head = [4], fk_root = [3], fk_header = Some [3], fk_txs = Some [3], fk_malicious = None, fk_peers = [[8]]\<rparr>)]"
  by code_simp

lemma row_candidates:
  "candidates (candidate row_checks 100 10 2 None) row_forks = {([4], row_block 4)}"
proof -
  have "candidate row_checks 100 10 2 None ([3], f) = None" if "fk_malicious f = Some [2]" for f
    using that by (simp add: candidate_def)
  moreover have "candidate row_checks 100 10 2 None ([4], f) = Some (row_block 4)"
    if "fk_malicious f = None" "is_fully_verified f" "fk_peers f = [[8]]" for f
    using that by (simp add: candidate_def row_checks_def row_block_def)
  ultimately show ?thesis
    unfolding candidates_def row_forks_eq by (auto simp: is_fully_verified_def)
qed

lemma row_height: "current_head_height row_checks (row_view\<lparr>cv_forks := row_forks\<rparr>) = None"
  by (simp add: current_head_height_def row_view_def)

lemma row_select: "cv_latest (select_latest_block row_checks 100 10 2 (row_view\<lparr>cv_forks := row_forks\<rparr>)) = Some [4]"
  by code_simp

lemma selected_head_verified_witness:
  "\<exists>r. headers_down row_checks [4] r \<and> txs_down row_checks [4] r \<and> r \<noteq> ZERO32"
proof -
  have sound: "forks_sound row_checks (cv_forks row_view)" by (simp add: row_view_def forks_sound_def)
  have zero: "ck_load row_checks ZERO32 = Inl KeyError" by code_simp
  have "cv_latest (row_view\<lparr>cv_forks := row_forks\<rparr>) = None" by (simp add: row_view_def)
  with row_select have "cv_latest (select_latest_block row_checks 100 10 2 (row_view\<lparr>cv_forks := row_forks\<rparr>))
      \<noteq> cv_latest (row_view\<lparr>cv_forks := row_forks\<rparr>)" by simp
  from selected_head_verified [OF row_run sound zero refl this] row_select show ?thesis by auto
qed

lemma selection_is_canonical_witness:
  "\<exists>h. cv_latest (select_latest_block row_checks 100 10 2 (row_view\<lparr>cv_forks := row_forks\<rparr>)) = Some h"
proof -
  have "\<forall>(h, b)\<in>candidates (candidate row_checks 100 10 2 (current_head_height row_checks (row_view\<lparr>cv_forks := row_forks\<rparr>)))
          (cv_forks (row_view\<lparr>cv_forks := row_forks\<rparr>)). 0 \<le> sb_height b"
    "candidates (candidate row_checks 100 10 2 (current_head_height row_checks (row_view\<lparr>cv_forks := row_forks\<rparr>)))
          (cv_forks (row_view\<lparr>cv_forks := row_forks\<rparr>)) \<noteq> {}"
    by (simp_all add: row_height row_candidates row_block_def)
  from selection_is_canonical [OF this] show ?thesis by blast
qed

lemma forks_export_import_witness:
  "import_forks (export_forks [(ZERO32, (new_fork ZERO32)\<lparr>fk_txs := Some ZERO32\<rparr>)]) []
     = Inr [(ZERO32, (new_fork ZERO32)\<lparr>fk_txs := Some ZERO32\<rparr>)]"
  by (rule forks_export_import) (simp_all add: fork_ok_def new_fork_def)

text \<open>
  A run, shown on one example: a fork on top of one that is known to be malicious can become the head. The verification of block 4
  stops at the head of the other fork, block 3, and does not look at what is known of that fork: block 2 was
  refused, block 3 is marked, and block 4 is selected.
\<close>

lemma selects_on_malicious:
  "(worker_step row_checks)\<^sup>*\<^sup>* row_view (row_view\<lparr>cv_forks := row_forks\<rparr>)
   \<and> map_option fk_malicious (map_of row_forks [3]) = Some (Some [2])
   \<and> cv_latest (select_latest_block row_checks 100 10 2 (row_view\<lparr>cv_forks := row_forks\<rparr>)) = Some [4]
   \<and> down row_checks (ck_head row_checks) [4] [2]"
proof (intro conjI)
  show "map_option fk_malicious (map_of row_forks [3]) = Some (Some [2])" by code_simp
  have good: "good_block row_checks (ck_head row_checks) [4] (row_block 4)"
    "good_block row_checks (ck_head row_checks) [3] (row_block 3)"
    by (simp_all add: good_block_def block_and_parent_def row_checks_def) (simp_all add: row_block_def)
  have prev: "sb_previous_hash (row_block 4) = [3]" "sb_previous_hash (row_block 3) = [2]" "[3] \<noteq> ZERO32" "[2] \<noteq> ZERO32"
    by code_simp+
  from down_step [OF down_start good(1)] prev have "down row_checks (ck_head row_checks) [4] [3]" by simp
  from down_step [OF this good(2)] prev show "down row_checks (ck_head row_checks) [4] [2]" by simp
qed (rule row_run row_select)+

end
