(* ===== verification/Block_Build.thy ===== *)
theory Block_Build
  imports Block_Verify Forks Work
begin

text \<open>
  Building a block: \<open>consensus/validation/worker.py\<close>, one round of the worker of a validator. It draws the
  validator of the next slot, and when that is the node itself, it commits the record of the parent,
  applies the transactions of its queue, writes the tries, and seals the header with a nonce and a
  signature.

  The queue is the list of what the round takes from it. The work of writing cells to storage, the
  messages to peers, sleeping and the measuring of time are left out; \<open>bk_pending\<close> holds the cells that are
  written. No handler raises \<open>NotImplementedError\<close>, so no transaction is put back.
\<close>

section \<open>The head\<close>

text \<open>\<open>_walk_back\<close>: off a head whose state cannot be loaded, to its parent or to the last head that loaded.\<close>

definition walk_back :: "node_ctx \<Rightarrow> bytes \<Rightarrow> bytes option \<Rightarrow> chain_view \<Rightarrow> bytes option \<times> chain_view" where
  "walk_back cx failed_hash last_good_head v =
     (case (case get_previous_block_hash_local cx failed_hash of None \<Rightarrow> last_good_head | Some h \<Rightarrow> Some h) of
        None \<Rightarrow> (None, v)
      | Some new_head \<Rightarrow>
          if new_head = ZERO32 \<or> new_head = failed_hash \<or> cv_latest v \<noteq> Some failed_hash then (None, v)
          else (Some new_head, v\<lparr>cv_latest := Some new_head, cv_block := None\<rparr>))"

section \<open>The record of the parent\<close>

definition building_block :: "bytes \<Rightarrow> stored_block \<Rightarrow> accounts \<Rightarrow> block" where
  "building_block latest p t =
     \<lparr>bk_chain_id = 0, bk_height = sb_height p + 1, bk_timestamp = None,
      bk_validation_difficulty = None, bk_expr_id = Some ZERO32,
      bk_previous_hash = or_zeros latest,
      bk_previous = Some \<lparr>head_height = sb_height p, head_statistics = sb_statistics p,
                          pv_timestamp = Some (sb_timestamp p), pv_storage_difficulty = sb_storage_difficulty p\<rparr>,
      bk_accounts = t, bk_pending = [], bk_bloom = \<lparr>bt_root = None, bt_touched = []\<rparr>, bk_bloom_keys = [],
      bk_involved = [], bk_transactions = [], bk_receipts = [], bk_receipts_trie = new_radix_tree None None,
      bk_loaned = sb_loaned p, bk_defaulted = sb_defaulted p, bk_loan_count = sb_loan_count p, bk_votes = 0,
      bk_claims = 0, bk_tx_keys = [], bk_tx_inserts = []\<rparr>"

text \<open>The cells that the walk of a new record collects.\<close>

definition collected_exprs :: "node_ctx \<Rightarrow> radix_tree \<Rightarrow> expr \<Rightarrow> expr list" where
  "collected_exprs cx storage_data e =
     (case tree_get cx storage_data (expr_hash (cx_hash cx) e) of
        (Inr (None, _), lookup) \<Rightarrow>
          (case walk_record_slots cx True e lookup of Inr (_, _, cells, _) \<Rightarrow> map snd cells | Inl _ \<Rightarrow> [])
      | _ \<Rightarrow> [])"

text \<open>\<open>False\<close> where the state of the head could not be loaded.\<close>

definition record_parent :: "node_ctx \<Rightarrow> stored_block \<Rightarrow> bool act" where
  "record_parent cx p =
     bnd (load_account cx STORAGE_ADDRESS) (\<lambda>found.
     if \<not> found then ret True
     else
       bnd (account_of STORAGE_ADDRESS) (\<lambda>x.
       bnd (reads (\<lambda>s. generate_initial_storage_record cx s (ac_data x) (block_to_expr p) True)) (\<lambda>r.
       case r of
         Inl e \<Rightarrow> (case e of UnresolvedRecordExpr \<Rightarrow> ret False | ValueError _ \<Rightarrow> ret False | _ \<Rightarrow> raise e)
       | Inr result \<Rightarrow>
           bnd (add_pending (collected_exprs cx (ac_data x) (block_to_expr p))) (\<lambda>_.
           case result of
             None \<Rightarrow> ret True
           | Some (record, _) \<Rightarrow>
               bnd (data_put cx STORAGE_ADDRESS (sb_expr_id p) (VExpr (storage_record_to_expr record))) (\<lambda>_.
               bnd (add_pending [storage_record_to_expr record]) (\<lambda>_.
               bnd (sync_data_hash STORAGE_ADDRESS) (\<lambda>_. ret True)))))))"

section \<open>The tree of the era\<close>

definition opens_era :: "stored_block \<Rightarrow> bool" where
  "opens_era p \<longleftrightarrow> (sb_height p + 1) mod ERA_SIZE = 0 \<and> sb_height p + 1 > 0"

definition building_tree :: "bloom_reader \<Rightarrow> stored_block \<Rightarrow> exc + bloom_tree" where
  "building_tree F p =
     (if opens_era p then Inr \<lparr>bt_root = None, bt_touched = []\<rparr>
      else
        bind_exc (new_bloom_tree F (Some (or_zeros (sb_bloom_hash p))) (Some (sb_expr_id p))) (\<lambda>t.
          set_leaf_start_hash F t (sb_height p mod ERA_SIZE) (sb_expr_id p)))"

section \<open>The transactions\<close>

text \<open>
  Transactions with a bad signature are dropped. One whose application raises is logged, and the block
  keeps what the application did before; the result is what was logged.
\<close>

fun apply_queue :: "apply_ctx \<Rightarrow> transaction list \<Rightarrow> transaction list act" where
  "apply_queue W [] = ret []"
| "apply_queue W (tx # queue) =
     (if \<not> verify_signature (cx_hash (ap_cx W)) (ap_verify W) tx then apply_queue W queue
      else
        bnd (catch (bnd (apply_transaction_obj W tx) (\<lambda>_. ret [])) [tx]) (\<lambda>failed.
        bnd (apply_queue W queue) (\<lambda>rest. ret (failed @ rest))))"

text \<open>\<open>included_transaction_exprs\<close>, and the exprs of a list whose hash is new.\<close>

fun fresh_exprs :: "(bytes \<Rightarrow> bytes) \<Rightarrow> bytes list \<Rightarrow> expr list \<Rightarrow> expr list" where
  "fresh_exprs H hs [] = []"
| "fresh_exprs H hs (e # es) =
     (if expr_hash H e \<in> set hs then fresh_exprs H hs es else e # fresh_exprs H (expr_hash H e # hs) es)"

fun included_exprs :: "node_ctx \<Rightarrow> transaction list \<Rightarrow> bytes list \<Rightarrow> expr list" where
  "included_exprs cx [] hs = []"
| "included_exprs cx (tx # txs) hs =
     (case inner_exprs cx None (transaction_to_expr tx) of
        Inl _ \<Rightarrow> included_exprs cx txs hs
      | Inr (es, _) \<Rightarrow>
          (let new = fresh_exprs (cx_hash cx) hs es
           in new @ included_exprs cx txs (map (expr_hash (cx_hash cx)) new @ hs)))"

section \<open>The end of the block\<close>

definition tree_cells :: "(bytes \<Rightarrow> bytes) \<Rightarrow> radix_tree \<Rightarrow> expr list" where
  "tree_cells H t = map (\<lambda>(h, n). convert_radix_node_to_expr H n) (nodes t)"

text \<open>\<open>_trie_nodes_exprs\<close> and \<open>extract_accounts_exprs\<close>.\<close>

definition tree_value_cells :: "(bytes \<Rightarrow> bytes) \<Rightarrow> radix_tree \<Rightarrow> expr list" where
  "tree_value_cells H t =
     concat (map (\<lambda>(h, n). convert_radix_node_to_expr H n
                    # (case rn_value n of Some (VExpr e) \<Rightarrow> [e] | _ \<Rightarrow> [])) (nodes t))"

definition accounts_exprs :: "(bytes \<Rightarrow> bytes) \<Rightarrow> accounts \<Rightarrow> expr list" where
  "accounts_exprs H t =
     tree_value_cells H (as_trie t)
     @ concat (map (\<lambda>(_, x). account_to_expr x # tree_value_cells H (ac_data x) @ tree_value_cells H (ac_channels x))
                (as_cache t))"

text \<open>Cells whose hash is not among those that wait.\<close>

definition add_new :: "(bytes \<Rightarrow> bytes) \<Rightarrow> expr list \<Rightarrow> unit act" where
  "add_new H es =
     update (\<lambda>s. s\<lparr>bk_pending := bk_pending s @ fresh_exprs H (map (expr_hash H) (bk_pending s)) es\<rparr>)"

text \<open>A validator whose account cannot be read gets no reward.\<close>

definition award_validator_reward :: "node_ctx \<Rightarrow> bytes \<Rightarrow> int \<Rightarrow> unit act" where
  "award_validator_reward cx k reward_amount =
     (if reward_amount \<le> 0 \<or> k = [] then ret ()
      else
        bnd (catch (bnd (load_account cx k) (\<lambda>found. ret (Some found))) None) (\<lambda>r.
          case r of
            None \<Rightarrow> ret ()
          | Some there \<Rightarrow>
              if there then bnd (add_balance k reward_amount) (\<lambda>_. touch_account k)
              else store_account k (new_account\<lparr>ac_balance := reward_amount\<rparr>)))"

definition transaction_hashes :: "(bytes \<Rightarrow> bytes) \<Rightarrow> block \<Rightarrow> bytes list" where
  "transaction_hashes H s =
     filter (\<lambda>h. h \<noteq> []) (map (\<lambda>tx. expr_hash H (transaction_to_expr tx)) (bk_transactions s))"

text \<open>The trie of accounts; an error is logged and leaves the hash of the parent in the header.\<close>

definition write_accounts :: "node_ctx \<Rightarrow> bytes option act" where
  "write_accounts cx s =
     (case update_trie cx (bk_accounts s) of
        (Inl _, t) \<Rightarrow> (Inr None, s\<lparr>bk_accounts := t\<rparr>)
      | (Inr r, t) \<Rightarrow>
          bnd (add_pending (tree_cells (cx_hash cx) (as_trie t))) (\<lambda>_.
          bnd (add_new (cx_hash cx) (accounts_exprs (cx_hash cx) t)) (\<lambda>_. ret (Some (or_zero32 r))))
            (s\<lparr>bk_accounts := t\<rparr>))"

text \<open>
  What follows the transactions: the cells of the transactions, the statistics and the reward. The hash that
  is stored for the storage account is \<open>sync_data_hash\<close>; the trie of accounts reads it from its tree again.
\<close>

definition settle_block :: "node_ctx \<Rightarrow> stored_block \<Rightarrow> bytes \<Rightarrow> stat list act" where
  "settle_block cx p k =
     bnd (reads (\<lambda>s. included_exprs cx (bk_transactions s) [])) (\<lambda>es.
     bnd (add_pending es) (\<lambda>_.
     bnd (load_account cx STORAGE_ADDRESS) (\<lambda>there.
     bnd (if there
          then bnd (account_of STORAGE_ADDRESS) (\<lambda>x.
               bnd (add_pending (tree_cells (cx_hash cx) (ac_data x))) (\<lambda>_. sync_data_hash STORAGE_ADDRESS))
          else ret ()) (\<lambda>_.
     bnd (load_account cx TREASURY_ADDRESS) (\<lambda>_.
     bnd (account_of TREASURY_ADDRESS) (\<lambda>treasury.
     bnd (reads (\<lambda>s. update_statistics (bk_height s) (Some (sb_statistics p))
                       (fee_income (bk_receipts s), ac_balance treasury, bk_claims s))) (\<lambda>stats.
     bnd (reads (\<lambda>s. validator_reward (bk_receipts s))) (\<lambda>reward.
     bnd (award_validator_reward cx k reward) (\<lambda>_. ret stats)))))))))"

text \<open>
  The hashes of the transactions and the cells of the block, then the root of the accounts. \<open>drawn\<close> are the
  cells that the draw of the validator left with the accounts.
\<close>

definition write_block :: "node_ctx \<Rightarrow> expr list \<Rightarrow> (bytes list \<times> bytes option) act" where
  "write_block cx drawn =
     (let H = cx_hash cx in
      bnd (reads (transaction_hashes H)) (\<lambda>hs.
      bnd (add_pending (if hs = [] then [] else [link_list_to_expr hs])) (\<lambda>_.
      bnd (update (\<lambda>s. s\<lparr>bk_bloom := rewrite_root (bk_bloom s)\<rparr>)) (\<lambda>_.
      bnd (reads (\<lambda>s. new_exprs H (bk_bloom s))) (\<lambda>bloom_exprs.
      bnd (add_pending bloom_exprs) (\<lambda>_.
      bnd (add_new H drawn) (\<lambda>_.
      bnd (reads (\<lambda>s. tree_cells H (bk_receipts_trie s))) (\<lambda>trie_exprs.
      bnd (add_pending trie_exprs) (\<lambda>_.
      bnd (write_accounts cx) (\<lambda>new_root. ret (hs, new_root)))))))))))"

definition close_block ::
  "node_ctx \<Rightarrow> stored_block \<Rightarrow> bytes \<Rightarrow> expr list \<Rightarrow> (stat list \<times> bytes list \<times> bytes option) act" where
  "close_block cx p k drawn =
     bnd (settle_block cx p k) (\<lambda>stats.
     bnd (write_block cx drawn) (\<lambda>(hs, new_root). ret (stats, hs, new_root)))"

section \<open>The header\<close>

definition built_header ::
  "(bytes \<Rightarrow> bytes) \<Rightarrow> stored_block \<Rightarrow> bytes \<Rightarrow> bytes \<Rightarrow> int \<Rightarrow> block \<Rightarrow> stat list \<Rightarrow> bytes list \<Rightarrow> bytes option \<Rightarrow> stored_block" where
  "built_header H p latest k block_time s stats hs new_root =
     \<lparr>sb_chain_id = bk_chain_id s, sb_previous_hash = or_zeros latest, sb_height = bk_height s,
      sb_timestamp = block_time,
      sb_accounts_hash = (case new_root of None \<Rightarrow> or_zeros (sb_accounts_hash p) | Some r \<Rightarrow> r),
      sb_transaction_fee = sum_list (map transaction_fee (bk_receipts s)),
      sb_storage_fee = sum_list (map storage_fee (bk_receipts s)),
      sb_transactions_hash = (if hs = [] then ZERO32 else expr_hash H (link_list_to_expr hs)),
      sb_receipts_hash = or_zero32 (root_hash (bk_receipts_trie s)),
      sb_validation_difficulty =
        calculate_block_difficulty (Some (sb_timestamp p)) (Some block_time) (Some (sb_validation_difficulty p)) 2,
      sb_storage_difficulty = next_storage_difficulty (sb_storage_difficulty p) (bk_votes s),
      sb_validator = or_zeros k, sb_nonce = 0,
      sb_bloom_hash = (case bt_root (bk_bloom s) of None \<Rightarrow> ZERO32 | Some n \<Rightarrow> expr_hash H (node_expr H n)),
      sb_era_hash = (if opens_era p then or_zeros (sb_expr_id p) else ZERO32),
      sb_signature = ZERO32, sb_expr_id = ZERO32, sb_body_hash = ZERO32, sb_statistics = stats,
      sb_loaned = bk_loaned s, sb_defaulted = bk_defaulted s, sb_loan_count = bk_loan_count s\<rparr>"

text \<open>One round of \<open>generate_block_nonce\<close>: the body is signed again for each nonce.\<close>

definition sealed :: "(bytes \<Rightarrow> bytes) \<Rightarrow> (bytes \<Rightarrow> bytes) \<Rightarrow> stored_block \<Rightarrow> int \<Rightarrow> stored_block" where
  "sealed H sign b n =
     (let body_hash = expr_hash H (block_body (b\<lparr>sb_nonce := n\<rparr>));
          signed_block = b\<lparr>sb_nonce := n, sb_body_hash := body_hash, sb_signature := sign body_hash\<rparr>
      in signed_block\<lparr>sb_expr_id := expr_hash H (block_to_expr signed_block)\<rparr>)"

section \<open>A round of the worker\<close>

record validator_node =
  vn_key :: bytes
  vn_sign :: "bytes \<Rightarrow> bytes"
  vn_build_ms :: int
  vn_previous_build_ms :: int

text \<open>
  A round ends with nothing to do, with a head whose state did not load, or with a block, the state it was
  built in, the transactions whose application raised, and whether the trie of accounts was written.
\<close>

datatype round =
    Waiting
  | Unloadable
  | Built stored_block block "transaction list" bool

definition build_block ::
  "apply_ctx \<Rightarrow> 'g rng \<Rightarrow> validator_node \<Rightarrow> rat \<Rightarrow> nat \<Rightarrow> bytes \<Rightarrow> transaction list \<Rightarrow> exc + round" where
  "build_block W rng vn now fuel latest queue =
     (let cx = ap_cx W; H = cx_hash cx; F = ap_bloom W; k = vn_key vn in
      if k = [] then Inr Waiting
      else
        (case get_block_with_bloom cx F latest of
           Inl _ \<Rightarrow> Inr Unloadable
         | Inr (p, _) \<Rightarrow>
             (let block_time = next_block_time (sb_timestamp p) now
                    (estimate_build_seconds (vn_build_ms vn) (vn_previous_build_ms vn)) SLOT_DURATION_SECONDS in
              case current_validator cx F rng latest block_time of
                Inl _ \<Rightarrow> Inr Unloadable
              | Inr (scheduled, drawn) \<Rightarrow>
                  if scheduled \<noteq> k then Inr Waiting
                  else
                    (case record_parent cx p (building_block latest p (bk_accounts drawn)) of
                       (Inl e, _) \<Rightarrow> Inl e
                     | (Inr False, _) \<Rightarrow> Inr Unloadable
                     | (Inr True, s) \<Rightarrow>
                         bind_exc (building_tree F p) (\<lambda>bloom.
                           (case bnd (apply_queue W queue) (\<lambda>failed.
                                 bnd (close_block cx p k (bk_pending drawn)) (\<lambda>r. ret (failed, r)))
                                   (s\<lparr>bk_bloom := bloom\<rparr>) of
                              (Inl e, _) \<Rightarrow> Inl e
                            | (Inr (failed, stats, hs, new_root), s') \<Rightarrow>
                                (let b = built_header H p latest k block_time s' stats hs new_root in
                                 case generate_block_nonce (\<lambda>n. sb_expr_id (sealed H (vn_sign vn) b n))
                                        (sb_validation_difficulty p) (Some (sb_nonce b)) fuel of
                                   None \<Rightarrow> Inl OutOfFuel
                                 | Some n \<Rightarrow>
                                     Inr (Built (sealed H (vn_sign vn) b n) s' failed (new_root \<noteq> None)))))))))"

text \<open>
  What the node does with the block when it is ready, at the time \<open>now\<close>: it becomes the head, unless its
  slot is over or the head has moved.
\<close>

definition adopt_block :: "rat \<Rightarrow> bytes \<Rightarrow> stored_block \<Rightarrow> chain_view \<Rightarrow> chain_view" where
  "adopt_block now latest b v =
     (if now > of_int (sb_timestamp b + 2) \<or> cv_latest v \<noteq> Some latest then v
      else v\<lparr>cv_latest := Some (sb_expr_id b), cv_block := Some b\<rparr>)"

end
