(* ===== verification/Lockstep.thy ===== *)
theory Lockstep
  imports Block_Verify
begin

text \<open>
  Two runs side by side. The block that a validator builds and the block that another node replays differ
  in the time, the difficulty and the hash of the block, which the builder sets only after the transactions,
  and in the cells that wait to be stored. \<open>lock2\<close> relates two actions that cannot tell such blocks apart;
  every handler is one, when storage gives the same cell for a hash whatever block asks. A contract that
  reads the time of its block is none.
\<close>

section \<open>What may differ\<close>

definition veil :: "block \<Rightarrow> block" where
  "veil s = s\<lparr>bk_timestamp := None, bk_validation_difficulty := None, bk_expr_id := None, bk_pending := []\<rparr>"

definition same_view :: "block \<Rightarrow> block \<Rightarrow> bool" where
  "same_view s t \<longleftrightarrow> veil s = veil t"

lemma same_view_refl [simp]: "same_view s s"
  by (simp add: same_view_def)

lemma same_view_fields:
  assumes "same_view s t"
  shows "bk_chain_id s = bk_chain_id t" "bk_height s = bk_height t" "bk_previous_hash s = bk_previous_hash t"
    "bk_previous s = bk_previous t" "bk_accounts s = bk_accounts t" "bk_bloom s = bk_bloom t"
    "bk_bloom_keys s = bk_bloom_keys t" "bk_involved s = bk_involved t" "bk_transactions s = bk_transactions t"
    "bk_receipts s = bk_receipts t" "bk_receipts_trie s = bk_receipts_trie t" "bk_loaned s = bk_loaned t"
    "bk_defaulted s = bk_defaulted t" "bk_loan_count s = bk_loan_count t" "bk_votes s = bk_votes t"
    "bk_claims s = bk_claims t" "bk_tx_keys s = bk_tx_keys t" "bk_tx_inserts s = bk_tx_inserts t"
  using assms by (cases s; cases t; simp add: same_view_def veil_def)+

lemma same_viewI:
  assumes "bk_chain_id s = bk_chain_id t" "bk_height s = bk_height t" "bk_previous_hash s = bk_previous_hash t"
    "bk_previous s = bk_previous t" "bk_accounts s = bk_accounts t" "bk_bloom s = bk_bloom t"
    "bk_bloom_keys s = bk_bloom_keys t" "bk_involved s = bk_involved t" "bk_transactions s = bk_transactions t"
    "bk_receipts s = bk_receipts t" "bk_receipts_trie s = bk_receipts_trie t" "bk_loaned s = bk_loaned t"
    "bk_defaulted s = bk_defaulted t" "bk_loan_count s = bk_loan_count t" "bk_votes s = bk_votes t"
    "bk_claims s = bk_claims t" "bk_tx_keys s = bk_tx_keys t" "bk_tx_inserts s = bk_tx_inserts t"
  shows "same_view s t"
  using assms by (cases s; cases t; simp add: same_view_def veil_def)

definition lock2 :: "('a \<Rightarrow> 'b \<Rightarrow> bool) \<Rightarrow> 'a act \<Rightarrow> 'b act \<Rightarrow> bool" where
  "lock2 V m n \<longleftrightarrow>
     (\<forall>s t. same_view s t \<longrightarrow> rel_sum (=) V (fst (m s)) (fst (n t)) \<and> same_view (snd (m s)) (snd (n t)))"

abbreviation blind :: "'a act \<Rightarrow> bool" where
  "blind m \<equiv> lock2 (=) m m"

section \<open>Rules\<close>

named_theorems blind_rules

lemma lock2_bnd:
  assumes "lock2 V m n" "\<And>x y. V x y \<Longrightarrow> lock2 U (f x) (g y)"
  shows "lock2 U (bnd m f) (bnd n g)"
  unfolding lock2_def
proof (intro allI impI)
  fix s t
  assume "same_view s t"
  with assms(1) have r: "rel_sum (=) V (fst (m s)) (fst (n t))" "same_view (snd (m s)) (snd (n t))"
    by (simp_all add: lock2_def)
  obtain x s' where m: "m s = (x, s')" by (cases "m s")
  obtain y t' where n: "n t = (y, t')" by (cases "n t")
  show "rel_sum (=) U (fst (bnd m f s)) (fst (bnd n g t)) \<and> same_view (snd (bnd m f s)) (snd (bnd n g t))"
    using r assms(2) unfolding m n bnd_def lock2_def by (cases x; cases y) auto
qed

lemma lock2_step [blind_rules]: "lock2 (=) m n \<Longrightarrow> (\<And>x. lock2 U (f x) (g x)) \<Longrightarrow> lock2 U (bnd m f) (bnd n g)"
  by (rule lock2_bnd [where V = "(=)"]) simp_all

lemma lock2_ret: "V x y \<Longrightarrow> lock2 V (ret x) (ret y)"
  by (simp add: lock2_def)

lemma blind_basic [blind_rules]:
  "blind (ret x)" "lock2 V (raise e) (raise e)" "blind (lift r)" "blind (account_of a)"
proof -
  show "blind (lift r)" by (cases r) (simp_all add: lock2_def)
  show "blind (account_of a)"
    by (auto simp: lock2_def account_of_def cached_def same_view_fields split: option.split)
qed (simp_all add: lock2_def)

lemma blind_reads: "(\<And>s t. same_view s t \<Longrightarrow> f s = f t) \<Longrightarrow> blind (reads f)"
  by (simp add: lock2_def)

lemma blind_update: "(\<And>s t. same_view s t \<Longrightarrow> same_view (f s) (f t)) \<Longrightarrow> blind (update f)"
  by (simp add: lock2_def)

lemma blind_if [blind_rules]: "lock2 V m n \<Longrightarrow> lock2 V m' n' \<Longrightarrow> lock2 V (if b then m else m') (if b then n else n')"
  by simp

lemma blind_option [blind_rules]:
  "lock2 V m n \<Longrightarrow> (\<And>y. lock2 V (f y) (g y)) \<Longrightarrow>
     lock2 V (case x of None \<Rightarrow> m | Some y \<Rightarrow> f y) (case x of None \<Rightarrow> n | Some y \<Rightarrow> g y)"
  by (cases x) simp_all

lemma blind_prod [blind_rules]:
  "(\<And>a b. lock2 V (f a b) (g a b)) \<Longrightarrow> lock2 V (case p of (a, b) \<Rightarrow> f a b) (case p of (a, b) \<Rightarrow> g a b)"
  by (cases p) simp

lemma blind_sum [blind_rules]:
  "(\<And>a. lock2 V (f a) (f' a)) \<Longrightarrow> (\<And>b. lock2 V (g b) (g' b)) \<Longrightarrow>
     lock2 V (case x of Inl a \<Rightarrow> f a | Inr b \<Rightarrow> g b) (case x of Inl a \<Rightarrow> f' a | Inr b \<Rightarrow> g' b)"
  by (cases x) simp_all

lemma blind_lists:
  "lock2 V m m' \<Longrightarrow> (\<And>a. lock2 V (f a) (f' a)) \<Longrightarrow>
     lock2 V (case xs of [] \<Rightarrow> m | [a] \<Rightarrow> f a | a # b # ys \<Rightarrow> m) (case xs of [] \<Rightarrow> m' | [a] \<Rightarrow> f' a | a # b # ys \<Rightarrow> m')"
  "lock2 V m m' \<Longrightarrow> (\<And>a b c. lock2 V (g a b c) (g' a b c)) \<Longrightarrow>
     lock2 V (case xs of [] \<Rightarrow> m | [a] \<Rightarrow> m | [a, b] \<Rightarrow> m | [a, b, c] \<Rightarrow> g a b c | a # b # c # d # ys \<Rightarrow> m)
       (case xs of [] \<Rightarrow> m' | [a] \<Rightarrow> m' | [a, b] \<Rightarrow> m' | [a, b, c] \<Rightarrow> g' a b c | a # b # c # d # ys \<Rightarrow> m')"
  "lock2 V m m' \<Longrightarrow> (\<And>a b c d. lock2 V (h a b c d) (h' a b c d)) \<Longrightarrow>
     lock2 V (case xs of [] \<Rightarrow> m | [a] \<Rightarrow> m | [a, b] \<Rightarrow> m | [a, b, c] \<Rightarrow> m | [a, b, c, d] \<Rightarrow> h a b c d
               | a # b # c # d # e # ys \<Rightarrow> m)
       (case xs of [] \<Rightarrow> m' | [a] \<Rightarrow> m' | [a, b] \<Rightarrow> m' | [a, b, c] \<Rightarrow> m' | [a, b, c, d] \<Rightarrow> h' a b c d
               | a # b # c # d # e # ys \<Rightarrow> m')"
  by (auto split: list.splits)

lemma blind_catch [blind_rules]: "blind m \<Longrightarrow> blind (catch m x)"
  unfolding lock2_def catch_def
proof (intro allI impI)
  fix s t
  assume m: "\<forall>s t. same_view s t \<longrightarrow> rel_sum (=) (=) (fst (m s)) (fst (m t)) \<and> same_view (snd (m s)) (snd (m t))"
    and st: "same_view s t"
  obtain a s' where a: "m s = (a, s')" by (cases "m s")
  obtain b t' where b: "m t = (b, t')" by (cases "m t")
  from m st have "rel_sum (=) (=) a b \<and> same_view s' t'" by (metis a b fst_conv snd_conv)
  then show "rel_sum (=) (=) (fst (case m s of (Inl e, s') \<Rightarrow> (Inr x, s') | (Inr a, b) \<Rightarrow> (Inr a, b)))
        (fst (case m t of (Inl e, s') \<Rightarrow> (Inr x, s') | (Inr a, b) \<Rightarrow> (Inr a, b)))
      \<and> same_view (snd (case m s of (Inl e, s') \<Rightarrow> (Inr x, s') | (Inr a, b) \<Rightarrow> (Inr a, b)))
        (snd (case m t of (Inl e, s') \<Rightarrow> (Inr x, s') | (Inr a, b) \<Rightarrow> (Inr a, b)))"
    unfolding a b by (cases a; cases b) auto
qed

lemma same_view_accounts: "same_view s t \<Longrightarrow> same_view (s\<lparr>bk_accounts := x\<rparr>) (t\<lparr>bk_accounts := x\<rparr>)"
  by (cases s; cases t; simp add: same_view_def veil_def)

lemma blind_load [blind_rules]: "blind (load_account cx a)"
  by (auto simp: lock2_def load_account_def same_view_fields same_view_accounts split: prod.split sum.split)

lemma blind_store [blind_rules]: "blind (store_account a x)" "blind (write_account a x)"
  unfolding store_account_def write_account_def
  by (rule blind_update; simp add: same_view_fields same_view_accounts)+

lemma blind_account [blind_rules]:
  "blind (change_account a f)" "blind (add_balance a n)" "blind (sync_data_hash a)" "blind (sync_channels_hash a)"
  "blind (touch_account a)"
  unfolding add_balance_def sync_data_hash_def sync_channels_hash_def change_account_def touch_account_def
  by (rule blind_rules)+

lemma blind_tree [blind_rules]:
  "blind (data_get cx a k)" "blind (data_put cx a k v)" "blind (channel_get cx a k)" "blind (channel_put cx a k v)"
  unfolding data_get_def data_put_def channel_get_def channel_put_def
  by (rule blind_rules)+

lemma blind_add_pending [blind_rules]: "blind (add_pending es)"
  unfolding add_pending_def by (rule blind_update) (simp add: same_view_def veil_def)

lemma blind_counts [blind_rules]:
  "blind (update (\<lambda>s. s\<lparr>bk_claims := f (bk_claims s)\<rparr>))" "blind (update (\<lambda>s. s\<lparr>bk_votes := g (bk_votes s)\<rparr>))"
  by (rule blind_update; rule same_viewI; simp add: same_view_fields)+

section \<open>What handlers read of the block\<close>

definition unscoped :: "node_ctx \<Rightarrow> bool" where
  "unscoped cx \<longleftrightarrow> (\<forall>h b. cx_get cx h b = cx_get cx h None)"

lemma unscoped_fetch: "unscoped cx \<Longrightarrow> fetch_in cx b = fetch_in cx b'"
  unfolding fetch_in_def unscoped_def by (rule ext) metis

lemma same_viewE:
  assumes "same_view s t"
  obtains ts d e p where "t = s\<lparr>bk_timestamp := ts, bk_validation_difficulty := d, bk_expr_id := e, bk_pending := p\<rparr>"
proof
  show "t = s\<lparr>bk_timestamp := bk_timestamp t, bk_validation_difficulty := bk_validation_difficulty t,
       bk_expr_id := bk_expr_id t, bk_pending := bk_pending t\<rparr>"
    using assms by (cases s; cases t; simp add: same_view_def veil_def)
qed

lemma blind_view: "(\<And>s ts d e p. f (s\<lparr>bk_timestamp := ts, bk_validation_difficulty := d, bk_expr_id := e, bk_pending := p\<rparr>) = f s) \<Longrightarrow> blind (reads f)"
  by (rule blind_reads) (metis same_viewE)

lemma scope_free:
  assumes "unscoped cx"
  shows "typed_payload_size cx b e = typed_payload_size cx b' e" "flat_size cx b e = flat_size cx b' e"
    "cell_children cx f b e = cell_children cx f b' e" "inner_exprs cx b e = inner_exprs cx b' e"
    "list_items cx b e = list_items cx b' e" "load_whole cx b e = load_whole cx b' e" "parse_claim cx b e = parse_claim cx b' e"
proof -
  note fetch = unscoped_fetch [OF assms, of b b']
  show "list_items cx b e = list_items cx b' e" "inner_exprs cx b e = inner_exprs cx b' e" "load_whole cx b e = load_whole cx b' e"
    by (simp_all only: list_items_def inner_exprs_def load_whole_def fetch)
  show typed: "typed_payload_size cx b e = typed_payload_size cx b' e" for e
    by (simp only: typed_payload_size_def fetch)
  show "flat_size cx b e = flat_size cx b' e" by (simp only: flat_size_def typed)
  show "cell_children cx f b e = cell_children cx f b' e" by (simp only: cell_children_def typed)
  have tag: "tag_in cx b = tag_in cx b'" by (rule ext) (simp only: tag_in_def fetch)
  have tags: "tags_are cx b xs = tags_are cx b' xs" for xs
    by (induction xs) (auto simp: tag cong: if_cong)
  show "parse_claim cx b e = parse_claim cx b' e" by (simp only: parse_claim_def fetch tags)
qed

lemma size_loop_scope:
  assumes "unscoped cx"
  shows "size_loop cx b n xs sn acc = size_loop cx b' n xs sn acc"
proof (induction n arbitrary: xs sn acc)
  case 0
  show ?case by (cases xs) simp_all
next
  case (Suc n)
  show ?case
    using Suc by (cases xs) (auto simp: scope_free [OF assms, where b = b and b' = b'] unscoped_fetch [OF assms, of b b'] split: option.split intro!: arg_cong2 [where f = bind_exc])
qed

lemma parse_claims_scope: "unscoped cx \<Longrightarrow> parse_claims cx b es = parse_claims cx b' es"
  by (induction es) (simp_all add: scope_free(7) [where b = b and b' = b'])

lemma prev_head_view [simp]: "prev_head (s\<lparr>bk_timestamp := ts, bk_validation_difficulty := d, bk_expr_id := e, bk_pending := p\<rparr>) = prev_head s"
  by (simp add: prev_head_def)

lemma view_fields:
  "bk_previous_hash (s\<lparr>bk_timestamp := ts, bk_validation_difficulty := d, bk_expr_id := e, bk_pending := p\<rparr>) = bk_previous_hash s"
  "bk_height (s\<lparr>bk_timestamp := ts, bk_validation_difficulty := d, bk_expr_id := e, bk_pending := p\<rparr>) = bk_height s"
  "bk_accounts (s\<lparr>bk_timestamp := ts, bk_validation_difficulty := d, bk_expr_id := e, bk_pending := p\<rparr>) = bk_accounts s"
  "bk_loaned (s\<lparr>bk_timestamp := ts, bk_validation_difficulty := d, bk_expr_id := e, bk_pending := p\<rparr>) = bk_loaned s"
  "bk_defaulted (s\<lparr>bk_timestamp := ts, bk_validation_difficulty := d, bk_expr_id := e, bk_pending := p\<rparr>) = bk_defaulted s"
  "bk_loan_count (s\<lparr>bk_timestamp := ts, bk_validation_difficulty := d, bk_expr_id := e, bk_pending := p\<rparr>) = bk_loan_count s"
  "parent_storage_difficulty (s\<lparr>bk_timestamp := ts, bk_validation_difficulty := d, bk_expr_id := e, bk_pending := p\<rparr>) = parent_storage_difficulty s"
  by (simp_all add: parent_storage_difficulty_def)

lemma storage_fee_view [simp]: "storage_fee_of (s\<lparr>bk_timestamp := ts, bk_validation_difficulty := d, bk_expr_id := e, bk_pending := p\<rparr>) n = storage_fee_of s n"
  by (simp add: storage_fee_of_def)

lemma view_reads [simp]:
  "discounted_for (s\<lparr>bk_timestamp := ts, bk_validation_difficulty := d, bk_expr_id := e, bk_pending := p\<rparr>) tx req = discounted_for s tx req"
  "insurance_for (s\<lparr>bk_timestamp := ts, bk_validation_difficulty := d, bk_expr_id := e, bk_pending := p\<rparr>) r n = insurance_for s r n"
  "buy_price (s\<lparr>bk_timestamp := ts, bk_validation_difficulty := d, bk_expr_id := e, bk_pending := p\<rparr>) l = buy_price s l"
  "judge_claim H (s\<lparr>bk_timestamp := ts, bk_validation_difficulty := d, bk_expr_id := e, bk_pending := p\<rparr>) sender c rec = judge_claim H s sender c rec"
  "vote_of (s\<lparr>bk_timestamp := ts, bk_validation_difficulty := d, bk_expr_id := e, bk_pending := p\<rparr>) sender w i k = vote_of s sender w i k"
  "involved_addresses tx (s\<lparr>bk_timestamp := ts, bk_validation_difficulty := d, bk_expr_id := e, bk_pending := p\<rparr>) = involved_addresses tx s"
  "cached (s\<lparr>bk_timestamp := ts, bk_validation_difficulty := d, bk_expr_id := e, bk_pending := p\<rparr>) a = cached s a"
  unfolding discounted_for_def insurance_for_def buy_price_def judge_claim_def vote_of_def involved_addresses_def
    cached_def view_fields prev_head_view by (rule refl)+

lemma record_view [simp]:
  "generate_initial_storage_record cx (s\<lparr>bk_timestamp := ts, bk_validation_difficulty := d, bk_expr_id := e, bk_pending := p\<rparr>) t x f = generate_initial_storage_record cx s t x f"
  unfolding generate_initial_storage_record_def storage_fee_view view_fields ..

lemma view_sizes:
  assumes "unscoped cx"
  shows "storage_walk_size cx (s\<lparr>bk_timestamp := ts, bk_validation_difficulty := d, bk_expr_id := e, bk_pending := p\<rparr>) x ex = storage_walk_size cx s x ex"
    "storage_walk_fee cx (s\<lparr>bk_timestamp := ts, bk_validation_difficulty := d, bk_expr_id := e, bk_pending := p\<rparr>) x ex = storage_walk_fee cx s x ex"
    "receipt_at_fixed_point cx (s\<lparr>bk_timestamp := ts, bk_validation_difficulty := d, bk_expr_id := e, bk_pending := p\<rparr>) build k named = receipt_at_fixed_point cx s build k named"
    "initial_list cx (s\<lparr>bk_timestamp := ts, bk_validation_difficulty := d, bk_expr_id := e, bk_pending := p\<rparr>) tx = initial_list cx s tx"
    "sum_sizes cx (s\<lparr>bk_timestamp := ts, bk_validation_difficulty := d, bk_expr_id := e, bk_pending := p\<rparr>) es acc = sum_sizes cx s es acc"
proof -
  let ?t = "s\<lparr>bk_timestamp := ts, bk_validation_difficulty := d, bk_expr_id := e, bk_pending := p\<rparr>"
  show size: "storage_walk_size cx ?t x ex = storage_walk_size cx s x ex" for x ex
    by (simp only: storage_walk_size_def size_loop_scope [OF assms, where b = "block_scope ?t" and b' = "block_scope s"])
  show fee: "storage_walk_fee cx ?t x ex = storage_walk_fee cx s x ex" for x ex
    unfolding storage_walk_fee_def size storage_fee_view ..
  have "fixed_point_rounds cx ?t build k named n m = fixed_point_rounds cx s build k named n m" for n m
  proof (induction n arbitrary: m)
    case (Suc n)
    show ?case unfolding fixed_point_rounds.simps fee Suc ..
  qed simp
  then show "receipt_at_fixed_point cx ?t build k named = receipt_at_fixed_point cx s build k named"
    by (simp only: receipt_at_fixed_point_def)
  show "initial_list cx ?t tx = initial_list cx s tx"
    by (simp only: initial_list_def scope_free [OF assms, where b = "block_scope ?t" and b' = "block_scope s"])
  show "sum_sizes cx ?t es acc = sum_sizes cx s es acc"
    by (induction es arbitrary: acc) (simp_all add: size)
qed

section \<open>The handlers\<close>

lemma blind_read_channel [blind_rules]: "blind (read_channel cx a k)"
  unfolding read_channel_def by (rule blind_rules)+

lemma blind_write_channel: "blind pay \<Longrightarrow> blind (write_channel cx a k c pay)"
  unfolding write_channel_def Let_def by (rule blind_rules | assumption)+

lemma blind_previous [blind_rules]:
  "blind (reads bk_previous)" "blind (reads bk_height)" "blind (reads bk_chain_id)" "blind (reads bk_tx_keys)"
  "blind (reads (\<lambda>s. cached s a))" "blind (reads (\<lambda>s. (bk_height s, bk_previous_hash s)))"
  "blind (reads (\<lambda>s. (bk_tx_keys s, bk_tx_inserts s)))"
  by (rule blind_view; simp)+

lemma blind_channels [blind_rules]:
  "blind (handle_channel_update cx a k w n)" "blind (handle_channel_close cx a k)"
  unfolding handle_channel_update_def handle_channel_close_def by (rule blind_rules blind_write_channel)+

lemma blind_voucher:
  "(\<And>counter sig. lock2 V (f counter sig) (g counter sig)) \<Longrightarrow> lock2 V m n \<Longrightarrow>
     lock2 V (case (x, y) of (Inr counter, Some (PBytes sig)) \<Rightarrow> f counter sig | _ \<Rightarrow> m)
       (case (x, y) of (Inr counter, Some (PBytes sig)) \<Rightarrow> g counter sig | _ \<Rightarrow> n)"
  by (auto split: sum.splits option.splits payload.splits)

lemma blind_withdraw [blind_rules]: "blind (handle_channel_withdraw cx verify tx)"
  unfolding handle_channel_withdraw_def Let_def
  by (rule blind_rules blind_write_channel blind_voucher blind_lists)+

lemma blind_initial:
  assumes "unscoped cx"
  shows "blind (handle_storage_initial_contract cx tx a b n)"
  unfolding handle_storage_initial_contract_def
  by (rule blind_rules blind_view | simp add: view_sizes [OF assms])+

lemma blind_pay_claim [blind_rules]: "blind (pay_claim cx sender c)"
  unfolding pay_claim_def check_claim_def Let_def by (rule blind_rules blind_view | simp)+

lemma blind_pay_claims [blind_rules]: "blind (pay_claims cx sender cs n)"
proof (induction cs arbitrary: n)
  case Nil
  show ?case unfolding pay_claims.simps by (rule blind_rules)
next
  case (Cons c cs)
  show ?case unfolding pay_claims.simps by (rule blind_rules Cons.IH)+
qed

lemma blind_payment:
  assumes "unscoped cx"
  shows "blind (handle_storage_payment_contract cx sender payload)"
proof -
  have scope: "blind (bnd (reads block_scope) f)" if "\<And>b b'. lock2 (=) (f b) (f b')" for f :: "bytes option \<Rightarrow> int act"
  proof (rule lock2_bnd [where V = "\<lambda>_ _. True"])
    show "lock2 (\<lambda>_ _. True) (reads block_scope) (reads block_scope)" by (simp add: lock2_def)
  qed (rule that)
  show ?thesis
    unfolding handle_storage_payment_contract_def
    apply (rule blind_catch, rule scope)
    subgoal for b b'
      unfolding scope_free(5) [OF assms, where b = b and b' = b'] parse_claims_scope [OF assms, of b _ b']
      by (rule blind_rules)+
    done
qed

section \<open>The treasury\<close>

lemma blind_tries [blind_rules]:
  "blind (trie_get cx t k)" "blind (trie_put cx t k v)" "blind (put_record cx t k e)"
  "blind (load_user_record cx k)" "blind (put_user_record cx k r)" "blind (record_cells cx e)"
  "blind (load_loan cx t k)"
  unfolding trie_get_def trie_put_def put_record_def load_user_record_def put_user_record_def record_cells_def
    load_loan_def case_prod_beta
  by (rule blind_rules)+

lemma blind_guarantee [blind_rules]:
  "blind (claim_guarantee cx t g a n)" "blind (handle_treasury_guarantee cx tx h)"
  unfolding claim_guarantee_def handle_treasury_guarantee_def Let_def case_prod_beta
  by (rule blind_rules blind_lists)+

lemma blind_secured [blind_rules]: "blind (handle_secured_borrow cx tx h req)"
  unfolding handle_secured_borrow_def Let_def case_prod_beta by (rule blind_rules blind_view | simp)+

lemma blind_guarantor [blind_rules]: "blind (guarantor_of cx st g)"
  unfolding guarantor_of_def by (rule blind_rules)+

lemma blind_claim_refs [blind_rules]: "blind (claim_refs cx h height d refs st cl)"
proof (induction refs arbitrary: st cl)
  case Nil
  show ?case unfolding claim_refs.simps by (rule blind_rules)
next
  case (Cons x refs)
  show ?case by (cases x; simp only: claim_refs.simps) (rule blind_rules Cons.IH)+
qed

lemma blind_pay_guarantors [blind_rules]: "blind (pay_guarantors cx states)"
proof (induction states)
  case Nil
  show ?case unfolding pay_guarantors.simps by (rule blind_rules)
next
  case (Cons x states)
  show ?case by (cases x; simp only: pay_guarantors.simps Let_def) (rule blind_rules Cons.IH)+
qed

lemma blind_loan_counts [blind_rules]:
  "blind (update (\<lambda>s. s\<lparr>bk_loaned := bk_loaned s + n, bk_loan_count := bk_loan_count s + 1\<rparr>))"
  "blind (update (\<lambda>s. if n = 0 then s else s\<lparr>bk_defaulted := bk_defaulted s + n\<rparr>))"
  by (rule blind_update; auto intro!: same_viewI simp: same_view_fields)+

lemma blind_borrow [blind_rules]:
  "blind (handle_unsecured_borrow cx tx h req refs)" "blind (handle_treasury_borrow cx tx h)"
proof -
  show unsecured: "blind (handle_unsecured_borrow cx tx h req refs)" for req refs
    unfolding handle_unsecured_borrow_def Let_def case_prod_beta by (rule blind_rules blind_view | simp)+
  have type: "blind (case type of SECURED \<Rightarrow> handle_secured_borrow cx tx h req
      | UNSECURED \<Rightarrow> handle_unsecured_borrow cx tx h req refs)" for type req refs
    by (cases type) (simp_all add: blind_secured unsecured)
  show "blind (handle_treasury_borrow cx tx h)"
    unfolding handle_treasury_borrow_def Let_def by (rule type blind_rules blind_lists)+
qed

lemma blind_release [blind_rules]: "blind (release_shares cx xs)" "blind (release_guarantees cx l)"
proof -
  show shares: "blind (release_shares cx xs)" for xs
  proof (induction xs)
    case Nil
    show ?case unfolding release_shares.simps by (rule blind_rules)
  next
    case (Cons x xs)
    show ?case by (cases x; simp only: release_shares.simps Let_def) (rule blind_rules Cons.IH)+
  qed
  show "blind (release_guarantees cx l)"
    unfolding release_guarantees_def by (rule blind_rules shares)+
qed

lemma blind_credit [blind_rules]:
  "blind (credit cx a n)" "blind (credit_owner cx l n)" "blind (open_loan cx a k)"
  unfolding credit_def credit_owner_def open_loan_def by (rule blind_rules)+

lemma blind_finish: "blind pay \<Longrightarrow> blind (finish_loan cx b k t l user pay w rel)"
  unfolding finish_loan_def by (rule blind_rules | assumption)+

lemma blind_loans [blind_rules]:
  "blind (handle_treasury_repay cx tx)" "blind (handle_treasury_close cx tx)"
  "blind (handle_treasury_buy cx tx)" "blind (handle_treasury_claim cx tx)"
  unfolding handle_treasury_repay_def handle_treasury_close_def handle_treasury_buy_def handle_treasury_claim_def
    case_prod_beta Let_def
  by (rule blind_finish blind_rules blind_view | simp)+

section \<open>The handlers by code\<close>

lemma blind_recipient [blind_rules]:
  "blind (found_at cx a)" "blind (get_or_create_recipient cx tx)" "blind (add_at r n)" "blind (set_at a r)"
proof -
  show "blind (found_at cx a)" unfolding found_at_def by (rule blind_rules)+
  show "blind (get_or_create_recipient cx tx)"
    unfolding get_or_create_recipient_def by (rule blind_rules blind_view | simp)+
  show "blind (add_at r n)" "blind (set_at a r)"
    unfolding add_at_def set_at_def by (cases r; simp only: account_ref.case; (rule blind_rules)+)+
qed

lemma blind_create [blind_rules]: "blind (handle_expression_account_create cx tx h)"
  unfolding handle_expression_account_create_def by (rule blind_rules)+

text \<open>Two snapshots that restore the same, up to the pending cells.\<close>

definition same_snap :: "block_snapshot \<Rightarrow> block_snapshot \<Rightarrow> bool" where
  "same_snap x y \<longleftrightarrow> fst x = fst y \<and> snd (snd x) = snd (snd y)"

lemma lock2_snapshot:
  "(\<And>x y. same_snap x y \<Longrightarrow> lock2 V (f x) (g y)) \<Longrightarrow> lock2 V (bnd (reads snapshot) f) (bnd (reads snapshot) g)"
  by (rule lock2_bnd [where V = same_snap]) (auto simp: lock2_def same_snap_def snapshot_def same_view_fields)

lemma lock2_restore [blind_rules]:
  assumes "same_snap x y"
  shows "lock2 (=) (update (restore x)) (update (restore y))"
proof -
  obtain a b c where x: "x = (a, b, c)" by (cases x)
  moreover obtain b' where "y = (a, b', c)" using assms x by (cases y) (auto simp: same_snap_def)
  ultimately show ?thesis
    by (auto simp: lock2_def restore_def intro!: same_viewI split: prod.split dest: same_view_fields)
qed

lemma blind_call:
  assumes "\<And>e. blind (ap_run W tx e)"
  shows "blind (handle_expression_account_call W tx)"
  unfolding handle_expression_account_call_def Let_def
  by (rule lock2_snapshot blind_rules assms | assumption)+

lemma blind_effects [blind_rules]:
  "blind (update_effects cx tx ok n)" "blind (close_effects cx tx ok)" "blind m \<Longrightarrow> blind (treasury_effects cx tx ok n m)"
  unfolding update_effects_def close_effects_def treasury_effects_def Let_def
  by (rule blind_rules blind_lists | assumption)+

lemma blind_storage_effects:
  assumes "unscoped cx"
  shows "blind (storage_create_effects nested cx tx ok n)" "blind (storage_payment_effects cx tx ok n)"
  unfolding storage_create_effects_def storage_payment_effects_def Let_def case_prod_beta
  by (rule blind_rules blind_lists blind_initial blind_payment assms)+

lemma blind_deposit [blind_rules]: "blind (deposit_effects cx tx ok n)"
proof -
  have deposit: "blind (case r of NoAccount \<Rightarrow> raise e | At a \<Rightarrow> f a | Loose x \<Rightarrow> ret (g x))"
    if "\<And>a. blind (f a)" for r e f g
    using that by (cases r) (simp_all add: blind_rules)
  show ?thesis
    unfolding deposit_effects_def by (rule deposit blind_rules)+
qed

text \<open>A call whose contract cannot see what differs; other transactions run no contract.\<close>

definition runs_blind :: "apply_ctx \<Rightarrow> transaction \<Rightarrow> bool" where
  "runs_blind W tx \<longleftrightarrow> (tx_code tx = CODE_ACCOUNT_CALL \<longrightarrow> (\<forall>e. blind (ap_run W tx e)))"

lemma blind_code:
  assumes "unscoped (ap_cx W)" "runs_blind W tx"
  shows "blind (code_effects W nested tx h ok n)"
proof -
  have call: "blind (call_effects W tx ok n)" if "tx_code tx = CODE_ACCOUNT_CALL"
  proof -
    have run: "blind (ap_run W tx e)" for e using assms(2) that by (simp add: runs_blind_def)
    show ?thesis unfolding call_effects_def Let_def by (rule blind_call run blind_rules)+
  qed
  show ?thesis
    unfolding code_effects_def Let_def
    by (cases "tx_code tx") (simp_all only: transaction_code.case,
      (rule blind_rules blind_storage_effects assms(1) | rule call, assumption)+)
qed

section \<open>A transaction\<close>

lemma blind_writes [blind_rules]:
  "blind (update (\<lambda>s. s\<lparr>bk_bloom := t\<rparr>))" "blind (update (\<lambda>s. s\<lparr>bk_involved := List.insert a (bk_involved s)\<rparr>))"
  "blind (update (\<lambda>s. s\<lparr>bk_tx_keys := [], bk_tx_inserts := []\<rparr>))"
  "blind (update (\<lambda>s. s\<lparr>bk_bloom_keys := List.union ks (bk_bloom_keys s)\<rparr>))"
  "blind (update (\<lambda>s. s\<lparr>bk_transactions := bk_transactions s @ [tx]\<rparr>))"
  "blind (update (\<lambda>s. s\<lparr>bk_receipts := bk_receipts s @ [r]\<rparr>))"
  "blind (update (\<lambda>s. if nested then s else s\<lparr>bk_accounts := (bk_accounts s)\<lparr>as_involved := []\<rparr>\<rparr>))"
  by (rule blind_update; auto intro!: same_viewI simp: same_view_fields)+

lemma blind_small [blind_rules]:
  "blind (can_pay a n ok)" "blind (size_charge k)" "blind clear_pending_bloom" "blind (pending_bloom_fee ok)"
  unfolding can_pay_def size_charge_def clear_pending_bloom_def pending_bloom_fee_def
  by (rule blind_rules blind_view | simp)+

lemma blind_bloom [blind_rules]:
  "blind (bloom_add W b es)"
  unfolding bloom_add_def
  by (rule blind_rules blind_view | simp)+

lemma blind_insert [blind_rules]: "blind (insert_batches W bs)" "blind (finalize_pending_bloom_inserts W ok)"
proof -
  show "blind (insert_batches W bs)"
  proof (induction bs)
    case Nil
    show ?case unfolding insert_batches.simps by (rule blind_rules)
  next
    case (Cons x bs)
    show ?case
      by (cases x; simp only: insert_batches.simps)
        (rule blind_rules Cons.IH)+
  qed
  show "blind (finalize_pending_bloom_inserts W ok)"
    unfolding finalize_pending_bloom_inserts_def
    by (rule blind_rules)+
qed

lemma blind_involved [blind_rules]: "blind (involved_batches h as)"
proof (induction as)
  case Nil
  show ?case unfolding involved_batches.simps by (rule blind_rules)
next
  case (Cons a as)
  show ?case unfolding involved_batches.simps by (rule blind_rules blind_view Cons.IH | simp)+
qed

lemma blind_walk:
  assumes "unscoped cx"
  shows "blind (walk_charge cx e p)" "blind (logs_charge cx nested tx due logs p)" "blind (recipient_charge cx r p)"
proof -
  show walk: "blind (walk_charge cx e p)" for e p
    unfolding walk_charge_def by (rule blind_rules blind_view | simp add: view_sizes [OF assms])+
  show "blind (logs_charge cx nested tx due logs p)" unfolding logs_charge_def by (rule blind_rules walk)+
  show "blind (recipient_charge cx r p)"
    unfolding recipient_charge_def by (cases r; simp only: account_ref.case; (rule blind_rules walk)+)
qed

lemma blind_search [blind_rules]: "blind (search_charge W tx h due ok)"
  unfolding search_charge_def Let_def by (rule blind_rules blind_view | simp)+

lemma blind_late:
  assumes "unscoped (ap_cx W)"
  shows "blind (late_checks W tx h e)"
  unfolding late_checks_def Let_def case_prod_beta
  by (rule blind_rules blind_walk blind_view assms | simp add: view_sizes [OF assms])+

lemma blind_roll: "same_snap x y \<Longrightarrow> lock2 (=) (roll_back cx tx x) (roll_back cx tx y)"
  unfolding roll_back_def by (rule blind_rules | assumption)+

definition same_run :: "effects \<times> bool \<times> block_snapshot \<Rightarrow> effects \<times> bool \<times> block_snapshot \<Rightarrow> bool" where
  "same_run p q \<longleftrightarrow> fst p = fst q \<and> fst (snd p) = fst (snd q) \<and> same_snap (snd (snd p)) (snd (snd q))"

lemma lock2_handler:
  assumes "unscoped (ap_cx W)" "runs_blind W tx"
  shows "lock2 same_run (run_handler W nested tx h) (run_handler W nested tx h)"
proof -
  have end_: "lock2 same_run (ret (e, m, x)) (ret (e, m, y))" if "same_snap x y" for e m x y
    by (rule lock2_ret) (simp add: that same_run_def)
  show ?thesis
    unfolding run_handler_def Let_def
    by (rule lock2_snapshot end_ blind_rules blind_code blind_roll assms | assumption)+
qed

lemma lock2_settle:
  assumes "same_snap x y"
  shows "lock2 (=) (settle W tx x e ok r) (settle W tx y e ok r)"
  unfolding settle_def Let_def by (rule blind_rules blind_roll assms)+

lemma blind_put_receipt [blind_rules]: "blind (put_receipt cx h r)"
  by (auto simp: lock2_def put_receipt_def same_view_fields sum.rel_eq intro!: same_viewI split: prod.split)

lemma blind_apply:
  assumes "unscoped (ap_cx W)" "runs_blind W tx"
  shows "blind (apply_tx_effects W tx h)" "blind (apply_transaction_obj W tx)"
proof -
  have rest: "lock2 (=) (case p of (e, m, x) \<Rightarrow> f e m x) (case q of (e, m, x) \<Rightarrow> f e m x)"
    if "same_run p q"
      and "\<And>e m x y. same_snap x y \<Longrightarrow> lock2 (=) (f e m x) (f e m y)" for p q and f :: "effects \<Rightarrow> bool \<Rightarrow> block_snapshot \<Rightarrow> (bool \<times> int \<times> expr list) act"
    using that by (auto simp: same_run_def split: prod.split)
  show applied: "blind (apply_tx_effects W tx h)" for h
    unfolding apply_tx_effects_def Let_def
    apply (rule lock2_bnd, rule lock2_handler, rule assms(1), rule assms(2))
    apply (erule rest)
    by (rule blind_rules lock2_settle blind_late assms | assumption)+
  show "blind (apply_transaction_obj W tx)"
    unfolding apply_transaction_obj_def by (rule blind_rules applied)+
qed

lemma blind_commit [blind_rules]: "blind (commit_parent cx p)"
  unfolding commit_parent_def case_prod_beta by (rule blind_rules blind_view | simp)+

lemma blind_reward [blind_rules]: "blind (reward_validator cx k)"
  unfolding reward_validator_def by (rule blind_rules blind_view | simp)+

end
