(* ===== verification/Built_Laws.thy ===== *)
theory Built_Laws
  imports Block_Build Lockstep
begin

text \<open>
  What building a block and replaying it have in common: accounts that were read stay in the cache, the
  record of the parent does not depend on the tree of the era, no receipt has a data fee, and the trie of
  accounts is written from the trees of the accounts alone.
\<close>

section \<open>Accounts stay in the cache\<close>

definition stays_cached :: "block \<Rightarrow> block \<Rightarrow> bool" where
  "stays_cached s s' \<longleftrightarrow> (\<forall>a. cached s a \<noteq> None \<longrightarrow> cached s' a \<noteq> None)"

lemma cached_simps [simp]:
  "cached (s\<lparr>bk_accounts := set_account a x t\<rparr>) b = (if b = a then Some x else map_of (as_cache t) b)"
  "cached (put_cached a x s) b = (if b = a then Some x else cached s b)"
  by (auto simp: cached_def set_account_def put_cached_def update_conv')

lemma get_account_cached:
  "map_of (as_cache t) b \<noteq> None \<Longrightarrow> map_of (as_cache (snd (get_account cx a t))) b \<noteq> None"
  by (auto simp: get_account_def Let_def update_conv' split: option.splits prod.splits sum.splits)

lemma cached_load: "cached s b \<noteq> None \<Longrightarrow> cached (snd (load_account cx a s)) b \<noteq> None"
  using get_account_cached [of "bk_accounts s" b cx a]
  by (cases "get_account cx a (bk_accounts s)"; cases "fst (get_account cx a (bk_accounts s))")
    (simp_all add: load_account_def cached_def)

interpretation cached_law: act_law cx stays_cached for cx
proof
  show "stays_cached s s' \<Longrightarrow> stays_cached s' s'' \<Longrightarrow> stays_cached s s''" for s s' s''
    by (simp add: stays_cached_def)
  show "stays_cached s (snd (load_account cx a s))" for a s
    by (simp add: stays_cached_def cached_load [simplified])
  show "load_account cx a s = (Inr False, s') \<Longrightarrow>
      stays_cached s (s'\<lparr>bk_accounts := set_account a x (bk_accounts s')\<rparr>)" for a s s' x
    using cached_load [of s _ cx a] by (auto simp: stays_cached_def cached_def [symmetric])
  show "counts_only s s' \<Longrightarrow> stays_cached s s'" for s s'
    by (simp add: stays_cached_def cached_def counts_only_accounts)
  show "stays_cached s s' \<Longrightarrow> stays_cached s (restore (snapshot s) s')" for s s'
    by (simp add: stays_cached_def cached_def restore_def snapshot_def map_of_clone)
qed (simp_all add: stays_cached_def cached_def [symmetric])

definition has_accounts :: "bytes set \<Rightarrow> block \<Rightarrow> bool" where
  "has_accounts A s \<longleftrightarrow> (\<forall>a\<in>A. cached s a \<noteq> None)"

definition saved_accounts :: "bytes set \<Rightarrow> block_snapshot \<Rightarrow> bool" where
  "saved_accounts A snap \<longleftrightarrow> (\<exists>s0. snap = snapshot s0 \<and> has_accounts A s0)"

named_theorems cached_rules \<open>triples that keep accounts in the cache\<close>

lemma lawful_has: "lawful stays_cached m \<Longrightarrow> hoare (has_accounts A) m (\<lambda>_. has_accounts A)"
  unfolding lawful_def hoare_def stays_cached_def has_accounts_def by (metis snd_conv)

lemma kept_has: "kept m \<Longrightarrow> hoare (has_accounts A) m (\<lambda>_. has_accounts A)"
  unfolding hoare_def has_accounts_def cached_def using kept_run by metis

lemma has_update:
  "(\<And>s. bk_accounts (f s) = bk_accounts s) \<Longrightarrow> hoare (has_accounts A) (update f) (\<lambda>_. has_accounts A)"
  by (simp add: hoare_def has_accounts_def cached_def)

lemma has_basic [cached_rules]:
  "hoare (has_accounts A) (load_account cx a) (\<lambda>_. has_accounts A)" "hoare (has_accounts A) (touch_account a) (\<lambda>_. has_accounts A)"
  "hoare (has_accounts A) (add_balance a n) (\<lambda>_. has_accounts A)" "hoare (has_accounts A) (account_of a) (\<lambda>_. has_accounts A)"
  "hoare (has_accounts A) (lift r) (\<lambda>_. has_accounts A)" "hoare (has_accounts A) (reads f) (\<lambda>_. has_accounts A)"
  by (rule lawful_has, rule cached_law.lawful_load cached_law.lawful_touch cached_law.lawful_account
      cached_law.lawful_basic)+

lemma has_change [cached_rules]:
  "hoare (has_accounts A) (change_account a f) (\<lambda>_. has_accounts A)" "hoare (has_accounts A) (set_at a r) (\<lambda>_. has_accounts A)"
  by (auto simp: hoare_def has_accounts_def change_account_Inr set_at_def store_account_def bnd_Inr account_of_eq
      cached_def [symmetric] split: account_ref.splits option.splits)

lemma has_roll_back [cached_rules]:
  "saved_accounts A snap \<Longrightarrow> hoare (has_accounts A) (roll_back cx tx snap) (\<lambda>_. has_accounts A)"
proof -
  assume "saved_accounts A snap"
  then have "hoare (has_accounts A) (update (restore snap)) (\<lambda>_. has_accounts A)"
    by (auto simp: hoare_def saved_accounts_def has_accounts_def cached_def restore_def snapshot_def map_of_clone)
  then show ?thesis
    unfolding roll_back_def by (rule hoare_bnd, intro hoare_bnd [OF has_basic(1)] hoare_ret)
qed

lemma has_handler:
  assumes "run_lawful W stays_cached tx"
  shows "hoare (has_accounts A) (run_handler W False tx h) (\<lambda>(e, m, snap) s. has_accounts A s \<and> saved_accounts A snap)"
proof -
  let ?Q = "\<lambda>(e :: effects, m :: bool, snap) s. has_accounts A s \<and> saved_accounts A snap"
  have code: "hoare (has_accounts A) (code_effects W False tx h ok amount) (\<lambda>_. has_accounts A)" for ok amount
    by (rule lawful_has, rule cached_law.lawful_code) (use assms in \<open>simp_all add: run_lawful_def\<close>)
  have clear: "hoare (has_accounts A) (update (\<lambda>s. if b then s else s\<lparr>bk_accounts := (bk_accounts s)\<lparr>as_involved := []\<rparr>\<rparr>)) (\<lambda>_. has_accounts A)" for b
    by (simp add: hoare_def has_accounts_def cached_def)
  have snap: "hoare (has_accounts A) (bnd (reads snapshot) f) ?Q"
    if "\<And>x. saved_accounts A x \<Longrightarrow> hoare (has_accounts A) (f x) ?Q" for f
    unfolding hoare_def
  proof (intro allI impI)
    fix s x s'
    assume s: "has_accounts A s" and "bnd (reads snapshot) f s = (Inr x, s')"
    then have "f (snapshot s) s = (Inr x, s')" by (simp add: bnd_def)
    moreover have "saved_accounts A (snapshot s)" using s unfolding saved_accounts_def by blast
    ultimately show "?Q x s'" using that s unfolding hoare_def by blast
  qed
  have fin: "hoare (has_accounts A) (ret (e, m, x)) ?Q" if "saved_accounts A x" for e m x
    by (rule hoare_ret) (simp add: that)
  have rolled: "hoare (has_accounts A) (if False \<or> ef_ok e then ret (e, m, x)
       else bnd (roll_back (ap_cx W) tx x) (\<lambda>_. ret (rolled tx e, m, x))) ?Q" if "saved_accounts A x" for e m x
    by (rule hoare_if, rule fin, rule that, rule hoare_bnd, rule has_roll_back, rule that, rule fin, rule that)
  show ?thesis
    unfolding run_handler_def Let_def
    apply (rule hoare_bnd, rule cached_rules)
    apply (rule hoare_if, rule hoare_raise)
    apply (rule hoare_bnd, rule clear)
    apply (rule hoare_bnd, rule cached_rules)
    apply (rule hoare_if, rule hoare_raise)
    apply (rule hoare_bnd, rule cached_rules)
    apply (rule hoare_bnd, rule cached_rules)
    apply (rule hoare_bnd, rule cached_rules)
    apply (rule hoare_prod)+
    apply (rule snap)
    apply (rule hoare_bnd, rule code)
    apply (rule rolled, assumption)
    done
qed

lemma has_settle:
  assumes "saved_accounts A snap"
  shows "hoare (has_accounts A) (settle W tx snap e ok r) (\<lambda>_. has_accounts A)"
  unfolding settle_def Let_def
  by (rule cached_rules assms | rule hoare_bnd hoare_if hoare_prod | rule hoare_ret, assumption)+

lemma has_apply:
  assumes "run_lawful W stays_cached tx"
  shows "hoare (has_accounts A) (apply_tx_effects W tx h) (\<lambda>_. has_accounts A)"
proof -
  have finish: "hoare (has_accounts A) (finish_transaction W tx h e matched batches y) (\<lambda>_. has_accounts A)" for e matched batches y
    unfolding finish_transaction_def
    by (rule has_update, simp | rule cached_rules | rule hoare_prod hoare_bnd hoare_if | rule hoare_ret, assumption
        | rule kept_has, rule kept_rules)+
  have late: "hoare (\<lambda>s. has_accounts A s \<and> saved_accounts A snap) (late_checks W tx h e)
      (\<lambda>_ s. has_accounts A s \<and> saved_accounts A snap)" for e snap
    using kept_has [OF kept_late_checks, of A W tx h e] unfolding hoare_def by blast
  have settle: "hoare (\<lambda>s. has_accounts A s \<and> saved_accounts A snap) (settle W tx snap e ok r) (\<lambda>_. has_accounts A)" for snap e ok r
    using has_settle [of A snap W tx e ok r] unfolding hoare_def by blast
  have rest: "hoare (\<lambda>s. has_accounts A s \<and> saved_accounts A snap) (bnd (late_checks W tx h e) (\<lambda>(ok, receipt, batches).
      bnd (settle W tx snap e ok receipt) (finish_transaction W tx h e m batches))) (\<lambda>_. has_accounts A)" for e m snap
    by (rule late settle finish | rule hoare_bnd hoare_prod)+
  show ?thesis
    unfolding apply_split
    by (rule hoare_bnd, rule has_handler [OF assms]) (auto simp: rest)
qed

section \<open>Receipts\<close>

text \<open>No code charges a data fee, so a receipt has none.\<close>

lemma settle_no_data: "set_data_fee (settle_fees balance tf 0 sf amount) = 0"
  by (simp add: settle_fees_def Let_def)

lemma late_no_data: "hoare (\<lambda>_. True) (late_checks W tx h e) (\<lambda>q _. data_fee (fst (snd q)) = 0)"
  by (rule hoare_weaken, rule late_checks_receipt) (auto simp: receipt_for_def make_receipt_def)

lemma settle_receipt:
  assumes "data_fee receipt = 0"
  shows "hoare (\<lambda>_. True) (settle W tx snap e ok receipt) (\<lambda>q _. data_fee (snd (snd q)) = 0)"
proof -
  let ?fees = "\<lambda>e. bnd (account_of (tx_sender tx)) (\<lambda>x.
     ret (e, settle_fees (ac_balance x) (transaction_fee receipt) 0 (storage_fee receipt) (ef_transfer e)))"
  let ?Q = "\<lambda>q _. set_data_fee (snd q) = 0"
  have fees: "hoare (\<lambda>_. True) (?fees e') ?Q" for e'
    by (rule hoare_any, rule hoare_ret) (simp add: settle_no_data)
  have undo: "hoare (\<lambda>_. True) (bnd (roll_back (ap_cx W) tx snap) (\<lambda>_. ?fees (rolled tx e))) ?Q"
    by (rule hoare_any, rule fees)
  have weak: "hoare P m ?Q" if "hoare (\<lambda>_. True) m ?Q" for P and m :: "(effects \<times> settlement) act"
    using that unfolding hoare_def by blast
  show ?thesis
    unfolding settle_def Let_def
    apply (rule hoare_bnd [where Q = ?Q])
     apply (rule hoare_if, rule fees, rule undo)
    apply (rule hoare_prod)
    apply (rule hoare_bnd [where Q = ?Q])
     apply (rule hoare_if, rule weak, rule undo, rule hoare_ret, simp)
    apply (rule hoare_prod, rule hoare_ret)
    apply (auto simp: assms make_receipt_def)
    done
qed

lemma apply_receipt:
  assumes "run_lawful W same_record tx" and "apply_tx_effects W tx h s = (Inr x, s')"
  shows "\<exists>r. bk_transactions s' = bk_transactions s @ [tx] \<and> bk_receipts s' = bk_receipts s @ [r] \<and> data_fee r = 0"
proof -
  have finish: "hoare (\<lambda>_. True) (finish_transaction W tx h e m bs q) (\<lambda>_ s. data_fee (last (bk_receipts s)) = 0)"
    if "data_fee (snd (snd q)) = 0" for e m bs q
    unfolding finish_transaction_def using that
    by (cases q) (auto simp: hoare_def bnd_Inr)
  have settle: "hoare (\<lambda>_. data_fee receipt = 0) (settle W tx snap e ok receipt) (\<lambda>q _. data_fee (snd (snd q)) = 0)"
    for snap e ok receipt
    using settle_receipt [of receipt W tx snap e ok] unfolding hoare_def by blast
  have fin: "hoare (\<lambda>_. data_fee (snd (snd q)) = 0) (finish_transaction W tx h e m bs q) (\<lambda>_ s. data_fee (last (bk_receipts s)) = 0)"
    for e m bs q
    using finish [of q e m bs] unfolding hoare_def by blast
  have "hoare (\<lambda>_. True) (apply_tx_effects W tx h) (\<lambda>_ s. data_fee (last (bk_receipts s)) = 0)"
    unfolding apply_split case_prod_beta
    by (rule hoare_any, rule hoare_bnd, rule late_no_data, rule hoare_bnd, rule settle, rule fin)
  with assms(2) have "data_fee (last (bk_receipts s')) = 0" unfolding hoare_def by blast
  with apply_appends [OF assms] show ?thesis by auto
qed

section \<open>The record of the parent and the tree of the era\<close>

definition bloom_free :: "'a act \<Rightarrow> bool" where
  "bloom_free m \<longleftrightarrow> (\<forall>s t. m (s\<lparr>bk_bloom := t\<rparr>) = (case m s of (r, s') \<Rightarrow> (r, s'\<lparr>bk_bloom := t\<rparr>)))"

named_theorems bloom_free_rules

lemma bloom_free_basic [bloom_free_rules]:
  "bloom_free (ret x)" "bloom_free (raise e)" "bloom_free (lift r)" "bloom_free (account_of a)"
  by (auto simp: bloom_free_def account_of_def cached_def split: option.split)

lemma bloom_free_reads: "(\<And>s t. f (s\<lparr>bk_bloom := t\<rparr>) = f s) \<Longrightarrow> bloom_free (reads f)"
  by (simp add: bloom_free_def)

lemma bloom_free_update: "(\<And>s t. f (s\<lparr>bk_bloom := t\<rparr>) = (f s)\<lparr>bk_bloom := t\<rparr>) \<Longrightarrow> bloom_free (update f)"
  by (simp add: bloom_free_def)

lemma bloom_free_bnd [bloom_free_rules]: "bloom_free m \<Longrightarrow> (\<And>x. bloom_free (f x)) \<Longrightarrow> bloom_free (bnd m f)"
  by (auto simp: bloom_free_def bnd_def split: prod.split sum.split)

lemma bloom_free_if [bloom_free_rules]: "bloom_free m \<Longrightarrow> bloom_free m' \<Longrightarrow> bloom_free (if b then m else m')"
  by simp

lemma bloom_free_load [bloom_free_rules]: "bloom_free (load_account cx a)"
  by (auto simp: bloom_free_def load_account_def split: prod.split sum.split)

lemma bloom_free_writes [bloom_free_rules]: "bloom_free (write_account a x)" "bloom_free (add_pending es)"
  unfolding write_account_def add_pending_def by (rule bloom_free_update; simp)+

lemma bloom_free_account [bloom_free_rules]: "bloom_free (sync_data_hash a)" "bloom_free (data_put cx a k v)"
  unfolding sync_data_hash_def change_account_def data_put_def case_prod_beta by (rule bloom_free_rules)+

lemma bloom_free_record: "bloom_free (record_parent cx p)"
proof -
  have head: "prev_head (s\<lparr>bk_bloom := t\<rparr>) = prev_head s" for s t by (simp add: prev_head_def)
  have fee: "storage_fee_of (s\<lparr>bk_bloom := t\<rparr>) = storage_fee_of s" for s t by (rule ext) (simp add: storage_fee_of_def head)
  have fields: "bk_previous_hash (s\<lparr>bk_bloom := t\<rparr>) = bk_previous_hash s" "bk_height (s\<lparr>bk_bloom := t\<rparr>) = bk_height s"
    for s t by simp_all
  have rec_reads: "bloom_free (reads (\<lambda>s. generate_initial_storage_record cx s d e f))" for d e f
    by (rule bloom_free_reads) (simp only: generate_initial_storage_record_def fee fields)
  have failed: "bloom_free (case e of UnresolvedRecordExpr \<Rightarrow> ret False | ValueError m \<Rightarrow> ret False | _ \<Rightarrow> raise e)" for e
    by (cases e) (simp_all add: bloom_free_rules)
  have sums: "bloom_free (case r of Inl a \<Rightarrow> f a | Inr b \<Rightarrow> g b)" if "\<And>a. bloom_free (f a)" "\<And>b. bloom_free (g b)"
    for r and f :: "exc \<Rightarrow> 'b act" and g :: "'c \<Rightarrow> 'b act"
    using that by (cases r) simp_all
  have options: "bloom_free (case r of None \<Rightarrow> m | Some b \<Rightarrow> g b)" if "bloom_free m" "\<And>b. bloom_free (g b)"
    for r and m and g :: "'c \<Rightarrow> 'b act"
    using that by (cases r) simp_all
  show ?thesis
    unfolding record_parent_def case_prod_beta
    by (rule rec_reads failed bloom_free_rules sums options)+
qed

section \<open>Replaying what was built\<close>

lemma blindD:
  assumes "blind m" "same_view s t" "m s = (Inr x, s')"
  obtains t' where "m t = (Inr x, t')" "same_view s' t'"
proof -
  obtain y t' where t': "m t = (y, t')" by fastforce
  with assms have "rel_sum (=) (=) (Inr x) y" "same_view s' t'" unfolding lock2_def by fastforce+
  then have "y = Inr x" by (cases y) auto
  with that t' \<open>same_view s' t'\<close> show ?thesis by simp
qed

lemma same_view_trans: "same_view s t \<Longrightarrow> same_view t v \<Longrightarrow> same_view s v"
  by (simp add: same_view_def)

lemma same_view_sym: "same_view s t \<Longrightarrow> same_view t s"
  by (simp add: same_view_def)

lemma same_view_pending: "same_view (s\<lparr>bk_pending := es\<rparr>) t \<longleftrightarrow> same_view s t"
  by (simp add: same_view_def veil_def)

lemma record_commits:
  assumes run: "record_parent cx p s = (Inr True, s')" and view: "same_view s t"
  obtains t' where "commit_parent cx p t = (Inr None, t')" "same_view s' t'"
proof -
  from run obtain found s1 where load: "load_account cx STORAGE_ADDRESS s = (Inr found, s1)"
    and rest: "(if \<not> found then ret True
     else
       bnd (account_of STORAGE_ADDRESS) (\<lambda>x.
       bnd (reads (\<lambda>s. generate_initial_storage_record cx s (ac_data x) (block_to_expr p) True)) (\<lambda>r.
       case r of
         Inl e \<Rightarrow> (case e of UnresolvedRecordExpr \<Rightarrow> ret False | ValueError _ \<Rightarrow> ret False | _ \<Rightarrow> raise e)
       | Inr result \<Rightarrow>
           bnd (add_pending (collected_exprs cx (ac_data x) (block_to_expr p))) (\<lambda>_.
           case result of
             None \<Rightarrow> ret True
           | Some (record, _) \<Rightarrow>
               bnd (data_put cx STORAGE_ADDRESS (sb_expr_id p) (VExpr (storage_record_to_expr record))) (\<lambda>_.
               bnd (add_pending [storage_record_to_expr record]) (\<lambda>_.
               bnd (sync_data_hash STORAGE_ADDRESS) (\<lambda>_. ret True))))))) s1 = (Inr True, s')"
    unfolding record_parent_def bnd_Inr by auto
  from blindD [OF blind_load view load] obtain t1 where t1: "load_account cx STORAGE_ADDRESS t = (Inr found, t1)" "same_view s1 t1" .
  show ?thesis
  proof (cases found)
    case False
    with rest t1 show ?thesis by (intro that [of t1]) (simp_all add: commit_parent_def bnd_runs)
  next
    case True
    from rest True obtain x where x: "account_of STORAGE_ADDRESS s1 = (Inr x, s1)"
      by (auto simp: bnd_Inr account_of_eq split: option.splits)
    from blindD [OF blind_basic(4) t1(2) x] obtain t2 where "account_of STORAGE_ADDRESS t1 = (Inr x, t2)" .
    then have xt: "account_of STORAGE_ADDRESS t1 = (Inr x, t1)" by (auto simp: account_of_eq split: option.splits)
    let ?gen = "\<lambda>s. generate_initial_storage_record cx s (ac_data x) (block_to_expr p) True"
    from t1(2) obtain ts d e q where "t1 = s1\<lparr>bk_timestamp := ts, bk_validation_difficulty := d, bk_expr_id := e, bk_pending := q\<rparr>" by (rule same_viewE)
    then have gen: "?gen t1 = ?gen s1" by simp
    let ?s2 = "s1\<lparr>bk_pending := bk_pending s1 @ collected_exprs cx (ac_data x) (block_to_expr p)\<rparr>"
    from rest True x obtain result where result: "?gen s1 = Inr result"
      by (cases "?gen s1") (auto simp: bnd_Inr split: exc.splits)
    have s2: "same_view ?s2 t1" using t1(2) by (simp add: same_view_pending)
    show ?thesis
    proof (cases result)
      case None
      with rest True x result have "s' = ?s2" by (simp add: bnd_Inr add_pending_def)
      with None result gen t1(1) xt True s2 show ?thesis
        by (intro that [of t1]) (simp_all add: commit_parent_def bnd_runs)
    next
      case (Some rr)
      obtain rc fee where rr: "rr = (rc, fee)" by (cases rr)
      let ?put = "data_put cx STORAGE_ADDRESS (sb_expr_id p) (VExpr (storage_record_to_expr rc))"
      from rest True x result Some rr obtain s3 where s3: "?put ?s2 = (Inr (), s3)"
        and s': "sync_data_hash STORAGE_ADDRESS (s3\<lparr>bk_pending := bk_pending s3 @ [storage_record_to_expr rc]\<rparr>) = (Inr (), s')"
        by (auto simp: bnd_Inr add_pending_def)
      from blindD [OF blind_tree(2) s2 s3] obtain t3 where t3: "?put t1 = (Inr (), t3)" "same_view s3 t3" .
      then have "same_view (s3\<lparr>bk_pending := bk_pending s3 @ [storage_record_to_expr rc]\<rparr>) t3"
        by (simp add: same_view_pending)
      from blindD [OF blind_account(3) this s'] obtain t' where "sync_data_hash STORAGE_ADDRESS t3 = (Inr (), t')" "same_view s' t'" .
      with Some rr result gen t1(1) xt True t3 show ?thesis
        by (intro that [of t']) (simp_all add: commit_parent_def bnd_runs)
    qed
  qed
qed

end
