(* ===== verification/Place_Laws.thy ===== *)
theory Place_Laws
  imports Built_Laws
begin

text \<open>
  Nothing that is applied to a block moves its place: the chain, the height, the parent and the time stay,
  whether the actions return or raise.
\<close>

definition place :: "block \<Rightarrow> int \<times> int \<times> int option \<times> bytes" where
  "place s = (bk_chain_id s, bk_height s, bk_timestamp s, bk_previous_hash s)"

definition stays :: "'a act \<Rightarrow> bool" where
  "stays m \<longleftrightarrow> (\<forall>s. place (snd (m s)) = place s)"

named_theorems stays_rules \<open>actions that keep the place of the block\<close>

lemma stays_lawful: "lawful same_record m \<Longrightarrow> stays m"
  by (simp add: lawful_def stays_def same_record_def recorded_def place_def)

lemma stays_kept: "kept m \<Longrightarrow> stays m"
  by (simp add: kept_def stays_def told_def place_def)

lemma stays_bnd [stays_rules]: "stays m \<Longrightarrow> (\<And>x. stays (f x)) \<Longrightarrow> stays (bnd m f)"
  by (simp add: stays_def bnd_def split: prod.split sum.split) (metis snd_conv)

lemma stays_if [stays_rules]: "stays m \<Longrightarrow> stays m' \<Longrightarrow> stays (if b then m else m')"
  by simp

lemma stays_prod [stays_rules]: "(\<And>a b. stays (f a b)) \<Longrightarrow> stays (case p of (a, b) \<Rightarrow> f a b)"
  by (cases p) simp

lemma stays_catch [stays_rules]: "stays m \<Longrightarrow> stays (catch m x)"
  by (simp add: stays_def catch_def split: prod.split sum.split) (metis snd_conv)

lemma stays_update: "(\<And>s. place (f s) = place s) \<Longrightarrow> stays (update f)"
  by (simp add: stays_def)

lemma stays_basic [stays_rules]:
  "stays (ret x)" "stays (raise e)" "stays (lift r)" "stays (reads g)" "stays (load_account cx a)"
  "stays (touch_account a)" "stays (add_balance a n)" "stays (account_of a)"
  by (rule stays_lawful, rule record_law.lawful_load record_law.lawful_touch record_law.lawful_account
      record_law.lawful_basic)+

lemma stays_change [stays_rules]: "stays (change_account a f)" "stays (set_at a r)"
  by (auto simp: stays_def place_def change_account_def write_account_def account_of_eq bnd_def set_at_def
      store_account_def split: account_ref.split option.split)

lemma stays_roll_back [stays_rules]: "stays (roll_back cx tx snap)"
proof -
  have "stays (update (restore snap))"
    by (rule stays_update) (simp add: place_def restore_def split: prod.split)
  then show ?thesis
    unfolding roll_back_def by (rule stays_bnd) (rule stays_rules)+
qed

lemma stays_apply:
  assumes "run_lawful W same_record tx"
  shows "stays (apply_tx_effects W tx h)" "stays (apply_transaction_obj W tx)"
proof -
  have code: "stays (code_effects W False tx h ok amount)" for h ok amount
    by (rule stays_lawful, rule record_law.lawful_code) (use assms in \<open>simp_all add: run_lawful_def\<close>)
  have clear: "stays (update (\<lambda>s. if b then s else s\<lparr>bk_accounts := (bk_accounts s)\<lparr>as_involved := []\<rparr>\<rparr>))" for b
    by (rule stays_update) (simp add: place_def)
  have handler: "stays (run_handler W False tx h)" for h
    unfolding run_handler_def Let_def by (rule code clear stays_rules)+
  have settle: "stays (settle W tx snap e ok r)" for snap e ok r
    unfolding settle_def Let_def by (rule stays_rules)+
  have finish: "stays (finish_transaction W tx h e matched batches y)" for h e matched batches y
    unfolding finish_transaction_def
    by (rule stays_update, simp add: place_def | rule stays_rules | rule stays_kept, rule kept_rules)+
  show applied: "stays (apply_tx_effects W tx h)" for h
    unfolding apply_split case_prod_beta
    by (rule handler settle finish | rule stays_kept, rule kept_late_checks | rule stays_bnd)+
  show "stays (apply_transaction_obj W tx)"
    unfolding apply_transaction_obj_def by (rule applied stays_rules)+
qed

lemma stays_queue:
  "\<forall>tx\<in>set q. run_lawful W same_record tx \<Longrightarrow> stays (apply_queue W q)"
  by (induction q) (auto intro!: stays_rules stays_apply)

lemma stays_list:
  "\<forall>tx. run_lawful W same_record tx \<Longrightarrow> stays (apply_list W bh hs)"
  by (induction hs) (auto intro!: stays_rules stays_apply)

section \<open>The record of the parent\<close>

context act_law
begin

lemma lawful_record_rest:
  "lawful L (bnd (account_of STORAGE_ADDRESS) (\<lambda>x.
     bnd (reads (\<lambda>s. generate_initial_storage_record cx s (ac_data x) (block_to_expr p) True)) (\<lambda>r.
     case r of
       Inl e \<Rightarrow> (case e of UnresolvedRecordExpr \<Rightarrow> ret False | ValueError _ \<Rightarrow> ret False | _ \<Rightarrow> raise e)
     | Inr result \<Rightarrow>
         bnd (add_pending (collected_exprs cx (ac_data x) (block_to_expr p))) (\<lambda>_.
         case result of
           None \<Rightarrow> ret True
         | Some (record, _) \<Rightarrow>
             bnd (data_put cx STORAGE_ADDRESS (sb_expr_id p) (VExpr (storage_record_to_expr record))) (\<lambda>_.
             bnd (add_pending [storage_record_to_expr record]) (\<lambda>_.
             bnd (sync_data_hash STORAGE_ADDRESS) (\<lambda>_. ret True)))))))"
proof -
  have failed: "lawful L (case e of UnresolvedRecordExpr \<Rightarrow> ret False | ValueError m \<Rightarrow> ret False | _ \<Rightarrow> raise e)" for e
    by (cases e) (simp_all add: lawful_basic)
  have sums: "lawful L (case r of Inl a \<Rightarrow> f a | Inr b \<Rightarrow> g b)" if "\<And>a. lawful L (f a)" "\<And>b. lawful L (g b)"
    for r and f :: "exc \<Rightarrow> 'b act" and g :: "'c \<Rightarrow> 'b act"
    using that by (cases r) simp_all
  show ?thesis unfolding case_prod_beta by (rule failed lawful_rules sums)+
qed

lemma lawful_record: "lawful L (record_parent cx p)"
  unfolding record_parent_def by (rule lawful_record_rest lawful_rules)+

lemma lawful_commit: "lawful L (commit_parent cx p)"
proof -
  have sums: "lawful L (case r of Inl a \<Rightarrow> f a | Inr b \<Rightarrow> g b)" if "\<And>a. lawful L (f a)" "\<And>b. lawful L (g b)"
    for r and f :: "exc \<Rightarrow> 'b act" and g :: "'c \<Rightarrow> 'b act"
    using that by (cases r) simp_all
  show ?thesis unfolding commit_parent_def case_prod_beta by (rule lawful_rules sums)+
qed

end

lemma stays_record: "stays (record_parent cx p)"
  by (rule stays_lawful, rule record_law.lawful_record)

lemma stays_commit: "stays (commit_parent cx p)"
  by (rule stays_lawful, rule record_law.lawful_commit)

lemma staysD: "stays m \<Longrightarrow> m s = (r, s') \<Longrightarrow> place s' = place s"
  unfolding stays_def by (metis snd_conv)

end
