(* ===== verification/Block_Supply.thy ===== *)
theory Block_Supply
  imports Block_Verify
begin

text \<open>
  What a block that the verification accepts does to the sum of all balances: the state that the header
  commits to holds the parent's funds and what the receipts mint, and the fees are with its validator.
\<close>

section \<open>Steps of the replay\<close>

definition runs_well :: "apply_ctx \<Rightarrow> rtree option \<Rightarrow> bool" where
  "runs_well W R \<longleftrightarrow>
     (\<forall>tx e. (\<forall>c. hoare (sums_to (ap_cx W) R c) (ap_run W tx e) (\<lambda>_. sums_to (ap_cx W) R c))
        \<and> lawful (ready_on (ap_cx W) R) (ap_run W tx e) \<and> lawful same_record (ap_run W tx e))"

lemma runs_well_laws:
  assumes "runs_well W R"
  shows "run_keeps W R tx" "run_lawful W (ready_on (ap_cx W) R) tx" "run_lawful W same_record tx"
  using assms by (simp_all add: runs_well_def run_keeps_def run_lawful_def)

lemma sums_commit_parent: "hoare (sums_to cx R c) (commit_parent cx p) (\<lambda>_. sums_to cx R c)"
proof -
  have one: "hoare (sums_to cx R c) (case r of
         Inl e \<Rightarrow>
           if e = UnresolvedRecordExpr then ret (Some ''failed building parent block record'') else raise e
       | Inr None \<Rightarrow> ret None
       | Inr (Some (record, _)) \<Rightarrow>
           bnd (data_put cx STORAGE_ADDRESS k (VExpr (storage_record_to_expr record))) (\<lambda>_.
           bnd (sync_data_hash STORAGE_ADDRESS) (\<lambda>_. ret None))) (\<lambda>_. sums_to cx R c)" for k
    and r :: "exc + (storage_record \<times> bytes list \<times> bytes list \<times> int) option"
  proof (cases r)
    case (Inr x)
    have "hoare (sums_to cx R c) (bnd (data_put cx STORAGE_ADDRESS k v) (\<lambda>_.
           bnd (sync_data_hash STORAGE_ADDRESS) (\<lambda>_. ret None))) (\<lambda>_. sums_to cx R c)" for v
      by (rule hoare_bnd, rule sums_rules, rule hoare_bnd, rule sums_rules, rule hoare_ret)
    with Inr show ?thesis by (cases x) (auto intro: hoare_ret)
  qed (auto intro: hoare_ret hoare_raise)
  show ?thesis
    unfolding commit_parent_def
    by (rule hoare_bnd, rule sums_load_same, rule hoare_if, rule hoare_ret, assumption, rule hoare_bnd,
        rule sums_account_same, rule hoare_reads_bnd, rule one)
qed

lemma listed_commit_parent: "hoare (listed q) (commit_parent cx p) (\<lambda>_. listed q)"
proof -
  have put: "hoare (listed q) (data_put cx a k v) (\<lambda>_. listed q)" "hoare (listed q) (sync_data_hash a) (\<lambda>_. listed q)" for a k v
    by (rule lawful_listed, rule record_law.lawful_tree record_law.lawful_account)+
  have one: "hoare (listed q) (case r of
         Inl e \<Rightarrow>
           if e = UnresolvedRecordExpr then ret (Some ''failed building parent block record'') else raise e
       | Inr None \<Rightarrow> ret None
       | Inr (Some (record, _)) \<Rightarrow>
           bnd (data_put cx STORAGE_ADDRESS k (VExpr (storage_record_to_expr record))) (\<lambda>_.
           bnd (sync_data_hash STORAGE_ADDRESS) (\<lambda>_. ret None))) (\<lambda>_. listed q)" for k
    and r :: "exc + (storage_record \<times> bytes list \<times> bytes list \<times> int) option"
  proof (cases r)
    case (Inr x)
    have "hoare (listed q) (bnd (data_put cx STORAGE_ADDRESS k v) (\<lambda>_.
           bnd (sync_data_hash STORAGE_ADDRESS) (\<lambda>_. ret None))) (\<lambda>_. listed q)" for v
      by (rule hoare_bnd, rule put, rule hoare_bnd, rule put, rule hoare_ret)
    with Inr show ?thesis by (cases x) (auto intro: hoare_ret)
  qed (auto intro: hoare_ret hoare_raise)
  show ?thesis
    unfolding commit_parent_def
    by (rule hoare_bnd, rule listed_rules, rule hoare_if, rule hoare_ret, assumption, rule hoare_bnd,
        rule listed_rules, rule hoare_reads_bnd, rule one)
qed

lemma hoare_conj:
  "hoare P m Q \<Longrightarrow> hoare P' m Q' \<Longrightarrow> hoare (\<lambda>s. P s \<and> P' s) m (\<lambda>x s. Q x s \<and> Q' x s)"
  unfolding hoare_def by blast

lemma load_caught:
  "hoare (\<lambda>s. sums_to cx R c s \<and> listed q s) (catch (load_account cx a) False)
     (\<lambda>found s. sums_to cx R c s \<and> listed q s \<and> (\<not> found \<longrightarrow> worth cx R s a = 0))"
  unfolding hoare_def
proof (intro allI impI)
  fix s found s'
  assume s: "sums_to cx R c s \<and> listed q s" and run: "catch (load_account cx a) False s = (Inr found, s')"
  then have ready: "ready cx R s" by (simp add: sums_to_def)
  obtain t where t:
    "load_account cx a s = (map_sum id (\<lambda>x. x \<noteq> None) (account_at cx R (bk_accounts s) a), s\<lparr>bk_accounts := t\<rparr>)"
    "tree_ready cx R (as_trie t)" "\<And>x. account_at cx R t x = account_at cx R (bk_accounts s) x"
    using load_account_at [OF ready, of a] by blast
  from run t(1) have s': "s' = s\<lparr>bk_accounts := t\<rparr>"
    by (cases "account_at cx R (bk_accounts s) a") (auto simp: catch_def)
  have worth: "worth cx R s' = worth cx R s" by (simp add: worth_def fun_eq_iff s' t(3))
  have "\<not> found \<longrightarrow> worth cx R s' a = 0"
    using run t(1) unfolding worth
    by (cases "account_at cx R (bk_accounts s) a") (auto simp: catch_def worth_def)
  with s worth t(2) show "sums_to cx R c s' \<and> listed q s' \<and> (\<not> found \<longrightarrow> worth cx R s' a = 0)"
    by (auto simp: sums_to_def coins_def support_def listed_def ready_def s')
qed

lemma reward_told:
  assumes "k \<noteq> []"
  shows "hoare (\<lambda>s. sums_to cx R c s \<and> listed q s) (reward_validator cx k)
     (\<lambda>_ s. sums_to cx R (c + validator_reward (snd q)) s \<and> listed q s)"
proof -
  let ?P = "\<lambda>d s. sums_to cx R d s \<and> listed q s"
  have pay: "hoare (\<lambda>s. sums_to cx R c s \<and> listed q s \<and> (\<not> found \<longrightarrow> worth cx R s k = 0))
      (if found then bnd (add_balance k n) (\<lambda>_. touch_account k)
       else store_account k (new_account\<lparr>ac_balance := n\<rparr>)) (\<lambda>_. ?P (c + n))" for found n
  proof (cases found)
    case True
    have "hoare (?P c) (bnd (add_balance k n) (\<lambda>_. touch_account k)) (\<lambda>_. ?P (c + n))"
      by (rule hoare_conj, rule hoare_bnd, rule sums_rules, rule sums_touch, rule hoare_bnd, rule listed_rules,
          rule listed_rules)
    with True show ?thesis by (simp add: hoare_def)
  next
    case False
    have "hoare (listed q) (store_account k x) (\<lambda>_. listed q)" for x
      unfolding store_account_def by (rule listed_update) simp
    from hoare_conj [OF sums_store_new [of cx R c k "new_account\<lparr>ac_balance := n\<rparr>"] this] False show ?thesis
      by (auto elim: hoare_weaken)
  qed
  show ?thesis
    unfolding reward_validator_def
  proof (rule hoare_reads_bnd, rule hoare_if)
    fix s
    assume "?P c s"
    then have n: "validator_reward (bk_receipts s) = validator_reward (snd q)" by (simp add: listed_def)
    show "hoare (?P c) (bnd (catch (load_account cx k) False) (\<lambda>found.
         if found then bnd (add_balance k (validator_reward (bk_receipts s))) (\<lambda>_. touch_account k)
         else store_account k (new_account\<lparr>ac_balance := validator_reward (bk_receipts s)\<rparr>)))
       (\<lambda>_. ?P (c + validator_reward (snd q)))"
      unfolding n by (rule hoare_bnd, rule load_caught, rule pay)
  qed (use assms in simp)
qed

text \<open>
  The reward reaches the account of the validator and no other. An account that cannot be read counts as
  worth nothing, and the validator then gets a new one.
\<close>

lemma reward_paid:
  assumes "ready cx R s" "k \<noteq> []" "reward_validator cx k s = (Inr (), s')"
  shows "worth cx R s' = (worth cx R s)(k := worth cx R s k + validator_reward (bk_receipts s))"
proof -
  obtain t where t:
    "load_account cx k s = (map_sum id (\<lambda>x. x \<noteq> None) (account_at cx R (bk_accounts s) k), s\<lparr>bk_accounts := t\<rparr>)"
    "\<And>x. account_at cx R t x = account_at cx R (bk_accounts s) x"
    using load_account_at [OF assms(1), of k] by blast
  let ?s = "s\<lparr>bk_accounts := t\<rparr>"
  have same: "worth cx R ?s = worth cx R s" by (simp add: worth_def fun_eq_iff t(2))
  have touch: "touch_account k s1 = (Inr (), s2) \<Longrightarrow> worth cx R s2 = worth cx R s1" for s1 s2
    by (auto simp: touch_account_def bnd_Inr account_of_eq store_account_def fun_eq_iff worth_store worth_cached
        split: option.splits)
  from assms(3) t(1) consider
    (found) x s1 where "account_at cx R (bk_accounts s) k = Inr (Some x)"
      "add_balance k (validator_reward (bk_receipts s)) ?s = (Inr (), s1)" "touch_account k s1 = (Inr (), s')"
  | (new) "worth cx R s k = 0"
      "store_account k (new_account\<lparr>ac_balance := validator_reward (bk_receipts s)\<rparr>) ?s = (Inr (), s')"
    using assms(2)
    by (cases "account_at cx R (bk_accounts s) k"; cases "projr (account_at cx R (bk_accounts s) k)")
      (auto simp: reward_validator_def bnd_Inr catch_def worth_def split: sum.splits)
  then show ?thesis
  proof cases
    case found
    from found(2) obtain y where y: "cached ?s k = Some y"
      "s1 = put_cached k (y\<lparr>ac_balance := ac_balance y + validator_reward (bk_receipts s)\<rparr>) ?s"
      by (auto simp: add_balance_def change_account_Inr)
    from worth_cached [OF y(1), of cx R] same have "worth cx R s k = ac_balance y" by simp
    with touch [OF found(3)] same show ?thesis by (simp add: y(2) fun_eq_iff)
  next
    case new
    then have "s' = ?s\<lparr>bk_accounts := set_account k (new_account\<lparr>ac_balance := validator_reward (bk_receipts s)\<rparr>) (bk_accounts ?s)\<rparr>"
      by (simp add: store_account_def)
    with new(1) same show ?thesis by (simp only: worth_store fun_eq_iff) simp
  qed
qed

text \<open>What a list of transactions leaves: their receipts, and what the sum has changed by.\<close>

definition told_by ::
  "node_ctx \<Rightarrow> rtree option \<Rightarrow> (bytes \<Rightarrow> transaction \<Rightarrow> bool) \<Rightarrow> block \<Rightarrow> block \<Rightarrow> bytes list \<Rightarrow> bool" where
  "told_by cx R good s s' hs \<longleftrightarrow>
     ready cx R s' \<and>
     (\<exists>txs rs ds. bk_transactions s' = bk_transactions s @ txs \<and> bk_receipts s' = bk_receipts s @ rs
        \<and> list_all2 good hs txs \<and> length rs = length hs
        \<and> list_all2 (\<lambda>tx d. d = 0 \<or> d \<in> beside tx) txs ds
        \<and> coins cx R s' = coins cx R s + sum_list (map (\<lambda>r. mint r - transaction_fee r - data_fee r) rs) + sum_list ds)"

lemma told_by_one:
  assumes "runs_well W R" "ready (ap_cx W) R s" "apply_tx_effects W tx h s = (Inr x, s')" "good k tx"
  shows "told_by (ap_cx W) R good s s' [k]"
proof -
  obtain ok used logs where x: "x = (ok, used, logs)" by (cases x)
  from apply_appends [OF runs_well_laws(3) [OF assms(1)] assms(3)] obtain r where
    r: "bk_transactions s' = bk_transactions s @ [tx]" "bk_receipts s' = bk_receipts s @ [r]" by blast
  from apply_accounted [OF assms(2) assms(3) [unfolded x]] runs_well_laws [OF assms(1)]
  have "accounted (ap_cx W) R tx (coins (ap_cx W) R s) ok s'" by blast
  then obtain d where "d \<in> (if ok then beside tx else {0})"
    "sums_to (ap_cx W) R (coins (ap_cx W) R s - transaction_fee r - data_fee r + mint r + d) s'"
    unfolding accounted_def r by auto
  then have d: "d = 0 \<or> d \<in> beside tx" "ready (ap_cx W) R s'"
    "coins (ap_cx W) R s' = coins (ap_cx W) R s - transaction_fee r - data_fee r + mint r + d"
    by (auto simp: sums_to_def split: if_splits)
  then show ?thesis
    unfolding told_by_def r using assms(4)
    by (intro conjI exI [of _ "[tx]"] exI [of _ "[r]"] exI [of _ "[d]"]) simp_all
qed

lemma told_by_trans:
  assumes "told_by cx R good s s1 hs" "told_by cx R good s1 s2 ks"
  shows "told_by cx R good s s2 (hs @ ks)"
proof -
  from assms(1) obtain txs rs ds where one: "bk_transactions s1 = bk_transactions s @ txs" "bk_receipts s1 = bk_receipts s @ rs"
    "list_all2 good hs txs" "length rs = length hs" "list_all2 (\<lambda>tx d. d = 0 \<or> d \<in> beside tx) txs ds"
    "coins cx R s1 = coins cx R s + sum_list (map (\<lambda>r. mint r - transaction_fee r - data_fee r) rs) + sum_list ds"
    unfolding told_by_def by blast
  from assms(2) obtain txs' rs' ds' where two: "bk_transactions s2 = bk_transactions s1 @ txs'" "bk_receipts s2 = bk_receipts s1 @ rs'"
    "list_all2 good ks txs'" "length rs' = length ks" "list_all2 (\<lambda>tx d. d = 0 \<or> d \<in> beside tx) txs' ds'"
    "coins cx R s2 = coins cx R s1 + sum_list (map (\<lambda>r. mint r - transaction_fee r - data_fee r) rs') + sum_list ds'"
    "ready cx R s2"
    unfolding told_by_def by blast
  show ?thesis
    unfolding told_by_def
    using one two
    by (intro conjI exI [of _ "txs @ txs'"] exI [of _ "rs @ rs'"] exI [of _ "ds @ ds'"])
      (auto simp: list_all2_appendI)
qed

lemma told_by_none: "ready cx R s \<Longrightarrow> told_by cx R good s s []"
  unfolding told_by_def by (intro conjI exI [of _ "[]"]) simp_all

text \<open>The transactions that a list of ids names: read from storage, and signed by their senders.\<close>

definition signed_at :: "apply_ctx \<Rightarrow> bytes \<Rightarrow> bytes \<Rightarrow> transaction \<Rightarrow> bool" where
  "signed_at W block_hash h tx \<longleftrightarrow>
     get_transaction_from_storage (ap_cx W) (Some block_hash) h = Inr tx
     \<and> verify_signature (cx_hash (ap_cx W)) (ap_verify W) tx"

lemma apply_list_told:
  assumes "runs_well W R" "ready (ap_cx W) R s" "apply_list W bh hs s = (Inr None, s')"
  shows "told_by (ap_cx W) R (signed_at W bh) s s' hs"
  using assms(2,3)
proof (induction hs arbitrary: s)
  case Nil
  then show ?case by (auto simp: ret_def told_by_none)
next
  case (Cons h hs)
  let ?good = "signed_at W bh"
  from Cons.prems(2) obtain tx s1 where tx: "?good h tx" "apply_transaction_obj W tx s = (Inr (), s1)"
    "apply_list W bh hs s1 = (Inr None, s')"
    by (auto simp: bnd_Inr lift_Inr signed_at_def split: if_splits)
  from tx(2) obtain x where applied:
    "apply_tx_effects W tx (expr_hash (cx_hash (ap_cx W)) (transaction_to_expr tx)) s = (Inr x, s1)"
    by (auto simp: apply_transaction_obj_def bnd_Inr)
  have one: "told_by (ap_cx W) R ?good s s1 [h]"
    by (rule told_by_one [where good = ?good, OF assms(1) Cons.prems(1) applied]) (rule tx(1))
  then have "ready (ap_cx W) R s1" by (simp add: told_by_def)
  from told_by_trans [OF one Cons.IH [OF this tx(3)]] show ?case by simp
qed

section \<open>The block\<close>

definition parent_state :: "stored_block \<Rightarrow> bytes \<Rightarrow> block" where
  "parent_state p h = carrier (new_accounts (Some (sb_accounts_hash p)) (Some h))"

definition fees_taken :: "receipt list \<Rightarrow> int" where
  "fees_taken rs = sum_list (map (\<lambda>r. transaction_fee r + data_fee r) rs)"

lemma receipts_net:
  "sum_list (map (\<lambda>r. mint r - transaction_fee r - data_fee r) rs) = sum_list (map mint rs) - fees_taken rs"
  by (induction rs) (simp_all add: fees_taken_def)

lemma replay_told:
  assumes "runs_well W R" "ready (ap_cx W) R s" "sb_validator b \<noteq> []" "bk_transactions s = []" "bk_receipts s = []"
    and "replay W b p hs s = (Inr None, s')"
  obtains s1 s2 ds where "commit_parent (ap_cx W) p s = (Inr None, s1)"
    "apply_list W (sb_expr_id b) hs s1 = (Inr None, s2)"
    "list_all2 (signed_at W (sb_expr_id b)) hs (bk_transactions s')" "length (bk_receipts s') = length hs"
    "list_all2 (\<lambda>tx d. d = 0 \<or> d \<in> beside tx) (bk_transactions s') ds"
    "coins (ap_cx W) R s2 = coins (ap_cx W) R s + sum_list (map mint (bk_receipts s')) + sum_list ds
         - fees_taken (bk_receipts s')"
    "coins (ap_cx W) R s' = coins (ap_cx W) R s2 + max 1 (fees_taken (bk_receipts s'))"
    "worth (ap_cx W) R s' = (worth (ap_cx W) R s2)
        (sb_validator b := worth (ap_cx W) R s2 (sb_validator b) + max 1 (fees_taken (bk_receipts s')))"
proof -
  let ?cx = "ap_cx W"
  from assms(6) obtain s1 s2 where run: "commit_parent ?cx p s = (Inr None, s1)"
    "apply_list W (sb_expr_id b) hs s1 = (Inr None, s2)" "reward_validator ?cx (sb_validator b) s2 = (Inr (), s')"
    by (auto simp: replay_def bnd_Inr ret_def split: if_splits)
  have "sums_to ?cx R (coins ?cx R s) s" "listed ([], []) s"
    using assms(2,4,5) by (simp_all add: sums_to_def listed_def)
  from sums_commit_parent [unfolded hoare_def, rule_format, OF this(1) run(1)]
    listed_commit_parent [unfolded hoare_def, rule_format, OF this(2) run(1)]
  have s1: "ready ?cx R s1" "coins ?cx R s1 = coins ?cx R s" "bk_transactions s1 = []" "bk_receipts s1 = []"
    by (simp_all add: sums_to_def listed_def)
  from apply_list_told [OF assms(1) s1(1) run(2)] obtain ds where told: "ready ?cx R s2"
    "list_all2 (signed_at W (sb_expr_id b)) hs (bk_transactions s2)" "length (bk_receipts s2) = length hs"
    "list_all2 (\<lambda>tx d. d = 0 \<or> d \<in> beside tx) (bk_transactions s2) ds"
    "coins ?cx R s2 = coins ?cx R s1 + sum_list (map (\<lambda>r. mint r - transaction_fee r - data_fee r) (bk_receipts s2)) + sum_list ds"
    unfolding told_by_def s1(3,4) by auto
  have "sums_to ?cx R (coins ?cx R s2) s2 \<and> listed (bk_transactions s2, bk_receipts s2) s2"
    using told(1) by (simp add: sums_to_def listed_def)
  from reward_told [OF assms(3), unfolded hoare_def, rule_format, OF this run(3)]
  have s': "coins ?cx R s' = coins ?cx R s2 + validator_reward (bk_receipts s2)" "bk_transactions s' = bk_transactions s2"
    "bk_receipts s' = bk_receipts s2"
    by (simp_all add: sums_to_def listed_def)
  have reward: "validator_reward (bk_receipts s2) = max 1 (fees_taken (bk_receipts s2))"
    by (simp add: validator_reward_def fees_taken_def max_def)
  show ?thesis
    by (rule that [OF run(1,2)])
      (use told s' reward reward_paid [OF told(1) assms(3) run(3)] receipts_net s1(2) in simp_all)
qed

lemma verify_accepts:
  assumes "or_zeros (sb_previous_hash b) \<noteq> ZERO32" "verify_block_transactions W rng (Some p) b = Inr None"
  obtains hs k drawn bloom s where
    "current_validator (ap_cx W) (ap_bloom W) rng (or_zeros (sb_previous_hash b)) (sb_timestamp b) = Inr (k, drawn)"
    "sb_validator b = k" "load_hash_list (ap_cx W) (sb_expr_id b) (sb_transactions_hash b) = Inr (Some hs)"
    "expr_hash (cx_hash (ap_cx W)) (link_list_to_expr hs) = or_zeros (sb_transactions_hash b)"
    "replay W b p hs (work_block b p (bk_accounts drawn) bloom) = (Inr None, s)"
    "outcome_checks (ap_cx W) b p (length hs) s = Inr None"
proof -
  let ?cx = "ap_cx W"
  note run = assms(2) [unfolded verify_block_transactions_def Let_def, simplified assms(1) if_False option.case]
  have "sb_accounts_hash p \<noteq> []" using run by (auto split: if_split_asm)
  note run = run [simplified this if_False]
  obtain hs where hs: "load_hash_list ?cx (sb_expr_id b) (sb_transactions_hash b) = Inr (Some hs)"
    using run by (cases "load_hash_list ?cx (sb_expr_id b) (sb_transactions_hash b)"; cases "projr (load_hash_list ?cx (sb_expr_id b) (sb_transactions_hash b))")
      (simp_all add: bind_exc_def)
  note run = run [unfolded hs bind_exc_simps option.case]
  have named: "expr_hash (cx_hash ?cx) (link_list_to_expr hs) = or_zeros (sb_transactions_hash b)"
    using run by (simp split: if_split_asm)
  note run = run [simplified named, simplified]
  let ?valid = "current_validator ?cx (ap_bloom W) rng (or_zeros (sb_previous_hash b)) (sb_timestamp b)"
  obtain k drawn where valid: "?valid = Inr (k, drawn)" using run by (cases ?valid) auto
  note run = run [unfolded valid, simplified]
  have k: "sb_validator b = k" using run by (simp split: if_split_asm)
  note run = run [unfolded k, simplified]
  obtain bloom where bloom: "era_tree (ap_bloom W) b p = Inr bloom"
    using run by (cases "era_tree (ap_bloom W) b p") (simp_all add: bind_exc_def)
  let ?replay = "replay W b p hs (work_block b p (bk_accounts drawn) bloom)"
  have "\<exists>s. ?replay = (Inr None, s) \<and> outcome_checks ?cx b p (length hs) s = Inr None"
    using run by (cases ?replay) (auto simp: bloom bind_exc_def split: sum.split_asm option.split_asm)
  with valid k hs named show ?thesis by (blast intro: that)
qed


text \<open>
  A block without transactions on a parent whose accounts are the treasury alone, with one stake of 1:
  the validator gets the least reward, 1, as a new account. \<open>demo_root\<close> is the node of the treasury as it
  is read for the parent.
\<close>

definition short_hash :: "bytes \<Rightarrow> bytes" where
  "short_hash x = [foldl (\<lambda>a c. 3 * a + c) (of_nat (length x)) x, of_nat (length x)]"

definition demo_stake :: expr where
  "demo_stake = user_record_to_expr (new_user_record\<lparr>ur_balance := 1\<rparr>)"

definition demo_treasury :: expr where
  "demo_treasury = account_to_expr (create_account 9 [61, 3] ZERO32 ZERO32 0 None None None)"

definition parent_block :: stored_block where
  "parent_block = demo_stored\<lparr>sb_height := 1023, sb_timestamp := 100, sb_accounts_hash := [217, 3],
     sb_transactions_hash := ZERO32, sb_receipts_hash := ZERO32, sb_bloom_hash := ZERO32, sb_expr_id := [9],
     sb_body_hash := [170, 3]\<rparr>"

definition next_block :: stored_block where
  "next_block = parent_block\<lparr>sb_height := 1024, sb_timestamp := 102, sb_previous_hash := [9],
     sb_accounts_hash := [131, 3], sb_transaction_fee := 0, sb_storage_fee := 0, sb_validator := [7],
     sb_expr_id := [10],
     sb_statistics := update_statistics 1024 (Some (sb_statistics parent_block)) (1, 9, 0)\<rparr>"

definition demo_cells :: "bytes \<Rightarrow> expr option" where
  "demo_cells h =
     (if h = [9] then Some (block_to_expr parent_block)
      else if h = [217, 3]
      then Some (convert_radix_node_to_expr short_hash
                   (make_node TREASURY_ADDRESS 256 (Some (VExpr demo_treasury)) None None))
      else if h = [61, 3]
      then Some (convert_radix_node_to_expr short_hash (make_node [7] 8 (Some (VExpr demo_stake)) None None))
      else if h = [130, 3] then Some demo_stake
      else None)"

definition demo_node :: apply_ctx where
  "demo_node = demo_apply\<lparr>ap_cx := 
     \<lparr>cx_hash = short_hash, cx_get = \<lambda>h b. demo_cells h,
     cx_list = \<lambda>h b. demo_cells h, cx_fuel = 300\<rparr>\<rparr>"

definition demo_rng :: "unit rng" where
  "demo_rng = \<lparr>rng_seed = \<lambda>_. (), rng_range = \<lambda>_ _. (0, ())\<rparr>"

definition demo_root :: rtree where
  "demo_root = RT ((make_node TREASURY_ADDRESS 256 (Some (VExpr demo_treasury)) None None)
     \<lparr>value_block := Some [9], stored_hash := Some [217, 3]\<rparr>) None None"


lemma demo_accepted: "verify_block_transactions demo_node demo_rng (Some parent_block) next_block = Inr None"
  by code_simp

lemma demo_parent: "get_block_from_storage (ap_cx demo_node) [9] = Inr parent_block"
  by code_simp

lemma demo_runs: "runs_well demo_node R"
  by (simp add: runs_well_def demo_node_def demo_apply_def hoare_ret)
    (simp add: lawful_def ready_law.keep record_law.keep)

lemma demo_trie: "ready (ap_cx demo_node) (Some demo_root) (parent_state parent_block [9])"
proof -
  let ?cx = "ap_cx demo_node"
  have "cx_reader ?cx [217, 3] (Some [9]) = Some (Inr (Some (rnode demo_root)))" by code_simp
  moreover have "sb_accounts_hash parent_block = [217, 3]" "1 \<le> cx_fuel ?cx" "([217, 3] :: bytes) \<noteq> ZERO32"
    "fits (key (rnode demo_root)) (key_len (rnode demo_root))"
    by code_simp+
  ultimately show ?thesis
    by (simp add: ready_def tree_ready_def holds_def root_depth_def parent_state_def carrier_def view_def
        new_accounts_def new_radix_tree_def demo_root_def radix_node_hash_def make_node_def)
qed


end
