(* ===== verification/Built_Demo.thy ===== *)
theory Built_Demo
  imports Block_Build Block_Supply
begin

text \<open>
  A round of the worker on concrete cells: a parent whose accounts are the treasury, with one stake of 1, and
  the storage account, which has the record of the parent. The steps of the round are computed one by one.
\<close>

section \<open>The cells\<close>

text \<open>A hash that is cheap to compute, with two bytes.\<close>

fun mixed_hash :: "bytes \<Rightarrow> bytes" where
  "mixed_hash [] = [1, 1]"
| "mixed_hash [a, b, c] = [a + c, b]"
| "mixed_hash [a, b, c, d] = [b + c + 1, a + d]"
| "mixed_hash (a # b) = [a, last (a # b)]"

definition built_parent :: stored_block where
  "built_parent = parent_block\<lparr>sb_accounts_hash := [34, 3], sb_body_hash := [124, 190]\<rparr>"

definition demo_leaf :: "bytes \<Rightarrow> int \<Rightarrow> expr \<Rightarrow> radix_node" where
  "demo_leaf k n e = make_node k n (Some (VExpr e)) None None"

definition demo_fork :: radix_node where
  "demo_fork = make_node [] 0 None (Some [224, 114]) (Some [223, 112])"

definition treasury_leaf :: radix_node where
  "treasury_leaf = demo_leaf (replicate 31 255 @ [254]) 255
     (account_to_expr (create_account 9 [239, 130] ZERO32 ZERO32 0 None None None))"

definition storage_leaf :: radix_node where
  "storage_leaf = demo_leaf (replicate 32 0) 255
     (account_to_expr (create_account 5 [217, 175] ZERO32 ZERO32 0 None None None))"

definition built_cells :: "bytes \<Rightarrow> expr option" where
  "built_cells h =
     (if h = [9] then Some (block_to_expr built_parent)
      else if h = [34, 3] then Some (convert_radix_node_to_expr mixed_hash demo_fork)
      else if h = [223, 112] then Some (convert_radix_node_to_expr mixed_hash treasury_leaf)
      else if h = [224, 114] then Some (convert_radix_node_to_expr mixed_hash storage_leaf)
      else if h = [217, 175]
      then Some (convert_radix_node_to_expr mixed_hash
                   (demo_leaf (expr_hash mixed_hash (block_to_expr built_parent)) 16 (Bytes [1])))
      else if h = [239, 130] then Some (convert_radix_node_to_expr mixed_hash (demo_leaf [7] 8 demo_stake))
      else if h = [17, 18] then Some demo_stake
      else None)"

definition built_node :: apply_ctx where
  "built_node = demo_node\<lparr>ap_cx :=
     \<lparr>cx_hash = mixed_hash, cx_get = \<lambda>h b. built_cells h, cx_list = \<lambda>h b. built_cells h, cx_fuel = 300\<rparr>\<rparr>"

definition demo_validator :: validator_node where
  "demo_validator = \<lparr>vn_key = [7], vn_sign = \<lambda>_. [1], vn_build_ms = 0, vn_previous_build_ms = 0\<rparr>"

section \<open>The accounts\<close>

definition read_from_parent :: "int \<Rightarrow> bytes \<Rightarrow> account" where
  "read_from_parent n data =
     (create_account n data ZERO32 ZERO32 0 (Some [9]) (Some [9]) (Some [9]))\<lparr>ac_loaded := Some (n, 0, data, ZERO32, ZERO32)\<rparr>"

text \<open>After the draw, and after the record of the parent was looked for.\<close>

definition drawn_accounts :: accounts where
  "drawn_accounts =
     \<lparr>as_trie =
        \<lparr>nodes = [([34, 3], demo_fork\<lparr>child_0_block := Some [9], child_1_block := Some [9], stored_hash := Some [34, 3]\<rparr>),
                  ([223, 112], treasury_leaf\<lparr>value_block := Some [9], stored_hash := Some [223, 112]\<rparr>)],
         root_hash = Some [34, 3], root_block = Some [9]\<rparr>,
      as_cache = [(TREASURY_ADDRESS, read_from_parent 9 [239, 130])], as_involved = []\<rparr>"

definition ready_accounts :: accounts where
  "ready_accounts = drawn_accounts\<lparr>
     as_trie := (as_trie drawn_accounts)\<lparr>nodes := nodes (as_trie drawn_accounts)
        @ [([224, 114], storage_leaf\<lparr>value_block := Some [9], stored_hash := Some [224, 114]\<rparr>)]\<rparr>,
     as_cache := as_cache drawn_accounts @ [(STORAGE_ADDRESS, read_from_parent 5 [217, 175])]\<rparr>"

definition built_stats :: "stat list" where
  "built_stats = update_statistics 1024 (Some (sb_statistics built_parent)) (1, 9, 0)"

section \<open>The steps of the round\<close>

lemma demo_parent_read: "get_block_from_storage (ap_cx built_node) [9] = Inr built_parent"
  by code_simp

lemma demo_drawn:
  "current_validator (ap_cx built_node) (ap_bloom built_node) demo_rng [9] 102 = Inr ([7], carrier drawn_accounts)"
  by code_simp

lemma demo_storage:
  "get_account (ap_cx built_node) STORAGE_ADDRESS drawn_accounts = (Inr (Some (read_from_parent 5 [217, 175])), ready_accounts)"
  by code_simp

lemma demo_recorded:
  "case tree_get (ap_cx built_node) (ac_data (read_from_parent 5 [217, 175])) (expr_hash mixed_hash (block_to_expr built_parent)) of
     (Inr (Some _, _), _) \<Rightarrow> True | _ \<Rightarrow> False"
  by code_simp

lemma demo_closed:
  "case close_block (ap_cx built_node) built_parent [7] [] (building_block [9] built_parent ready_accounts) of
     (Inr (stats, hs, r), s) \<Rightarrow> stats = built_stats \<and> hs = [] \<and> r = Some [190, 231] \<and> cached s [7] \<noteq> None
   | _ \<Rightarrow> False"
  by code_simp

lemma demo_time: "next_block_time 100 0 (estimate_build_seconds 0 0) SLOT_DURATION_SECONDS = 102"
  by code_simp

text \<open>The header before its nonce is searched; the first nonce does.\<close>

definition demo_header :: stored_block where
  "demo_header =
     \<lparr>sb_chain_id = 0, sb_previous_hash = [9], sb_height = 1024, sb_timestamp = 102, sb_accounts_hash = [190, 231],
      sb_transaction_fee = 0, sb_storage_fee = 0, sb_transactions_hash = ZERO32, sb_receipts_hash = ZERO32,
      sb_validation_difficulty = 2, sb_storage_difficulty = 5, sb_validator = [7], sb_nonce = 0, sb_bloom_hash = ZERO32,
      sb_era_hash = [9], sb_signature = ZERO32, sb_expr_id = ZERO32, sb_body_hash = ZERO32, sb_statistics = built_stats,
      sb_loaned = 10, sb_defaulted = 0, sb_loan_count = 1\<rparr>"

lemma demo_nonce:
  "generate_block_nonce (\<lambda>n. sb_expr_id (sealed mixed_hash (\<lambda>_. [1]) demo_header n))
     (sb_validation_difficulty built_parent) (Some 0) 50 = Some 0"
  by code_simp

lemma demo_fields:
  "sb_height built_parent = 1023" "sb_timestamp built_parent = 100" "sb_validation_difficulty built_parent = 2"
  "sb_loaned built_parent = 10" "sb_defaulted built_parent = 0" "sb_loan_count built_parent = 1"
  "next_storage_difficulty (sb_storage_difficulty built_parent) 0 = 5" "sb_expr_id built_parent = [9]"
  "sb_bloom_hash built_parent = ZERO32" "sb_accounts_hash built_parent = [34, 3]" "TREASURY_ADDRESS \<noteq> STORAGE_ADDRESS"
  "calculate_block_difficulty (Some 100) (Some 102) (Some 2) 2 = 2"
  by code_simp+

end
