(* ===== verification/Built_Accepted.thy ===== *)
theory Built_Accepted
  imports Place_Laws Built_Demo
begin

text \<open>
  A block that a validator builds is accepted by the verification: the run that builds it and the run that
  replays it go through the same states, up to the time, the difficulty and the hash of the block and the cells that wait.
\<close>

lemma get_account_after:
  assumes "get_account cx k A = (r, A')"
  shows "r = Inr (Some x) \<Longrightarrow> map_of (as_cache A') k = Some x"
    "(\<forall>x. r \<noteq> Inr (Some x)) \<Longrightarrow> map_of (as_cache A') k = None"
    "b \<noteq> k \<Longrightarrow> map_of (as_cache A') b = map_of (as_cache A) b"
  using assms by (auto simp: get_account_def Let_def update_conv' split: option.splits prod.splits sum.splits)

lemma record_has_storage:
  assumes "get_account cx STORAGE_ADDRESS (bk_accounts s) = (Inr (Some x), t)" "record_parent cx p s = (Inr r, s')"
  shows "cached s' STORAGE_ADDRESS \<noteq> None"
proof -
  let ?s = "s\<lparr>bk_accounts := t\<rparr>"
  have load: "load_account cx STORAGE_ADDRESS s = (Inr True, ?s)" using assms(1) by (simp add: load_account_def)
  have there: "has_accounts {STORAGE_ADDRESS} ?s"
    using get_account_after(1) [OF assms(1) refl] by (simp add: has_accounts_def cached_def)
  note run = assms(2) [unfolded record_parent_def, unfolded bnd_runs [of "load_account cx STORAGE_ADDRESS", OF load], simplified not_True_eq_False if_False]
  from lawful_has [OF cached_law.lawful_record_rest, unfolded hoare_def, rule_format, OF there run]
  show ?thesis by (simp add: has_accounts_def)
qed

section \<open>The transactions\<close>

abbreviation signed_ones :: "apply_ctx \<Rightarrow> transaction list \<Rightarrow> transaction list" where
  "signed_ones W q \<equiv> filter (verify_signature (cx_hash (ap_cx W)) (ap_verify W)) q"

definition transaction_hash_of :: "apply_ctx \<Rightarrow> transaction \<Rightarrow> bytes" where
  "transaction_hash_of W tx = expr_hash (cx_hash (ap_cx W)) (transaction_to_expr tx)"

abbreviation readable :: "apply_ctx \<Rightarrow> bytes \<Rightarrow> transaction list \<Rightarrow> bool" where
  "readable W b txs \<equiv> \<forall>tx\<in>set txs. get_transaction_from_storage (ap_cx W) (Some b) (transaction_hash_of W tx) = Inr tx"

text \<open>
  A contract call that sees neither the time, the difficulty and the hash of its block nor the cells that
  wait, and keeps what is recorded and cached.
\<close>

definition call_blind :: "apply_ctx \<Rightarrow> transaction \<Rightarrow> bool" where
  "call_blind W tx \<longleftrightarrow> runs_blind W tx \<and> run_lawful W same_record tx \<and> run_lawful W stays_cached tx"

lemma queue_replays:
  assumes "unscoped (ap_cx W)" and "\<forall>tx\<in>set q. call_blind W tx"
    and "apply_queue W q s = (Inr [], s')" and "same_view s t"
  shows "\<exists>t' rs. (readable W b (signed_ones W q) \<longrightarrow> apply_list W b (map (transaction_hash_of W) (signed_ones W q)) t = (Inr None, t')) \<and> same_view s' t'
     \<and> bk_transactions s' = bk_transactions s @ signed_ones W q \<and> bk_receipts s' = bk_receipts s @ rs
     \<and> length rs = length (signed_ones W q) \<and> (\<forall>r\<in>set rs. data_fee r = 0)
     \<and> (has_accounts A s \<longrightarrow> has_accounts A s') \<and> bk_chain_id s' = bk_chain_id s \<and> bk_height s' = bk_height s"
  using assms(2-)
proof (induction q arbitrary: s t)
  case Nil
  then show ?case by simp
next
  case (Cons tx q)
  from Cons.prems(1) have law: "runs_blind W tx" "run_lawful W same_record tx" "run_lawful W stays_cached tx"
    by (simp_all add: call_blind_def)
  show ?case
  proof (cases "verify_signature (cx_hash (ap_cx W)) (ap_verify W) tx")
    case False
    with Cons show ?thesis by simp
  next
    case True
    let ?apply = "apply_tx_effects W tx (transaction_hash_of W tx)"
    from Cons.prems(2) True obtain x s1 where x: "?apply s = (Inr x, s1)" and rest: "apply_queue W q s1 = (Inr [], s')"
      by (auto simp: bnd_Inr catch_def apply_transaction_obj_def transaction_hash_of_def split: prod.splits sum.splits)
    from x have "apply_transaction_obj W tx s = (Inr (), s1)"
      by (simp add: apply_transaction_obj_def transaction_hash_of_def bnd_def)
    from blindD [OF blind_apply(2) [OF assms(1) law(1)] Cons.prems(3) this]
    obtain t1 where t1: "apply_transaction_obj W tx t = (Inr (), t1)" "same_view s1 t1" .
    from apply_receipt [OF law(2) x] obtain r where r: "bk_transactions s1 = bk_transactions s @ [tx]"
      "bk_receipts s1 = bk_receipts s @ [r]" "data_fee r = 0" by blast
    from has_apply [OF law(3)] x have kept: "has_accounts A s \<Longrightarrow> has_accounts A s1" unfolding hoare_def by blast
    have "\<exists>t' rs. (readable W b (signed_ones W q) \<longrightarrow> apply_list W b (map (transaction_hash_of W) (signed_ones W q)) t1 = (Inr None, t')) \<and> same_view s' t'
     \<and> bk_transactions s' = bk_transactions s1 @ signed_ones W q \<and> bk_receipts s' = bk_receipts s1 @ rs
     \<and> length rs = length (signed_ones W q) \<and> (\<forall>r\<in>set rs. data_fee r = 0)
     \<and> (has_accounts A s1 \<longrightarrow> has_accounts A s') \<and> bk_chain_id s' = bk_chain_id s1 \<and> bk_height s' = bk_height s1"
      by (rule Cons.IH [OF _ rest t1(2)]) (use Cons.prems in auto)
    then obtain t' rs where IH: "readable W b (signed_ones W q) \<longrightarrow> apply_list W b (map (transaction_hash_of W) (signed_ones W q)) t1 = (Inr None, t')"
      "same_view s' t'" "bk_transactions s' = bk_transactions s1 @ signed_ones W q" "bk_receipts s' = bk_receipts s1 @ rs"
      "length rs = length (signed_ones W q)" "\<forall>r\<in>set rs. data_fee r = 0" "has_accounts A s1 \<longrightarrow> has_accounts A s'"
      "bk_chain_id s' = bk_chain_id s1" "bk_height s' = bk_height s1" by blast
    from staysD [OF stays_apply(1) [OF law(2)] x]
    have place: "bk_chain_id s1 = bk_chain_id s" "bk_height s1 = bk_height s" by (simp_all add: place_def)
    have "apply_list W b (map (transaction_hash_of W) (signed_ones W (tx # q))) t = (Inr None, t')"
      if "readable W b (signed_ones W (tx # q))"
      using True IH(1) that t1(1) by (simp add: bnd_def)
    with IH r kept place True show ?thesis by (intro exI [of _ t'] exI [of _ "r # rs"]) simp
  qed
qed

section \<open>The trie of accounts\<close>

text \<open>Accounts that are written to the same trie: the hashes of the trees are read from the trees again.\<close>

definition akin :: "accounts \<Rightarrow> accounts \<Rightarrow> bool" where
  "akin A B \<longleftrightarrow> as_trie A = as_trie B
     \<and> map (apsnd flush_account) (as_cache A) = map (apsnd flush_account) (as_cache B)"

lemma flush_twice [simp]: "flush_account (flush_account x) = flush_account x"
  by (simp add: flush_account_def)

lemma flush_entries: "update_entries cx (map (apsnd flush_account) es) t = update_entries cx es t"
proof (induction es arbitrary: t)
  case (Cons p es)
  obtain address a where p: "p = (address, a)" by (cases p)
  have loaded: "ac_loaded (flush_account a) = ac_loaded a" by (simp add: flush_account_def)
  show ?case unfolding p list.map apsnd_conv update_entries.simps flush_twice loaded Cons.IH ..
qed simp

lemma akin_update:
  assumes "akin A B"
  shows "fst (update_trie cx A) = fst (update_trie cx B)"
    "as_trie (snd (update_trie cx A)) = as_trie (snd (update_trie cx B))"
    "fst (update_trie cx A) = Inr x \<Longrightarrow> as_cache (snd (update_trie cx A)) = as_cache (snd (update_trie cx B))"
proof -
  have "update_entries cx (as_cache A) (as_trie A) = update_entries cx (as_cache B) (as_trie B)"
    using assms flush_entries unfolding akin_def by metis
  then show "fst (update_trie cx A) = fst (update_trie cx B)"
    "as_trie (snd (update_trie cx A)) = as_trie (snd (update_trie cx B))"
    "fst (update_trie cx A) = Inr x \<Longrightarrow> as_cache (snd (update_trie cx A)) = as_cache (snd (update_trie cx B))"
    by (auto simp: update_trie_def split: prod.splits sum.splits)
qed

lemma map_update: "map (apsnd f) (AList.update k v xs) = AList.update k (f v) (map (apsnd f) xs)"
  by (induction xs) auto

lemma update_present: "map_of xs k = Some v \<Longrightarrow> AList.update k v xs = xs"
  by (induction xs) auto

lemma akin_put:
  assumes "akin A B" "flush_account x = flush_account y"
  shows "akin (A\<lparr>as_cache := AList.update k x (as_cache A)\<rparr>) (B\<lparr>as_cache := AList.update k y (as_cache B)\<rparr>)"
  using assms by (simp add: akin_def map_update)

lemma akin_lookup:
  assumes "akin A B"
  shows "rel_option (\<lambda>x y. flush_account x = flush_account y) (map_of (as_cache A) k) (map_of (as_cache B) k)"
proof -
  have "map_option flush_account (map_of (as_cache A) k) = map_option flush_account (map_of (as_cache B) k)"
    using arg_cong [of _ _ "\<lambda>es. map_of es k", OF conjunct2 [OF assms [unfolded akin_def]]]
    by (simp add: map_of_map apsnd_def map_prod_def)
  then show ?thesis by (cases "map_of (as_cache A) k"; cases "map_of (as_cache B) k") simp_all
qed

lemma akin_same: "akin A A"
  by (simp add: akin_def)

lemma akin_get:
  assumes "akin A B" "get_account cx k A = (r, A')"
  obtains q B' where "get_account cx k B = (q, B')" "akin A' B'"
    "rel_sum (=) (rel_option (\<lambda>x y. flush_account x = flush_account y)) r q"
proof (cases "map_of (as_cache A) k")
  case None
  with akin_lookup [OF assms(1), of k] have none: "map_of (as_cache B) k = None" by simp
  have trie: "as_trie A = as_trie B" using assms(1) by (simp add: akin_def)
  have refl: "rel_sum (=) (rel_option (\<lambda>x y. flush_account x = flush_account y)) z z" for z :: "exc + account option"
    by (cases z) (simp_all add: option.rel_refl)
  let ?f = "\<lambda>s. get_account cx k s"
  show ?thesis
    by (rule that [of "fst (?f B)" "snd (?f B)"])
      (use assms None none trie in \<open>auto simp: get_account_def Let_def akin_def map_update refl
         split: prod.splits sum.splits option.splits\<close>)
next
  case (Some x)
  with akin_lookup [OF assms(1), of k] obtain y where "map_of (as_cache B) k = Some y" "flush_account x = flush_account y"
    by (cases "map_of (as_cache B) k") auto
  with Some assms show ?thesis by (intro that [of "Inr (Some y)" B]) (auto simp: get_account_def)
qed

section \<open>The reward\<close>

lemma flush_paid:
  "flush_account x = flush_account y \<Longrightarrow>
     flush_account (x\<lparr>ac_balance := ac_balance x + n\<rparr>) = flush_account (y\<lparr>ac_balance := ac_balance y + n\<rparr>)"
  by (cases x; cases y; simp add: flush_account_def)

lemma akin_set: "akin A B \<Longrightarrow> flush_account x = flush_account y \<Longrightarrow> akin (set_account k x A) (set_account k y B)"
  using akin_put [of A B x y k] by (simp add: akin_def set_account_def)

lemma award_rewards:
  assumes "akin (bk_accounts s) (bk_accounts t)" "bk_receipts s = bk_receipts t" "k \<noteq> []"
    and "award_validator_reward cx k (validator_reward (bk_receipts s)) s = (Inr (), s')" "cached s' k \<noteq> None"
  obtains A B where "s' = s\<lparr>bk_accounts := A\<rparr>" "reward_validator cx k t = (Inr (), t\<lparr>bk_accounts := B\<rparr>)" "akin A B"
    "\<And>a. a \<noteq> k \<Longrightarrow> map_of (as_cache B) a = map_of (as_cache (bk_accounts t)) a"
proof -
  let ?n = "validator_reward (bk_receipts t)"
  have pos: "\<not> ?n \<le> 0" by (simp add: validator_reward_def)
  obtain r A where A: "get_account cx k (bk_accounts s) = (r, A)" by fastforce
  from akin_get [OF assms(1) A] obtain q B where B: "get_account cx k (bk_accounts t) = (q, B)" "akin A B"
    "rel_sum (=) (rel_option (\<lambda>x y. flush_account x = flush_account y)) r q" .
  note a = get_account_after [OF A] and b = get_account_after [OF B(1)]
  show ?thesis
  proof (cases "\<exists>x. r = Inr (Some x)")
    case True
    then obtain x y where x: "r = Inr (Some x)" "q = Inr (Some y)" "flush_account x = flush_account y"
      using B(3) by (cases q) (auto simp: option_rel_Some1)
    let ?x = "x\<lparr>ac_balance := ac_balance x + ?n\<rparr>" and ?y = "y\<lparr>ac_balance := ac_balance y + ?n\<rparr>"
    let ?A = "set_account k ?x (A\<lparr>as_cache := AList.update k ?x (as_cache A)\<rparr>)"
      and ?B = "set_account k ?y (B\<lparr>as_cache := AList.update k ?y (as_cache B)\<rparr>)"
    have "award_validator_reward cx k ?n s = (Inr (), s\<lparr>bk_accounts := ?A\<rparr>)"
      using assms(3) pos x(1) A a(1) [OF x(1)]
      by (simp add: award_validator_reward_def bnd_def catch_def load_account_def add_balance_def change_account_def
          write_account_eq touch_account_def account_of_eq cached_def put_cached_def store_account_def update_conv')
    then have "s' = s\<lparr>bk_accounts := ?A\<rparr>" using assms(2,4) by simp
    moreover have "reward_validator cx k t = (Inr (), t\<lparr>bk_accounts := ?B\<rparr>)"
      using assms(3) x(2) B(1) b(1) [OF x(2)]
      by (simp add: reward_validator_def bnd_def catch_def load_account_def add_balance_def change_account_def
          write_account_eq touch_account_def account_of_eq cached_def put_cached_def store_account_def update_conv')
    moreover have "akin ?A ?B" by (intro akin_set akin_put B(2) flush_paid x(3))
    moreover have "map_of (as_cache ?B) a = map_of (as_cache (bk_accounts t)) a" if "a \<noteq> k" for a
      using that b(3) [OF that] by (simp add: set_account_def update_conv')
    ultimately show ?thesis by (rule that)
  next
    case False
    then have none: "map_of (as_cache A) k = None" using a(2) by blast
    have "r = Inr None"
    proof (rule ccontr)
      assume "r \<noteq> Inr None"
      with False obtain e where "r = Inl e" by (cases r) auto
      then have "s' = s\<lparr>bk_accounts := A\<rparr>"
        using assms(2-4) pos A
        by (auto simp: award_validator_reward_def bnd_def catch_def load_account_def)
      with assms(5) none show False by (simp add: cached_def)
    qed
    with B(3) have rq: "r = Inr None" "q = Inr None" by (auto elim: rel_sum.cases)
    let ?x = "new_account\<lparr>ac_balance := ?n\<rparr>"
    have "s' = s\<lparr>bk_accounts := set_account k ?x A\<rparr>"
      using assms(2-4) pos rq(1) A
      by (auto simp: award_validator_reward_def bnd_def catch_def load_account_def store_account_def)
    moreover have "reward_validator cx k t = (Inr (), t\<lparr>bk_accounts := set_account k ?x B\<rparr>)"
      using assms(3) rq(2) B(1)
      by (simp add: reward_validator_def bnd_def catch_def load_account_def store_account_def)
    moreover have "akin (set_account k ?x A) (set_account k ?x B)" by (rule akin_set [OF B(2) refl])
    moreover have "map_of (as_cache (set_account k ?x B)) a = map_of (as_cache (bk_accounts t)) a" if "a \<noteq> k" for a
      using that b(3) [OF that] by (simp add: set_account_def update_conv')
    ultimately show ?thesis by (rule that)
  qed
qed

section \<open>The end of the block\<close>

lemma update_entries_balances:
  "update_entries cx es t = (Inr es', t') \<Longrightarrow>
     map_option ac_balance (map_of es' a) = map_option ac_balance (map_of es a)"
proof (induction es arbitrary: t es' t')
  case (Cons p es)
  obtain b x where p: "p = (b, x)" by (cases p)
  have flush: "ac_balance (flush_account x) = ac_balance x" by (simp add: flush_account_def)
  from Cons show ?case by (auto simp: p Let_def flush split: if_splits prod.splits sum.splits)
qed simp

lemma update_trie_balances:
  assumes "update_trie cx A = (Inr x, A')"
  shows "map_option ac_balance (map_of (as_cache A') a) = map_option ac_balance (map_of (as_cache A) a)"
proof -
  obtain es t where "update_entries cx (as_cache A) (as_trie A) = (Inr es, t)" "as_cache A' = es"
    using assms by (auto simp: update_trie_def split: prod.splits sum.splits)
  with update_entries_balances show ?thesis by metis
qed

lemma load_cached: "cached s a = Some x \<Longrightarrow> load_account cx a s = (Inr True, s)"
  by (simp add: load_account_def cached_def get_account_def)

lemma bnd_steps:
  "bnd (reads g) f s = f (g s) s" "bnd (update h) f1 s = f1 () (h s)" "bnd (ret y) f2 s = f2 y s"
  "bnd (add_pending es) f1 s = f1 () (s\<lparr>bk_pending := bk_pending s @ es\<rparr>)"
  "cached s a = Some x \<Longrightarrow> bnd (load_account cx a) f3 s = f3 True s"
  "cached s a = Some x \<Longrightarrow> bnd (account_of a) f4 s = f4 x s"
  "cached s a = Some x \<Longrightarrow>
     bnd (sync_data_hash a) f1 s = f1 () (put_cached a (x\<lparr>ac_data_hash := or_zero32 (root_hash (ac_data x))\<rparr>) s)"
  "bnd (bnd m f5) f6 s = bnd m (\<lambda>x. bnd (f5 x) f6) s"
  by (simp_all add: bnd_def add_pending_def load_cached account_of_eq sync_data_hash_def change_account_def write_account_eq
      split: prod.split sum.split)

lemma cached_pending: "cached (s\<lparr>bk_pending := es\<rparr>) a = cached s a"
  by (simp add: cached_def)

lemma write_accounts_Inr:
  assumes "write_accounts cx s = (Inr (Some r), s')"
  obtains x A es where "update_trie cx (bk_accounts s) = (Inr x, A)" "r = or_zero32 x"
    "s' = s\<lparr>bk_accounts := A, bk_pending := es\<rparr>"
proof -
  obtain q A where q: "update_trie cx (bk_accounts s) = (q, A)" by fastforce
  with assms obtain x where x: "q = Inr x" by (cases q) (auto simp: write_accounts_def)
  let ?s = "s\<lparr>bk_accounts := A, bk_pending := bk_pending s @ tree_cells (cx_hash cx) (as_trie A)\<rparr>"
  have "write_accounts cx s = bnd (add_new (cx_hash cx) (accounts_exprs (cx_hash cx) A)) (\<lambda>_. ret (Some (or_zero32 x))) ?s"
    by (simp add: write_accounts_def q x bnd_steps)
  also have "\<dots> = (Inr (Some (or_zero32 x)), ?s\<lparr>bk_pending := bk_pending ?s @ fresh_exprs (cx_hash cx)
      (map (expr_hash (cx_hash cx)) (bk_pending ?s)) (accounts_exprs (cx_hash cx) A)\<rparr>)"
    by (simp only: add_new_def bnd_steps) simp
  finally show ?thesis using assms q x by (intro that) simp_all
qed

lemma settle_block_Inr:
  assumes "settle_block cx p k s = (Inr stats, s')"
    and "cached s STORAGE_ADDRESS \<noteq> None" "cached s TREASURY_ADDRESS = Some tr"
  obtains s2 es where
    "award_validator_reward cx k (validator_reward (bk_receipts s)) s2 = (Inr (), s')"
    "stats = update_statistics (bk_height s) (Some (sb_statistics p)) (fee_income (bk_receipts s), ac_balance tr, bk_claims s)"
    "s2 = s\<lparr>bk_accounts := bk_accounts s2, bk_pending := es\<rparr>" "akin (bk_accounts s2) (bk_accounts s)"
proof -
  obtain st where st: "cached s STORAGE_ADDRESS = Some st" using assms(2) by blast
  have apart: "TREASURY_ADDRESS \<noteq> STORAGE_ADDRESS" by code_simp
  let ?es = "bk_pending s @ included_exprs cx (bk_transactions s) [] @ tree_cells (cx_hash cx) (ac_data st)"
  let ?st = "st\<lparr>ac_data_hash := or_zero32 (root_hash (ac_data st))\<rparr>"
  let ?s2 = "put_cached STORAGE_ADDRESS ?st (s\<lparr>bk_pending := ?es\<rparr>)"
  let ?u = "\<lambda>s. update_statistics (bk_height s) (Some (sb_statistics p)) (fee_income (bk_receipts s), ac_balance tr, bk_claims s)"
  have tr: "cached ?s2 TREASURY_ADDRESS = Some tr" using assms(3) apart by (simp add: cached_pending)
  have "settle_block cx p k s =
      bnd (load_account cx TREASURY_ADDRESS) (\<lambda>_.
      bnd (account_of TREASURY_ADDRESS) (\<lambda>treasury.
      bnd (reads (\<lambda>s. update_statistics (bk_height s) (Some (sb_statistics p))
                        (fee_income (bk_receipts s), ac_balance treasury, bk_claims s))) (\<lambda>stats.
      bnd (reads (\<lambda>s. validator_reward (bk_receipts s))) (\<lambda>reward.
      bnd (award_validator_reward cx k reward) (\<lambda>_. ret stats))))) ?s2"
    unfolding settle_block_def by (simp only: bnd_steps cached_pending st if_True | simp)+
  also have "\<dots> = bnd (award_validator_reward cx k (validator_reward (bk_receipts ?s2))) (\<lambda>_. ret (?u ?s2)) ?s2"
    by (simp only: bnd_steps tr)
  finally have eq: "settle_block cx p k s = bnd (award_validator_reward cx k (validator_reward (bk_receipts ?s2))) (\<lambda>_. ret (?u ?s2)) ?s2" .
  have fields: "bk_receipts ?s2 = bk_receipts s" "?u ?s2 = ?u s" by (simp_all add: put_cached_def)
  have flush: "flush_account ?st = flush_account st" by (simp add: flush_account_def)
  have "map_of (map (apsnd flush_account) (as_cache (bk_accounts s))) STORAGE_ADDRESS = Some (flush_account st)"
    using st by (simp add: map_of_map apsnd_def map_prod_def cached_def)
  from update_present [OF this] have "akin (bk_accounts ?s2) (bk_accounts s)"
    by (simp add: put_cached_def akin_def map_update flush)
  moreover from assms(1) have "award_validator_reward cx k (validator_reward (bk_receipts s)) ?s2 = (Inr (), s')" "stats = ?u s"
    using fields(2) unfolding eq bnd_Inr fields(1) by auto
  ultimately show ?thesis by (intro that [of ?s2 ?es]) (simp_all add: put_cached_def)
qed

lemma write_block_Inr:
  assumes "write_block cx drawn s = (Inr (hs, Some r), s')"
  obtains x A es where "update_trie cx (bk_accounts s) = (Inr x, A)" "r = or_zero32 x"
    "hs = transaction_hashes (cx_hash cx) s" "s' = s\<lparr>bk_accounts := A, bk_pending := es, bk_bloom := rewrite_root (bk_bloom s)\<rparr>"
proof -
  let ?bloom = "rewrite_root (bk_bloom s)"
  have "\<exists>es. bnd (write_accounts cx) (\<lambda>new_root. ret (transaction_hashes (cx_hash cx) s, new_root))
      (s\<lparr>bk_bloom := ?bloom, bk_pending := es\<rparr>) = (Inr (hs, Some r), s')"
    using assms unfolding write_block_def Let_def bnd_steps add_new_def by simp blast
  then obtain es where run: "hs = transaction_hashes (cx_hash cx) s"
      "write_accounts cx (s\<lparr>bk_bloom := ?bloom, bk_pending := es\<rparr>) = (Inr (Some r), s')"
    by (auto simp: bnd_Inr)
  from write_accounts_Inr [OF run(2)] obtain x A es' where "update_trie cx (bk_accounts s) = (Inr x, A)" "r = or_zero32 x"
    "s' = s\<lparr>bk_bloom := ?bloom, bk_pending := es, bk_accounts := A, bk_pending := es'\<rparr>" by auto
  with run(1) show ?thesis by (intro that [of x A es']) simp_all
qed

lemma close_replays:
  assumes run: "close_block cx p k drawn s = (Inr (stats, hs, Some r), s')"
    and there: "cached s STORAGE_ADDRESS \<noteq> None" "cached s TREASURY_ADDRESS \<noteq> None" "cached s' k \<noteq> None"
    and k: "k \<noteq> []" "k \<noteq> TREASURY_ADDRESS" and view: "same_view s t"
  obtains B x B' y where "reward_validator cx k t = (Inr (), t\<lparr>bk_accounts := B\<rparr>)"
    "update_trie cx B = (Inr x, B')" "r = or_zero32 x" "map_of (as_cache B') TREASURY_ADDRESS = Some y"
    "stats = update_statistics (bk_height s) (Some (sb_statistics p)) (fee_income (bk_receipts s), ac_balance y, bk_claims s)"
    "hs = transaction_hashes (cx_hash cx) s"
    "s' = s\<lparr>bk_accounts := bk_accounts s', bk_pending := bk_pending s', bk_bloom := rewrite_root (bk_bloom s)\<rparr>"
proof -
  obtain tr where tr: "cached s TREASURY_ADDRESS = Some tr" using there(2) by blast
  from run obtain s1 where first: "settle_block cx p k s = (Inr stats, s1)" and wrote: "write_block cx drawn s1 = (Inr (hs, Some r), s')"
    by (auto simp: close_block_def bnd_Inr split: prod.splits)
  from write_block_Inr [OF wrote] obtain x A es where A: "update_trie cx (bk_accounts s1) = (Inr x, A)" "r = or_zero32 x"
    "hs = transaction_hashes (cx_hash cx) s1" "s' = s1\<lparr>bk_accounts := A, bk_pending := es, bk_bloom := rewrite_root (bk_bloom s1)\<rparr>" .
  from settle_block_Inr [OF first there(1) tr] obtain s2 es2 where
    s2: "award_validator_reward cx k (validator_reward (bk_receipts s)) s2 = (Inr (), s1)"
      "stats = update_statistics (bk_height s) (Some (sb_statistics p)) (fee_income (bk_receipts s), ac_balance tr, bk_claims s)"
      "s2 = s\<lparr>bk_accounts := bk_accounts s2, bk_pending := es2\<rparr>" "akin (bk_accounts s2) (bk_accounts s)" .
  have recs: "bk_receipts s2 = bk_receipts s" by (subst s2(3)) simp
  have t: "bk_accounts t = bk_accounts s" "bk_receipts t = bk_receipts s" using same_view_fields [OF view] by simp_all
  have "cached s1 k \<noteq> None"
    using there(3) update_trie_balances [OF A(1), of k]
    by (cases "map_of (as_cache (bk_accounts s1)) k") (auto simp: A(4) cached_def)
  from award_rewards [of s2 t k cx s1, OF _ _ k(1) _ this] s2(1,4) recs t
  obtain A1 B where B: "s1 = s2\<lparr>bk_accounts := A1\<rparr>" "reward_validator cx k t = (Inr (), t\<lparr>bk_accounts := B\<rparr>)" "akin A1 B"
    "\<And>a. a \<noteq> k \<Longrightarrow> map_of (as_cache B) a = map_of (as_cache (bk_accounts t)) a" by metis
  from akin_update(1) [OF B(3), of cx] A(1) B(1) obtain B' where B': "update_trie cx B = (Inr x, B')"
    by (cases "update_trie cx B") simp
  have "map_of (as_cache B) TREASURY_ADDRESS = Some tr" using B(4) k(2) tr t(1) by (simp add: cached_def)
  with update_trie_balances [OF B', of TREASURY_ADDRESS] obtain y where
    y: "map_of (as_cache B') TREASURY_ADDRESS = Some y" "ac_balance y = ac_balance tr" by auto
  have s1: "s1 = s\<lparr>bk_accounts := A1, bk_pending := es2\<rparr>" unfolding B(1) by (subst s2(3)) simp
  have "hs = transaction_hashes (cx_hash cx) s" using A(3) by (simp add: s1 transaction_hashes_def)
  moreover have "s' = s\<lparr>bk_accounts := bk_accounts s', bk_pending := bk_pending s', bk_bloom := rewrite_root (bk_bloom s)\<rparr>"
    using A(4) by (simp add: s1)
  ultimately show ?thesis using s2(2) y(2) by (intro that [OF B(2) B' A(2) y(1)]) simp_all
qed

section \<open>The header\<close>

lemma hash_some: "\<forall>x. H x \<noteq> [] \<Longrightarrow> expr_hash H e \<noteq> []"
  by (cases e) (simp_all add: link_hash_def symbol_hash_def terminal_hash_def ZERO32_def)

lemma nonce_found: "nonce_loop f n fuel i = Some j \<Longrightarrow> n \<le> int (count_leading_zero_bits (f j))"
  by (induction fuel arbitrary: i) (auto split: if_splits)

lemma slot_after: "t + 2 \<le> next_block_time t now e SLOT_DURATION_SECONDS"
  by (simp add: next_block_time_def Let_def SLOT_DURATION_SECONDS_def)

lemma or_zeros_some [simp]: "x \<noteq> [] \<Longrightarrow> or_zeros x = x"
  by (simp add: or_zeros_def)

lemma or_zero32_some [simp]: "or_zero32 h \<noteq> []" "or_zeros (or_zero32 h) = or_zero32 h"
  by (auto simp: or_zero32_def or_zeros_def ZERO32_def split: option.split)

text \<open>What a round that builds a block did.\<close>

lemma build_block_Built:
  assumes "build_block W rng vn now fuel latest q = Inr (Built b s failed wrote)"
  obtains p t drawn s0 bloom s1 stats hs new_root n where
    "vn_key vn \<noteq> []" "get_block_with_bloom (ap_cx W) (ap_bloom W) latest = Inr (p, t)"
    "sb_timestamp p + 2 \<le> sb_timestamp b"
    "current_validator (ap_cx W) (ap_bloom W) rng latest (sb_timestamp b) = Inr (vn_key vn, drawn)"
    "record_parent (ap_cx W) p (building_block latest p (bk_accounts drawn)) = (Inr True, s0)"
    "building_tree (ap_bloom W) p = Inr bloom"
    "apply_queue W q (s0\<lparr>bk_bloom := bloom\<rparr>) = (Inr failed, s1)"
    "close_block (ap_cx W) p (vn_key vn) (bk_pending drawn) s1 = (Inr (stats, hs, new_root), s)"
    "b = sealed (cx_hash (ap_cx W)) (vn_sign vn)
       (built_header (cx_hash (ap_cx W)) p latest (vn_key vn) (sb_timestamp b) s stats hs new_root) n"
    "max 1 (sb_validation_difficulty p) \<le> int (count_leading_zero_bits (sb_expr_id b))"
    "wrote = (new_root \<noteq> None)"
proof -
  let ?cx = "ap_cx W" and ?F = "ap_bloom W" and ?k = "vn_key vn"
  note run = assms [unfolded build_block_def Let_def]
  have k: "?k \<noteq> []" using run by (simp split: if_split_asm)
  note run = run [simplified k if_False]
  obtain p t where p: "get_block_with_bloom ?cx ?F latest = Inr (p, t)"
    using run by (cases "get_block_with_bloom ?cx ?F latest") auto
  note run = run [unfolded p, simplified]
  let ?time = "next_block_time (sb_timestamp p) now
      (estimate_build_seconds (vn_build_ms vn) (vn_previous_build_ms vn)) SLOT_DURATION_SECONDS"
  obtain v drawn where v: "current_validator ?cx ?F rng latest ?time = Inr (v, drawn)"
    using run by (cases "current_validator ?cx ?F rng latest ?time") auto
  note run = run [unfolded v, simplified]
  have "v = ?k" using run by (simp split: if_split_asm)
  note run = run [unfolded this, simplified]
  obtain ok s0 where s0: "record_parent ?cx p (building_block latest p (bk_accounts drawn)) = (ok, s0)" by fastforce
  have ok: "ok = Inr True" using run s0 by (auto split: sum.split_asm bool.split_asm)
  note run = run [unfolded s0 ok, simplified]
  obtain bloom where bloom: "building_tree ?F p = Inr bloom"
    using run by (cases "building_tree ?F p") (simp_all add: bind_exc_def)
  let ?rest = "bnd (apply_queue W q) (\<lambda>failed. bnd (close_block ?cx p ?k (bk_pending drawn)) (\<lambda>r. ret (failed, r)))
      (s0\<lparr>bk_bloom := bloom\<rparr>)"
  note run = run [unfolded bloom, simplified]
  obtain f stats hs new_root s' where rest: "?rest = (Inr (f, stats, hs, new_root), s')"
    using run by (cases ?rest; cases "fst ?rest") (auto simp: bind_exc_def)
  let ?h = "built_header (cx_hash ?cx) p latest ?k ?time s' stats hs new_root"
  obtain n where n: "generate_block_nonce (\<lambda>n. sb_expr_id (sealed (cx_hash ?cx) (vn_sign vn) ?h n))
      (sb_validation_difficulty p) (Some (sb_nonce ?h)) fuel = Some n"
    and out: "b = sealed (cx_hash ?cx) (vn_sign vn) ?h n" "s' = s" "f = failed" "(new_root \<noteq> None) = wrote"
    using run rest by (auto simp: bind_exc_def split: option.split_asm)
  have time: "sb_timestamp b = ?time" by (simp add: out(1) sealed_def built_header_def Let_def)
  from rest obtain s1 where "apply_queue W q (s0\<lparr>bk_bloom := bloom\<rparr>) = (Inr failed, s1)"
    "close_block ?cx p ?k (bk_pending drawn) s1 = (Inr (stats, hs, new_root), s)"
    by (auto simp: bnd_Inr out)
  note queue = this
  have zeros: "max 1 (sb_validation_difficulty p) \<le> int (count_leading_zero_bits (sb_expr_id b))"
    using nonce_found n unfolding generate_block_nonce_def out(1) by blast
  have b: "b = sealed (cx_hash ?cx) (vn_sign vn) (built_header (cx_hash ?cx) p latest ?k (sb_timestamp b) s stats hs new_root) n"
    unfolding time using out(1,2) by simp
  have later: "sb_timestamp p + 2 \<le> sb_timestamp b" unfolding time by (rule slot_after)
  have drew: "current_validator ?cx ?F rng latest (sb_timestamp b) = Inr (?k, drawn)" unfolding time v \<open>v = ?k\<close> ..
  show ?thesis by (rule that [OF k p later drew s0 [unfolded ok] bloom queue b zeros out(4) [symmetric]])
qed

section \<open>A built block is accepted\<close>

text \<open>Storage gives the list of the transactions, each transaction, and each receipt under its transaction.\<close>

definition block_served :: "apply_ctx \<Rightarrow> stored_block \<Rightarrow> block \<Rightarrow> bool" where
  "block_served W b s \<longleftrightarrow>
     load_hash_list (ap_cx W) (sb_expr_id b) (sb_transactions_hash b) = Inr (Some (map (transaction_hash_of W) (bk_transactions s)))
     \<and> (\<forall>tx\<in>set (bk_transactions s).
          get_transaction_from_storage (ap_cx W) (Some (sb_expr_id b)) (transaction_hash_of W tx) = Inr tx)
     \<and> (\<exists>R. tree_ready (ap_cx W) R (new_radix_tree (Some (sb_receipts_hash b)) (Some (sb_expr_id b)))
          \<and> (\<forall>r\<in>set (bk_receipts s). \<exists>e. fst (stored_value (ap_cx W) R (transaction_hash r)) = Some e
               \<and> receipt_from_storage (ap_cx W) (Some (sb_expr_id b)) (expr_hash (cx_hash (ap_cx W)) e) = Inr r))"

lemma stored_receipts_served:
  assumes "tree_ready cx R t"
    and "\<And>r. r \<in> set rs \<Longrightarrow> \<exists>e. fst (stored_value cx R (transaction_hash r)) = Some e
           \<and> receipt_from_storage cx (Some b) (expr_hash (cx_hash cx) e) = Inr r"
  shows "stored_receipts cx b t rs = Inr None"
  using assms
proof (induction rs arbitrary: t)
  case (Cons r rs)
  obtain e where e: "fst (stored_value cx R (transaction_hash r)) = Some e"
    "receipt_from_storage cx (Some b) (expr_hash (cx_hash cx) e) = Inr r" using Cons.prems(2) by auto
  obtain t' where t': "tree_get cx t (transaction_hash r) = (Inr (stored_value cx R (transaction_hash r)), t')" "tree_ready cx R t'"
    using tree_get_ready [OF Cons.prems(1)] .
  then have "tree_get cx t (transaction_hash r) = (Inr (Some e, snd (stored_value cx R (transaction_hash r))), t')"
    using e(1) by (metis prod.collapse)
  moreover have "first_failure (receipt_checks r r) = None" by (simp add: receipt_checks_def)
  ultimately show ?case using e(2) Cons.IH [OF t'(2)] Cons.prems(2) by simp
qed simp

lemma has_store [cached_rules]:
  "hoare (has_accounts A) (store_account a x) (\<lambda>_. has_accounts A)" "hoare (has_accounts A) (write_account a x) (\<lambda>_. has_accounts A)"
  by (auto simp: hoare_def has_accounts_def store_account_def write_account_eq cached_def [symmetric])

lemma has_load: "hoare (\<lambda>_. True) (load_account cx a) (\<lambda>there s. there \<longrightarrow> has_accounts {a} s)"
proof -
  have "cached s' a \<noteq> None" if "load_account cx a s = (Inr True, s')" for s s'
    using that get_account_after(1) [of cx a "bk_accounts s"]
    by (auto simp: load_account_def cached_def split: prod.splits sum.splits)
  then show ?thesis by (auto simp: hoare_def has_accounts_def)
qed

lemma draw_has_treasury:
  "hoare (\<lambda>_. True) (draw_validator cx rng h n) (\<lambda>_. has_accounts {TREASURY_ADDRESS})"
proof -
  let ?T = "has_accounts {TREASURY_ADDRESS}"
  have lawful: "hoare ?T m (\<lambda>_. ?T)" if "lawful stays_cached m" for m :: "'c act"
    using that by (rule lawful_has)
  have pay: "hoare ?T (pay_stake_back cx k r m) (\<lambda>_. ?T)" for k r m
    unfolding pay_stake_back_def
    by (rule cached_rules hoare_bnd hoare_if | rule lawful_has, rule cached_law.lawful_rules)+
  have fin: "hoare ?T (ret x) (\<lambda>_. ?T)" for x :: 'c by (rule hoare_ret)
  have loans: "hoare ?T (apply_treasury_loan_payments_from_stake_return cx k m) (\<lambda>_. ?T)" for k m
    unfolding apply_treasury_loan_payments_from_stake_return_def
    by (rule cached_rules hoare_bnd hoare_if hoare_option hoare_raise | rule hoare_ret, (simp; fail)
        | rule lawful_has, rule cached_law.lawful_rules)+
  have halve: "hoare ?T (halve_stake cx es k) (\<lambda>_. ?T)" for es k
    unfolding halve_stake_def Let_def
    by (rule cached_rules hoare_bnd hoare_if hoare_option hoare_raise pay loans
        | rule lawful_has, rule cached_law.lawful_rules | rule fin hoare_ret, assumption?)+
  have slots: "hoare ?T (draw_slots cx rng n es g k) (\<lambda>_. ?T)" for n es g k
  proof (induction n arbitrary: es g k)
    case 0
    show ?case unfolding draw_slots.simps by (rule hoare_ret)
  next
    case (Suc n)
    show ?case
      unfolding draw_slots.simps by (rule hoare_bnd, rule cached_rules, rule hoare_prod, rule hoare_bnd, rule halve, rule Suc.IH)
  qed
  have rest: "hoare (\<lambda>s. there \<longrightarrow> ?T s) (if \<not> there then raise e else m) (\<lambda>_. ?T)"
    if "hoare ?T m (\<lambda>_. ?T)" for there e and m :: "bytes act"
    using that by (cases there) (simp_all add: hoare_raise)
  show ?thesis
    unfolding draw_validator_def
    by (rule hoare_bnd, rule has_load, rule rest, (rule hoare_bnd cached_rules hoare_if hoare_raise slots)+)
qed

lemma draws_treasury:
  assumes "current_validator cx F rng h time = Inr (k, drawn)"
  shows "has_accounts {TREASURY_ADDRESS} drawn"
proof -
  obtain a t where a: "get_block_with_bloom cx F h = Inr (a, t)"
    using assms by (cases "get_block_with_bloom cx F h") (auto simp: current_validator_def bind_exc_def)
  let ?d = "draw_validator cx rng h
      (nat (slots_to_process (if time \<le> sb_timestamp a then sb_timestamp a + 1 else time) (sb_timestamp a)))
      (carrier (new_accounts (Some (sb_accounts_hash a)) (Some h)))"
  from assms have "?d = (Inr k, drawn)"
    by (cases ?d; cases "fst ?d") (simp_all add: current_validator_def bind_exc_def a Let_def)
  then obtain n s where "draw_validator cx rng h n s = (Inr k, drawn)" by blast
  with draw_has_treasury [of cx rng h n] show ?thesis unfolding hoare_def by blast
qed

lemma zero_list: "expr_hash H (link_list_to_expr []) = ZERO32"
  by simp

lemma linked_hash:
  assumes "\<forall>x. H x \<noteq> []"
  shows "or_zeros (if hs = [] then ZERO32 else expr_hash H (link_list_to_expr hs)) = expr_hash H (link_list_to_expr hs)"
  using hash_some [OF assms, of "link_list_to_expr hs"] by (cases hs) (simp_all add: or_zeros_def)

lemma same_era:
  assumes "0 \<le> sb_height p" "sb_bloom_hash p \<noteq> []" "sb_height b = sb_height p + 1"
  shows "era_tree F b p = building_tree F p"
  using assms by (simp add: era_tree_def building_tree_def opens_era_def)

lemma fees_add_up:
  "(\<forall>r\<in>set rs. data_fee r = 0) \<Longrightarrow>
     sum_list (map transaction_fee rs) + sum_list (map storage_fee rs) = sum_list (map receipt_total_fee rs)"
  by (induction rs) (auto simp: receipt_total_fee_def)

lemma built_fields:
  assumes b: "b = sealed H sign (built_header H p latest k tm s stats hs (Some r)) n" and "latest \<noteq> []" "k \<noteq> []"
    and "\<forall>x. H x \<noteq> []"
  shows "sb_chain_id b = bk_chain_id s" "sb_height b = bk_height s" "sb_previous_hash b = latest" "sb_timestamp b = tm"
    "sb_transaction_fee b = sum_list (map transaction_fee (bk_receipts s))"
    "sb_storage_fee b = sum_list (map storage_fee (bk_receipts s))"
    "sb_transactions_hash b = (if hs = [] then ZERO32 else expr_hash H (link_list_to_expr hs))"
    "sb_receipts_hash b = or_zero32 (root_hash (bk_receipts_trie s))" "sb_accounts_hash b = r"
    "sb_validation_difficulty b =
       calculate_block_difficulty (Some (sb_timestamp p)) (Some tm) (Some (sb_validation_difficulty p)) 2"
    "sb_storage_difficulty b = next_storage_difficulty (sb_storage_difficulty p) (bk_votes s)"
    "sb_validator b = k" "sb_statistics b = stats" "sb_loaned b = bk_loaned s" "sb_defaulted b = bk_defaulted s"
    "sb_loan_count b = bk_loan_count s"
    "sb_bloom_hash b = (case bt_root (bk_bloom s) of None \<Rightarrow> ZERO32 | Some n \<Rightarrow> expr_hash H (node_expr H n))"
    "sb_signature b = sign (sb_body_hash b)" "sb_body_hash b \<noteq> []" "sb_expr_id b \<noteq> []"
  using assms(2,3) hash_some [OF assms(4)] by (simp_all add: b sealed_def built_header_def Let_def)

lemma built_head:
  assumes b: "b = sealed H sign (built_header H p latest k tm s stats hs (Some r)) n" and "\<forall>x. H x \<noteq> []"
    and "latest \<noteq> []" "latest \<noteq> ZERO32" "k \<noteq> []" and "\<forall>m. sign m \<noteq> [] \<and> verify k m (sign m)"
    and "bk_chain_id s = 0" "bk_height s = sb_height p + 1" "sb_timestamp p + 2 \<le> tm"
    and "max 1 (sb_validation_difficulty p) \<le> int (count_leading_zero_bits (sb_expr_id b))"
  shows "verify_block_head chain verify (Some p) b \<longleftrightarrow> chain = 0"
  using assms(3-) by (auto simp: verify_block_head_def built_fields [OF b assms(3,5,2)])

lemma outcome_of_built:
  assumes b: "b = sealed (cx_hash cx) sign (built_header (cx_hash cx) p latest k tm s stats hs (Some r)) n"
    and hash: "\<forall>x. cx_hash cx x \<noteq> []" and "latest \<noteq> []" "k \<noteq> []" "r \<noteq> ZERO32"
    and view: "same_view s1 t1"
    and s: "s = s1\<lparr>bk_accounts := bk_accounts s, bk_pending := bk_pending s, bk_bloom := rewrite_root (bk_bloom s1)\<rparr>"
    and trie: "update_trie cx B = (Inr rt, B')" "r = or_zero32 rt" "map_of (as_cache B') TREASURY_ADDRESS = Some y"
    and stats: "stats = update_statistics (bk_height s1) (Some (sb_statistics p)) (fee_income (bk_receipts s1), ac_balance y, bk_claims s1)"
    and fees: "\<forall>r\<in>set (bk_receipts s). data_fee r = 0" "length (bk_receipts s) = length (bk_transactions s)"
    and served: "tree_ready cx R (new_radix_tree (Some (sb_receipts_hash b)) (Some (sb_expr_id b)))"
      "\<forall>r\<in>set (bk_receipts s). \<exists>e. fst (stored_value cx R (transaction_hash r)) = Some e
           \<and> receipt_from_storage cx (Some (sb_expr_id b)) (expr_hash (cx_hash cx) e) = Inr r"
  shows "outcome_checks cx b p (length (bk_transactions s)) (t1\<lparr>bk_accounts := B\<rparr>) = Inr None"
proof -
  note head = built_fields [OF b assms(3,4) hash]
  have same: "bk_transactions s = bk_transactions t1" "bk_receipts s = bk_receipts t1" "bk_receipts_trie s = bk_receipts_trie t1"
    "bk_loaned s = bk_loaned t1" "bk_defaulted s = bk_defaulted t1" "bk_loan_count s = bk_loan_count t1"
    "bk_votes s = bk_votes t1" "bk_claims s = bk_claims t1" "bk_height s = bk_height t1"
    "bk_bloom s = rewrite_root (bk_bloom t1)" "bk_receipts s1 = bk_receipts t1" "bk_claims s1 = bk_claims t1" "bk_height s1 = bk_height t1"
    by (subst s, simp add: same_view_fields [OF view])+ (simp_all add: same_view_fields [OF view])
  have totals: "first_failure (total_checks (cx_hash cx) b (length (bk_transactions s)) (t1\<lparr>bk_accounts := B\<rparr>)) = None"
    using fees fees_add_up [OF fees(1)] by (simp add: total_checks_def head same bloom_root_def sb_total_fee_def)
  have receipts: "stored_receipts cx (sb_expr_id b) (new_radix_tree (Some (sb_receipts_hash b)) (Some (sb_expr_id b)))
      (bk_receipts (t1\<lparr>bk_accounts := B\<rparr>)) = Inr None"
    by (rule stored_receipts_served [OF served(1)]) (use served(2) same(2) in simp)
  have "rt = Some r" using trie(2) \<open>r \<noteq> ZERO32\<close> by (auto simp: or_zero32_def split: option.splits if_splits)
  then have "account_checks cx b p (t1\<lparr>bk_accounts := B\<rparr>) = Inr None"
    using trie(1,3) stats by (simp add: account_checks_def get_account_def head same)
  with totals receipts show ?thesis by (simp add: outcome_checks_def bind_exc_def)
qed

lemma queue_of_built:
  assumes calls: "unscoped (ap_cx W)" "\<forall>tx\<in>set q. call_blind W tx"
    and "record_parent (ap_cx W) p (building_block latest p A) = (Inr True, s0)"
    and "apply_queue W q (s0\<lparr>bk_bloom := bloom\<rparr>) = (Inr [], s1)"
    and "same_view (building_block latest p A\<lparr>bk_bloom := bloom\<rparr>) w"
  obtains t1 where
    "readable W h (bk_transactions s1) \<Longrightarrow> bnd (commit_parent (ap_cx W) p) (\<lambda>reason. if reason \<noteq> None then ret reason
       else bnd (apply_list W h (map (transaction_hash_of W) (bk_transactions s1))) (\<lambda>reason.
         if reason \<noteq> None then ret reason else m)) w = m t1"
    "same_view s1 t1" "bk_chain_id s1 = 0" "bk_height s1 = sb_height p + 1"
    "length (bk_receipts s1) = length (bk_transactions s1)" "\<forall>r\<in>set (bk_receipts s1). data_fee r = 0"
    "has_accounts N s0 \<Longrightarrow> has_accounts N s1"
proof -
  have "record_parent (ap_cx W) p (building_block latest p A\<lparr>bk_bloom := bloom\<rparr>) = (Inr True, s0\<lparr>bk_bloom := bloom\<rparr>)"
    using bloom_free_record assms(3) by (simp add: bloom_free_def)
  from record_commits [OF this assms(5)] obtain t0 where t0: "commit_parent (ap_cx W) p w = (Inr None, t0)"
    "same_view (s0\<lparr>bk_bloom := bloom\<rparr>) t0" .
  have "recorded s0 = recorded (building_block latest p A)"
    using record_law.lawful_record assms(3) unfolding lawful_def same_record_def by (metis snd_conv)
  then have start: "bk_chain_id s0 = 0" "bk_height s0 = sb_height p + 1" "bk_transactions s0 = []" "bk_receipts s0 = []"
    by (simp_all add: recorded_def building_block_def)
  have same: "has_accounts N (s0\<lparr>bk_bloom := bloom\<rparr>) = has_accounts N s0" by (simp add: has_accounts_def cached_def)
  from queue_replays [OF calls assms(4) t0(2), of h N] obtain t1 rs where
    t1: "readable W h (signed_ones W q) \<longrightarrow> apply_list W h (map (transaction_hash_of W) (signed_ones W q)) t0 = (Inr None, t1)"
      "same_view s1 t1" "length rs = length (signed_ones W q)" "\<forall>r\<in>set rs. data_fee r = 0"
    and s1: "bk_transactions s1 = bk_transactions (s0\<lparr>bk_bloom := bloom\<rparr>) @ signed_ones W q"
      "bk_receipts s1 = bk_receipts (s0\<lparr>bk_bloom := bloom\<rparr>) @ rs"
      "has_accounts N (s0\<lparr>bk_bloom := bloom\<rparr>) \<longrightarrow> has_accounts N s1"
      "bk_chain_id s1 = bk_chain_id (s0\<lparr>bk_bloom := bloom\<rparr>)" "bk_height s1 = bk_height (s0\<lparr>bk_bloom := bloom\<rparr>)"
    by blast
  have lists: "bk_transactions s1 = signed_ones W q" "bk_receipts s1 = rs" using s1(1,2) start by simp_all
  show ?thesis
    by (rule that [of t1]) (use t0(1) t1 s1(3-5) lists start same in \<open>simp_all add: bnd_def\<close>)
qed

lemma accounts_of_built:
  assumes calls: "unscoped (ap_cx W)" "\<forall>tx\<in>set q. call_blind W tx"
    and "current_validator (ap_cx W) F rng latest tm = Inr (k, drawn)"
    and "get_account (ap_cx W) STORAGE_ADDRESS (bk_accounts drawn) = (Inr (Some x), t)"
    and s0: "record_parent (ap_cx W) p (building_block latest p (bk_accounts drawn)) = (Inr True, s0)"
    and "apply_queue W q (s0\<lparr>bk_bloom := bloom\<rparr>) = (Inr [], s1)"
  shows "bk_chain_id s1 = 0" "bk_height s1 = sb_height p + 1"
    "cached s1 STORAGE_ADDRESS \<noteq> None" "cached s1 TREASURY_ADDRESS \<noteq> None"
proof -
  let ?N = "{STORAGE_ADDRESS, TREASURY_ADDRESS}"
  from draws_treasury [OF assms(3)]
  have "has_accounts {TREASURY_ADDRESS} (building_block latest p (bk_accounts drawn))"
    by (simp add: has_accounts_def cached_def building_block_def)
  from lawful_has [OF cached_law.lawful_record, unfolded hoare_def, rule_format, OF this s0] record_has_storage [OF _ s0, of x t] assms(4)
  have "has_accounts ?N s0" by (simp add: has_accounts_def building_block_def)
  moreover have "bk_chain_id s1 = 0 \<and> bk_height s1 = sb_height p + 1 \<and> (has_accounts ?N s0 \<longrightarrow> has_accounts ?N s1)"
    by (rule queue_of_built [OF calls s0 assms(6) same_view_refl, where h = "[]" and m = "ret None" and N = ?N]) simp
  ultimately show "bk_chain_id s1 = 0" "bk_height s1 = sb_height p + 1"
    "cached s1 STORAGE_ADDRESS \<noteq> None" "cached s1 TREASURY_ADDRESS \<noteq> None"
    by (simp_all add: has_accounts_def)
qed

lemma replay_of_built:
  assumes calls: "unscoped (ap_cx W)" "\<forall>tx\<in>set q. call_blind W tx"
    and hash: "\<forall>x. cx_hash (ap_cx W) x \<noteq> []"
    and "record_parent (ap_cx W) p (building_block latest p A) = (Inr True, s0)"
    and "apply_queue W q (s0\<lparr>bk_bloom := bloom\<rparr>) = (Inr [], s1)"
    and close: "close_block (ap_cx W) p k drawn s1 = (Inr (stats, hs, Some r), s)"
      "cached s1 STORAGE_ADDRESS \<noteq> None" "cached s1 TREASURY_ADDRESS \<noteq> None" "cached s k \<noteq> None" "k \<noteq> []" "k \<noteq> TREASURY_ADDRESS"
    and view: "same_view (building_block latest p A\<lparr>bk_bloom := bloom\<rparr>) w"
    and readable: "readable W (sb_expr_id b) (bk_transactions s1)" and key: "sb_validator b = k"
  obtains t1 B rt B' y where
    "replay W b p hs w = (Inr None, t1\<lparr>bk_accounts := B\<rparr>)" "same_view s1 t1"
    "length (bk_receipts s1) = length (bk_transactions s1)" "\<forall>r\<in>set (bk_receipts s1). data_fee r = 0"
    "update_trie (ap_cx W) B = (Inr rt, B')" "r = or_zero32 rt" "map_of (as_cache B') TREASURY_ADDRESS = Some y"
    "stats = update_statistics (bk_height s1) (Some (sb_statistics p)) (fee_income (bk_receipts s1), ac_balance y, bk_claims s1)"
    "hs = map (transaction_hash_of W) (bk_transactions s1)"
proof -
  let ?pay = "bnd (reward_validator (ap_cx W) k) (\<lambda>_. ret None)"
  obtain t1 where
    t1: "replay W b p (map (transaction_hash_of W) (bk_transactions s1)) w = ?pay t1"
      "same_view s1 t1" "length (bk_receipts s1) = length (bk_transactions s1)" "\<forall>r\<in>set (bk_receipts s1). data_fee r = 0"
    unfolding replay_def key
    by (rule queue_of_built [OF calls assms(4,5) view, where h = "sb_expr_id b" and m = ?pay]) (use readable in blast)
  from close_replays [OF close t1(2)] obtain B rt B' y where
    B: "reward_validator (ap_cx W) k t1 = (Inr (), t1\<lparr>bk_accounts := B\<rparr>)" "update_trie (ap_cx W) B = (Inr rt, B')" "r = or_zero32 rt"
    "map_of (as_cache B') TREASURY_ADDRESS = Some y"
    "stats = update_statistics (bk_height s1) (Some (sb_statistics p)) (fee_income (bk_receipts s1), ac_balance y, bk_claims s1)"
    "hs = transaction_hashes (cx_hash (ap_cx W)) s1" .
  have hs: "hs = map (transaction_hash_of W) (bk_transactions s1)"
    unfolding B(6) transaction_hashes_def using hash_some [OF hash] by (simp add: transaction_hash_of_def [abs_def])
  show ?thesis by (rule that [OF _ t1(2-4) B(2-5) hs]) (simp add: hs t1(1) bnd_def B(1))
qed

text \<open>
  C6: a block that a validator builds is accepted. A round of the worker ended with a block; every transaction
  of its queue was applied without an exception, the trie of the accounts was written, the account of the
  validator was read and is not the treasury. The contracts that the queue calls, if it calls any, see
  neither the time and the difficulty of their block, which the builder has not set when it runs them, nor
  its hash or the cells that wait; transactions of every other code need no such condition. Storage gives
  the same cell for a hash whatever block asks, and serves the cells of this block. Then the verification
  that replays the transactions accepts the block, and its header passes the checks against the parent on
  chain 0, the only chain the worker builds for, and on no other.
\<close>

theorem built_block_accepted:
  assumes build: "build_block W rng vn now fuel latest q = Inr (Built b s [] True)"
    and calls: "unscoped (ap_cx W)" "\<forall>tx\<in>set q. call_blind W tx"
    and hash: "\<forall>x. cx_hash (ap_cx W) x \<noteq> []"
    and sign: "\<forall>m. vn_sign vn m \<noteq> [] \<and> ap_verify W (vn_key vn) m (vn_sign vn m)"
    and parent: "get_block_from_storage (ap_cx W) latest = Inr p" "latest \<noteq> []" "latest \<noteq> ZERO32"
      "0 \<le> sb_height p" "sb_bloom_hash p \<noteq> []" "sb_accounts_hash p \<noteq> []"
    and drawn: "current_validator (ap_cx W) (ap_bloom W) rng latest (sb_timestamp b) = Inr (vn_key vn, drawn)"
      "get_account (ap_cx W) STORAGE_ADDRESS (bk_accounts drawn) = (Inr (Some x), t)"
    and paid: "vn_key vn \<noteq> TREASURY_ADDRESS" "cached s (vn_key vn) \<noteq> None" and trie: "sb_accounts_hash b \<noteq> ZERO32"
    and served: "block_served W b s"
  shows "(verify_block_head chain (ap_verify W) (Some p) b \<longleftrightarrow> chain = 0)
     \<and> verify_block_transactions W rng (Some p) b = Inr None"
proof -
  let ?cx = "ap_cx W" and ?H = "cx_hash (ap_cx W)" and ?k = "vn_key vn"
  from build_block_Built [OF build] obtain p' bt drawn' s0 bloom s1 stats hs new_root n where
    k: "?k \<noteq> []" and p': "get_block_with_bloom ?cx (ap_bloom W) latest = Inr (p', bt)"
    and time: "sb_timestamp p' + 2 \<le> sb_timestamp b"
    and drawn': "current_validator ?cx (ap_bloom W) rng latest (sb_timestamp b) = Inr (?k, drawn')"
    and s0: "record_parent ?cx p' (building_block latest p' (bk_accounts drawn')) = (Inr True, s0)"
    and bloom: "building_tree (ap_bloom W) p' = Inr bloom"
    and queue: "apply_queue W q (s0\<lparr>bk_bloom := bloom\<rparr>) = (Inr [], s1)"
    and close: "close_block ?cx p' ?k (bk_pending drawn') s1 = (Inr (stats, hs, new_root), s)"
    and b: "b = sealed ?H (vn_sign vn) (built_header ?H p' latest ?k (sb_timestamp b) s stats hs new_root) n"
    and zeros: "max 1 (sb_validation_difficulty p') \<le> int (count_leading_zero_bits (sb_expr_id b))"
    and wrote: "True = (new_root \<noteq> None)" .
  have p: "p' = p" using p' parent(1) by (auto simp: get_block_with_bloom_def bind_exc_eq_Inr)
  have drawn_eq: "drawn' = drawn" using drawn(1) drawn' by simp
  obtain r where r: "new_root = Some r" using wrote by auto
  note b = b [unfolded p r]
  note head = built_fields [OF b parent(2) k hash]
  let ?w = "work_block b p (bk_accounts drawn) bloom"
  note s0 = s0 [unfolded p drawn_eq] and close = close [unfolded p drawn_eq r]
  note place = accounts_of_built [OF calls drawn s0 queue]
  from close_replays [OF close place(3,4) paid(2) k paid(1) same_view_refl]
  have eq: "s = s1\<lparr>bk_accounts := bk_accounts s, bk_pending := bk_pending s, bk_bloom := rewrite_root (bk_bloom s1)\<rparr>" by blast
  have lists: "bk_transactions s = bk_transactions s1" "bk_receipts s = bk_receipts s1" "bk_chain_id s = bk_chain_id s1"
    "bk_height s = bk_height s1"
    by (subst eq, simp)+
  from served have readable: "readable W (sb_expr_id b) (bk_transactions s1)" by (simp add: block_served_def lists)
  have view: "same_view (building_block latest p (bk_accounts drawn)\<lparr>bk_bloom := bloom\<rparr>) ?w"
    by (rule same_viewI) (simp_all add: building_block_def work_block_def head(1-3) lists place)
  obtain t1 B rt B' y where replayed: "replay W b p hs ?w = (Inr None, t1\<lparr>bk_accounts := B\<rparr>)" and t1: "same_view s1 t1"
    "length (bk_receipts s1) = length (bk_transactions s1)" "\<forall>r\<in>set (bk_receipts s1). data_fee r = 0"
    and B: "update_trie ?cx B = (Inr rt, B')" "r = or_zero32 rt" "map_of (as_cache B') TREASURY_ADDRESS = Some y"
    "stats = update_statistics (bk_height s1) (Some (sb_statistics p)) (fee_income (bk_receipts s1), ac_balance y, bk_claims s1)"
    and hs: "hs = map (transaction_hash_of W) (bk_transactions s1)"
    by (rule replay_of_built [OF calls hash s0 queue close place(3,4) paid(2) k paid(1) view readable head(12)])
  obtain R where R: "tree_ready ?cx R (new_radix_tree (Some (sb_receipts_hash b)) (Some (sb_expr_id b)))"
      "\<forall>r\<in>set (bk_receipts s). \<exists>e. fst (stored_value ?cx R (transaction_hash r)) = Some e
           \<and> receipt_from_storage ?cx (Some (sb_expr_id b)) (expr_hash ?H e) = Inr r"
    and listed: "load_hash_list ?cx (sb_expr_id b) (sb_transactions_hash b) = Inr (Some hs)"
    using served unfolding block_served_def hs lists by blast
  have out: "outcome_checks ?cx b p (length hs) (t1\<lparr>bk_accounts := B\<rparr>) = Inr None"
    using outcome_of_built [OF b hash parent(2) k _ t1(1) eq B _ _ R] trie t1(2,3) by (simp add: head lists hs)
  have "era_tree (ap_bloom W) b p = Inr bloom"
    using same_era [OF parent(4,5)] bloom p by (simp add: head lists place)
  then have "verify_block_transactions W rng (Some p) b = Inr None"
    using replayed parent(2,3,6) listed drawn(1) linked_hash [OF hash, of hs] out
    by (simp add: verify_block_transactions_def Let_def head(3,7,12) bind_exc_def)
  moreover have "verify_block_head chain (ap_verify W) (Some p) b \<longleftrightarrow> chain = 0"
    by (rule built_head [OF b hash parent(2,3) k]) (use sign lists place time zeros p in simp_all)
  ultimately show ?thesis by simp
qed

section \<open>A round of the worker\<close>

lemma demo_hash: "\<forall>x. mixed_hash x \<noteq> []"
proof
  show "mixed_hash x \<noteq> []" for x by (cases x rule: mixed_hash.cases) simp_all
qed

lemma demo_cx: "cx_hash (ap_cx built_node) = mixed_hash" "ap_bloom built_node = None" "ap_verify built_node k m y"
  "ap_run built_node tx e = ret (True, 0, [])"
  by (simp_all add: built_node_def demo_node_def demo_apply_def)

lemma demo_unscoped: "unscoped (ap_cx built_node)"
  by (simp add: unscoped_def built_node_def)

lemma demo_record:
  "record_parent (ap_cx built_node) built_parent (building_block [9] built_parent drawn_accounts)
     = (Inr True, building_block [9] built_parent ready_accounts)"
proof -
  let ?s = "building_block [9] built_parent drawn_accounts" and ?t = "building_block [9] built_parent ready_accounts"
  let ?x = "read_from_parent 5 [217, 175]"
  have load: "load_account (ap_cx built_node) STORAGE_ADDRESS ?s = (Inr True, ?t)"
    by (simp add: load_account_def building_block_def demo_storage)
  have x: "account_of STORAGE_ADDRESS ?t = (Inr ?x, ?t)"
    by (simp add: account_of_eq cached_def building_block_def ready_accounts_def drawn_accounts_def demo_fields(11) demo_fields(11) [symmetric])
  have same: "?t\<lparr>bk_pending := bk_pending ?t\<rparr> = ?t" by (simp add: building_block_def)
  from demo_recorded obtain e b l where
    e: "tree_get (ap_cx built_node) (ac_data ?x) (expr_hash mixed_hash (block_to_expr built_parent)) = (Inr (Some e, b), l)"
    by (auto split: prod.splits sum.splits option.splits)
  then show ?thesis
    by (simp add: record_parent_def bnd_runs [where m = "load_account (ap_cx built_node) STORAGE_ADDRESS", OF load]
        bnd_runs [where m = "account_of STORAGE_ADDRESS", OF x] bnd_steps(1,3,4) generate_initial_storage_record_def
        collected_exprs_def demo_cx same)
qed

lemma demo_close:
  obtains s where
    "close_block (ap_cx built_node) built_parent [7] [] (building_block [9] built_parent ready_accounts)
       = (Inr (built_stats, [], Some [190, 231]), s)" "cached s [7] \<noteq> None"
    "s = (building_block [9] built_parent ready_accounts)\<lparr>bk_accounts := bk_accounts s, bk_pending := bk_pending s\<rparr>"
proof -
  let ?s = "building_block [9] built_parent ready_accounts"
  obtain q s where c: "close_block (ap_cx built_node) built_parent [7] [] ?s = (q, s)" by (rule prod.exhaust)
  have s: "close_block (ap_cx built_node) built_parent [7] [] ?s = (Inr (built_stats, [], Some [190, 231]), s)"
    "cached s [7] \<noteq> None"
    using demo_closed unfolding c by (auto split: sum.splits)
  have "cached ?s STORAGE_ADDRESS \<noteq> None" "cached ?s TREASURY_ADDRESS \<noteq> None"
    by (simp_all add: cached_def building_block_def ready_accounts_def drawn_accounts_def)
  moreover have "[7] \<noteq> TREASURY_ADDRESS" by code_simp
  ultimately have "s = ?s\<lparr>bk_accounts := bk_accounts s, bk_pending := bk_pending s, bk_bloom := rewrite_root (bk_bloom ?s)\<rparr>"
    using close_replays [OF s(1) _ _ s(2) _ _ same_view_refl] by blast
  then have "s = ?s\<lparr>bk_accounts := bk_accounts s, bk_pending := bk_pending s\<rparr>"
    by (simp add: building_block_def rewrite_root_def)
  with s show ?thesis by (rule that)
qed

lemma demo_build:
  obtains b s where "build_block built_node demo_rng demo_validator 0 50 [9] [] = Inr (Built b s [] True)"
    "cached s [7] \<noteq> None" "bk_transactions s = []" "bk_receipts s = []" "b = sealed mixed_hash (\<lambda>_. [1]) demo_header 0"
proof -
  obtain s where close: "close_block (ap_cx built_node) built_parent [7] [] (building_block [9] built_parent ready_accounts)
       = (Inr (built_stats, [], Some [190, 231]), s)" "cached s [7] \<noteq> None"
    and s: "s = (building_block [9] built_parent ready_accounts)\<lparr>bk_accounts := bk_accounts s, bk_pending := bk_pending s\<rparr>"
    by (rule demo_close)
  have fields: "bk_chain_id s = 0" "bk_height s = 1024" "bk_receipts s = []" "bk_transactions s = []"
    "bk_receipts_trie s = new_radix_tree None None" "bk_votes s = 0" "bk_loaned s = 10" "bk_defaulted s = 0"
    "bk_loan_count s = 1" "bt_root (bk_bloom s) = None"
    by (subst s, simp add: building_block_def demo_fields)+
  have header: "built_header mixed_hash built_parent [9] [7] 102 s built_stats [] (Some [190, 231]) = demo_header"
    by (simp add: built_header_def demo_header_def fields demo_fields new_radix_tree_def or_zero32_def opens_era_def ERA_SIZE_def)
  have tree: "building_tree None built_parent = Inr \<lparr>bt_root = None, bt_touched = []\<rparr>"
    by (simp add: building_tree_def opens_era_def ERA_SIZE_def demo_fields)
  have same: "(building_block [9] built_parent ready_accounts)\<lparr>bk_bloom := \<lparr>bt_root = None, bt_touched = []\<rparr>\<rparr>
      = building_block [9] built_parent ready_accounts" by (simp add: building_block_def)
  have read: "get_block_with_bloom (ap_cx built_node) None [9] = Inr (built_parent, \<lparr>bt_root = None, bt_touched = []\<rparr>)"
    by (simp add: get_block_with_bloom_def demo_parent_read bind_exc_def new_bloom_tree_def)
  have first: "sb_nonce demo_header = 0" by (simp add: demo_header_def)
  have "build_block built_node demo_rng demo_validator 0 50 [9] []
      = Inr (Built (sealed mixed_hash (\<lambda>_. [1]) demo_header 0) s [] True)"
    using demo_drawn demo_time
    by (simp add: build_block_def Let_def demo_cx read demo_validator_def demo_fields(2) demo_record [unfolded demo_cx] tree same
        bind_exc_def bnd_steps bnd_runs [where m = "close_block (ap_cx built_node) built_parent [7] []", OF close(1)] header demo_nonce first carrier_def)
  with close(2) fields show ?thesis by (intro that) simp_all
qed

lemma built_block_accepted_witness:
  "\<exists>b s. build_block built_node demo_rng demo_validator 0 50 [9] [] = Inr (Built b s [] True)
     \<and> verify_block_head 0 (ap_verify built_node) (Some built_parent) b
     \<and> verify_block_transactions built_node demo_rng (Some built_parent) b = Inr None"
proof -
  obtain b s where built: "build_block built_node demo_rng demo_validator 0 50 [9] [] = Inr (Built b s [] True)"
    and s: "cached s [7] \<noteq> None" "bk_transactions s = []" "bk_receipts s = []"
    and b: "b = sealed mixed_hash (\<lambda>_. [1]) demo_header 0" by (rule demo_build)
  have fields: "sb_timestamp b = 102" "sb_accounts_hash b = [190, 231]" "sb_transactions_hash b = ZERO32"
    "sb_receipts_hash b = ZERO32"
    by (simp_all add: b sealed_def demo_header_def Let_def)
  have served: "block_served built_node b s"
    by (auto simp: block_served_def s fields load_hash_list_def tree_ready_def holds_def new_radix_tree_def root_depth_def
        intro!: exI [of _ None])
  have key: "vn_key demo_validator = [7]" "vn_sign demo_validator = (\<lambda>_. [1])" by (simp_all add: demo_validator_def)
  have apart: "[7] \<noteq> TREASURY_ADDRESS" "[9] \<noteq> ZERO32" "[190, 231] \<noteq> ZERO32" "[34, 3] \<noteq> ([] :: bytes)" "ZERO32 \<noteq> []"
    by code_simp+
  have "(verify_block_head 0 (ap_verify built_node) (Some built_parent) b \<longleftrightarrow> (0 :: int) = 0)
      \<and> verify_block_transactions built_node demo_rng (Some built_parent) b = Inr None"
    by (rule built_block_accepted [where drawn = "carrier drawn_accounts" and x = "read_from_parent 5 [217, 175]"
          and t = ready_accounts, OF built demo_unscoped])
      (use demo_hash demo_drawn demo_storage in \<open>simp_all add: demo_cx demo_parent_read demo_fields key s apart fields served carrier_def\<close>)
  with built show ?thesis by auto
qed

end
