(* ===== verification/Block_Ops.thy ===== *)
theory Block_Ops
  imports Machine_Core Built_Accepted
begin

text \<open>
  The operators with which a contract reads the block it runs in: \<open>machine/operators/block/\<close>. The machine
  has the block that the transaction is applied to, so an operator takes it as an argument.

  A block that is being built has no time yet, and a block that is checked has the one of its header: the
  two runs of a contract that asks for the time differ.
\<close>

section \<open>The operators\<close>

text \<open>\<open>int_(value)\<close>, where the value may be \<open>None\<close>.\<close>

definition int_field :: "int option \<Rightarrow> expr" where
  "int_field v = Link (map_option PInt v) None (Some (Symbol (u ''int''))) None None"

definition handle_stack_block_chain_id :: "block \<Rightarrow> unit step" where
  "handle_stack_block_chain_id b =
     seq (push (int_expr (bk_chain_id b))) (charge (length (encode_int (bk_chain_id b))))"

definition handle_stack_block_height :: "block \<Rightarrow> unit step" where
  "handle_stack_block_height b = seq (push (int_expr (bk_height b))) (charge (length (encode_int (bk_height b))))"

definition handle_stack_block_previous_block_hash :: "block \<Rightarrow> unit step" where
  "handle_stack_block_previous_block_hash b =
     seq (push (Bytes (bk_previous_hash b))) (charge (length (bk_previous_hash b)))"

text \<open>The width of \<open>None\<close> is asked for after the push: \<open>AttributeError\<close>.\<close>

definition handle_stack_block_timestamp :: "block \<Rightarrow> unit step" where
  "handle_stack_block_timestamp b =
     seq (push (int_field (bk_timestamp b)))
       (case bk_timestamp b of
          None \<Rightarrow> Machine_Core.raise (PyError AttributeError)
        | Some n \<Rightarrow> charge (length (encode_int n)))"

definition block_operator :: "pystr \<Rightarrow> (block \<Rightarrow> unit step) option" where
  "block_operator name =
     (if name = u ''block.chain_id'' then Some handle_stack_block_chain_id
      else if name = u ''block.height'' then Some handle_stack_block_height
      else if name = u ''block.previous_block_hash'' then Some handle_stack_block_previous_block_hash
      else if name = u ''block.timestamp'' then Some handle_stack_block_timestamp
      else None)"

lemma operator_names:
  "block_operator (u ''block.chain_id'') = Some handle_stack_block_chain_id"
  "block_operator (u ''block.height'') = Some handle_stack_block_height"
  "block_operator (u ''block.previous_block_hash'') = Some handle_stack_block_previous_block_hash"
  "block_operator (u ''block.timestamp'') = Some handle_stack_block_timestamp"
  by (simp_all add: block_operator_def u_def)

section \<open>What a contract sees\<close>

lemma int_field_Some [simp]: "int_field (Some n) = int_expr n"
  by (simp add: int_field_def int_expr_def)

lemma no_time_raises:
  "bk_timestamp s = None \<Longrightarrow> handle_stack_block_timestamp s m =
     Some (Inl (PyError AttributeError), m\<lparr>stack := Some (int_field None) # stack m\<rparr>)"
  by (simp add: handle_stack_block_timestamp_def bind_def push_def push_raw_def Machine_Core.raise_def)

lemma place_of_queue:
  assumes "\<forall>tx. run_lawful W same_record tx"
    and "record_parent (ap_cx W) p s = (r0, s0)" "apply_queue W q (s0\<lparr>bk_bloom := bloom\<rparr>) = (r, s')"
  shows "place s' = place s"
  using staysD [OF stays_record assms(2)] staysD [OF stays_queue assms(3)] assms(1) by (simp add: place_def)

lemma place_of_list:
  assumes "\<forall>tx. run_lawful W same_record tx"
    and "commit_parent (ap_cx W) p s = (r0, s0)" "apply_list W h hs s0 = (r, s')"
  shows "place s' = place s"
  using staysD [OF stays_commit assms(2)] staysD [OF stays_list [OF assms(1)] assms(3)] by simp

text \<open>
  C17: a contract that reads the time of its block runs differently for the builder and for the verifier. At
  every point of the builder's queue, after any transactions that were applied or raised, \<open>block.timestamp\<close>
  raises \<open>AttributeError\<close>, which only a nested transaction catches; at every point of the replay it pushes
  the time in the header and charges for it. The other three operators agree between the two, for a header
  that carries what the builder had. Calls are assumed to keep what the block records.
\<close>

theorem block_time_differs:
  assumes "\<forall>tx. run_lawful W same_record tx"
    and "record_parent (ap_cx W) p (building_block latest p A) = (Inr True, s0)"
    and "apply_queue W q (s0\<lparr>bk_bloom := bloom\<rparr>) = (r, s)"
    and "commit_parent (ap_cx W) p (work_block b p A' bloom') = (Inr None, t0)"
    and "apply_list W (sb_expr_id b) hs t0 = (r', t)"
    and "sb_chain_id b = 0" "sb_height b = sb_height p + 1" "or_zeros (sb_previous_hash b) = or_zeros latest"
  shows "map_option (\<lambda>f. f s m) (block_operator (u ''block.timestamp''))
       = Some (Some (Inl (PyError AttributeError), m\<lparr>stack := Some (int_field None) # stack m\<rparr>))
     \<and> map_option (\<lambda>f. f t) (block_operator (u ''block.timestamp''))
       = Some (seq (push (int_expr (sb_timestamp b))) (charge (length (encode_int (sb_timestamp b)))))
     \<and> (\<forall>name\<in>{u ''block.chain_id'', u ''block.height'', u ''block.previous_block_hash''}.
          \<exists>f. block_operator name = Some f \<and> f s = f t)"
proof -
  have s: "place s = (0, sb_height p + 1, None, or_zeros latest)"
    using place_of_queue [OF assms(1-3)] by (simp add: place_def building_block_def)
  have t: "place t = (0, sb_height p + 1, Some (sb_timestamp b), or_zeros latest)"
    using place_of_list [OF assms(1,4,5)] assms(6-8) by (simp add: place_def work_block_def)
  from s t show ?thesis
    using no_time_raises [of s m]
    by (simp add: place_def operator_names handle_stack_block_timestamp_def [of t] handle_stack_block_chain_id_def
        handle_stack_block_height_def handle_stack_block_previous_block_hash_def)
qed

definition built_next :: stored_block where
  "built_next = built_parent\<lparr>sb_chain_id := 0, sb_height := 1024, sb_previous_hash := [9], sb_timestamp := 102\<rparr>"

lemma block_time_differs_witness:
  "\<forall>m. \<exists>s t. map_option (\<lambda>f. f s m) (block_operator (u ''block.timestamp''))
       = Some (Some (Inl (PyError AttributeError), m\<lparr>stack := Some (int_field None) # stack m\<rparr>))
     \<and> map_option (\<lambda>f. f t) (block_operator (u ''block.timestamp''))
       = Some (seq (push (int_expr 102)) (charge (length (encode_int 102))))"
proof
  fix m
  let ?bloom = "\<lparr>bt_root = None, bt_touched = []\<rparr>"
  let ?s = "building_block [9] built_parent ready_accounts"
  have fields: "sb_chain_id built_next = 0" "sb_height built_next = sb_height built_parent + 1"
    "or_zeros (sb_previous_hash built_next) = or_zeros [9]" "sb_timestamp built_next = 102"
    by (simp_all add: built_next_def demo_fields)
  have runs: "\<forall>tx. run_lawful built_node same_record tx"
    by (simp add: run_lawful_def demo_cx record_law.lawful_basic)
  have view: "same_view (building_block [9] built_parent drawn_accounts) (work_block built_next built_parent drawn_accounts ?bloom)"
    by (rule same_viewI) (simp_all add: building_block_def work_block_def fields(1-3))
  from record_commits [OF demo_record view] obtain t0 where
    t0: "commit_parent (ap_cx built_node) built_parent (work_block built_next built_parent drawn_accounts ?bloom) = (Inr None, t0)" .
  have queue: "apply_queue built_node [] (?s\<lparr>bk_bloom := ?bloom\<rparr>) = (Inr [], ?s\<lparr>bk_bloom := ?bloom\<rparr>)"
    by (simp add: Ledger.ret_def)
  have replay: "apply_list built_node (sb_expr_id built_next) [] t0 = (Inr None, t0)" by (simp add: Ledger.ret_def)
  from block_time_differs [OF runs demo_record queue t0 replay fields(1-3), of m]
  show "\<exists>s t. map_option (\<lambda>f. f s m) (block_operator (u ''block.timestamp''))
       = Some (Some (Inl (PyError AttributeError), m\<lparr>stack := Some (int_field None) # stack m\<rparr>))
     \<and> map_option (\<lambda>f. f t) (block_operator (u ''block.timestamp''))
       = Some (seq (push (int_expr 102)) (charge (length (encode_int 102))))"
    unfolding fields(4) by blast
qed

end
