(* ===== verification/Spec2Isabelle.thy ===== *)
theory Spec2Isabelle
  imports Shape Radix_All Machine_Safety Channels Block_Ops
begin

text \<open>
  A model of the core of the Astreum library for Python (\<open>src/astreum/\<close>), with the theorems that
  make it correct.

  \<^bold>\<open>The program.\<close> Everything the chain stores is an expr, a cell with a head and a tail that is named by
  the hash of its wire form (\<open>expression/\<close>). Maps from keys to values, such as the accounts and the
  bindings of an environment, are binary radix trees whose nodes are exprs (\<open>storage/radix/\<close>).
  Contracts are exprs as well, run by a metered stack machine (\<open>machine/\<close>). Blocks and transactions
  (\<open>consensus/\<close>) update the trees.

  \<^bold>\<open>The theories.\<close>

  \<^item> \<open>Astreum_Prelude\<close>: bytes, text, Python exceptions, little and big endian integers.
  \<^item> \<open>Expr\<close>, \<open>Shape\<close>, \<open>Expr_Lists\<close>: cells, their hash and wire form (\<open>expression/expr.py\<close>,
    \<open>helpers.py\<close>, \<open>encoding/\<close>), the shape language (\<open>shape.py\<close>), lists and refs (\<open>refs.py\<close>,
    \<open>storage/pointers.py\<close>).
  \<^item> \<open>Radix_Bits\<close>, \<open>Radix_Node\<close>, \<open>Radix_Tree\<close>, \<open>Radix_Put\<close>, \<open>Radix_All\<close>: the radix tree, its reads,
    its write and the reading of all entries. \<open>Radix_Put_Proof\<close> and \<open>Radix_Laws\<close> prove that it
    refines a map from keys to values, which is the locale \<open>key_map\<close>.
  \<^item> \<open>Machine_Core\<close>, \<open>Machine_Ops\<close>, \<open>Machine_Eval\<close>: the meter, environments, operators and the
    evaluator. \<open>Machine_Laws\<close> proves once, in the locale \<open>machine_relation\<close>, that a relation that holds
    for the basic changes holds for every run; \<open>Machine_Safety\<close> interprets it for the meter and for
    the environments.
  \<^item> \<open>Merkle\<close>: the tree over the values of a storage record (\<open>crypto/merkle.py\<close>), its proofs are
    complete and sound.
  \<^item> \<open>Bloom\<close>, \<open>Bloom_Tree\<close>: filters in tiers and the search tree of an era of 1024 blocks
    (\<open>crypto/bloom_filter/\<close>, \<open>bloom_tree/\<close>, \<open>bloom_search/\<close>): what was inserted is found.
  \<^item> \<open>Block_Fees\<close>, \<open>Floats64\<close>, \<open>Block_Rate\<close>, \<open>Work\<close>, \<open>Storage_Difficulty\<close>: settlement of fees, the
    statistics of a chain, rates, and the work that blocks, messages and storage claims need.
  \<^item> \<open>Accounts\<close>, \<open>Ledger\<close>: accounts and their cache (\<open>consensus/models/accounts.py\<close>), transactions and
    the block that they change, as actions that return or raise. \<open>Ledger_Laws\<close> gives triples over
    actions and what each does to the sum of all balances.
  \<^item> \<open>Channels\<close>: payment channels (\<open>consensus/transaction/channel/\<close>).
  \<^item> \<open>Storage_Walk\<close>, \<open>Storage_Payment\<close>, \<open>Transaction_Store\<close>: the walks that price cells, the storage
    contracts and their records (\<open>consensus/transaction/storage/\<close>), transactions and receipts in storage.
  \<^item> \<open>Treasury_Records\<close>, \<open>Treasury\<close>, \<open>Treasury_Laws\<close>: loans, guarantees and their handlers
    (\<open>consensus/transaction/treasury/\<close>) and what they do to the balances.
  \<^item> \<open>Apply\<close>: the application of a transaction to a block (\<open>consensus/transaction/apply.py\<close>), with the
    expression accounts and the pending bloom inserts. \<open>Act_Laws\<close> proves once, in the locale
    \<open>act_law\<close>, that a relation that holds for the basic changes holds for every handler, and interprets
    it for the trie, the records of the block and the counters; \<open>Apply_Laws\<close> proves what an application
    does to the sum of all balances, \<open>Apply_Once\<close> that a transaction succeeds at most once.
  \<^item> \<open>Block_Codec\<close>, \<open>Validators\<close>, \<open>Block_Verify\<close>: the cells of a block (\<open>consensus/block/encoding/\<close>), the
    draw of its validator (\<open>consensus/validation/validator.py\<close>) and its verification
    (\<open>consensus/block/verify/\<close>), which draws the validator, applies the transactions and compares the
    outcome with the header. The draw gives each key the interval of its stake. \<open>Block_Supply\<close> proves what
    an accepted block does to the sum of all balances, and that its validator gets the fees; it rests on
    the laws of the draw and of the application of each transaction.
  \<^item> \<open>Forks\<close>: the heads that peers announce, the marks of how far down each is verified, their bytes, and
    the worker that scans, verifies, merges and selects (\<open>consensus/fork/\<close>, \<open>consensus/verification/\<close>), as
    a step relation: the head that is selected is verified, and which one it is does not depend on the
    order of the forks.
  \<^item> \<open>Block_Build\<close>: a round of the worker that builds blocks (\<open>consensus/validation/worker.py\<close>): it draws the
    validator, records the parent, applies the queue, pays the fees and the reward, writes the tries, seals
    the header with a nonce and adopts the block. The block it builds has no time and no difficulty while
    its transactions are applied; the block of the verification has those of the header. \<open>Lockstep\<close>
    relates two runs of the same actions on blocks that differ only in these two, in their own hash and in
    the cells that wait, \<open>Built_Laws\<close> and \<open>Place_Laws\<close> hold what the application of the queue keeps, and
    \<open>Built_Accepted\<close> proves with them that a block which a validator builds passes
    \<open>verify_block_transactions\<close>, and \<open>verify_block_head\<close> exactly on chain 0 (no node has the attribute the
    worker reads its chain from). It asks that the whole queue was applied, that the trie of accounts was
    written, that the account of the validator was read and is not the treasury, that the contracts
    which the queue calls, if any, do not see where the two blocks differ (\<open>call_blind\<close>), and that storage
    serves the cells of the block (\<open>block_served\<close>). \<open>Built_Demo\<close> evaluates such a round on a concrete node.
  \<^item> \<open>Block_Ops\<close>: the operators with which a contract reads its block (\<open>machine/operators/block/\<close>), and the
    proof that the condition on contracts is needed: \<open>block.timestamp\<close> raises at every point of the
    builder's queue and gives the time of the header at every point of the replay, while the other three
    agree.

  \<^bold>\<open>Bounds and fuel.\<close> Python integers are \<open>int\<close>, bytes are lists of 8-bit words, text is a list of code
  points. A loop that depends on stored data takes fuel, and \<open>None\<close> is fuel that ran out; the
  theorems on lookups, writes and walks state how much is enough. The evaluator may run forever, so
  the theorems on it hold for every fuel.

  \<^bold>\<open>Parameters.\<close> The hash function (BLAKE3), the check of signatures, the generator of random numbers, the
  storage readers, the arithmetic of floats and the operators
  that reach the accounts, actors, the console or the clock are arguments of the model.

  \<^bold>\<open>Not modelled.\<close> Threads, sockets, files and logging; the float codecs; sealing of cells; the
  communication package.
\<close>

end
